(* ===== verification/Bank_Prelude.thy ===== *)
theory Bank_Prelude
  imports Main "HOL-Library.Word"
begin

text \<open>
  Shared vocabulary of the development: the machine integers of the code, byte buffers,
  undefined behaviour as a value, byte-order conversions, and two interfaces (locales)
  that several components implement: a block-buffered hash context
  (\<open>block_stream\<close>) and an exclusive-or key stream (\<open>key_stream\<close>).
\<close>

unbundle bit_operations_syntax

section \<open>Machine types, buffers and faults\<close>

type_synonym u8 = "8 word"
type_synonym u16 = "16 word"
type_synonym u32 = "32 word"
type_synonym u64 = "64 word"
type_synonym bytes = "u8 list"

text \<open>
  A pointer argument that the code compares with NULL is an option: None is NULL and
  Some xs the bytes it points to, the length argument being the length of xs. An output
  pointer that the code compares with NULL is a boolean, True when it is not NULL; what
  the code writes through it is part of the result.
\<close>

type_synonym ptr = "bytes option"
type_synonym outp = bool

text \<open>
  What the C++ standard leaves undefined is an error value of the model, so that no
  theorem can rest on an arbitrary outcome of it.
\<close>

datatype fault = Buffer_Overflow | Bad_Shift | Null_Deref | Int_Overflow

type_synonym 'a run = "fault + 'a"

named_theorems layout \<open>lengths and positions of encoded buffers\<close>

section \<open>Lists as arrays\<close>

text \<open>memcpy of src to dst + off, inside the bounds of dst\<close>

definition blit :: "'a list \<Rightarrow> nat \<Rightarrow> 'a list \<Rightarrow> 'a list" where
  "blit dst off src = take off dst @ src @ drop (off + length src) dst"

lemma length_blit [layout, simp]:
  "off + length src \<le> length dst \<Longrightarrow> length (blit dst off src) = length dst"
  by (simp add: blit_def)

lemma blit_whole: "length src = length dst \<Longrightarrow> blit dst 0 src = src"
  by (simp add: blit_def)

definition xor_bytes :: "bytes \<Rightarrow> bytes \<Rightarrow> bytes" where
  "xor_bytes xs ys = map2 (XOR) xs ys"

lemma length_xor_bytes [layout, simp]:
  "length (xor_bytes xs ys) = min (length xs) (length ys)"
  by (simp add: xor_bytes_def)

lemma nth_xor_bytes [simp]:
  "i < length xs \<Longrightarrow> i < length ys \<Longrightarrow> xor_bytes xs ys ! i = xs ! i XOR ys ! i"
  by (simp add: xor_bytes_def)

lemma xor_bytes_Nil [simp]: "xor_bytes [] ys = []" "xor_bytes xs [] = []"
  by (simp_all add: xor_bytes_def)

lemma xor_swap: "(a XOR b) XOR c = (a XOR c) XOR (b::u8)"
  by (simp only: xor.assoc xor.commute [of b c])

lemma xor_bytes_take: "take n (xor_bytes xs ys) = xor_bytes (take n xs) (take n ys)"
  by (simp add: xor_bytes_def take_map take_zip)

lemma xor_bytes_drop: "drop n (xor_bytes xs ys) = xor_bytes (drop n xs) (drop n ys)"
  by (simp add: xor_bytes_def drop_map drop_zip)

lemma xor_bytes_twice:
  "length xs \<le> length ys \<Longrightarrow> xor_bytes (xor_bytes xs ys) ys = xs"
  by (rule nth_equalityI) (simp_all add: xor.assoc)

lemma xor_bytes_commute: "xor_bytes xs ys = xor_bytes ys xs"
  by (rule nth_equalityI) (simp_all add: min.commute xor.commute)

lemma xor_bytes_inject:
  assumes "length xs = length zs" "length ys = length zs"
    and "xor_bytes xs zs = xor_bytes ys zs"
  shows "xs = ys"
  using assms by (metis order.refl xor_bytes_twice)

text \<open>consecutive pieces of n bytes, the last one possibly shorter\<close>

function (sequential) chunks :: "nat \<Rightarrow> 'a list \<Rightarrow> 'a list list" where
  "chunks n xs = (if n = 0 \<or> xs = [] then [] else take n xs # chunks n (drop n xs))"
  by pat_completeness auto
termination
  by (relation "measure (\<lambda>(n, xs). length xs)") auto

declare chunks.simps [simp del]

lemma chunks_Nil [simp]: "chunks n [] = []"
  by (subst chunks.simps) simp

lemma chunks_cons:
  "0 < n \<Longrightarrow> length x = n \<Longrightarrow> chunks n (x @ xs) = x # chunks n xs"
  by (subst chunks.simps) auto

lemma chunks_single: "0 < n \<Longrightarrow> length x = n \<Longrightarrow> chunks n x = [x]"
  using chunks_cons [of n x "[]"] by simp

lemma chunks_append:
  "0 < n \<Longrightarrow> n dvd length xs \<Longrightarrow> chunks n (xs @ ys) = chunks n xs @ chunks n ys"
proof (induction n xs rule: chunks.induct)
  case (1 n xs)
  show ?case
  proof (cases "xs = []")
    case False
    with "1.prems" have le: "n \<le> length xs" by (auto dest: dvd_imp_le)
    have "n dvd length (drop n xs)" using "1.prems" by (simp add: dvd_diff_nat)
    with False "1.prems" "1.IH"
    have "chunks n (drop n xs @ ys) = chunks n (drop n xs) @ chunks n ys" by simp
    moreover have "chunks n (xs @ ys) = take n xs # chunks n (drop n xs @ ys)"
      using le "1.prems"(1) chunks_cons [of n "take n xs" "drop n xs @ ys"]
      by (metis append.assoc append_take_drop_id length_take min.absorb2)
    moreover have "chunks n xs = take n xs # chunks n (drop n xs)"
      using False "1.prems"(1) by (subst chunks.simps) simp
    ultimately show ?thesis by simp
  qed simp
qed

text \<open>the length of block i when n bytes are cut into blocks of 16\<close>

lemma last_block_16:
  assumes "i < (n + 15) div (16::nat)"
  shows "(if i = (n + 15) div 16 - 1 \<and> 0 < n mod 16 then n mod 16 else 16) = min 16 (n - i * 16)"
    and "i * 16 < n"
proof -
  define q r where "q = n div 16" and "r = n mod 16"
  have n: "n = q * 16 + r" "r < 16" by (simp_all add: q_def r_def)
  have b: "(n + 15) div 16 = (if r = 0 then q else Suc q)"
  proof (cases "r = 0")
    case False
    then have "n + 15 = (r - 1) + Suc q * 16" using n by simp
    then have "(n + 15) div 16 = Suc q + (r - 1) div 16" by (metis div_mult_self1 zero_neq_numeral add.commute)
    then show ?thesis using False n(2) by simp
  qed (simp add: n)
  show "i * 16 < n" using assms n unfolding b by (auto split: if_splits)
  show "(if i = (n + 15) div 16 - 1 \<and> 0 < n mod 16 then n mod 16 else 16) = min 16 (n - i * 16)"
  proof (cases "i < q")
    case True
    then have "Suc i * 16 \<le> q * 16" by (intro mult_le_mono1) simp
    then have "16 \<le> n - i * 16" using n by simp
    moreover have "\<not> (i = (n + 15) div 16 - 1 \<and> 0 < n mod 16)" using True unfolding b r_def [symmetric] by auto
    ultimately show ?thesis by (simp only: if_False min_absorb1)
  next
    case False
    then have "i = q" "0 < r" using assms unfolding b by (auto split: if_splits)
    moreover from this have "n - i * 16 = r" using n by simp
    ultimately show ?thesis using n(2) unfolding b r_def [symmetric] by simp
  qed
qed

section \<open>Byte order\<close>

definition load_be32 :: "bytes \<Rightarrow> nat \<Rightarrow> u32" where
  "load_be32 b i = push_bit 24 (ucast (b ! i)) OR push_bit 16 (ucast (b ! (i + 1)))
     OR push_bit 8 (ucast (b ! (i + 2))) OR ucast (b ! (i + 3))"

definition load_be64 :: "bytes \<Rightarrow> nat \<Rightarrow> u64" where
  "load_be64 b i = push_bit 56 (ucast (b ! i)) OR push_bit 48 (ucast (b ! (i + 1)))
     OR push_bit 40 (ucast (b ! (i + 2))) OR push_bit 32 (ucast (b ! (i + 3)))
     OR push_bit 24 (ucast (b ! (i + 4))) OR push_bit 16 (ucast (b ! (i + 5)))
     OR push_bit 8 (ucast (b ! (i + 6))) OR ucast (b ! (i + 7))"

definition load_le32 :: "bytes \<Rightarrow> nat \<Rightarrow> u32" where
  "load_le32 b i = ucast (b ! i) OR push_bit 8 (ucast (b ! (i + 1)))
     OR push_bit 16 (ucast (b ! (i + 2))) OR push_bit 24 (ucast (b ! (i + 3)))"

definition store_be32 :: "u32 \<Rightarrow> bytes" where
  "store_be32 x = [ucast (drop_bit 24 x), ucast (drop_bit 16 x), ucast (drop_bit 8 x), ucast x]"

definition store_le32 :: "u32 \<Rightarrow> bytes" where
  "store_le32 x = [ucast x, ucast (drop_bit 8 x), ucast (drop_bit 16 x), ucast (drop_bit 24 x)]"

definition store_be64 :: "u64 \<Rightarrow> bytes" where
  "store_be64 x = map (\<lambda>i. ucast (drop_bit (56 - i * 8) x)) [0..<8]"

definition store_le64 :: "u64 \<Rightarrow> bytes" where
  "store_le64 x = map (\<lambda>i. ucast (drop_bit (i * 8) x)) [0..<8]"

lemma length_store [layout, simp]:
  "length (store_be32 x) = 4" "length (store_le32 x) = 4"
  "length (store_be64 y) = 8" "length (store_le64 y) = 8"
  by (simp_all add: store_be32_def store_le32_def store_be64_def store_le64_def)

text \<open>the bit-level reading of shifts, casts and connectives, used with \<open>simp only\<close>\<close>

lemmas bit_ops = bit_or_iff bit_and_iff bit_xor_iff bit_push_bit_iff bit_unsigned_iff
  bit_drop_bit_eq possible_bit_word o_def

lemma byte_cases32:
  assumes "n < LENGTH(32)"
  obtains "n < 8" | "8 \<le> n" "n < 16" | "16 \<le> n" "n < 24" | "24 \<le> n" "n < 32"
  using assms by fastforce

lemma load_store_be32: "load_be32 (store_be32 x) 0 = x"
proof (rule bit_word_eqI)
  fix n assume "n < LENGTH(32)"
  then show "bit (load_be32 (store_be32 x) 0) n = bit x n"
    by (cases rule: byte_cases32)
       (simp_all add: load_be32_def store_be32_def, simp_all only: bit_ops, auto)
qed

lemma load_store_le32: "load_le32 (store_le32 x) 0 = x"
proof (rule bit_word_eqI)
  fix n assume "n < LENGTH(32)"
  then show "bit (load_le32 (store_le32 x) 0) n = bit x n"
    by (cases rule: byte_cases32)
       (simp_all add: load_le32_def store_le32_def, simp_all only: bit_ops, auto)
qed

text \<open>a rotation written with two shifts is the library's rotation\<close>

lemma shifts_rotr32:
  assumes n: "0 < n" "n < 32"
  shows "drop_bit n (x::u32) OR push_bit (32 - n) x = word_rotr n x"
proof (rule bit_word_eqI)
  fix i assume "i < LENGTH(32)"
  then have i: "i < 32" by simp
  show "bit (drop_bit n x OR push_bit (32 - n) x) i = bit (word_rotr n x) i"
  proof (cases "i + n < 32")
    case True
    then show ?thesis using n
      by (simp only: bit_ops bit_word_rotr_iff) (auto simp: add.commute)
  next
    case False
    then have "(i + n) mod 32 = i + n - 32" using n i by (simp add: mod_if)
    moreover have "\<not> bit x (n + i)" using False by (auto dest: bit_imp_le_length)
    ultimately show ?thesis using n i False
      by (simp only: bit_ops bit_word_rotr_iff) (auto simp: algebra_simps)
  qed
qed

lemma shifts_rotl32:
  assumes "0 < n" "n < 32"
  shows "push_bit n (x::u32) OR drop_bit (32 - n) x = word_rotl n x"
proof (rule bit_word_eqI)
  fix i assume "i < LENGTH(32)"
  then have i: "i < 32" by simp
  define k where "k = 32 - n"
  have k: "32 - n mod 32 = k" "32 - n = k" using assms by (simp_all add: k_def)
  have len: "LENGTH(32) = 32" by simp
  have rhs: "bit (word_rotl n x) i = bit x ((i + k) mod 32)"
    unfolding bit_word_rotl_iff len k(1) using i by (simp only: simp_thms)
  have lhs: "bit (push_bit n x OR drop_bit k x) i = (n \<le> i \<and> bit x (i - n) \<or> bit x (k + i))"
    using i by (simp add: bit_or_iff bit_push_bit_iff bit_drop_bit_eq)
  have "bit (push_bit n x OR drop_bit k x) i = bit (word_rotl n x) i"
  proof (cases "i < n")
    case True
    then have "(i + k) mod 32 = k + i" using assms by (simp add: k_def)
    with True show ?thesis unfolding lhs rhs by simp
  next
    case False
    then have "i + k = (i - n) + 32" using assms by (simp add: k_def)
    then have "(i + k) mod 32 = i - n" using i by simp
    moreover have "\<not> bit x (k + i)" using False assms by (auto simp: k_def dest: bit_imp_le_length)
    ultimately show ?thesis using False unfolding lhs rhs by simp
  qed
  then show "bit (push_bit n x OR drop_bit (32 - n) x) i = bit (word_rotl n x) i" by (simp only: k)
qed

lemma shifts_rotr64:
  assumes n: "0 < n" "n < 64"
  shows "drop_bit n (x::u64) OR push_bit (64 - n) x = word_rotr n x"
proof (rule bit_word_eqI)
  fix i assume "i < LENGTH(64)"
  then have i: "i < 64" by simp
  show "bit (drop_bit n x OR push_bit (64 - n) x) i = bit (word_rotr n x) i"
  proof (cases "i + n < 64")
    case True
    then show ?thesis using n
      by (simp only: bit_ops bit_word_rotr_iff) (auto simp: add.commute)
  next
    case False
    then have "(i + n) mod 64 = i + n - 64" using n i by (simp add: mod_if)
    moreover have "\<not> bit x (n + i)" using False by (auto dest: bit_imp_le_length)
    ultimately show ?thesis using n i False
      by (simp only: bit_ops bit_word_rotr_iff) (auto simp: algebra_simps)
  qed
qed

section \<open>Interface: a context that absorbs bytes into blocks\<close>

text \<open>
  A hash context of the code has a byte counter, a buffer of one block and a chaining
  value, and consumes its input byte by byte: a byte goes to position counter mod B, and
  when the counter reaches a multiple of B the buffer is compressed into the chaining
  value. The laws say that of one byte; the conclusion says what has been absorbed after
  any number of them: the chaining value of the complete blocks of the input, and the
  incomplete block at the front of the buffer.
\<close>

locale block_stream =
  fixes B :: nat
    and cnt :: "'c \<Rightarrow> u64"
    and buf :: "'c \<Rightarrow> bytes"
    and chain :: "'c \<Rightarrow> 's"
    and step :: "'c \<Rightarrow> u8 \<Rightarrow> 'c"
    and compress :: "'s \<Rightarrow> bytes \<Rightarrow> 's"
  assumes block_size: "0 < B"
    and step_cnt: "cnt (step c b) = cnt c + 1"
    and step_buf: "buf (step c b) = (buf c)[unat (cnt c) mod B := b]"
    and step_chain: "chain (step c b) =
      (if unat (cnt c + 1) mod B = 0
       then compress (chain c) ((buf c)[unat (cnt c) mod B := b]) else chain c)"
begin

definition absorbed :: "'s \<Rightarrow> bytes \<Rightarrow> 'c \<Rightarrow> bool" where
  "absorbed iv m c \<longleftrightarrow>
     cnt c = of_nat (length m) \<and> length (buf c) = B \<and>
     chain c = foldl compress iv (chunks B (take (length m - length m mod B) m)) \<and>
     take (length m mod B) (buf c) = drop (length m - length m mod B) m"

lemma absorbed_Nil:
  "cnt c = 0 \<Longrightarrow> length (buf c) = B \<Longrightarrow> chain c = iv \<Longrightarrow> absorbed iv [] c"
  by (simp add: absorbed_def)

lemma absorbed_step:
  assumes a: "absorbed iv m c" and lt: "Suc (length m) < 2 ^ 64"
  shows "absorbed iv (m @ [b]) (step c b)"
proof -
  define l r where "l = length m" and "r = l mod B"
  have c: "unat (cnt c) = l" "unat (cnt c + 1) = Suc l"
    using a lt by (simp_all add: absorbed_def l_def unat_of_nat unat_word_ariths)
  have r: "r < B" "l - r + r = l" "B dvd (l - r)"
    using block_size by (simp_all add: r_def dvd_minus_mod)
  have bl: "length (buf c) = B" using a by (simp add: absorbed_def)
  have tl: "take r (buf c) = drop (l - r) m" using a by (simp add: absorbed_def l_def r_def)
  have ch: "chain c = foldl compress iv (chunks B (take (l - r) m))"
    using a by (simp add: absorbed_def l_def r_def)
  have up: "take (Suc r) ((buf c)[r := b]) = drop (l - r) m @ [b]"
    using r bl tl by (simp add: take_Suc_conv_app_nth)
  have cnt': "cnt (step c b) = of_nat (length (m @ [b]))"
    using a by (simp add: step_cnt absorbed_def)
  show ?thesis
  proof (cases "Suc l mod B = 0")
    case True
    then have rB: "Suc r = B" using block_size by (simp add: r_def mod_Suc split: if_splits)
    have full: "(buf c)[r := b] = drop (l - r) m @ [b]" using up bl rB by simp
    have e: "m @ [b] = take (l - r) m @ (drop (l - r) m @ [b])" by simp
    have "length (drop (l - r) m @ [b]) = B" "B dvd length (take (l - r) m)"
      using r rB by (simp_all add: l_def)
    then have "chunks B (m @ [b]) = chunks B (take (l - r) m) @ [drop (l - r) m @ [b]]"
      using block_size by (subst e, subst chunks_append) (simp_all only: chunks_single)
    then show ?thesis
      using True c bl ch full cnt' rB [unfolded r_def l_def]
      by (simp add: absorbed_def step_buf step_chain r_def l_def)
  next
    case False
    then have s: "Suc l mod B = Suc r" using block_size by (simp add: r_def mod_Suc split: if_splits)
    have "Suc l - Suc r = l - r" by simp
    moreover have "l - r \<le> length m" by (simp add: l_def)
    ultimately show ?thesis
      using False s c bl ch up cnt'
      by (simp add: absorbed_def step_buf step_chain r_def l_def)
  qed
qed

lemma absorbed_foldl:
  "absorbed iv m c \<Longrightarrow> length m + length d < 2 ^ 64 \<Longrightarrow> absorbed iv (m @ d) (foldl step c d)"
proof (induction d arbitrary: m c)
  case (Cons b d)
  have "absorbed iv (m @ [b]) (step c b)" using Cons.prems by (intro absorbed_step) auto
  then show ?case using Cons.IH [of "m @ [b]" "step c b"] Cons.prems by simp
qed simp

lemma absorbed_full:
  "absorbed iv m c \<Longrightarrow> B dvd length m \<Longrightarrow> chain c = foldl compress iv (chunks B m)"
  by (simp add: absorbed_def dvd_imp_mod_0)

end

section \<open>Interface: an exclusive-or key stream\<close>

text \<open>
  Counter mode and ChaCha20 treat their input alike: block by block, each block combined
  with the key stream of the current state, the last block with a prefix of it.
\<close>

function (sequential) xor_stream ::
  "('s \<Rightarrow> bytes) \<Rightarrow> ('s \<Rightarrow> 's) \<Rightarrow> nat \<Rightarrow> 's \<Rightarrow> bytes \<Rightarrow> bytes" where
  "xor_stream blk nxt n s xs =
     (if n = 0 \<or> xs = [] then []
      else xor_bytes (take n xs) (blk s) @ xor_stream blk nxt n (nxt s) (drop n xs))"
  by pat_completeness auto
termination
  by (relation "measure (\<lambda>(blk, nxt, n, s, xs). length xs)") auto

declare xor_stream.simps [simp del]

lemma xor_stream_Nil [simp]: "xor_stream blk nxt n s [] = []"
  by (subst xor_stream.simps) simp

lemma xor_stream_unfold:
  "0 < n \<Longrightarrow> xs \<noteq> [] \<Longrightarrow> xor_stream blk nxt n s xs =
     xor_bytes (take n xs) (blk s) @ xor_stream blk nxt n (nxt s) (drop n xs)"
  by (subst xor_stream.simps) simp

locale key_stream =
  fixes blk :: "'s \<Rightarrow> bytes"
    and nxt :: "'s \<Rightarrow> 's"
    and n :: nat
    and ok :: "'s \<Rightarrow> bool"
  assumes block_size: "0 < n"
    and block_length: "ok s \<Longrightarrow> length (blk s) = n"
    and next_ok: "ok s \<Longrightarrow> ok (nxt s)"
begin

lemma stream_length: "ok s \<Longrightarrow> length (xor_stream blk nxt n s xs) = length xs"
proof (induction xs arbitrary: s rule: length_induct)
  case (1 xs)
  show ?case
  proof (cases "xs = []")
    case False
    with block_size have "length (drop n xs) < length xs" by simp
    with 1 have "length (xor_stream blk nxt n (nxt s) (drop n xs)) = length (drop n xs)"
      using next_ok by blast
    with False block_size "1.prems" show ?thesis
      by (simp add: xor_stream_unfold block_length)
  qed simp
qed

lemma stream_involution:
  "ok s \<Longrightarrow> xor_stream blk nxt n s (xor_stream blk nxt n s xs) = xs"
proof (induction xs arbitrary: s rule: length_induct)
  case (1 xs)
  show ?case
  proof (cases "xs = []")
    case False
    let ?h = "xor_bytes (take n xs) (blk s)" and ?t = "xor_stream blk nxt n (nxt s) (drop n xs)"
    have len: "length (drop n xs) < length xs" using False block_size by simp
    have t: "xor_stream blk nxt n (nxt s) ?t = drop n xs"
      using 1 len next_ok by blast
    have u: "xor_stream blk nxt n s xs = ?h @ ?t"
      using False block_size by (simp add: xor_stream_unfold)
    have lh: "length ?h = min n (length xs)" using "1.prems" by (simp add: block_length)
    have th: "take n (?h @ ?t) = ?h" "drop n (?h @ ?t) = ?t"
      using lh "1.prems" by (cases "n \<le> length xs"; simp add: stream_length next_ok)+
    have "0 < length ?h" unfolding lh using False block_size by simp
    then have "?h \<noteq> []" by (rule length_greater_0_conv [THEN iffD1])
    then have "?h @ ?t \<noteq> []" by (metis append_is_Nil_conv)
    then have "xor_stream blk nxt n s (?h @ ?t) = xor_bytes ?h (blk s) @ xor_stream blk nxt n (nxt s) ?t"
      by (rule xor_stream_unfold [OF block_size, THEN trans]) (simp only: th)
    also have "\<dots> = take n xs @ drop n xs"
      using t "1.prems" by (simp add: xor_bytes_twice block_length)
    finally show ?thesis using u by simp
  qed simp
qed

lemma stream_nth:
  "ok s \<Longrightarrow> i < length xs \<Longrightarrow>
   xor_stream blk nxt n s xs ! i = xs ! i XOR blk ((nxt ^^ (i div n)) s) ! (i mod n)"
proof (induction xs arbitrary: s i rule: length_induct)
  case (1 xs)
  then have ne: "xs \<noteq> []" by auto
  note u = xor_stream_unfold [OF block_size ne, of blk nxt s]
  have lh: "length (xor_bytes (take n xs) (blk s)) = min n (length xs)"
    using "1.prems" by (simp add: block_length)
  show ?case
  proof (cases "i < n")
    case True
    then show ?thesis using "1.prems" block_size by (simp add: u nth_append block_length)
  next
    case False
    then have i: "i div n = Suc ((i - n) div n)" "i mod n = (i - n) mod n"
      using block_size by (simp_all add: le_div_geq le_mod_geq)
    have n: "n \<le> length xs" using False "1.prems" by simp
    have "xor_stream blk nxt n s xs ! i = xor_stream blk nxt n (nxt s) (drop n xs) ! (i - n)"
      unfolding u using False n lh by (simp add: nth_append)
    also have "\<dots> = drop n xs ! (i - n) XOR blk ((nxt ^^ ((i - n) div n)) (nxt s)) ! ((i - n) mod n)"
      using 1 False n block_size next_ok by auto
    finally show ?thesis using False n i by (simp add: funpow_swap1)
  qed
qed

text \<open>a difference in the input is the same difference in the output\<close>

lemma stream_xor:
  "ok s \<Longrightarrow> length d = length xs \<Longrightarrow>
   xor_stream blk nxt n s (xor_bytes xs d) = xor_bytes (xor_stream blk nxt n s xs) d"
proof (induction xs arbitrary: s d rule: length_induct)
  case (1 xs)
  show ?case
  proof (cases "xs = []")
    case False
    then have "0 < length (xor_bytes xs d)" using "1.prems" by simp
    then have ne: "xor_bytes xs d \<noteq> []" by (rule length_greater_0_conv [THEN iffD1])
    have len: "length (drop n xs) < length xs" using False block_size by simp
    have d: "length (drop n d) = length (drop n xs)" using "1.prems" by simp
    have t: "xor_stream blk nxt n (nxt s) (xor_bytes (drop n xs) (drop n d)) =
        xor_bytes (xor_stream blk nxt n (nxt s) (drop n xs)) (drop n d)"
      using "1.IH" [rule_format, OF len next_ok [OF "1.prems"(1)] d] .
    have h: "xor_bytes (xor_bytes (take n xs) (take n d)) (blk s)
        = xor_bytes (xor_bytes (take n xs) (blk s)) (take n d)"
      using "1.prems" by (intro nth_equalityI) (simp_all add: block_length, rule xor_swap)
    have sp: "xor_bytes (a @ b) d = xor_bytes a (take n d) @ xor_bytes b (drop n d)"
      if "length a = length (take n d)" for a b
      unfolding xor_bytes_def using that zip_append [of a "take n d" b "drop n d"]
      by (simp only: append_take_drop_id map_append)
    have "xor_stream blk nxt n s (xor_bytes xs d) = xor_bytes (take n (xor_bytes xs d)) (blk s)
        @ xor_stream blk nxt n (nxt s) (drop n (xor_bytes xs d))"
      using ne block_size by (intro xor_stream_unfold)
    also have "\<dots> = xor_bytes (xor_bytes (take n xs) (blk s)) (take n d)
        @ xor_bytes (xor_stream blk nxt n (nxt s) (drop n xs)) (drop n d)"
      unfolding xor_bytes_take xor_bytes_drop t h ..
    also have "\<dots> = xor_bytes (xor_stream blk nxt n s xs) d"
      unfolding xor_stream_unfold [OF block_size False]
      using "1.prems" by (intro sp [symmetric]) (simp add: block_length)
    finally show ?thesis .
  qed simp
qed

lemma stream_inject:
  assumes "ok s" and "xor_stream blk nxt n s xs = xor_stream blk nxt n s ys"
  shows "xs = ys"
  using assms stream_involution by metis

end

end
