(* ===== verification/Sha2_Spec.thy ===== *)
theory Sha2_Spec
  imports Bank_Prelude
begin

text \<open>
  The Secure Hash Standard (FIPS 180-4) as a specification, written from the standard and
  not from the code: padding, message schedule, compression and chaining, generic in the
  word size. SHA-256 and SHA-512 instantiate the functions, constants and initial values.
  The components \<open>Bank_Sha256\<close> and \<open>Bank_Sha512\<close> compare the code with it.
\<close>

section \<open>Padding\<close>

text \<open>n bytes of a number, most significant first\<close>

definition be_bytes :: "nat \<Rightarrow> nat \<Rightarrow> bytes" where
  "be_bytes n x = map (\<lambda>i. of_nat (x div 256 ^ (n - 1 - i))) [0..<n]"

text \<open>
  Message, the byte 0x80, the fewest zero bytes that make the whole a multiple of the block
  size, and the message length in bits in a field of n bytes.
\<close>

definition sha2_zeros :: "nat \<Rightarrow> nat \<Rightarrow> nat \<Rightarrow> nat" where
  "sha2_zeros B n len = (B - (len + 1 + n) mod B) mod B"

definition sha2_pad :: "nat \<Rightarrow> nat \<Rightarrow> bytes \<Rightarrow> bytes" where
  "sha2_pad B n m =
     m @ 0x80 # replicate (sha2_zeros B n (length m)) 0 @ be_bytes n (8 * length m)"

lemma length_be_bytes [layout, simp]: "length (be_bytes n x) = n"
  by (simp add: be_bytes_def)

lemma sha2_zeros_least:
  assumes "0 < B"
  shows "(len + 1 + n + sha2_zeros B n len) mod B = 0"
    and "(len + 1 + n + k) mod B = 0 \<Longrightarrow> sha2_zeros B n len \<le> k"
proof -
  define x where "x = len + 1 + n"
  have z: "sha2_zeros B n len = (B - x mod B) mod B" by (simp add: sha2_zeros_def x_def)
  have "x mod B < B" using assms by simp
  then show "(len + 1 + n + sha2_zeros B n len) mod B = 0"
    unfolding z x_def [symmetric]
    by (metis le_add_diff_inverse less_imp_le mod_add_left_eq mod_add_right_eq mod_self)
  assume k: "(len + 1 + n + k) mod B = 0"
  show "sha2_zeros B n len \<le> k"
  proof (cases "x mod B = 0")
    case True
    then show ?thesis by (simp add: z)
  next
    case False
    have "(x mod B + k) mod B = 0" using k by (simp add: x_def mod_add_left_eq)
    then have "B \<le> x mod B + k"
      using False by (metis dvd_eq_mod_eq_0 dvd_imp_le add_gr_0 gr0I)
    then show ?thesis unfolding z by (intro le_trans [OF mod_less_eq_dividend]) simp
  qed
qed

lemma sha2_pad_blocks:
  assumes "0 < B"
  shows "B dvd length (sha2_pad B n m)"
  using sha2_zeros_least(1) [OF assms, of "length m" n]
  by (simp add: sha2_pad_def mod_eq_0_iff_dvd ac_simps)

section \<open>Compression\<close>

type_synonym 'w regs = "'w word \<times> 'w word \<times> 'w word \<times> 'w word \<times> 'w word \<times> 'w word \<times> 'w word \<times> 'w word"

definition sha2_Ch :: "'w::len word \<Rightarrow> 'w word \<Rightarrow> 'w word \<Rightarrow> 'w word" where
  "sha2_Ch x y z = (x AND y) XOR (NOT x AND z)"

definition sha2_Maj :: "'w::len word \<Rightarrow> 'w word \<Rightarrow> 'w word \<Rightarrow> 'w word" where
  "sha2_Maj x y z = (x AND y) XOR (x AND z) XOR (y AND z)"

text \<open>the four functions of a family member, its constants and its number of rounds\<close>

record 'a sha2 =
  Sigma0 :: "'a \<Rightarrow> 'a"
  Sigma1 :: "'a \<Rightarrow> 'a"
  sigma0 :: "'a \<Rightarrow> 'a"
  sigma1 :: "'a \<Rightarrow> 'a"
  K_const :: "nat \<Rightarrow> 'a"
  n_rounds :: nat

fun sha2_W :: "'w::len word sha2 \<Rightarrow> 'w word list \<Rightarrow> nat \<Rightarrow> 'w word" where
  "sha2_W F M t =
     (if t < 16 then M ! t
      else sigma1 F (sha2_W F M (t - 2)) + sha2_W F M (t - 7)
         + sigma0 F (sha2_W F M (t - 15)) + sha2_W F M (t - 16))"

declare sha2_W.simps [simp del]

fun sha2_step :: "'w::len word sha2 \<Rightarrow> 'w word \<Rightarrow> 'w word \<Rightarrow> 'w regs \<Rightarrow> 'w regs" where
  "sha2_step F k w (a, b, c, d, e, f, g, h) =
     (let T1 = h + Sigma1 F e + sha2_Ch e f g + k + w;
          T2 = Sigma0 F a + sha2_Maj a b c
      in (T1 + T2, a, b, c, d + T1, e, f, g))"

primrec sha2_rounds :: "'w::len word sha2 \<Rightarrow> 'w word list \<Rightarrow> nat \<Rightarrow> 'w regs \<Rightarrow> 'w regs" where
  "sha2_rounds F M 0 r = r"
| "sha2_rounds F M (Suc t) r = sha2_step F (K_const F t) (sha2_W F M t) (sha2_rounds F M t r)"

fun regs_of :: "'w::len word list \<Rightarrow> 'w regs" where
  "regs_of H = (H ! 0, H ! 1, H ! 2, H ! 3, H ! 4, H ! 5, H ! 6, H ! 7)"

fun add_regs :: "'w::len word list \<Rightarrow> 'w regs \<Rightarrow> 'w word list" where
  "add_regs H (a, b, c, d, e, f, g, h) =
     [H ! 0 + a, H ! 1 + b, H ! 2 + c, H ! 3 + d, H ! 4 + e, H ! 5 + f, H ! 6 + g, H ! 7 + h]"

definition sha2_compress :: "'w::len word sha2 \<Rightarrow> 'w word list \<Rightarrow> 'w word list \<Rightarrow> 'w word list" where
  "sha2_compress F H M = add_regs H (sha2_rounds F M (n_rounds F) (regs_of H))"

lemma length_sha2_compress [layout, simp]: "length (sha2_compress F H M) = 8"
proof -
  obtain a b c d e f g h where r: "sha2_rounds F M (n_rounds F) (regs_of H) = (a, b, c, d, e, f, g, h)"
    by (metis surj_pair)
  show ?thesis unfolding sha2_compress_def r by simp
qed

section \<open>Words from bytes, and the digest\<close>

definition be_word :: "bytes \<Rightarrow> 'w::len word" where
  "be_word bs = foldl (\<lambda>a b. a * 256 + ucast b) 0 bs"

text \<open>the words of a block, of s bytes each\<close>

definition be_words :: "nat \<Rightarrow> bytes \<Rightarrow> 'w::len word list" where
  "be_words s blk = map be_word (chunks s blk)"

definition sha2_hash ::
  "'w::len word sha2 \<Rightarrow> nat \<Rightarrow> nat \<Rightarrow> 'w word list \<Rightarrow> bytes \<Rightarrow> bytes" where
  "sha2_hash F s n iv m =
     concat (map (\<lambda>h. be_bytes s (unat h))
       (foldl (\<lambda>H blk. sha2_compress F H (be_words s blk)) iv
         (chunks (16 * s) (sha2_pad (16 * s) n m))))"

lemma shift_in_byte: "a * 256 + ucast (b::u8) = push_bit 8 a OR (ucast b :: 'w::len word)"
proof -
  have "a * 256 + ucast b = push_bit 8 a + (ucast b :: 'w word)" by (simp add: push_bit_eq_mult)
  also have "\<dots> = push_bit 8 a OR ucast b"
    by (rule disjunctive_add_eq_or, rule bit_eqI) (auto simp: bit_simps dest: bit_imp_le_length)
  finally show ?thesis .
qed

lemma be_word_4: "be_word [a, b, c, d] = (push_bit 24 (ucast a) OR push_bit 16 (ucast b)
    OR push_bit 8 (ucast c) OR ucast d :: 'w::len word)"
  unfolding be_word_def foldl.simps shift_in_byte by (simp add: push_bit_or or.assoc)

lemma be_word_8: "be_word [a, b, c, d, e, f, g, h] =
   (push_bit 56 (ucast a) OR push_bit 48 (ucast b) OR push_bit 40 (ucast c) OR push_bit 32 (ucast d)
    OR push_bit 24 (ucast e) OR push_bit 16 (ucast f) OR push_bit 8 (ucast g) OR ucast h
    :: 'w::len word)"
  unfolding be_word_def foldl.simps shift_in_byte by (simp add: push_bit_or or.assoc)

lemma take_drop_4:
  "n + 4 \<le> length xs \<Longrightarrow> take 4 (drop n xs) = [xs ! n, xs ! (n + 1), xs ! (n + 2), xs ! (n + 3)]"
  by (simp add: Cons_nth_drop_Suc [symmetric] numeral_eq_Suc)

lemma take_drop_8:
  "n + 8 \<le> length xs \<Longrightarrow> take 8 (drop n xs) = [xs ! n, xs ! (n + 1), xs ! (n + 2), xs ! (n + 3),
     xs ! (n + 4), xs ! (n + 5), xs ! (n + 6), xs ! (n + 7)]"
  by (simp add: Cons_nth_drop_Suc [symmetric] numeral_eq_Suc)

lemma chunks_nth:
  "0 < n \<Longrightarrow> n * Suc i \<le> length xs \<Longrightarrow> chunks n xs ! i = take n (drop (n * i) xs)"
proof (induction i arbitrary: xs)
  case 0
  then show ?case by (subst chunks.simps) auto
next
  case (Suc i)
  then have "chunks n xs ! Suc i = chunks n (drop n xs) ! i" by (subst chunks.simps) auto
  also have "\<dots> = take n (drop (n * i) (drop n xs))" using Suc.prems by (intro Suc.IH) auto
  finally show ?case by (simp add: add.commute)
qed

lemma length_chunks: "0 < n \<Longrightarrow> length xs = n * k \<Longrightarrow> length (chunks n xs) = k"
proof (induction k arbitrary: xs)
  case (Suc k)
  then have "chunks n xs = take n xs # chunks n (drop n xs)" by (subst chunks.simps) auto
  then show ?case using Suc by simp
qed simp

lemma be_words_nth:
  "0 < s \<Longrightarrow> s * Suc i \<le> length blk \<Longrightarrow> length blk = s * k \<Longrightarrow>
   be_words s blk ! i = be_word (take s (drop (s * i) blk))"
proof -
  assume a: "0 < s" "s * Suc i \<le> length blk" "length blk = s * k"
  then have "i < length (chunks s blk)" by (simp only: length_chunks mult_le_cancel1) simp
  then show ?thesis using a by (simp only: be_words_def nth_map chunks_nth)
qed

lemma load_be32_words:
  assumes "length blk = 64" "t < 16"
  shows "load_be32 blk (t * 4) = be_words 4 blk ! t"
proof -
  have "take 4 (drop (4 * t) blk) = map (\<lambda>j. blk ! (4 * t + j)) [0, 1, 2, 3]"
    using assms take_drop_4 [of "4 * t" blk] by simp
  moreover have "be_words 4 blk ! t = (be_word :: _ \<Rightarrow> u32) (take 4 (drop (4 * t) blk))"
    using assms by (intro be_words_nth [where k = 16]) simp_all
  ultimately show ?thesis by (simp add: load_be32_def be_word_4 mult.commute)
qed

text \<open>
  Every block of the standard's computation has the block size, so a routine that agrees
  with the compression function on such blocks computes the same chain.
\<close>

lemma chunks_full_length: "0 < n \<Longrightarrow> n dvd length xs \<Longrightarrow> b \<in> set (chunks n xs) \<Longrightarrow> length b = n"
proof (induction n xs rule: chunks.induct)
  case (1 n xs)
  show ?case
  proof (cases "xs = []")
    case False
    then have le: "n \<le> length xs" using "1.prems" by (auto dest: dvd_imp_le)
    have "chunks n xs = take n xs # chunks n (drop n xs)"
      using False "1.prems" by (subst chunks.simps) simp
    moreover have "n dvd length (drop n xs)" using "1.prems" by (simp add: dvd_diff_nat)
    ultimately show ?thesis using 1 False le by auto
  qed (use 1 in simp)
qed

lemma foldl_chunks_cong:
  assumes B: "0 < B" "B dvd length m"
    and eq: "\<And>H b. length b = B \<Longrightarrow> P H \<Longrightarrow> f H b = g H b \<and> P (f H b)" and "P iv"
  shows "foldl f iv (chunks B m) = foldl g iv (chunks B m)"
proof -
  have "P iv \<Longrightarrow> \<forall>b\<in>set bs. length b = B \<Longrightarrow> foldl f iv bs = foldl g iv bs" for bs
  proof (induction bs arbitrary: iv)
    case (Cons a bs)
    then have e: "f iv a = g iv a \<and> P (f iv a)" by (intro eq) simp_all
    have "foldl f (f iv a) bs = foldl g (f iv a) bs"
      by (rule Cons.IH [OF conjunct2 [OF e]]) (use Cons.prems in simp)
    with e show ?case by (metis foldl_Cons)
  qed simp
  then show ?thesis using assms(4) chunks_full_length [OF B] by blast
qed

lemma length_sha2_chain [layout]:
  "length iv = 8 \<Longrightarrow> length (foldl (\<lambda>H blk. sha2_compress F H (f blk)) iv bs) = 8"
  by (cases bs rule: rev_cases) simp_all

section \<open>A schedule array and a loop over it compute the same\<close>

lemma schedule_loop:
  assumes len: "length w0 = 16" and w0: "\<And>t. t < 16 \<Longrightarrow> w0 ! t = M ! t"
    and step: "\<And>w i. step w i = w @ [sigma1 F (w ! (i - 2)) + w ! (i - 7)
                 + sigma0 F (w ! (i - 15)) + w ! (i - 16)]"
  shows "length (foldl step w0 [16..<16 + n]) = 16 + n \<and>
    (\<forall>t < 16 + n. foldl step w0 [16..<16 + n] ! t = sha2_W F M t)"
proof (induction n)
  case 0
  then show ?case using len w0 by (simp add: sha2_W.simps)
next
  case (Suc n)
  let ?w = "foldl step w0 [16..<16 + n]"
  have upt: "[16..<16 + Suc n] = [16..<16 + n] @ [16 + n]"
    by (simp only: add_Suc_right upt_Suc_append le_add1)
  have st: "foldl step w0 [16..<16 + Suc n] = ?w @ [sigma1 F (?w ! (16 + n - 2)) + ?w ! (16 + n - 7)
      + sigma0 F (?w ! (16 + n - 15)) + ?w ! (16 + n - 16)]"
    unfolding upt foldl_append by (simp add: step)
  have "sha2_W F M (16 + n) = sigma1 F (?w ! (16 + n - 2)) + ?w ! (16 + n - 7)
      + sigma0 F (?w ! (16 + n - 15)) + ?w ! (16 + n - 16)"
    using Suc by (subst sha2_W.simps) simp
  then have last: "foldl step w0 [16..<16 + Suc n] ! (16 + n) = sha2_W F M (16 + n)"
    unfolding st using Suc by (simp add: nth_append)
  have "foldl step w0 [16..<16 + Suc n] ! t = sha2_W F M t" if t: "t < 16 + Suc n" for t
  proof (cases "t < 16 + n")
    case True
    then show ?thesis unfolding st using Suc by (simp add: nth_append)
  next
    case False
    with t have "t = 16 + n" by simp
    with last show ?thesis by simp
  qed
  moreover have "length (foldl step w0 [16..<16 + Suc n]) = 16 + Suc n"
    unfolding st using Suc by simp
  ultimately show ?case by blast
qed

lemma rounds_loop:
  assumes "\<And>r i. i < n \<Longrightarrow> step r i = sha2_step F (K_const F i) (sha2_W F M i) r"
  shows "foldl step r [0..<n] = sha2_rounds F M n r"
proof -
  have "k \<le> n \<Longrightarrow> foldl step r [0..<k] = sha2_rounds F M k r" for k
    using assms by (induction k) simp_all
  then show ?thesis by simp
qed

section \<open>The big-endian length field\<close>

lemma store_be64_of_nat:
  assumes "x < 2 ^ 64"
  shows "store_be64 (of_nat x) = be_bytes 8 x"
proof -
  have "ucast (drop_bit n (of_nat x :: u64)) = (of_nat (x div 2 ^ n) :: u8)" for n
  proof -
    have "unat (drop_bit n (of_nat x :: u64)) = x div 2 ^ n"
      using assms unat_drop_bit_eq [of n "of_nat x :: u64"] drop_bit_eq_div [of n x]
      by (simp add: unat_of_nat)
    then show ?thesis by (metis of_nat_unat)
  qed
  moreover have "(256::nat) ^ (8 - 1 - i) = 2 ^ (56 - i * 8)" if "i < 8" for i
  proof -
    have "(256::nat) ^ (8 - 1 - i) = 2 ^ (8 * (7 - i))" by (simp add: power_mult)
    moreover have "8 * (7 - i) = 56 - i * 8" by (simp add: diff_mult_distrib2)
    ultimately show ?thesis by (simp only:)
  qed
  ultimately have "ucast (drop_bit (56 - i * 8) (of_nat x :: u64)) = (of_nat (x div 256 ^ (8 - 1 - i)) :: u8)"
    if "i < 8" for i
    using that by (simp only:)
  then show ?thesis
    unfolding store_be64_def be_bytes_def by (intro map_cong refl) (simp only: set_upt atLeastLessThan_iff)
qed

section \<open>The round constants\<close>

text \<open>
  The constants are the first 32 (64) bits of the fractional parts of the cube roots of the
  first 64 (80) primes. \<open>cbrt k x\<close> is the integer cube root of \<open>x < 8 ^ k\<close>, one bit per
  step.
\<close>

definition first_primes :: "int list" where
  "first_primes = [2, 3, 5, 7, 11, 13, 17, 19, 23, 29, 31, 37, 41, 43, 47, 53, 59, 61, 67, 71,
     73, 79, 83, 89, 97, 101, 103, 107, 109, 113, 127, 131, 137, 139, 149, 151, 157, 163, 167, 173,
     179, 181, 191, 193, 197, 199, 211, 223, 227, 229, 233, 239, 241, 251, 257, 263, 269, 271, 277,
     281, 283, 293, 307, 311, 313, 317, 331, 337, 347, 349, 353, 359, 367, 373, 379, 383, 389, 397,
     401, 409]"

primrec cbrt :: "nat \<Rightarrow> nat \<Rightarrow> nat" where
  "cbrt 0 x = 0"
| "cbrt (Suc k) x =
     (let r = 2 * cbrt k (x div 8) in if (r + 1) ^ 3 \<le> x then r + 1 else r)"

definition sha2_K :: "nat \<Rightarrow> nat \<Rightarrow> 'w::len word" where
  "sha2_K w t = of_nat (cbrt (w + 4) (nat (first_primes ! t) * 2 ^ (3 * w)))"

lemma cbrt_bounds: "x < 8 ^ k \<Longrightarrow> cbrt k x ^ 3 \<le> x \<and> x < Suc (cbrt k x) ^ 3"
proof (induction k arbitrary: x)
  case (Suc k)
  define r where "r = cbrt k (x div 8)"
  have "x div 8 < 8 ^ k" using Suc.prems by (simp add: less_mult_imp_div_less mult.commute)
  then have "r ^ 3 \<le> x div 8 \<and> x div 8 < Suc r ^ 3" unfolding r_def by (rule Suc.IH)
  then have "8 * r ^ 3 \<le> x" "x < 8 * Suc r ^ 3" by linarith+
  then have "(2 * r) ^ 3 \<le> x" "x < (2 * r + 2) ^ 3"
    by (simp_all add: power_mult_distrib [symmetric] power3_eq_cube algebra_simps)
  then show ?case by (auto simp: Let_def r_def [symmetric])
qed simp

lemma cbrt_unique:
  assumes "n ^ 3 \<le> x" "x < Suc n ^ 3" "x < 8 ^ k"
  shows "cbrt k x = n"
proof -
  let ?c = "cbrt k x"
  have c: "?c ^ 3 \<le> x" "x < Suc ?c ^ 3" using cbrt_bounds [OF assms(3)] by auto
  have "\<not> n < ?c"
  proof
    assume "n < ?c"
    then have "Suc n ^ 3 \<le> ?c ^ 3" by (intro power_mono) simp_all
    then show False using c assms by linarith
  qed
  moreover have "\<not> ?c < n"
  proof
    assume "?c < n"
    then have "Suc ?c ^ 3 \<le> n ^ 3" by (intro power_mono) simp_all
    then show False using c assms by linarith
  qed
  ultimately show ?thesis by simp
qed

text \<open>
  A table entry k is right when some integer part a makes \<open>a * 2 ^ w + k\<close> the root.
\<close>

definition cbrt_entry :: "nat \<Rightarrow> int \<Rightarrow> int \<Rightarrow> bool" where
  "cbrt_entry w p k \<longleftrightarrow> 0 \<le> k \<and>
     (let m = 2 ^ w; x = p * m * m * m in list_ex (\<lambda>a. let r = a * m + k; s = r + 1 in
        r * r * r \<le> x \<and> x < s * s * s) [0, 1, 2, 3, 4, 5, 6, 7])"

lemma cbrt_entry_nat:
  assumes e: "cbrt_entry w p k" and p: "0 \<le> p"
  shows "\<exists>a. (a * 2 ^ w + nat k) ^ 3 \<le> nat p * 2 ^ (3 * w) \<and>
    nat p * 2 ^ (3 * w) < Suc (a * 2 ^ w + nat k) ^ 3"
proof -
  obtain a where a: "0 \<le> a" "0 \<le> k"
    "(a * 2 ^ w + k) * (a * 2 ^ w + k) * (a * 2 ^ w + k) \<le> p * 2 ^ w * 2 ^ w * 2 ^ w"
    "p * 2 ^ w * 2 ^ w * 2 ^ w < (a * 2 ^ w + k + 1) * (a * 2 ^ w + k + 1) * (a * 2 ^ w + k + 1)"
  proof -
    from e obtain a where m: "a \<in> set [0, 1, 2, 3, 4, 5, 6, 7]" and b: "0 \<le> k"
      "(a * 2 ^ w + k) * (a * 2 ^ w + k) * (a * 2 ^ w + k) \<le> p * 2 ^ w * 2 ^ w * 2 ^ w"
      "p * 2 ^ w * 2 ^ w * 2 ^ w < (a * 2 ^ w + k + 1) * (a * 2 ^ w + k + 1) * (a * 2 ^ w + k + 1)"
      unfolding cbrt_entry_def Let_def list_ex_iff by blast
    from m have "0 \<le> a" by auto
    with b that show thesis by blast
  qed
  have r: "int (nat a * 2 ^ w + nat k) = a * 2 ^ w + k" using a(1,2) by simp
  have x: "int (nat p * 2 ^ (3 * w)) = p * 2 ^ w * 2 ^ w * 2 ^ w"
    using p by (simp add: power_mult power3_eq_cube mult.commute [of 3] power_mult)
  have "int ((nat a * 2 ^ w + nat k) ^ 3) \<le> int (nat p * 2 ^ (3 * w))"
    unfolding of_nat_power r x unfolding power3_eq_cube by (rule a(3))
  moreover have "int (nat p * 2 ^ (3 * w)) < int (Suc (nat a * 2 ^ w + nat k) ^ 3)"
    unfolding of_nat_power of_nat_Suc r x unfolding power3_eq_cube using a(4) by (simp only: ac_simps)
  ultimately show ?thesis unfolding of_nat_le_iff of_nat_less_iff by blast
qed

lemma first_primes_range: "\<forall>p\<in>set first_primes. 0 \<le> p \<and> p < 8 ^ 4"
  by (simp add: first_primes_def)

lemma length_first_primes: "length first_primes = 80"
  by (simp add: first_primes_def)

lemma cbrt_entry_K:
  assumes e: "cbrt_entry LENGTH('w::len) (first_primes ! t) k" and t: "t < 80"
  shows "sha2_K LENGTH('w) t = (word_of_int k :: 'w word)"
proof -
  let ?w = "LENGTH('w)" and ?x = "nat (first_primes ! t) * 2 ^ (3 * LENGTH('w))"
  have "first_primes ! t \<in> set first_primes" using t by (intro nth_mem) (simp add: length_first_primes)
  then have p: "0 \<le> first_primes ! t" "first_primes ! t < 8 ^ 4" using first_primes_range by blast+
  obtain a where a: "(a * 2 ^ ?w + nat k) ^ 3 \<le> ?x" "?x < Suc (a * 2 ^ ?w + nat k) ^ 3"
    using cbrt_entry_nat [OF e p(1)] by blast
  have "nat (first_primes ! t) < 8 ^ 4" using p by simp
  then have "?x < 8 ^ 4 * 2 ^ (3 * ?w)" by simp
  also have "\<dots> = 8 ^ (?w + 4)" by (simp add: power_add power_mult)
  finally have "cbrt (?w + 4) ?x = a * 2 ^ ?w + nat k" using a by (intro cbrt_unique)
  then have "sha2_K ?w t = (of_nat (a * 2 ^ ?w + nat k) :: 'w word)" by (simp only: sha2_K_def)
  also have "\<dots> = of_nat a * 2 ^ ?w + of_nat (nat k)"
    by (simp only: of_nat_add of_nat_mult of_nat_power of_nat_numeral)
  also have "\<dots> = (of_nat (nat k) :: 'w word)" by simp
  also have "\<dots> = word_of_int k" using e by (simp add: cbrt_entry_def of_nat_nat)
  finally show ?thesis .
qed

text \<open>checking a table of constants given as integers\<close>

lemma cbrt_table_K:
  assumes "list_all2 (cbrt_entry LENGTH('w::len)) (take (length ks) first_primes) ks"
    and "t < length ks" "length ks \<le> 80"
  shows "map (word_of_int :: _ \<Rightarrow> 'w word) ks ! t = sha2_K LENGTH('w) t"
proof -
  from list_all2_nthD2 [OF assms(1,2)] assms(2)
  have "cbrt_entry LENGTH('w) (first_primes ! t) (ks ! t)" by simp
  then show ?thesis using assms by (simp add: cbrt_entry_K)
qed

end
