(* ===== verification/Bank_Sha512.thy ===== *)
theory Bank_Sha512
  imports Sha2_Spec
begin

text \<open>
  SHA-512 (\<open>src/sha/bank_sha512.cpp\<close>): the context, the transform, \<open>init\<close>, \<open>update\<close>,
  \<open>final\<close> and the one-shot function. The transform is the compression function of FIPS
  180-4 but for the last sixteen round constants, which the table leaves at zero; the
  padding of \<open>final\<close> does not complete the last block, so the bytes after the last
  complete block do not reach the digest (or the padding length wraps below zero).
\<close>

section \<open>The word functions\<close>

definition bank_rotr64 :: "u64 \<Rightarrow> nat \<Rightarrow> u64" where
  "bank_rotr64 x n = drop_bit n x OR push_bit (64 - n) x"

definition bank_ch64 :: "u64 \<Rightarrow> u64 \<Rightarrow> u64 \<Rightarrow> u64" where
  "bank_ch64 x y z = (x AND y) XOR (NOT x AND z)"

definition bank_maj64 :: "u64 \<Rightarrow> u64 \<Rightarrow> u64 \<Rightarrow> u64" where
  "bank_maj64 x y z = (x AND y) XOR (x AND z) XOR (y AND z)"

definition bank_bsig0_64 :: "u64 \<Rightarrow> u64" where
  "bank_bsig0_64 x = bank_rotr64 x 28 XOR bank_rotr64 x 34 XOR bank_rotr64 x 39"

definition bank_bsig1_64 :: "u64 \<Rightarrow> u64" where
  "bank_bsig1_64 x = bank_rotr64 x 14 XOR bank_rotr64 x 18 XOR bank_rotr64 x 41"

definition bank_ssig0_64 :: "u64 \<Rightarrow> u64" where
  "bank_ssig0_64 x = bank_rotr64 x 1 XOR bank_rotr64 x 8 XOR drop_bit 7 x"

definition bank_ssig1_64 :: "u64 \<Rightarrow> u64" where
  "bank_ssig1_64 x = bank_rotr64 x 19 XOR bank_rotr64 x 61 XOR drop_bit 6 x"

text \<open>
  The array has 80 entries and 64 initializers; the language sets the other 16 to zero.
\<close>

definition bank_sha512_k :: "u64 list" where
  "bank_sha512_k = concat [
     [0x428a2f98d728ae22, 0x7137449123ef65cd, 0xb5c0fbcfec4d3b2f, 0xe9b5dba58189dbbc],
     [0x3956c25bf348b538, 0x59f111f1b605d019, 0x923f82a4af194f9b, 0xab1c5ed5da6d8118],
     [0xd807aa98a3030242, 0x12835b0145706fbe, 0x243185be4ee4b28c, 0x550c7dc3d5ffb4e2],
     [0x72be5d74f27b896f, 0x80deb1fe3b1696b1, 0x9bdc06a725c71235, 0xc19bf174cf692694],
     [0xe49b69c19ef14ad2, 0xefbe4786384f25e3, 0x0fc19dc68b8cd5b5, 0x240ca1cc77ac9c65],
     [0x2de92c6f592b0275, 0x4a7484aa6ea6e483, 0x5cb0a9dcbd41fbd4, 0x76f988da831153b5],
     [0x983e5152ee66dfab, 0xa831c66d2db43210, 0xb00327c898fb213f, 0xbf597fc7beef0ee4],
     [0xc6e00bf33da88fc2, 0xd5a79147930aa725, 0x06ca6351e003826f, 0x142929670a0e6e70],
     [0x27b70a8546d22ffc, 0x2e1b21385c26c926, 0x4d2c6dfc5ac42aed, 0x53380d139d95b3df],
     [0x650a73548baf63de, 0x766a0abb3c77b2a8, 0x81c2c92e47edaee6, 0x92722c851482353b],
     [0xa2bfe8a14cf10364, 0xa81a664bbc423001, 0xc24b8b70d0f89791, 0xc76c51a30654be30],
     [0xd192e819d6ef5218, 0xd69906245565a910, 0xf40e35855771202a, 0x106aa07032bbd1b8],
     [0x19a4c116b8d2d0c8, 0x1e376c085141ab53, 0x2748774cdf8eeb99, 0x34b0bcb5e19b48a8],
     [0x391c0cb3c5c95a63, 0x4ed8aa4ae3418acb, 0x5b9cca4f7763e373, 0x682e6ff3d6b2b8a3],
     [0x748f82ee5defb2fc, 0x78a5636f43172f60, 0x84c87814a1f0ab72, 0x8cc702081a6439ec],
     [0x90befffa23631e28, 0xa4506cebde82bde9, 0xbef9a3f7b2c67915, 0xc67178f2e372532b]] @ replicate 16 0"

section \<open>The context\<close>

record sha512_ctx =
  sha512_state :: "u64 list"
  sha512_buffer :: bytes
  sha512_count :: u64

definition sha512_load :: "bytes \<Rightarrow> u64 list" where
  "sha512_load blk = map (\<lambda>i. load_be64 blk (i * 8)) [0..<16]"

definition sha512_sched_step :: "u64 list \<Rightarrow> nat \<Rightarrow> u64 list" where
  "sha512_sched_step w i = w @ [bank_ssig1_64 (w ! (i - 2)) + w ! (i - 7)
     + bank_ssig0_64 (w ! (i - 15)) + w ! (i - 16)]"

definition sha512_schedule :: "bytes \<Rightarrow> u64 list" where
  "sha512_schedule blk = foldl sha512_sched_step (sha512_load blk) [16..<80]"

fun sha512_round :: "u64 list \<Rightarrow> 64 regs \<Rightarrow> nat \<Rightarrow> 64 regs" where
  "sha512_round w (a, b, c, d, e, f, g, h) i =
     (let t1 = h + bank_bsig1_64 e + bank_ch64 e f g + bank_sha512_k ! i + w ! i;
          t2 = bank_bsig0_64 a + bank_maj64 a b c
      in (t1 + t2, a, b, c, d + t1, e, f, g))"

definition sha512_block :: "u64 list \<Rightarrow> bytes \<Rightarrow> u64 list" where
  "sha512_block st blk =
     add_regs st (foldl (sha512_round (sha512_schedule blk)) (regs_of st) [0..<80])"

definition bank_sha512_transform :: "sha512_ctx \<Rightarrow> sha512_ctx" where
  "bank_sha512_transform ctx =
     ctx\<lparr>sha512_state := sha512_block (sha512_state ctx) (sha512_buffer ctx)\<rparr>"

definition sha512_iv :: "u64 list" where
  "sha512_iv = [0x6a09e667f3bcc908, 0xbb67ae8584caa73b, 0x3c6ef372fe94f82b, 0xa54ff53a5f1d36f1,
     0x510e527fade682d1, 0x9b05688c2b3e6c1f, 0x1f83d9abfb41bd6b, 0x5be0cd19137e2179]"

definition bank_sha512_init :: sha512_ctx where
  "bank_sha512_init = \<lparr>sha512_state = sha512_iv, sha512_buffer = replicate 128 0, sha512_count = 0\<rparr>"

definition sha512_absorb :: "sha512_ctx \<Rightarrow> u8 \<Rightarrow> sha512_ctx" where
  "sha512_absorb ctx b =
     (let c1 = ctx\<lparr>sha512_buffer := (sha512_buffer ctx)[unat (sha512_count ctx mod 128) := b],
                   sha512_count := sha512_count ctx + 1\<rparr>
      in if sha512_count c1 mod 128 = 0 then bank_sha512_transform c1 else c1)"

definition bank_sha512_update :: "sha512_ctx \<Rightarrow> bytes \<Rightarrow> sha512_ctx" where
  "bank_sha512_update ctx data = foldl sha512_absorb ctx data"

text \<open>the padding length, a size_t: for a remainder above 120 it wraps\<close>

definition sha512_pad_len :: "u64 \<Rightarrow> u64" where
  "sha512_pad_len cnt =
     (let r = cnt mod 128 in if r < 112 then 112 - r else 120 - r)"

definition sha512_output :: "u64 list \<Rightarrow> bytes" where
  "sha512_output st = concat (map (\<lambda>i. store_be64 (st ! i)) [0..<8])"

definition bank_sha512_final :: "sha512_ctx \<Rightarrow> bytes run" where
  "bank_sha512_final ctx =
     (let bit_len = sha512_count ctx * 8;
          pad_len = unat (sha512_pad_len (sha512_count ctx))
      in if 128 < pad_len then Inl Buffer_Overflow
         else let c1 = bank_sha512_update ctx ((replicate pad_len 0)[0 := 0x80]);
                  c2 = bank_sha512_update c1 (store_be64 bit_len)
              in Inr (sha512_output (sha512_state c2)))"

definition bank_sha512 :: "bytes \<Rightarrow> bytes run" where
  "bank_sha512 data = bank_sha512_final (bank_sha512_update bank_sha512_init data)"

section \<open>The context as a block stream\<close>

lemma unat_mod_128: "unat (x mod 128 :: u64) = unat x mod 128"
  by (simp add: unat_mod)

lemma mod_128_iff: "x mod 128 = (0 :: u64) \<longleftrightarrow> unat x mod 128 = 0"
  by (simp add: word_unat_eq_iff unat_mod)

interpretation sha512: block_stream 128 sha512_count sha512_buffer sha512_state sha512_absorb
  sha512_block
  by unfold_locales
     (auto simp: sha512_absorb_def bank_sha512_transform_def Let_def unat_mod_128 mod_128_iff)

section \<open>The transform and the standard's compression function\<close>

text \<open>
  The family member the transform implements: the functions of the standard, and its
  constants in the first 64 rounds only.
\<close>

definition fips_sha512_family :: "64 word sha2" where
  "fips_sha512_family = \<lparr>
     Sigma0 = \<lambda>x. word_rotr 28 x XOR word_rotr 34 x XOR word_rotr 39 x,
     Sigma1 = \<lambda>x. word_rotr 14 x XOR word_rotr 18 x XOR word_rotr 41 x,
     sigma0 = \<lambda>x. word_rotr 1 x XOR word_rotr 8 x XOR drop_bit 7 x,
     sigma1 = \<lambda>x. word_rotr 19 x XOR word_rotr 61 x XOR drop_bit 6 x,
     K_const = sha2_K 64, n_rounds = 80\<rparr>"

definition truncated_family :: "64 word sha2" where
  "truncated_family = fips_sha512_family\<lparr>K_const := \<lambda>t. if t < 64 then sha2_K 64 t else 0\<rparr>"

lemma bank_rotr64_eq: "0 < n \<Longrightarrow> n < 64 \<Longrightarrow> bank_rotr64 x n = word_rotr n x"
  by (simp add: bank_rotr64_def shifts_rotr64)

lemma sha512_functions:
  "Sigma0 truncated_family = bank_bsig0_64" "Sigma1 truncated_family = bank_bsig1_64"
  "sigma0 truncated_family = bank_ssig0_64" "sigma1 truncated_family = bank_ssig1_64"
  "sha2_Ch = bank_ch64" "sha2_Maj = bank_maj64" "n_rounds truncated_family = 80"
  by (simp_all add: fun_eq_iff truncated_family_def fips_sha512_family_def bank_bsig0_64_def
      bank_bsig1_64_def bank_ssig0_64_def bank_ssig1_64_def bank_rotr64_eq sha2_Ch_def sha2_Maj_def
      bank_ch64_def bank_maj64_def)

lemma length_sha512_k [layout, simp]: "length bank_sha512_k = 80"
  by (simp add: bank_sha512_k_def)

definition sha512_k_ints :: "int list" where
  "sha512_k_ints = concat [
     [0x428a2f98d728ae22, 0x7137449123ef65cd, 0xb5c0fbcfec4d3b2f, 0xe9b5dba58189dbbc],
     [0x3956c25bf348b538, 0x59f111f1b605d019, 0x923f82a4af194f9b, 0xab1c5ed5da6d8118],
     [0xd807aa98a3030242, 0x12835b0145706fbe, 0x243185be4ee4b28c, 0x550c7dc3d5ffb4e2],
     [0x72be5d74f27b896f, 0x80deb1fe3b1696b1, 0x9bdc06a725c71235, 0xc19bf174cf692694],
     [0xe49b69c19ef14ad2, 0xefbe4786384f25e3, 0x0fc19dc68b8cd5b5, 0x240ca1cc77ac9c65],
     [0x2de92c6f592b0275, 0x4a7484aa6ea6e483, 0x5cb0a9dcbd41fbd4, 0x76f988da831153b5],
     [0x983e5152ee66dfab, 0xa831c66d2db43210, 0xb00327c898fb213f, 0xbf597fc7beef0ee4],
     [0xc6e00bf33da88fc2, 0xd5a79147930aa725, 0x06ca6351e003826f, 0x142929670a0e6e70],
     [0x27b70a8546d22ffc, 0x2e1b21385c26c926, 0x4d2c6dfc5ac42aed, 0x53380d139d95b3df],
     [0x650a73548baf63de, 0x766a0abb3c77b2a8, 0x81c2c92e47edaee6, 0x92722c851482353b],
     [0xa2bfe8a14cf10364, 0xa81a664bbc423001, 0xc24b8b70d0f89791, 0xc76c51a30654be30],
     [0xd192e819d6ef5218, 0xd69906245565a910, 0xf40e35855771202a, 0x106aa07032bbd1b8],
     [0x19a4c116b8d2d0c8, 0x1e376c085141ab53, 0x2748774cdf8eeb99, 0x34b0bcb5e19b48a8],
     [0x391c0cb3c5c95a63, 0x4ed8aa4ae3418acb, 0x5b9cca4f7763e373, 0x682e6ff3d6b2b8a3],
     [0x748f82ee5defb2fc, 0x78a5636f43172f60, 0x84c87814a1f0ab72, 0x8cc702081a6439ec],
     [0x90befffa23631e28, 0xa4506cebde82bde9, 0xbef9a3f7b2c67915, 0xc67178f2e372532b]]"

lemma sha512_k_table:
  "list_all2 (cbrt_entry 64) (take (length sha512_k_ints) first_primes) sha512_k_ints"
  by code_simp

lemma sha512_K: "t < 80 \<Longrightarrow> bank_sha512_k ! t = K_const truncated_family t"
proof -
  assume t: "t < 80"
  have k: "bank_sha512_k = map word_of_int sha512_k_ints @ replicate 16 0"
    by (simp add: bank_sha512_k_def sha512_k_ints_def)
  have l: "length sha512_k_ints = 64" by (simp add: sha512_k_ints_def)
  show ?thesis
  proof (cases "t < 64")
    case True
    then show ?thesis
      unfolding k using l cbrt_table_K [where 'w = 64, of sha512_k_ints t] sha512_k_table
      by (simp add: truncated_family_def nth_append)
  next
    case False
    then show ?thesis unfolding k using l t by (simp add: truncated_family_def nth_append)
  qed
qed

lemma sha512_load_words:
  assumes "length blk = 128"
  shows "length (sha512_load blk) = 16" "t < 16 \<Longrightarrow> sha512_load blk ! t = be_words 8 blk ! t"
proof -
  show "length (sha512_load blk) = 16" by (simp add: sha512_load_def)
  assume t: "t < 16"
  have "take 8 (drop (8 * t) blk) = map (\<lambda>j. blk ! (8 * t + j)) [0, 1, 2, 3, 4, 5, 6, 7]"
    using t assms take_drop_8 [of "8 * t" blk] by simp
  moreover have "be_words 8 blk ! t = (be_word :: _ \<Rightarrow> u64) (take 8 (drop (8 * t) blk))"
    using t assms by (intro be_words_nth [where k = 16]) simp_all
  ultimately show "sha512_load blk ! t = be_words 8 blk ! t"
    using t by (simp add: sha512_load_def load_be64_def be_word_8 mult.commute)
qed

text \<open>
  The SHA-512 transform of one 128-byte block is the compression function of FIPS 180-4
  with the constants of the last sixteen rounds replaced by zero.
\<close>

theorem sha512_block_compress:
  assumes "length blk = 128"
  shows "sha512_block st blk = sha2_compress truncated_family st (be_words 8 blk)"
proof -
  let ?F = truncated_family and ?M = "be_words 8 blk"
  have "sha512_sched_step w i = w @ [sigma1 ?F (w ! (i - 2)) + w ! (i - 7)
      + sigma0 ?F (w ! (i - 15)) + w ! (i - 16)]" for w i
    by (simp add: sha512_sched_step_def sha512_functions)
  from schedule_loop [OF sha512_load_words [OF assms] this, where n = 64]
  have sched: "\<forall>t < 80. sha512_schedule blk ! t = sha2_W ?F ?M t" by (simp add: sha512_schedule_def)
  have "sha512_round (sha512_schedule blk) r i = sha2_step ?F (K_const ?F i) (sha2_W ?F ?M i) r"
    if "i < 80" for r i
  proof -
    obtain a b c d e f g h where "r = (a, b, c, d, e, f, g, h)" by (metis surj_pair)
    with that sched show ?thesis by (simp add: sha512_K [symmetric] sha512_functions)
  qed
  from this have "foldl (sha512_round (sha512_schedule blk)) (regs_of st) [0..<80]
      = sha2_rounds ?F ?M 80 (regs_of st)" by (rule rounds_loop)
  then show ?thesis by (simp add: sha512_block_def sha2_compress_def sha512_functions)
qed

lemma sha512_block_compress_witness:
  "sha512_block sha512_iv (replicate 128 0) =
     sha2_compress truncated_family sha512_iv (be_words 8 (replicate 128 0))"
  by (rule sha512_block_compress) simp

section \<open>What the digest is\<close>

text \<open>the chaining value of the complete blocks of a message\<close>

definition sha512_chain :: "bytes \<Rightarrow> u64 list" where
  "sha512_chain m = foldl sha512_block sha512_iv (chunks 128 (take (length m - length m mod 128) m))"

definition sha512_padded :: "bytes \<Rightarrow> bytes" where
  "sha512_padded m = m @ (replicate (120 - length m mod 128) 0)[0 := 0x80]
     @ be_bytes 8 (8 * length m)"

lemma sha512_init_absorbed: "sha512.absorbed sha512_iv [] bank_sha512_init"
  by (rule sha512.absorbed_Nil) (simp_all add: bank_sha512_init_def)

lemma sha512_absorbed_chain:
  assumes "length m < 2 ^ 64"
  shows "sha512_state (foldl sha512_absorb bank_sha512_init m) = sha512_chain m"
    and "sha512_count (foldl sha512_absorb bank_sha512_init m) = of_nat (length m)"
  using sha512.absorbed_foldl [OF sha512_init_absorbed, of m] assms
  by (simp_all add: sha512.absorbed_def sha512_chain_def)

lemma unat_pad_len:
  assumes "l < 2 ^ 64"
  shows "unat (sha512_pad_len (of_nat l)) =
    (if l mod 128 < 112 then 112 - l mod 128
     else if l mod 128 \<le> 120 then 120 - l mod 128 else 2 ^ 64 + 120 - l mod 128)"
proof -
  define r :: u64 where "r = of_nat l mod 128"
  have u: "unat r = l mod 128" using assms by (simp add: r_def unat_mod_128 unat_of_nat)
  have "l mod 128 < 128" by simp
  then show ?thesis
    unfolding sha512_pad_len_def r_def [symmetric] Let_def u [symmetric]
    by (auto simp: word_less_nat_alt word_le_nat_alt unat_sub_if' split: if_splits)
qed

text \<open>
  The digest of a message, by its length modulo 128: below 112 it is the chaining value
  of the complete blocks and the rest of the message has no part in it; from 112 to 120 the
  padded message is hashed (at 120 without the padding byte); above 120 the padding length
  wraps and the write runs past the padding array.
\<close>

theorem bank_sha512_cases:
  assumes len: "8 * length m < 2 ^ 64"
  shows "bank_sha512 m =
    (if length m mod 128 < 112 then Inr (sha512_output (sha512_chain m))
     else if length m mod 128 \<le> 120 then Inr (sha512_output (sha512_chain (sha512_padded m)))
     else Inl Buffer_Overflow)"
proof -
  define r where "r = length m mod 128"
  let ?c = "foldl sha512_absorb bank_sha512_init m" and ?l = "store_be64 (of_nat (length m) * 8)"
  let ?p = "\<lambda>n. (replicate n 0)[0 := 0x80]"
  have r: "r < 128" by (simp add: r_def)
  have cnt: "sha512_count ?c = of_nat (length m)" using len by (intro sha512_absorbed_chain) simp
  have pl: "unat (sha512_pad_len (of_nat (length m))) =
      (if r < 112 then 112 - r else if r \<le> 120 then 120 - r else 2 ^ 64 + 120 - r)"
    using len unfolding r_def by (intro unat_pad_len) simp
  have run: "bank_sha512 m = Inr (sha512_output (sha512_chain (m @ ?p n @ ?l)))"
    if "unat (sha512_pad_len (of_nat (length m))) = n" "n \<le> 128" for n
  proof -
    have "length (m @ ?p n @ ?l) < 2 ^ 64" using that(2) len by simp
    from sha512_absorbed_chain(1) [OF this] show ?thesis
      using that by (simp add: bank_sha512_def bank_sha512_final_def bank_sha512_update_def cnt)
  qed
  have l: "?l = be_bytes 8 (8 * length m)"
    using store_be64_of_nat [OF len] by (simp add: mult.commute)
  consider "r < 112" | "112 \<le> r" "r \<le> 120" | "120 < r" by linarith
  then show ?thesis
  proof cases
    case 1
    let ?P = "m @ ?p (112 - r) @ ?l"
    have lP: "length ?P = (length m - r) + 120" using 1 by (simp add: r_def)
    obtain k where k: "length m - r = 128 * k" unfolding r_def by (metis dvd_minus_mod dvd_def)
    have "length ?P - length ?P mod 128 = length m - r" unfolding lP k by simp
    then have "sha512_chain ?P = sha512_chain m" by (simp add: sha512_chain_def r_def)
    then show ?thesis using run [of "112 - r"] pl 1 by (simp add: r_def)
  next
    case 2
    then show ?thesis using run [of "120 - r"] pl l by (simp add: r_def sha512_padded_def)
  next
    case 3
    then have "128 < unat (sha512_pad_len (of_nat (length m)))" using pl r by simp
    then show ?thesis using 3
      by (simp add: bank_sha512_def bank_sha512_final_def bank_sha512_update_def cnt r_def)
  qed
qed

lemma bank_sha512_cases_witness:
  "bank_sha512 (replicate 112 0) = Inr (sha512_output (sha512_chain (sha512_padded (replicate 112 0))))
   \<and> bank_sha512 (replicate 121 0) = Inl Buffer_Overflow"
  using bank_sha512_cases [of "replicate 112 0"] bank_sha512_cases [of "replicate 121 0"] by simp

end
