(* ===== verification/Bank_Chacha20.thy ===== *)
theory Bank_Chacha20
  imports Bank_Prelude
begin

text \<open>
  ChaCha20 (\<open>src/chacha20/bank_chacha20_core.cpp\<close>): the context, the quarter round on the
  working array, the block function and the encryption loop, which implements the interface
  \<open>key_stream\<close>. The block function is that of RFC 8439 with the bytes of every key and
  nonce word reversed.
\<close>

section \<open>The code\<close>

text \<open>
  The four pointers of the function never alias: it is the function on the four words they
  point to, and the caller's array receives the results at their indices.
\<close>

fun bank_chacha20_quarter_round :: "u32 \<times> u32 \<times> u32 \<times> u32 \<Rightarrow> u32 \<times> u32 \<times> u32 \<times> u32" where
  "bank_chacha20_quarter_round (a, b, c, d) =
     (let a = a + b;
          d = d XOR a;
          d = push_bit 16 d OR drop_bit 16 d;
          c = c + d;
          b = b XOR c;
          b = push_bit 12 b OR drop_bit 20 b;
          a = a + b;
          d = d XOR a;
          d = push_bit 8 d OR drop_bit 24 d;
          c = c + d;
          b = b XOR c;
          b = push_bit 7 b OR drop_bit 25 b
      in (a, b, c, d))"

definition chacha20_quarter_at :: "nat \<Rightarrow> nat \<Rightarrow> nat \<Rightarrow> nat \<Rightarrow> u32 list \<Rightarrow> u32 list" where
  "chacha20_quarter_at i j k l w =
     (let (a, b, c, d) = bank_chacha20_quarter_round (w ! i, w ! j, w ! k, w ! l)
      in w[i := a, j := b, k := c, l := d])"

record chacha20_ctx =
  chacha_key :: bytes
  chacha_nonce :: bytes
  chacha_counter :: u32

definition bank_chacha20_init :: "bytes \<Rightarrow> bytes \<Rightarrow> u32 \<Rightarrow> chacha20_ctx" where
  "bank_chacha20_init key nonce counter =
     \<lparr>chacha_key = take 32 key, chacha_nonce = take 12 nonce, chacha_counter = counter\<rparr>"

definition chacha20_state :: "chacha20_ctx \<Rightarrow> u32 list" where
  "chacha20_state ctx =
     [0x61707865, 0x3320646e, 0x79622d32, 0x6b206574]
     @ map (\<lambda>i. load_be32 (chacha_key ctx) (i * 4)) [0..<8]
     @ [chacha_counter ctx, load_be32 (chacha_nonce ctx) 0, load_be32 (chacha_nonce ctx) 4,
        load_be32 (chacha_nonce ctx) 8]"

definition chacha20_double_round :: "u32 list \<Rightarrow> nat \<Rightarrow> u32 list" where
  "chacha20_double_round w i =
     (let w = chacha20_quarter_at 0 4 8 12 w;
          w = chacha20_quarter_at 1 5 9 13 w;
          w = chacha20_quarter_at 2 6 10 14 w;
          w = chacha20_quarter_at 3 7 11 15 w;
          w = chacha20_quarter_at 0 5 10 15 w;
          w = chacha20_quarter_at 1 6 11 12 w;
          w = chacha20_quarter_at 2 7 8 13 w
      in chacha20_quarter_at 3 4 9 14 w)"

definition bank_chacha20_block :: "chacha20_ctx \<Rightarrow> chacha20_ctx \<times> bytes" where
  "bank_chacha20_block ctx =
     (let x = chacha20_state ctx;
          working = foldl chacha20_double_round x [0..<10];
          output = concat (map (\<lambda>i. store_le32 (working ! i + x ! i)) [0..<16])
      in (ctx\<lparr>chacha_counter := chacha_counter ctx + 1\<rparr>, output))"

function (sequential) bank_chacha20_encrypt :: "chacha20_ctx \<Rightarrow> bytes \<Rightarrow> chacha20_ctx \<times> bytes" where
  "bank_chacha20_encrypt ctx input =
     (if 0 < length input then
        let (ctx, block) = bank_chacha20_block ctx;
            block_len = (if length input < 64 then length input else 64);
            (ctx, rest) = bank_chacha20_encrypt ctx (drop block_len input)
        in (ctx, map (\<lambda>i. input ! i XOR block ! i) [0..<block_len] @ rest)
      else (ctx, []))"
  by pat_completeness auto
termination
  by (relation "measure (\<lambda>(ctx, input). length input)") auto

declare bank_chacha20_encrypt.simps [simp del]

definition bank_chacha20_set_counter :: "chacha20_ctx \<Rightarrow> u32 \<Rightarrow> chacha20_ctx" where
  "bank_chacha20_set_counter ctx counter = ctx\<lparr>chacha_counter := counter\<rparr>"

definition bank_chacha20_get_counter :: "chacha20_ctx \<Rightarrow> u32" where
  "bank_chacha20_get_counter ctx = chacha_counter ctx"

section \<open>The key stream\<close>

lemma length_chacha20_block [layout, simp]: "length (snd (bank_chacha20_block ctx)) = 64"
  by (simp add: bank_chacha20_block_def Let_def length_concat o_def sum_list_triv)

interpretation chacha: key_stream "\<lambda>c. snd (bank_chacha20_block c)" "\<lambda>c. fst (bank_chacha20_block c)" 64
  "\<lambda>_. True"
  by unfold_locales simp_all

lemma chacha20_encrypt_stream:
  "snd (bank_chacha20_encrypt ctx x) =
     xor_stream (\<lambda>c. snd (bank_chacha20_block c)) (\<lambda>c. fst (bank_chacha20_block c)) 64 ctx x"
proof (induction x arbitrary: ctx rule: length_induct)
  case (1 x)
  show ?case
  proof (cases "x = []")
    case False
    define c b where "c = fst (bank_chacha20_block ctx)" and "b = snd (bank_chacha20_block ctx)"
    define n where "n = (if length x < 64 then length x else 64)"
    have lb: "length b = 64" by (simp add: b_def)
    have h: "map (\<lambda>i. x ! i XOR b ! i) [0..<n] = xor_bytes (take 64 x) b"
      using lb by (intro nth_equalityI) (auto simp: n_def split: if_splits)
    have d: "drop n x = drop 64 x" by (simp add: n_def)
    have "snd (bank_chacha20_encrypt ctx x) = map (\<lambda>i. x ! i XOR b ! i) [0..<n] @ snd (bank_chacha20_encrypt c (drop n x))"
      using False by (subst bank_chacha20_encrypt.simps) (simp add: split_def Let_def c_def b_def n_def)
    moreover have "length (drop 64 x) < length x" using False by simp
    ultimately show ?thesis
      unfolding h d using 1 False by (simp add: xor_stream_unfold c_def b_def)
  qed (simp add: bank_chacha20_encrypt.simps)
qed

lemma chacha20_encrypt_ctx:
  "fst (bank_chacha20_encrypt ctx x) =
     ctx\<lparr>chacha_counter := chacha_counter ctx + of_nat ((length x + 63) div 64)\<rparr>"
proof (induction x arbitrary: ctx rule: length_induct)
  case (1 x)
  show ?case
  proof (cases "x = []")
    case False
    define n where "n = (if length x < 64 then length x else 64)"
    have "fst (bank_chacha20_encrypt ctx x) = fst (bank_chacha20_encrypt (fst (bank_chacha20_block ctx)) (drop n x))"
      using False by (subst bank_chacha20_encrypt.simps) (simp add: split_def Let_def n_def)
    also have "\<dots> = (fst (bank_chacha20_block ctx))\<lparr>chacha_counter :=
        chacha_counter (fst (bank_chacha20_block ctx)) + of_nat ((length (drop n x) + 63) div 64)\<rparr>"
      using 1 False by (simp add: n_def)
    also have "\<dots> = ctx\<lparr>chacha_counter := chacha_counter ctx + of_nat (Suc ((length (drop n x) + 63) div 64))\<rparr>"
      by (simp add: bank_chacha20_block_def Let_def)
    also have "Suc ((length (drop n x) + 63) div 64) = (length x + 63) div 64"
    proof (cases "length x < 64")
      case True
      moreover obtain k where "length x = Suc k" using False by (cases x) auto
      ultimately show ?thesis by (simp add: n_def)
    next
      case ge: False
      then obtain k where "length x = 64 + k" by (metis le_add_diff_inverse not_less)
      then show ?thesis by (simp add: n_def)
    qed
    finally show ?thesis .
  qed (simp add: bank_chacha20_encrypt.simps)
qed

section \<open>RFC 8439\<close>

text \<open>
  The quarter round on four words, a round on the columns and the diagonals, the block
  function from a 32-byte key, a block counter and a 12-byte nonce, and the encryption,
  written from the RFC.
\<close>

fun rfc8439_quarter :: "u32 \<times> u32 \<times> u32 \<times> u32 \<Rightarrow> u32 \<times> u32 \<times> u32 \<times> u32" where
  "rfc8439_quarter (a, b, c, d) =
     (let a = a + b; d = word_rotl 16 (d XOR a);
          c = c + d; b = word_rotl 12 (b XOR c);
          a = a + b; d = word_rotl 8 (d XOR a);
          c = c + d; b = word_rotl 7 (b XOR c)
      in (a, b, c, d))"

definition rfc8439_qround :: "nat \<Rightarrow> nat \<Rightarrow> nat \<Rightarrow> nat \<Rightarrow> u32 list \<Rightarrow> u32 list" where
  "rfc8439_qround i j k l s =
     (let (a, b, c, d) = rfc8439_quarter (s ! i, s ! j, s ! k, s ! l)
      in s[i := a, j := b, k := c, l := d])"

definition rfc8439_inner_block :: "u32 list \<Rightarrow> u32 list" where
  "rfc8439_inner_block s =
     fold (\<lambda>(i, j, k, l). rfc8439_qround i j k l)
       [(0, 4, 8, 12), (1, 5, 9, 13), (2, 6, 10, 14), (3, 7, 11, 15),
        (0, 5, 10, 15), (1, 6, 11, 12), (2, 7, 8, 13), (3, 4, 9, 14)] s"

definition rfc8439_block :: "bytes \<Rightarrow> u32 \<Rightarrow> bytes \<Rightarrow> bytes" where
  "rfc8439_block key counter nonce =
     (let s = [0x61707865, 0x3320646e, 0x79622d32, 0x6b206574]
            @ map (load_le32 key) [0, 4, 8, 12, 16, 20, 24, 28] @ [counter] @ map (load_le32 nonce) [0, 4, 8]
      in concat (map store_le32 (map2 (+) ((rfc8439_inner_block ^^ 10) s) s)))"

definition rfc8439_encrypt :: "bytes \<Rightarrow> u32 \<Rightarrow> bytes \<Rightarrow> bytes \<Rightarrow> bytes" where
  "rfc8439_encrypt key counter nonce plaintext =
     map (\<lambda>i. plaintext ! i XOR rfc8439_block key (counter + of_nat (i div 64)) nonce ! (i mod 64))
       [0..<length plaintext]"

text \<open>every group of four bytes reversed\<close>

definition swap_words :: "bytes \<Rightarrow> bytes" where
  "swap_words xs = map (\<lambda>i. xs ! (4 * (i div 4) + (3 - i mod 4))) [0..<length xs]"

lemma quarter_round_rfc: "bank_chacha20_quarter_round = rfc8439_quarter"
proof
  fix q :: "u32 \<times> u32 \<times> u32 \<times> u32"
  have r: "push_bit 16 y OR drop_bit 16 y = word_rotl 16 y" "push_bit 12 y OR drop_bit 20 y = word_rotl 12 y"
    "push_bit 8 y OR drop_bit 24 y = word_rotl 8 y" "push_bit 7 y OR drop_bit 25 y = word_rotl 7 y" for y :: u32
    using shifts_rotl32 [of 16 y] shifts_rotl32 [of 12 y] shifts_rotl32 [of 8 y] shifts_rotl32 [of 7 y] by simp_all
  obtain a b c d where "q = (a, b, c, d)" by (metis surj_pair)
  then show "bank_chacha20_quarter_round q = rfc8439_quarter q"
    by (simp only: bank_chacha20_quarter_round.simps rfc8439_quarter.simps r Let_def)
qed

lemma swap_words_load:
  assumes "4 * i + 4 \<le> length xs"
  shows "load_le32 (swap_words xs) (4 * i) = load_be32 xs (4 * i)"
proof -
  have "(4 * i + j) div 4 = i" "(4 * i + j) mod 4 = j" if "j < 4" for j using that by simp_all
  then have n: "swap_words xs ! (4 * i + j) = xs ! (4 * i + (3 - j))" if "j < 4" for j
    using that assms by (simp add: swap_words_def)
  have r: "(a OR b OR c OR d) = (d OR c OR b OR (a::u32))" for a b c d
    by (rule bit_word_eqI) (auto simp: bit_or_iff)
  from n [of 0] n [of 1] n [of 2] n [of 3]
  have "load_le32 (swap_words xs) (4 * i) = ucast (xs ! (4 * i + 3)) OR push_bit 8 (ucast (xs ! (4 * i + 2)))
      OR push_bit 16 (ucast (xs ! (4 * i + 1))) OR push_bit 24 (ucast (xs ! (4 * i)))"
    by (simp add: load_le32_def)
  also have "\<dots> = load_be32 xs (4 * i)" unfolding load_be32_def by (rule r)
  finally show ?thesis .
qed

lemma double_round_rfc: "chacha20_double_round w i = rfc8439_inner_block w"
proof -
  have "chacha20_quarter_at = rfc8439_qround"
    by (simp add: fun_eq_iff chacha20_quarter_at_def rfc8439_qround_def quarter_round_rfc)
  then show ?thesis by (simp add: chacha20_double_round_def rfc8439_inner_block_def Let_def)
qed

lemma length_rfc8439_qround [layout, simp]: "length (rfc8439_qround i j k l w) = length w"
  by (simp add: rfc8439_qround_def del: rfc8439_quarter.simps split: prod.split)

lemma foldl_const: "(\<And>s i. f s i = g s) \<Longrightarrow> foldl f s [0..<n] = (g ^^ n) s"
  by (induction n) simp_all

lemma chacha20_block_rfc:
  assumes "length (chacha_key ctx) = 32" "length (chacha_nonce ctx) = 12"
  shows "snd (bank_chacha20_block ctx) =
    rfc8439_block (swap_words (chacha_key ctx)) (chacha_counter ctx) (swap_words (chacha_nonce ctx))"
proof -
  let ?k = "swap_words (chacha_key ctx)" and ?n = "swap_words (chacha_nonce ctx)"
  define s where "s = chacha20_state ctx"
  have "map (\<lambda>i. load_be32 (chacha_key ctx) (i * 4)) [0..<8] = map (\<lambda>i. load_le32 ?k (4 * i)) [0..<8]"
  proof (intro map_cong refl)
    fix i assume "i \<in> set [0..<8]"
    then have "load_le32 ?k (4 * i) = load_be32 (chacha_key ctx) (4 * i)"
      using assms by (intro swap_words_load) simp
    then show "load_be32 (chacha_key ctx) (i * 4) = load_le32 ?k (4 * i)" by (simp only: mult.commute)
  qed
  also have "\<dots> = map (load_le32 ?k) [0, 4, 8, 12, 16, 20, 24, 28]" by (simp add: upt_rec)
  finally have k: "map (\<lambda>i. load_be32 (chacha_key ctx) (i * 4)) [0..<8] = map (load_le32 ?k) [0, 4, 8, 12, 16, 20, 24, 28]" .
  have n: "[load_be32 (chacha_nonce ctx) 0, load_be32 (chacha_nonce ctx) 4, load_be32 (chacha_nonce ctx) 8]
      = map (load_le32 ?n) [0, 4, 8]"
    using assms swap_words_load [of 0 "chacha_nonce ctx"] swap_words_load [of 1 "chacha_nonce ctx"]
      swap_words_load [of 2 "chacha_nonce ctx"] by simp
  have s: "s = [0x61707865, 0x3320646e, 0x79622d32, 0x6b206574]
            @ map (load_le32 ?k) [0, 4, 8, 12, 16, 20, 24, 28] @ [chacha_counter ctx] @ map (load_le32 ?n) [0, 4, 8]"
    unfolding s_def chacha20_state_def k n [symmetric] by simp
  have "length (rfc8439_inner_block w) = length w" for w
    by (simp add: rfc8439_inner_block_def)
  then have l: "length ((rfc8439_inner_block ^^ j) w) = length w" for j w
    by (induction j) simp_all
  have "map (\<lambda>i. store_le32 (w ! i + s ! i)) [0..<16] = map store_le32 (map2 (+) w s)" if "length w = 16" for w
    using that by (intro nth_equalityI) (simp_all add: s)
  moreover have "foldl chacha20_double_round s [0..<10] = (rfc8439_inner_block ^^ 10) s"
    by (rule foldl_const) (rule double_round_rfc)
  moreover have "length ((rfc8439_inner_block ^^ 10) s) = 16" unfolding l by (simp add: s)
  ultimately show ?thesis
    unfolding bank_chacha20_block_def rfc8439_block_def Let_def s_def [symmetric] s [symmetric] snd_conv
    by (simp only:)
qed

lemma chacha20_next:
  "((\<lambda>c. fst (bank_chacha20_block c)) ^^ j) ctx = ctx\<lparr>chacha_counter := chacha_counter ctx + of_nat j\<rparr>"
  by (induction j) (simp_all add: bank_chacha20_block_def Let_def ac_simps)

text \<open>
  C10: bank_chacha20_encrypt is the encryption of RFC 8439 under the key and nonce with the
  bytes of each word reversed; it leaves the counter advanced by one per started block, and
  a second pass from the same context restores the input.
\<close>

theorem chacha20_encrypt_rfc:
  assumes "length (chacha_key ctx) = 32" "length (chacha_nonce ctx) = 12"
  shows "bank_chacha20_encrypt ctx x =
      (ctx\<lparr>chacha_counter := chacha_counter ctx + of_nat ((length x + 63) div 64)\<rparr>,
       rfc8439_encrypt (swap_words (chacha_key ctx)) (chacha_counter ctx) (swap_words (chacha_nonce ctx)) x)
    \<and> snd (bank_chacha20_encrypt ctx (snd (bank_chacha20_encrypt ctx x))) = x"
proof
  have "snd (bank_chacha20_encrypt ctx x) =
      rfc8439_encrypt (swap_words (chacha_key ctx)) (chacha_counter ctx) (swap_words (chacha_nonce ctx)) x"
    using assms
    by (intro nth_equalityI)
       (simp_all add: chacha20_encrypt_stream chacha.stream_length chacha.stream_nth chacha20_next
         chacha20_block_rfc rfc8439_encrypt_def)
  then show "bank_chacha20_encrypt ctx x =
      (ctx\<lparr>chacha_counter := chacha_counter ctx + of_nat ((length x + 63) div 64)\<rparr>,
       rfc8439_encrypt (swap_words (chacha_key ctx)) (chacha_counter ctx) (swap_words (chacha_nonce ctx)) x)"
    by (simp add: prod_eq_iff chacha20_encrypt_ctx)
  show "snd (bank_chacha20_encrypt ctx (snd (bank_chacha20_encrypt ctx x))) = x"
    by (simp add: chacha20_encrypt_stream chacha.stream_involution)
qed

lemma chacha20_encrypt_rfc_witness:
  "snd (bank_chacha20_encrypt (bank_chacha20_init (replicate 32 1) (replicate 12 2) 1) [104, 105]) =
     rfc8439_encrypt (swap_words (replicate 32 1)) 1 (swap_words (replicate 12 2)) [104, 105]"
  using chacha20_encrypt_rfc [of "bank_chacha20_init (replicate 32 1) (replicate 12 2) 1" "[104, 105]"]
  by (simp add: bank_chacha20_init_def)

end
