(* ===== verification/Bank_Poly1305.thy ===== *)
theory Bank_Poly1305
  imports Bank_Chacha20
begin

text \<open>
  Poly1305 (\<open>src/poly1305/bank_poly1305_core.cpp\<close>) and the combined construction
  (\<open>src/chacha20/bank_chacha20_encrypt.cpp\<close>). The context has one array that is both the
  accumulator and the input buffer, so a full block overwrites what was accumulated: only
  the last block reaches the tag, which for the combined construction is the block of the
  two lengths. The accumulator is copied between words and bytes by memcpy, on a
  little-endian host.
\<close>

section \<open>The code\<close>

record poly1305_ctx =
  poly_r :: "u32 list"
  poly_s :: "u32 list"
  poly_buf :: bytes
  poly_buf_len :: nat
  poly_total_len :: u64

definition bank_poly1305_init :: "bytes \<Rightarrow> poly1305_ctx" where
  "bank_poly1305_init key =
     \<lparr>poly_r = map (\<lambda>i. load_le32 key (i * 4) AND 0x0ffffffc) [0..<4],
      poly_s = map (\<lambda>i. load_le32 key (16 + i * 4)) [0..<4],
      poly_buf = replicate 16 0, poly_buf_len = 0, poly_total_len = 0\<rparr>"

text \<open>the words of a block of at most 16 bytes, and its end marker\<close>

definition poly1305_words :: "bytes \<Rightarrow> u32 list" where
  "poly1305_words block =
     foldl (\<lambda>t i. t[i div 4 := t ! (i div 4) OR push_bit ((i mod 4) * 8) (ucast (block ! i))])
       [0, 0, 0, 0] [0..<length block]"

definition poly1305_h :: "bytes \<Rightarrow> u32 list" where
  "poly1305_h buf = map (\<lambda>i. load_le32 buf (i * 4)) [0..<4]"

text \<open>the carry chain over four limbs of 26 bits, the same in both functions\<close>

definition poly1305_carry :: "u32 list \<Rightarrow> u32 list" where
  "poly1305_carry h =
     (let carry = drop_bit 26 (h ! 0); h = h[1 := h ! 1 + carry]; h = h[0 := h ! 0 AND 0x3ffffff];
          carry = drop_bit 26 (h ! 1); h = h[2 := h ! 2 + carry]; h = h[1 := h ! 1 AND 0x3ffffff];
          carry = drop_bit 26 (h ! 2); h = h[3 := h ! 3 + carry]; h = h[2 := h ! 2 AND 0x3ffffff];
          carry = drop_bit 26 (h ! 3); h = h[0 := h ! 0 + carry * 5]; h = h[3 := h ! 3 AND 0x3ffffff];
          carry = drop_bit 26 (h ! 0); h = h[1 := h ! 1 + carry]
      in h[0 := h ! 0 AND 0x3ffffff])"

definition poly1305_multiply :: "u32 list \<Rightarrow> u32 list \<Rightarrow> u32 list" where
  "poly1305_multiply r h =
     (let w = (\<lambda>x. ucast x :: u64);
          r0 = w (r ! 0); r1 = w (r ! 1); r2 = w (r ! 2); r3 = w (r ! 3);
          h0 = w (h ! 0); h1 = w (h ! 1); h2 = w (h ! 2); h3 = w (h ! 3);
          s0 = h0 * r0 + h1 * r3 * 5 + h2 * r2 * 5 + h3 * r1 * 5;
          s1 = h0 * r1 + h1 * r0 + h2 * r3 * 5 + h3 * r2 * 5;
          s2 = h0 * r2 + h1 * r1 + h2 * r0 + h3 * r3 * 5;
          s3 = h0 * r3 + h1 * r2 + h2 * r1 + h3 * r0
      in [ucast (s0 AND 0x3ffffff),
          ucast (drop_bit 26 s0 OR push_bit 6 (s1 AND 0x3ffffff)),
          ucast (drop_bit 20 s1 OR push_bit 12 (s2 AND 0x3ffffff)),
          ucast (drop_bit 14 s2 OR push_bit 18 (s3 AND 0x3ffffff))])"

text \<open>
  The shift that sets the end marker is on an int: from four bytes on it is undefined.
\<close>

definition bank_poly1305_add_block :: "poly1305_ctx \<Rightarrow> bytes \<Rightarrow> bool \<Rightarrow> poly1305_ctx run" where
  "bank_poly1305_add_block ctx block final_block =
     (if final_block \<and> 4 \<le> length block then Inl Bad_Shift
      else let t = poly1305_words block;
               t = (if final_block then t[0 := t ! 0 OR push_bit (length block * 8) 1] else t);
               h = poly1305_h (poly_buf ctx);
               h = map (\<lambda>i. h ! i + (t ! i AND 0x3ffffff)) [0..<4];
               h = poly1305_multiply (poly_r ctx) (poly1305_carry h)
           in Inr (ctx\<lparr>poly_buf := concat (map store_le32 h)\<rparr>))"

definition poly1305_put :: "poly1305_ctx \<Rightarrow> u8 \<Rightarrow> poly1305_ctx run" where
  "poly1305_put ctx b =
     (let ctx = ctx\<lparr>poly_buf := (poly_buf ctx)[poly_buf_len ctx := b], poly_buf_len := poly_buf_len ctx + 1\<rparr>
      in if poly_buf_len ctx = 16
         then (case bank_poly1305_add_block ctx (poly_buf ctx) False of
                 Inl f \<Rightarrow> Inl f
               | Inr ctx \<Rightarrow> Inr (ctx\<lparr>poly_buf_len := 0\<rparr>))
         else Inr ctx)"

primrec poly1305_puts :: "poly1305_ctx \<Rightarrow> bytes \<Rightarrow> poly1305_ctx run" where
  "poly1305_puts ctx [] = Inr ctx"
| "poly1305_puts ctx (b # bs) =
     (case poly1305_put ctx b of Inl f \<Rightarrow> Inl f | Inr ctx \<Rightarrow> poly1305_puts ctx bs)"

definition bank_poly1305_update :: "poly1305_ctx \<Rightarrow> bytes \<Rightarrow> poly1305_ctx run" where
  "bank_poly1305_update ctx data =
     (case poly1305_puts ctx data of
        Inl f \<Rightarrow> Inl f
      | Inr ctx \<Rightarrow> Inr (ctx\<lparr>poly_total_len := poly_total_len ctx + of_nat (length data)\<rparr>))"

definition bank_poly1305_final :: "poly1305_ctx \<Rightarrow> bytes run" where
  "bank_poly1305_final ctx =
     (case bank_poly1305_add_block ctx (take (poly_buf_len ctx) (poly_buf ctx)) True of
        Inl f \<Rightarrow> Inl f
      | Inr ctx \<Rightarrow>
          (let h = poly1305_h (poly_buf ctx);
               h = map (\<lambda>i. h ! i + poly_s ctx ! i) [0..<4];
               h = poly1305_carry h
           in Inr (concat (map store_le32 h))))"

text \<open>
  The combined construction. The pieces the authenticator reads are the associated data and
  its padding, the ciphertext and its padding, and the lengths as two host words.
\<close>

definition bank_encrypt_chacha20_poly1305 ::
  "bytes \<Rightarrow> bytes \<Rightarrow> bytes \<Rightarrow> bytes \<Rightarrow> (bytes \<times> bytes) run" where
  "bank_encrypt_chacha20_poly1305 key nonce aad plain =
     (let chacha_ctx = \<lparr>chacha_key = take 32 key, chacha_nonce = take 12 nonce, chacha_counter = 0\<rparr>;
          (chacha_ctx, cipher) = bank_chacha20_encrypt chacha_ctx plain;
          chacha_ctx = chacha_ctx\<lparr>chacha_counter := 0\<rparr>;
          (chacha_ctx, poly_key_block) = bank_chacha20_encrypt chacha_ctx (replicate 64 0);
          poly_ctx = bank_poly1305_init (take 32 poly_key_block);
          pad = (\<lambda>n. replicate ((16 - (n mod 16)) mod 16) (0::u8));
          len_block = store_le64 (of_nat (length aad) * 8) @ store_le64 (of_nat (length plain) * 8)
      in case bank_poly1305_update poly_ctx aad of
           Inl f \<Rightarrow> Inl f
         | Inr p1 \<Rightarrow> (case bank_poly1305_update p1 (pad (length aad)) of
             Inl f \<Rightarrow> Inl f
           | Inr p2 \<Rightarrow> (case bank_poly1305_update p2 cipher of
               Inl f \<Rightarrow> Inl f
             | Inr p3 \<Rightarrow> (case bank_poly1305_update p3 (pad (length plain)) of
                 Inl f \<Rightarrow> Inl f
               | Inr p4 \<Rightarrow> (case bank_poly1305_update p4 len_block of
                   Inl f \<Rightarrow> Inl f
                 | Inr p5 \<Rightarrow> (case bank_poly1305_final p5 of
                     Inl f \<Rightarrow> Inl f
                   | Inr tag \<Rightarrow> Inr (cipher, tag)))))))"

section \<open>Only the last block reaches the tag\<close>

lemma add_block_not_final:
  "bank_poly1305_add_block ctx block False =
     Inr (ctx\<lparr>poly_buf := concat (map store_le32 (poly1305_multiply (poly_r ctx) (poly1305_carry
       (map (\<lambda>i. poly1305_h (poly_buf ctx) ! i + (poly1305_words block ! i AND 0x3ffffff)) [0..<4]))))\<rparr>)"
  by (simp add: bank_poly1305_add_block_def Let_def)

text \<open>what a full block leaves in the array: it depends on the key and the block alone\<close>

definition poly1305_after :: "u32 list \<Rightarrow> bytes \<Rightarrow> bytes" where
  "poly1305_after r block = concat (map store_le32 (poly1305_multiply r (poly1305_carry
     (map (\<lambda>i. poly1305_h block ! i + (poly1305_words block ! i AND 0x3ffffff)) [0..<4]))))"

lemma length_poly1305_after [layout, simp]: "length (poly1305_after r block) = 16"
  by (simp add: poly1305_after_def poly1305_multiply_def Let_def)

definition poly1305_ok :: "poly1305_ctx \<Rightarrow> bool" where
  "poly1305_ok ctx \<longleftrightarrow> length (poly_buf ctx) = 16 \<and> poly_buf_len ctx < 16"

lemma poly1305_put_eq:
  "poly1305_put ctx b =
    (let buf = (poly_buf ctx)[poly_buf_len ctx := b]
     in if poly_buf_len ctx = 15
        then Inr (ctx\<lparr>poly_buf := poly1305_after (poly_r ctx) buf, poly_buf_len := 0\<rparr>)
        else Inr (ctx\<lparr>poly_buf := buf, poly_buf_len := poly_buf_len ctx + 1\<rparr>))"
  by (simp add: poly1305_put_def Let_def add_block_not_final poly1305_after_def)

lemma poly1305_puts_append:
  "poly1305_puts ctx (xs @ ys) =
     (case poly1305_puts ctx xs of Inl f \<Rightarrow> Inl f | Inr c \<Rightarrow> poly1305_puts c ys)"
  by (induction xs arbitrary: ctx) (simp_all split: sum.split)

text \<open>
  Without reaching the end of the buffer, bytes are only written to it; a run of bytes that
  fills it leaves a context that depends on the key and the buffer.
\<close>

lemma poly1305_puts_short:
  "poly1305_ok ctx \<Longrightarrow> poly_buf_len ctx + length xs < 16 \<Longrightarrow>
   poly1305_puts ctx xs =
     Inr (ctx\<lparr>poly_buf := blit (poly_buf ctx) (poly_buf_len ctx) xs, poly_buf_len := poly_buf_len ctx + length xs\<rparr>)"
proof (induction xs arbitrary: ctx)
  case Nil
  then show ?case by (simp add: blit_def)
next
  case (Cons b xs)
  let ?c = "ctx\<lparr>poly_buf := (poly_buf ctx)[poly_buf_len ctx := b], poly_buf_len := poly_buf_len ctx + 1\<rparr>"
  have "poly1305_put ctx b = Inr ?c" using Cons.prems by (simp add: poly1305_put_eq Let_def)
  moreover have "poly1305_puts ?c xs = Inr (?c\<lparr>poly_buf := blit (poly_buf ?c) (poly_buf_len ?c) xs,
      poly_buf_len := poly_buf_len ?c + length xs\<rparr>)"
    using Cons.prems by (intro Cons.IH) (simp_all add: poly1305_ok_def)
  moreover have "blit ((poly_buf ctx)[poly_buf_len ctx := b]) (Suc (poly_buf_len ctx)) xs
      = blit (poly_buf ctx) (poly_buf_len ctx) (b # xs)"
    using Cons.prems by (simp add: blit_def poly1305_ok_def take_Suc_conv_app_nth)
  ultimately show ?case by simp
qed

lemma poly1305_puts_block:
  assumes "poly1305_ok ctx" "poly_buf_len ctx = 0" "length xs = 16"
  shows "poly1305_puts ctx xs = Inr (ctx\<lparr>poly_buf := poly1305_after (poly_r ctx) xs\<rparr>)"
proof -
  define ys b where "ys = take 15 xs" and "b = xs ! 15"
  have xs: "xs = ys @ [b]" "length ys = 15"
    using assms(3) take_Suc_conv_app_nth [of 15 xs] by (simp_all add: ys_def b_def)
  have bl: "length (blit (poly_buf ctx) 0 ys) = 16" using assms xs by (simp add: poly1305_ok_def)
  have "(blit (poly_buf ctx) 0 ys)[15 := b] = xs"
    using assms xs by (simp add: blit_def poly1305_ok_def list_update_append
        length_Suc_conv numeral_eq_Suc) auto
  then show ?thesis
    unfolding xs(1) poly1305_puts_append using assms xs
    by (simp add: poly1305_puts_short poly1305_put_eq Let_def)
qed

definition poly1305_same_key :: "poly1305_ctx \<Rightarrow> poly1305_ctx \<Rightarrow> bool" where
  "poly1305_same_key c d \<longleftrightarrow> poly_r d = poly_r c \<and> poly_s d = poly_s c"

lemma poly1305_put_inv:
  assumes "poly1305_ok ctx"
  shows "\<exists>c. poly1305_put ctx b = Inr c \<and> poly1305_ok c \<and> poly1305_same_key ctx c \<and>
    poly_buf_len c = (poly_buf_len ctx + 1) mod 16"
  using assms by (auto simp: poly1305_put_eq Let_def poly1305_ok_def poly1305_same_key_def)

lemma poly1305_puts_inv:
  "poly1305_ok ctx \<Longrightarrow> \<exists>c. poly1305_puts ctx xs = Inr c \<and> poly1305_ok c \<and> poly1305_same_key ctx c \<and>
    poly_buf_len c = (poly_buf_len ctx + length xs) mod 16"
proof (induction xs arbitrary: ctx)
  case Nil
  then show ?case by (simp add: poly1305_ok_def poly1305_same_key_def)
next
  case (Cons b xs)
  obtain c where c: "poly1305_put ctx b = Inr c" "poly1305_ok c" "poly1305_same_key ctx c"
    "poly_buf_len c = (poly_buf_len ctx + 1) mod 16"
    using poly1305_put_inv [OF Cons.prems] by blast
  obtain d where "poly1305_puts c xs = Inr d" "poly1305_ok d" "poly1305_same_key c d"
    "poly_buf_len d = (poly_buf_len c + length xs) mod 16"
    using Cons.IH [OF c(2)] by blast
  with c show ?case by (simp add: poly1305_same_key_def mod_add_left_eq)
qed

lemma poly1305_update_inv:
  "poly1305_ok ctx \<Longrightarrow> \<exists>c. bank_poly1305_update ctx xs = Inr c \<and> poly1305_ok c \<and> poly1305_same_key ctx c \<and>
    poly_buf_len c = (poly_buf_len ctx + length xs) mod 16"
  using poly1305_puts_inv [of ctx xs]
  by (auto simp: bank_poly1305_update_def poly1305_ok_def poly1305_same_key_def)

text \<open>the tag after a last block, from a context at a block boundary\<close>

lemma poly1305_last_block:
  assumes c: "poly1305_ok c" "poly_buf_len c = 0" and d: "poly1305_ok d" "poly_buf_len d = 0"
    and key: "poly1305_same_key c d" and xs: "length xs = 16"
  shows "\<exists>c' d' tag. bank_poly1305_update c xs = Inr c' \<and> bank_poly1305_update d xs = Inr d' \<and>
    bank_poly1305_final c' = Inr tag \<and> bank_poly1305_final d' = Inr tag"
  using poly1305_puts_block [OF c xs] poly1305_puts_block [OF d xs] c d key
  by (auto simp: bank_poly1305_update_def bank_poly1305_final_def bank_poly1305_add_block_def
      poly1305_same_key_def Let_def)

definition length_block :: "nat \<Rightarrow> nat \<Rightarrow> bytes" where
  "length_block a n = store_le64 (of_nat a * 8) @ store_le64 (of_nat n * 8)"

definition tag_of_lengths :: "bytes \<Rightarrow> nat \<Rightarrow> nat \<Rightarrow> bytes run" where
  "tag_of_lengths poly_key a n =
     (case bank_poly1305_update (bank_poly1305_init poly_key) (length_block a n) of
        Inl f \<Rightarrow> Inl f
      | Inr ctx \<Rightarrow> bank_poly1305_final ctx)"

lemma poly1305_init_ok: "poly1305_ok (bank_poly1305_init key)" "poly_buf_len (bank_poly1305_init key) = 0"
  by (simp_all add: bank_poly1305_init_def poly1305_ok_def)

lemma pad_mod: "(n + (16 - n mod 16) mod 16) mod 16 = (0::nat)"
proof (cases "n mod 16 = 0")
  case False
  then have "(16 - n mod 16) mod 16 = 16 - n mod 16" by simp
  then have "n + (16 - n mod 16) mod 16 = n - n mod 16 + 16" by simp
  then show ?thesis by (metis minus_mod_eq_mult_div mod_add_self2 mod_mult_self1_is_0)
qed simp

lemma chacha20_zeros: "snd (bank_chacha20_encrypt ctx (replicate 64 0)) = snd (bank_chacha20_block ctx)"
  by (rule nth_equalityI)
     (simp_all add: chacha20_encrypt_stream chacha.stream_length chacha.stream_nth)

abbreviation aead_ctx :: "bytes \<Rightarrow> bytes \<Rightarrow> chacha20_ctx" where
  "aead_ctx key nonce \<equiv> bank_chacha20_init key nonce 0"

lemma aead_tag:
  "\<exists>tag. tag_of_lengths (take 32 (snd (bank_chacha20_block (aead_ctx key nonce)))) (length aad) (length plain) = Inr tag \<and>
    bank_encrypt_chacha20_poly1305 key nonce aad plain = Inr (snd (bank_chacha20_encrypt (aead_ctx key nonce) plain), tag)"
proof -
  let ?ctx = "aead_ctx key nonce"
  define c where "c = snd (bank_chacha20_encrypt ?ctx plain)"
  define pk where "pk = take 32 (snd (bank_chacha20_block ?ctx))"
  let ?pad = "\<lambda>n. replicate ((16 - (n mod 16)) mod 16) (0::u8)"
  have lc: "length c = length plain" by (simp add: c_def chacha20_encrypt_stream chacha.stream_length)
  have reset: "(fst (bank_chacha20_encrypt ?ctx plain))\<lparr>chacha_counter := 0\<rparr> = ?ctx"
    by (simp add: chacha20_encrypt_ctx bank_chacha20_init_def)
  let ?i = "bank_poly1305_init pk"
  obtain p1 where p1: "bank_poly1305_update ?i aad = Inr p1" "poly1305_ok p1" "poly1305_same_key ?i p1"
    "poly_buf_len p1 = length aad mod 16"
    using poly1305_update_inv [of ?i aad] poly1305_init_ok by auto
  obtain p2 where p2: "bank_poly1305_update p1 (?pad (length aad)) = Inr p2" "poly1305_ok p2"
    "poly1305_same_key p1 p2" "poly_buf_len p2 = 0"
    using poly1305_update_inv [OF p1(2), of "?pad (length aad)"] p1(4)
    by (auto simp: mod_add_left_eq pad_mod)
  obtain p3 where p3: "bank_poly1305_update p2 c = Inr p3" "poly1305_ok p3" "poly1305_same_key p2 p3"
    "poly_buf_len p3 = length plain mod 16"
    using poly1305_update_inv [OF p2(2), of c] p2(4) lc by auto
  obtain p4 where p4: "bank_poly1305_update p3 (?pad (length plain)) = Inr p4" "poly1305_ok p4"
    "poly1305_same_key p3 p4" "poly_buf_len p4 = 0"
    using poly1305_update_inv [OF p3(2), of "?pad (length plain)"] p3(4)
    by (auto simp: mod_add_left_eq pad_mod)
  have "poly1305_same_key ?i p4" using p1 p2 p3 p4 by (simp add: poly1305_same_key_def)
  then obtain q p5 tag where "bank_poly1305_update ?i (length_block (length aad) (length plain)) = Inr q"
    "bank_poly1305_update p4 (length_block (length aad) (length plain)) = Inr p5"
    "bank_poly1305_final q = Inr tag" "bank_poly1305_final p5 = Inr tag"
    using poly1305_last_block [OF poly1305_init_ok p4(2,4), of pk "length_block (length aad) (length plain)"]
    by (auto simp: length_block_def)
  with p1 p2 p3 p4 show ?thesis
    by (intro exI [of _ tag])
       (simp add: bank_encrypt_chacha20_poly1305_def Let_def split_def bank_chacha20_init_def [symmetric]
         reset chacha20_zeros c_def [symmetric] pk_def [symmetric] length_block_def tag_of_lengths_def)
qed

text \<open>
  The combined construction never fails, encrypts with ChaCha20 from block counter 0, and
  its tag is determined by the first key-stream block and the two lengths: the associated
  data and the ciphertext are not authenticated. For 32 bytes or more of plaintext the key
  of the tag is the exclusive or of plaintext and ciphertext.
\<close>

theorem aead_tag_only_lengths:
  "\<exists>tag. tag_of_lengths (take 32 (snd (bank_chacha20_block (bank_chacha20_init key nonce 0)))) (length aad) (length plain) = Inr tag \<and>
    bank_encrypt_chacha20_poly1305 key nonce aad plain =
      Inr (snd (bank_chacha20_encrypt (bank_chacha20_init key nonce 0) plain), tag) \<and>
    (32 \<le> length plain \<longrightarrow>
      take 32 (snd (bank_chacha20_block (bank_chacha20_init key nonce 0))) =
      xor_bytes (take 32 plain) (take 32 (snd (bank_chacha20_encrypt (bank_chacha20_init key nonce 0) plain))))"
proof -
  have "take 32 (snd (bank_chacha20_block ctx)) =
      xor_bytes (take 32 plain) (take 32 (snd (bank_chacha20_encrypt ctx plain)))" if "32 \<le> length plain" for ctx
    using that by (intro nth_equalityI)
      (simp_all add: chacha20_encrypt_stream chacha.stream_length chacha.stream_nth flip: xor.assoc)
  then show ?thesis using aead_tag [of key nonce aad plain] by blast
qed

lemma aead_tag_only_lengths_witness:
  "\<exists>tag c d. bank_encrypt_chacha20_poly1305 (replicate 32 1) (replicate 12 2) [1, 2] (replicate 32 3) = Inr (c, tag) \<and>
     bank_encrypt_chacha20_poly1305 (replicate 32 1) (replicate 12 2) [5, 6] (replicate 32 7) = Inr (d, tag) \<and>
     tag_of_lengths (xor_bytes (replicate 32 3) (take 32 c)) 2 32 = Inr tag"
proof -
  let ?k = "replicate 32 1" and ?n = "replicate 12 2" and ?p = "replicate 32 (3::u8)" and ?q = "replicate 32 (7::u8)"
  let ?b = "take 32 (snd (bank_chacha20_block (bank_chacha20_init ?k ?n 0)))"
  let ?e = "\<lambda>p. snd (bank_chacha20_encrypt (bank_chacha20_init ?k ?n 0) p)"
  have l: "length ?p = 32" "length ?q = 32" "length [1, 2::u8] = 2" "length [5, 6::u8] = 2" "take 32 ?p = ?p"
    "32 \<le> (32::nat)" by simp_all
  obtain t where t: "tag_of_lengths ?b 2 32 = Inr t"
    "bank_encrypt_chacha20_poly1305 ?k ?n [1, 2] ?p = Inr (?e ?p, t)" "?b = xor_bytes ?p (take 32 (?e ?p))"
    using aead_tag_only_lengths [of ?k ?n "[1, 2]" ?p] unfolding l by blast
  obtain u where u: "tag_of_lengths ?b 2 32 = Inr u"
    "bank_encrypt_chacha20_poly1305 ?k ?n [5, 6] ?q = Inr (?e ?q, u)"
    using aead_tag_only_lengths [of ?k ?n "[5, 6]" ?q] unfolding l by blast
  have "u = t" using t(1) u(1) by simp
  then have "bank_encrypt_chacha20_poly1305 ?k ?n [5, 6] ?q = Inr (?e ?q, t)" using u(2) by simp
  moreover have "tag_of_lengths (xor_bytes ?p (take 32 (?e ?p))) 2 32 = Inr t" using t(1,3) by argo
  ultimately show ?thesis using t(2) by blast
qed

text \<open>
  Finishing a message whose last incomplete block has four bytes or more shifts an int by
  32 or more, which is undefined; with up to three bytes, or none, a tag is returned.
\<close>

theorem poly1305_final_shift:
  assumes "poly1305_ok ctx"
  shows "bank_poly1305_final ctx = Inl Bad_Shift \<longleftrightarrow> 4 \<le> poly_buf_len ctx"
  using assms by (auto simp: bank_poly1305_final_def bank_poly1305_add_block_def poly1305_ok_def Let_def)

lemma poly1305_final_shift_witness:
  "bank_poly1305_final (bank_poly1305_init (replicate 32 0)\<lparr>poly_buf_len := 5\<rparr>) = Inl Bad_Shift"
  using poly1305_final_shift [of "bank_poly1305_init (replicate 32 0)\<lparr>poly_buf_len := 5\<rparr>"]
  by (simp add: poly1305_ok_def bank_poly1305_init_def)

end
