(* ===== verification/Bank_Sha256.thy ===== *)
theory Bank_Sha256
  imports Sha2_Spec
begin

text \<open>
  SHA-256 (\<open>src/sha/bank_sha256.cpp\<close>): the context, the transform over its buffer,
  \<open>init\<close>, \<open>update\<close> and \<open>final\<close>, and the one-shot function. The context implements the
  interface \<open>block_stream\<close>; the transform computes the compression function of FIPS 180-4,
  with the round constants derived from the cube roots of the primes; the digest is the
  standard's for every message whose bit length fits the 64-bit field.
\<close>

section \<open>The word functions\<close>

definition bank_rotr32 :: "u32 \<Rightarrow> nat \<Rightarrow> u32" where
  "bank_rotr32 x n = drop_bit n x OR push_bit (32 - n) x"

definition bank_ch32 :: "u32 \<Rightarrow> u32 \<Rightarrow> u32 \<Rightarrow> u32" where
  "bank_ch32 x y z = (x AND y) XOR (NOT x AND z)"

definition bank_maj32 :: "u32 \<Rightarrow> u32 \<Rightarrow> u32 \<Rightarrow> u32" where
  "bank_maj32 x y z = (x AND y) XOR (x AND z) XOR (y AND z)"

definition bank_bsig0 :: "u32 \<Rightarrow> u32" where
  "bank_bsig0 x = bank_rotr32 x 2 XOR bank_rotr32 x 13 XOR bank_rotr32 x 22"

definition bank_bsig1 :: "u32 \<Rightarrow> u32" where
  "bank_bsig1 x = bank_rotr32 x 6 XOR bank_rotr32 x 11 XOR bank_rotr32 x 25"

definition bank_ssig0 :: "u32 \<Rightarrow> u32" where
  "bank_ssig0 x = bank_rotr32 x 7 XOR bank_rotr32 x 18 XOR drop_bit 3 x"

definition bank_ssig1 :: "u32 \<Rightarrow> u32" where
  "bank_ssig1 x = bank_rotr32 x 17 XOR bank_rotr32 x 19 XOR drop_bit 10 x"

definition bank_sha256_k :: "u32 list" where
  "bank_sha256_k = concat [
     [0x428a2f98, 0x71374491, 0xb5c0fbcf, 0xe9b5dba5, 0x3956c25b, 0x59f111f1, 0x923f82a4, 0xab1c5ed5],
     [0xd807aa98, 0x12835b01, 0x243185be, 0x550c7dc3, 0x72be5d74, 0x80deb1fe, 0x9bdc06a7, 0xc19bf174],
     [0xe49b69c1, 0xefbe4786, 0x0fc19dc6, 0x240ca1cc, 0x2de92c6f, 0x4a7484aa, 0x5cb0a9dc, 0x76f988da],
     [0x983e5152, 0xa831c66d, 0xb00327c8, 0xbf597fc7, 0xc6e00bf3, 0xd5a79147, 0x06ca6351, 0x14292967],
     [0x27b70a85, 0x2e1b2138, 0x4d2c6dfc, 0x53380d13, 0x650a7354, 0x766a0abb, 0x81c2c92e, 0x92722c85],
     [0xa2bfe8a1, 0xa81a664b, 0xc24b8b70, 0xc76c51a3, 0xd192e819, 0xd6990624, 0xf40e3585, 0x106aa070],
     [0x19a4c116, 0x1e376c08, 0x2748774c, 0x34b0bcb5, 0x391c0cb3, 0x4ed8aa4a, 0x5b9cca4f, 0x682e6ff3],
     [0x748f82ee, 0x78a5636f, 0x84c87814, 0x8cc70208, 0x90befffa, 0xa4506ceb, 0xbef9a3f7, 0xc67178f2]]"

section \<open>The context\<close>

record sha256_ctx =
  sha256_state :: "u32 list"
  sha256_buffer :: bytes
  sha256_count :: u64

definition sha256_load :: "bytes \<Rightarrow> u32 list" where
  "sha256_load blk = map (\<lambda>i. load_be32 blk (i * 4)) [0..<16]"

definition sha256_sched_step :: "u32 list \<Rightarrow> nat \<Rightarrow> u32 list" where
  "sha256_sched_step w i = w @ [bank_ssig1 (w ! (i - 2)) + w ! (i - 7)
     + bank_ssig0 (w ! (i - 15)) + w ! (i - 16)]"

definition sha256_schedule :: "bytes \<Rightarrow> u32 list" where
  "sha256_schedule blk = foldl sha256_sched_step (sha256_load blk) [16..<64]"

fun sha256_round :: "u32 list \<Rightarrow> 32 regs \<Rightarrow> nat \<Rightarrow> 32 regs" where
  "sha256_round w (a, b, c, d, e, f, g, h) i =
     (let t1 = h + bank_bsig1 e + bank_ch32 e f g + bank_sha256_k ! i + w ! i;
          t2 = bank_bsig0 a + bank_maj32 a b c
      in (t1 + t2, a, b, c, d + t1, e, f, g))"

definition sha256_block :: "u32 list \<Rightarrow> bytes \<Rightarrow> u32 list" where
  "sha256_block st blk =
     add_regs st (foldl (sha256_round (sha256_schedule blk)) (regs_of st) [0..<64])"

definition bank_sha256_transform :: "sha256_ctx \<Rightarrow> sha256_ctx" where
  "bank_sha256_transform ctx =
     ctx\<lparr>sha256_state := sha256_block (sha256_state ctx) (sha256_buffer ctx)\<rparr>"

definition sha256_iv :: "u32 list" where
  "sha256_iv = [0x6a09e667, 0xbb67ae85, 0x3c6ef372, 0xa54ff53a,
     0x510e527f, 0x9b05688c, 0x1f83d9ab, 0x5be0cd19]"

definition bank_sha256_init :: sha256_ctx where
  "bank_sha256_init = \<lparr>sha256_state = sha256_iv, sha256_buffer = replicate 64 0, sha256_count = 0\<rparr>"

definition sha256_absorb :: "sha256_ctx \<Rightarrow> u8 \<Rightarrow> sha256_ctx" where
  "sha256_absorb ctx b =
     (let c1 = ctx\<lparr>sha256_buffer := (sha256_buffer ctx)[unat (sha256_count ctx mod 64) := b],
                   sha256_count := sha256_count ctx + 1\<rparr>
      in if sha256_count c1 mod 64 = 0 then bank_sha256_transform c1 else c1)"

definition bank_sha256_update :: "sha256_ctx \<Rightarrow> bytes \<Rightarrow> sha256_ctx" where
  "bank_sha256_update ctx data = foldl sha256_absorb ctx data"

definition sha256_padding :: "u64 \<Rightarrow> bytes" where
  "sha256_padding cnt =
     (let r = unat (cnt mod 64); pad_len = (if r < 56 then 56 - r else 120 - r)
      in (replicate pad_len 0)[0 := 0x80])"

definition sha256_output :: "sha256_ctx \<Rightarrow> bytes" where
  "sha256_output ctx = concat (map (\<lambda>i. store_be32 (sha256_state ctx ! i)) [0..<8])"

definition bank_sha256_final :: "sha256_ctx \<Rightarrow> bytes" where
  "bank_sha256_final ctx =
     (let bit_len = sha256_count ctx * 8;
          c1 = bank_sha256_update ctx (sha256_padding (sha256_count ctx));
          c2 = bank_sha256_update c1 (store_be64 bit_len)
      in sha256_output c2)"

definition bank_sha256 :: "bytes \<Rightarrow> bytes" where
  "bank_sha256 data = bank_sha256_final (bank_sha256_update bank_sha256_init data)"

lemma length_bank_sha256_final [layout, simp]: "length (bank_sha256_final c) = 32"
  by (simp add: bank_sha256_final_def sha256_output_def Let_def upt_rec)

lemma length_bank_sha256 [layout, simp]: "length (bank_sha256 data) = 32"
  by (simp add: bank_sha256_def)

lemma bank_sha256_update_append:
  "bank_sha256_update (bank_sha256_update c xs) ys = bank_sha256_update c (xs @ ys)"
  by (simp add: bank_sha256_update_def)

lemma bank_sha256_update_Nil [simp]: "bank_sha256_update c [] = c"
  by (simp add: bank_sha256_update_def)

lemma bank_sha256_fold: "bank_sha256_final (bank_sha256_update bank_sha256_init data) = bank_sha256 data"
  by (simp add: bank_sha256_def)

section \<open>The context as a block stream\<close>

lemma unat_mod_64: "unat (x mod 64 :: u64) = unat x mod 64"
  by (simp add: unat_mod)

lemma mod_64_iff: "x mod 64 = (0 :: u64) \<longleftrightarrow> unat x mod 64 = 0"
  by (simp add: word_unat_eq_iff unat_mod)

interpretation sha256: block_stream 64 sha256_count sha256_buffer sha256_state sha256_absorb
  sha256_block
  by unfold_locales
     (auto simp: sha256_absorb_def bank_sha256_transform_def Let_def unat_mod_64 mod_64_iff)

section \<open>The transform is the compression function of the standard\<close>

definition fips_sha256_family :: "32 word sha2" where
  "fips_sha256_family = \<lparr>
     Sigma0 = \<lambda>x. word_rotr 2 x XOR word_rotr 13 x XOR word_rotr 22 x,
     Sigma1 = \<lambda>x. word_rotr 6 x XOR word_rotr 11 x XOR word_rotr 25 x,
     sigma0 = \<lambda>x. word_rotr 7 x XOR word_rotr 18 x XOR drop_bit 3 x,
     sigma1 = \<lambda>x. word_rotr 17 x XOR word_rotr 19 x XOR drop_bit 10 x,
     K_const = sha2_K 32, n_rounds = 64\<rparr>"

definition fips_sha256 :: "bytes \<Rightarrow> bytes" where
  "fips_sha256 = sha2_hash fips_sha256_family 4 8
     [0x6a09e667, 0xbb67ae85, 0x3c6ef372, 0xa54ff53a, 0x510e527f, 0x9b05688c, 0x1f83d9ab, 0x5be0cd19]"

lemma bank_rotr32_eq: "0 < n \<Longrightarrow> n < 32 \<Longrightarrow> bank_rotr32 x n = word_rotr n x"
  by (simp add: bank_rotr32_def shifts_rotr32)

lemma sha256_functions:
  "Sigma0 fips_sha256_family = bank_bsig0" "Sigma1 fips_sha256_family = bank_bsig1"
  "sigma0 fips_sha256_family = bank_ssig0" "sigma1 fips_sha256_family = bank_ssig1"
  "sha2_Ch = bank_ch32" "sha2_Maj = bank_maj32"
  by (simp_all add: fun_eq_iff fips_sha256_family_def bank_bsig0_def bank_bsig1_def bank_ssig0_def
      bank_ssig1_def bank_rotr32_eq sha2_Ch_def sha2_Maj_def bank_ch32_def bank_maj32_def)

lemma length_sha256_k [layout, simp]: "length bank_sha256_k = 64"
  by (simp add: bank_sha256_k_def)

definition sha256_k_ints :: "int list" where
  "sha256_k_ints = concat [
     [0x428a2f98, 0x71374491, 0xb5c0fbcf, 0xe9b5dba5, 0x3956c25b, 0x59f111f1, 0x923f82a4, 0xab1c5ed5],
     [0xd807aa98, 0x12835b01, 0x243185be, 0x550c7dc3, 0x72be5d74, 0x80deb1fe, 0x9bdc06a7, 0xc19bf174],
     [0xe49b69c1, 0xefbe4786, 0x0fc19dc6, 0x240ca1cc, 0x2de92c6f, 0x4a7484aa, 0x5cb0a9dc, 0x76f988da],
     [0x983e5152, 0xa831c66d, 0xb00327c8, 0xbf597fc7, 0xc6e00bf3, 0xd5a79147, 0x06ca6351, 0x14292967],
     [0x27b70a85, 0x2e1b2138, 0x4d2c6dfc, 0x53380d13, 0x650a7354, 0x766a0abb, 0x81c2c92e, 0x92722c85],
     [0xa2bfe8a1, 0xa81a664b, 0xc24b8b70, 0xc76c51a3, 0xd192e819, 0xd6990624, 0xf40e3585, 0x106aa070],
     [0x19a4c116, 0x1e376c08, 0x2748774c, 0x34b0bcb5, 0x391c0cb3, 0x4ed8aa4a, 0x5b9cca4f, 0x682e6ff3],
     [0x748f82ee, 0x78a5636f, 0x84c87814, 0x8cc70208, 0x90befffa, 0xa4506ceb, 0xbef9a3f7, 0xc67178f2]]"

lemma sha256_k_table:
  "list_all2 (cbrt_entry 32) (take (length sha256_k_ints) first_primes) sha256_k_ints"
  by code_simp

lemma sha256_K: "t < 64 \<Longrightarrow> bank_sha256_k ! t = K_const fips_sha256_family t"
proof -
  assume t: "t < 64"
  have "bank_sha256_k = map word_of_int sha256_k_ints"
    by (simp add: bank_sha256_k_def sha256_k_ints_def)
  moreover have "length sha256_k_ints = 64" by (simp add: sha256_k_ints_def)
  ultimately show ?thesis
    using t cbrt_table_K [where 'w = 32, of sha256_k_ints t] sha256_k_table
    by (simp add: fips_sha256_family_def)
qed

lemma sha256_load_words:
  assumes "length blk = 64"
  shows "length (sha256_load blk) = 16" "t < 16 \<Longrightarrow> sha256_load blk ! t = be_words 4 blk ! t"
  using load_be32_words [OF assms] by (simp_all add: sha256_load_def)

lemma sha256_block_compress:
  assumes "length blk = 64"
  shows "sha256_block st blk = sha2_compress fips_sha256_family st (be_words 4 blk)"
proof -
  let ?F = fips_sha256_family and ?M = "be_words 4 blk"
  have "sha256_sched_step w i = w @ [sigma1 ?F (w ! (i - 2)) + w ! (i - 7)
      + sigma0 ?F (w ! (i - 15)) + w ! (i - 16)]" for w i
    by (simp add: sha256_sched_step_def sha256_functions)
  from schedule_loop [OF sha256_load_words [OF assms] this, where n = 48]
  have sched: "\<forall>t < 64. sha256_schedule blk ! t = sha2_W ?F ?M t" by (simp add: sha256_schedule_def)
  have "sha256_round (sha256_schedule blk) r i = sha2_step ?F (K_const ?F i) (sha2_W ?F ?M i) r"
    if "i < 64" for r i
  proof -
    obtain a b c d e f g h where "r = (a, b, c, d, e, f, g, h)" by (metis surj_pair)
    with that sched show ?thesis by (simp add: sha256_K [symmetric] sha256_functions)
  qed
  from this have "foldl (sha256_round (sha256_schedule blk)) (regs_of st) [0..<64]
      = sha2_rounds ?F ?M 64 (regs_of st)" by (rule rounds_loop)
  then show ?thesis by (simp add: sha256_block_def sha2_compress_def) (simp add: fips_sha256_family_def)
qed

section \<open>Padding and the digest\<close>

lemma pad_field_64:
  assumes r: "r < (64::nat)"
  shows "(64 - (r + 9) mod 64) mod 64 = (if r < 56 then 55 - r else 119 - r)"
proof -
  consider "r < 55" | "r = 55" | "55 < r" by linarith
  then show ?thesis
  proof cases
    case 3
    with r have "(r + 9) mod 64 = r - 55" by (simp add: mod_if)
    with 3 r show ?thesis by simp
  qed simp_all
qed

lemma sha256_padding_pad:
  assumes "8 * length m < 2 ^ 64"
  shows "m @ sha256_padding (of_nat (length m)) @ store_be64 (of_nat (length m) * 8) = sha2_pad 64 8 m"
proof -
  define r where "r = length m mod 64"
  have r: "unat ((of_nat (length m) :: u64) mod 64) = r"
    using assms by (simp add: unat_mod_64 unat_of_nat r_def)
  have "r < 64" by (simp add: r_def)
  have "(length m + 1 + 8) mod 64 = (r + 9) mod 64"
    unfolding r_def by (simp only: mod_add_left_eq add.assoc) simp
  then have z: "sha2_zeros 64 8 (length m) = (if r < 56 then 55 - r else 119 - r)"
    unfolding sha2_zeros_def using pad_field_64 [OF \<open>r < 64\<close>] by (simp only:)
  have "\<And>n. 0 < n \<Longrightarrow> (replicate n (0::u8))[0 := 0x80] = 0x80 # replicate (n - 1) 0"
    by (metis list_update_code(2) replicate_Suc Suc_pred')
  then have "sha256_padding (of_nat (length m)) = 0x80 # replicate (sha2_zeros 64 8 (length m)) 0"
    unfolding sha256_padding_def Let_def r z using \<open>r < 64\<close> by simp
  moreover have "store_be64 (of_nat (length m) * 8) = be_bytes 8 (8 * length m)"
    using store_be64_of_nat [OF assms] by (simp add: mult.commute)
  ultimately show ?thesis by (simp add: sha2_pad_def)
qed

lemma store_be32_bytes: "store_be32 x = be_bytes 4 (unat x)"
proof -
  have "ucast (drop_bit n x) = (of_nat (unat x div 2 ^ n) :: u8)" for n
    by (metis of_nat_unat unat_drop_bit_eq drop_bit_eq_div)
  from this [of 24] this [of 16] this [of 8] this [of 0] show ?thesis
    by (simp add: store_be32_def be_bytes_def upt_rec)
qed

lemma sha256_words: "length H = 8 \<Longrightarrow> map (\<lambda>i. f (H ! i)) [0..<8] = map f H"
  by (metis list.map_comp map_nth map_map comp_apply map_eq_conv)

lemma sha256_init_absorbed: "sha256.absorbed sha256_iv [] bank_sha256_init"
  by (rule sha256.absorbed_Nil) (simp_all add: bank_sha256_init_def)

lemma sha256_chain_eq:
  "B = 64 \<Longrightarrow> B dvd length m \<Longrightarrow> foldl sha256_block iv (chunks B m)
     = foldl (\<lambda>H blk. sha2_compress fips_sha256_family H (be_words 4 blk)) iv (chunks B m)"
  by (rule foldl_chunks_cong [where P = "\<lambda>_. True"]) (simp_all add: sha256_block_compress)

lemma fips_sha256_bank:
  assumes len: "8 * length m < 2 ^ 64"
  shows "fips_sha256 m = bank_sha256 m"
proof -
  let ?p = "sha256_padding (of_nat (length m))" and ?l = "store_be64 (of_nat (length m) * 8)"
  let ?c = "bank_sha256_update bank_sha256_init m" and ?P = "sha2_pad 64 8 m"
  have iv: "sha256_iv = [0x6a09e667, 0xbb67ae85, 0x3c6ef372, 0xa54ff53a,
      0x510e527f, 0x9b05688c, 0x1f83d9ab, 0x5be0cd19]" by (simp add: sha256_iv_def)
  have b64: "16 * 4 = (64::nat)" by simp
  have P: "m @ ?p @ ?l = ?P" using len by (rule sha256_padding_pad)
  have "sha2_zeros 64 8 (length m) < 64" by (simp add: sha2_zeros_def)
  then have "length ?P < 2 ^ 64" using len by (simp add: sha2_pad_def)
  then have small: "length m + length ?p + length ?l < 2 ^ 64" unfolding P [symmetric] by simp
  have c: "sha256.absorbed sha256_iv m ?c"
    using sha256.absorbed_foldl [OF sha256_init_absorbed, of m] small
    by (simp add: bank_sha256_update_def)
  then have cnt: "sha256_count ?c = of_nat (length m)" by (simp add: sha256.absorbed_def)
  have "sha256.absorbed sha256_iv ?P (foldl sha256_absorb ?c (?p @ ?l))"
    using sha256.absorbed_foldl [OF c, of "?p @ ?l"] small by (simp add: P [symmetric])
  then have "sha256_state (foldl sha256_absorb ?c (?p @ ?l)) = foldl sha256_block sha256_iv (chunks 64 ?P)"
    by (rule sha256.absorbed_full) (simp add: sha2_pad_blocks)
  also have "\<dots> = foldl (\<lambda>H blk. sha2_compress fips_sha256_family H (be_words 4 blk)) sha256_iv (chunks 64 ?P)"
    by (rule sha256_chain_eq) (simp_all add: sha2_pad_blocks)
  finally have st: "sha256_state (foldl sha256_absorb ?c (?p @ ?l)) =
    foldl (\<lambda>H blk. sha2_compress fips_sha256_family H (be_words 4 blk)) sha256_iv (chunks 64 ?P)" .
  have "bank_sha256 m = sha256_output (foldl sha256_absorb ?c (?p @ ?l))"
    unfolding bank_sha256_def bank_sha256_final_def Let_def cnt by (simp add: bank_sha256_update_def)
  also have "\<dots> = fips_sha256 m"
    unfolding sha256_output_def st fips_sha256_def sha2_hash_def store_be32_bytes iv [symmetric] b64
    by (intro arg_cong [where f = concat] sha256_words length_sha2_chain) (simp add: iv)
  finally show ?thesis by (rule sym)
qed

text \<open>
  C1: The digest of a message of fewer than 2^61 bytes is the SHA-256 digest of FIPS 180-4:
  padding, schedule, rounds, chaining and output, with the round constants of the standard.
\<close>

theorem bank_sha256_fips:
  assumes "8 * length m < 2 ^ 64"
  shows "bank_sha256 m = fips_sha256 m"
  using assms by (rule fips_sha256_bank [symmetric])

text \<open>the first example of the standard: the digest of abc\<close>

lemma bank_sha256_fips_witness: "bank_sha256 [97, 98, 99] = fips_sha256 [97, 98, 99]"
  by (rule bank_sha256_fips) simp

end
