(* ===== verification/Bank_Kdf.thy ===== *)
theory Bank_Kdf
  imports Bank_Sha256
begin

text \<open>
  The keyed constructions over SHA-256: HMAC (\<open>src/hmac/bank_hmac_sha256.cpp\<close>), HKDF
  (\<open>src/kdf/bank_hkdf.cpp\<close>) and PBKDF2 (\<open>src/kdf/bank_pbkdf2.cpp\<close>). HMAC and PBKDF2 are
  compared with RFC 2104 and RFC 8018; HKDF-Expand of the code is the construction of RFC
  5869 without the key.
\<close>

section \<open>HMAC\<close>

definition hmac_pads :: "bytes \<Rightarrow> bytes \<times> bytes" where
  "hmac_pads key =
     (let zeros = replicate 64 0;
          (ipad, opad) =
            (if 64 < length key
             then let h = blit zeros 0 (bank_sha256 key) in (h, blit zeros 0 (take 32 h))
             else (blit zeros 0 key, blit zeros 0 key))
      in (map (\<lambda>b. b XOR 0x36) ipad, map (\<lambda>b. b XOR 0x5c) opad))"

definition bank_hmac_sha256 :: "bytes \<Rightarrow> bytes \<Rightarrow> bytes" where
  "bank_hmac_sha256 key data =
     (let (ipad, opad) = hmac_pads key;
          c1 = bank_sha256_update bank_sha256_init ipad;
          inner = bank_sha256_final (bank_sha256_update c1 data);
          c2 = bank_sha256_update bank_sha256_init opad
      in bank_sha256_final (bank_sha256_update c2 inner))"

lemma length_bank_hmac_sha256 [layout, simp]: "length (bank_hmac_sha256 key data) = 32"
  by (simp add: bank_hmac_sha256_def split_def Let_def)

text \<open>HMAC of RFC 2104 over a hash H with block size B\<close>

definition rfc2104_hmac :: "(bytes \<Rightarrow> bytes) \<Rightarrow> nat \<Rightarrow> bytes \<Rightarrow> bytes \<Rightarrow> bytes" where
  "rfc2104_hmac H B key msg =
     (let k = (if B < length key then H key else key);
          k0 = k @ replicate (B - length k) 0
      in H (map (\<lambda>b. b XOR 0x5c) k0 @ H (map (\<lambda>b. b XOR 0x36) k0 @ msg)))"

lemma blit_zeros: "length k \<le> n \<Longrightarrow> blit (replicate n 0) 0 k = k @ replicate (n - length k) 0"
  by (simp add: blit_def)

lemma hmac_pads_eq:
  "hmac_pads key =
    (let k = (if 64 < length key then bank_sha256 key else key); k0 = k @ replicate (64 - length k) 0
     in (map (\<lambda>b. b XOR 0x36) k0, map (\<lambda>b. b XOR 0x5c) k0))"
  by (auto simp: hmac_pads_def Let_def blit_zeros)

lemma bank_hmac_sha256_eq: "bank_hmac_sha256 key msg = rfc2104_hmac bank_sha256 64 key msg"
  by (simp add: bank_hmac_sha256_def rfc2104_hmac_def hmac_pads_eq Let_def split_def
      bank_sha256_update_append bank_sha256_def)

text \<open>
  C2: bank_hmac_sha256 is HMAC of RFC 2104 over SHA-256 of FIPS 180-4, for keys of any
  length (longer keys are hashed first) and messages of any length that SHA-256 admits.
\<close>

theorem bank_hmac_rfc2104:
  assumes "8 * length key < 2 ^ 64" "8 * (64 + length msg) < 2 ^ 64"
  shows "bank_hmac_sha256 key msg = rfc2104_hmac fips_sha256 64 key msg"
proof -
  let ?k = "if 64 < length key then bank_sha256 key else key"
  define k0 where "k0 = ?k @ replicate (64 - length ?k) 0"
  have l: "length k0 = 64" by (simp add: k0_def)
  have key: "bank_sha256 key = fips_sha256 key" using assms(1) by (rule fips_sha256_bank [symmetric])
  have inner: "bank_sha256 (map f k0 @ msg) = fips_sha256 (map f k0 @ msg)" for f
    using assms(2) l by (intro fips_sha256_bank [symmetric]) simp
  have outer: "bank_sha256 (map f k0 @ fips_sha256 (map g k0 @ msg))
      = fips_sha256 (map f k0 @ fips_sha256 (map g k0 @ msg))" for f g
    using l by (intro fips_sha256_bank [symmetric]) (simp add: inner [symmetric])
  have "bank_hmac_sha256 key msg = bank_sha256 (map (\<lambda>b. b XOR 0x5c) k0
      @ bank_sha256 (map (\<lambda>b. b XOR 0x36) k0 @ msg))"
    by (simp only: bank_hmac_sha256_eq rfc2104_hmac_def Let_def k0_def)
  also have "\<dots> = rfc2104_hmac fips_sha256 64 key msg"
    unfolding inner outer by (simp only: rfc2104_hmac_def Let_def k0_def key)
  finally show ?thesis .
qed

lemma bank_hmac_rfc2104_witness:
  "bank_hmac_sha256 (replicate 80 1) [104, 105] = rfc2104_hmac fips_sha256 64 (replicate 80 1) [104, 105]"
  by (rule bank_hmac_rfc2104) simp_all

section \<open>HKDF\<close>

definition bank_hkdf_extract :: "ptr \<Rightarrow> bytes \<Rightarrow> bytes" where
  "bank_hkdf_extract salt ikm =
     (case salt of
        None \<Rightarrow> bank_hmac_sha256 (replicate 64 0) ikm
      | Some s \<Rightarrow> if length s = 0 then bank_hmac_sha256 (replicate 64 0) ikm
                  else bank_hmac_sha256 s ikm)"

text \<open>
  The loop: \<open>previous\<close> is read only when something has been produced, so its indeterminate
  initial value is the empty list here; the counter is a byte and wraps.
\<close>

function hkdf_expand_loop :: "bytes \<Rightarrow> nat \<Rightarrow> bytes \<Rightarrow> u8 \<Rightarrow> nat \<Rightarrow> bytes" where
  "hkdf_expand_loop info okm_len previous counter produced =
     (if produced < okm_len then
        let c0 = bank_sha256_init;
            c1 = (if 0 < produced then bank_sha256_update c0 previous else c0);
            c2 = bank_sha256_update (bank_sha256_update c1 info) [counter];
            block = bank_sha256_final c2;
            to_copy = (if 32 < okm_len - produced then 32 else okm_len - produced)
        in take to_copy block @ hkdf_expand_loop info okm_len block (counter + 1) (produced + to_copy)
      else [])"
  by pat_completeness auto
termination
  by (relation "measure (\<lambda>(info, okm_len, previous, counter, produced). okm_len - produced)") auto

declare hkdf_expand_loop.simps [simp del]

definition bank_hkdf_expand :: "bytes \<Rightarrow> bytes \<Rightarrow> nat \<Rightarrow> bytes" where
  "bank_hkdf_expand prk info okm_len = hkdf_expand_loop info okm_len [] 1 0"

definition bank_hkdf :: "ptr \<Rightarrow> bytes \<Rightarrow> bytes \<Rightarrow> nat \<Rightarrow> bytes" where
  "bank_hkdf salt ikm info okm_len =
     (let prk = bank_hkdf_extract salt ikm in bank_hkdf_expand prk info okm_len)"

text \<open>
  HKDF-Expand of RFC 5869 with the pseudorandom function as a parameter: T(0) is empty,
  T(i) = PRF(T(i-1) | info | i), and the output is the first L bytes of T(1) | T(2) | ...
\<close>

primrec rfc5869_T :: "(bytes \<Rightarrow> bytes) \<Rightarrow> bytes \<Rightarrow> nat \<Rightarrow> bytes" where
  "rfc5869_T prf info 0 = []"
| "rfc5869_T prf info (Suc i) = prf (rfc5869_T prf info i @ info @ [of_nat (Suc i)])"

definition rfc5869_expand :: "(bytes \<Rightarrow> bytes) \<Rightarrow> bytes \<Rightarrow> nat \<Rightarrow> bytes" where
  "rfc5869_expand prf info L =
     take L (concat (map (rfc5869_T prf info) [1..<Suc ((L + 31) div 32)]))"

lemma rfc5869_T_length:
  "(\<And>x. length (prf x) = 32) \<Longrightarrow> 0 < i \<Longrightarrow> length (rfc5869_T prf info i) = 32"
  by (cases i) simp_all

lemma hkdf_loop_blocks:
  "produced = 32 * i \<Longrightarrow> previous = rfc5869_T bank_sha256 info i \<Longrightarrow> counter = of_nat (Suc i) \<Longrightarrow>
   i + n = (okm_len + 31) div 32 \<Longrightarrow>
   hkdf_expand_loop info okm_len previous counter produced =
     take (okm_len - produced) (concat (map (rfc5869_T bank_sha256 info) [Suc i..<Suc (i + n)]))"
proof (induction n arbitrary: i previous counter produced)
  case 0
  then show ?case by (subst hkdf_expand_loop.simps) auto
next
  case (Suc n)
  let ?T = "rfc5869_T bank_sha256 info"
  have lt: "produced < okm_len" using Suc.prems by linarith
  have blk: "bank_sha256_final (bank_sha256_update (bank_sha256_update
      (if 0 < produced then bank_sha256_update bank_sha256_init previous else bank_sha256_init) info)
      [counter]) = ?T (Suc i)"
    using Suc.prems by (auto simp: bank_sha256_fold bank_sha256_update_append)
  have upt: "[Suc i..<Suc (i + Suc n)] = Suc i # [Suc (Suc i)..<Suc (Suc i + n)]"
    by (simp add: upt_conv_Cons)
  define c where "c = (if 32 < okm_len - produced then 32 else okm_len - produced)"
  have len: "length (?T (Suc i)) = 32" by simp
  have unf: "hkdf_expand_loop info okm_len previous counter produced =
      take c (?T (Suc i)) @ hkdf_expand_loop info okm_len (?T (Suc i)) (counter + 1) (produced + c)"
    by (subst hkdf_expand_loop.simps) (simp only: lt blk Let_def if_True c_def)
  show ?case
  proof (cases "n = 0")
    case True
    then have "okm_len - produced \<le> 32" using Suc.prems by linarith
    then have "c = okm_len - produced" by (simp add: c_def)
    moreover have "hkdf_expand_loop info okm_len (?T (Suc i)) (counter + 1) okm_len = []"
      by (subst hkdf_expand_loop.simps) simp
    ultimately show ?thesis unfolding unf upt using lt True by simp
  next
    case False
    then have gt: "32 < okm_len - produced" using Suc.prems by linarith
    then have c: "c = 32" by (simp add: c_def)
    have "hkdf_expand_loop info okm_len (?T (Suc i)) (counter + 1) (produced + 32) =
        take (okm_len - (produced + 32)) (concat (map ?T [Suc (Suc i)..<Suc (Suc i + n)]))"
      using Suc.prems by (intro Suc.IH) simp_all
    then show ?thesis unfolding unf upt c using gt len by (simp add: take_append)
  qed
qed

lemma bank_hkdf_expand_eq: "bank_hkdf_expand prk info L = rfc5869_expand bank_sha256 info L"
  unfolding bank_hkdf_expand_def rfc5869_expand_def
  using hkdf_loop_blocks [of 0 0 "[]" info 1 "(L + 31) div 32" L] by simp

text \<open>
  bank_hkdf is the expansion of RFC 5869 with the unkeyed hash in place of HMAC under the
  extracted key: neither the salt nor the input key material has any part in its output.
\<close>

theorem bank_hkdf_unkeyed:
  "bank_hkdf salt ikm info L = rfc5869_expand bank_sha256 info L"
  by (simp add: bank_hkdf_def bank_hkdf_expand_eq)

section \<open>PBKDF2\<close>

definition int_max :: nat where
  "int_max = 2147483647"

text \<open>the iterations of one block: the last U, and the exclusive or of all\<close>

primrec pbkdf2_iterate :: "bytes \<Rightarrow> nat \<Rightarrow> bytes \<Rightarrow> bytes \<Rightarrow> bytes" where
  "pbkdf2_iterate password 0 u digest = digest"
| "pbkdf2_iterate password (Suc n) u digest =
     (let u' = bank_hmac_sha256 password u in pbkdf2_iterate password n u' (xor_bytes digest u'))"

text \<open>
  One pass of the loop: the salt and the four bytes of the block number are written to an
  array of 68 bytes, then the block is iterated. \<open>block\<close> is an int, kept as a number; its
  increment at the largest int is a fault.
\<close>

definition pbkdf2_block :: "bytes \<Rightarrow> bytes \<Rightarrow> int \<Rightarrow> nat \<Rightarrow> bytes run" where
  "pbkdf2_block password salt iterations block =
     (if 68 < length salt + 4 then Inl Buffer_Overflow
      else let salt_block = salt @ store_be32 (of_nat block);
               u = bank_hmac_sha256 password salt_block
           in Inr (pbkdf2_iterate password (nat (iterations - 1)) u u))"

function pbkdf2_loop :: "bytes \<Rightarrow> bytes \<Rightarrow> int \<Rightarrow> nat \<Rightarrow> nat \<Rightarrow> nat \<Rightarrow> bytes run" where
  "pbkdf2_loop password salt iterations key_len block key_idx =
     (if key_idx < key_len then
        (case pbkdf2_block password salt iterations block of
           Inl f \<Rightarrow> Inl f
         | Inr digest \<Rightarrow>
             let n = (if 32 < key_len - key_idx then 32 else key_len - key_idx)
             in if block = int_max then Inl Int_Overflow
                else case pbkdf2_loop password salt iterations key_len (block + 1) (key_idx + n) of
                       Inl f \<Rightarrow> Inl f
                     | Inr rest \<Rightarrow> Inr (take n digest @ rest))
      else Inr [])"
  by pat_completeness auto
termination
  by (relation "measure (\<lambda>(password, salt, iterations, key_len, block, key_idx). key_len - key_idx)") auto

declare pbkdf2_loop.simps [simp del]

definition bank_pbkdf2_hmac_sha256 :: "bytes \<Rightarrow> bytes \<Rightarrow> int \<Rightarrow> nat \<Rightarrow> bytes run" where
  "bank_pbkdf2_hmac_sha256 password salt iterations key_len =
     pbkdf2_loop password salt iterations key_len 1 0"

text \<open>Inr None is the return value 0, Inr (Some key) the return value 1 and the key written\<close>

definition bank_derive_key_from_password :: "ptr \<Rightarrow> ptr \<Rightarrow> outp \<Rightarrow> nat \<Rightarrow> bytes option run" where
  "bank_derive_key_from_password password salt key key_len =
     (case (password, salt, key) of
        (Some p, Some s, True) \<Rightarrow>
          (case bank_pbkdf2_hmac_sha256 p s 100000 key_len of
             Inl f \<Rightarrow> Inl f
           | Inr k \<Rightarrow> Inr (Some k))
      | _ \<Rightarrow> Inr None)"

text \<open>
  PBKDF2 of RFC 8018 over a pseudorandom function with 32 bytes of output: U(1) = PRF(P,
  S | INT(i)), U(j+1) = PRF(P, U(j)), T(i) the exclusive or of U(1) to U(c), and the key
  the first bytes of T(1) | T(2) | ...
\<close>

primrec rfc8018_U :: "(bytes \<Rightarrow> bytes \<Rightarrow> bytes) \<Rightarrow> bytes \<Rightarrow> bytes \<Rightarrow> nat \<Rightarrow> nat \<Rightarrow> bytes" where
  "rfc8018_U prf P S i 0 = prf P (S @ be_bytes 4 i)"
| "rfc8018_U prf P S i (Suc j) = prf P (rfc8018_U prf P S i j)"

definition rfc8018_T :: "(bytes \<Rightarrow> bytes \<Rightarrow> bytes) \<Rightarrow> bytes \<Rightarrow> bytes \<Rightarrow> nat \<Rightarrow> nat \<Rightarrow> bytes" where
  "rfc8018_T prf P S c i =
     foldl xor_bytes (replicate 32 0) (map (rfc8018_U prf P S i) [0..<c])"

definition rfc8018_pbkdf2 :: "(bytes \<Rightarrow> bytes \<Rightarrow> bytes) \<Rightarrow> bytes \<Rightarrow> bytes \<Rightarrow> nat \<Rightarrow> nat \<Rightarrow> bytes" where
  "rfc8018_pbkdf2 prf P S c dkLen =
     take dkLen (concat (map (rfc8018_T prf P S c) [1..<Suc ((dkLen + 31) div 32)]))"

lemma xor_bytes_zeros: "length xs = n \<Longrightarrow> xor_bytes (replicate n 0) xs = xs"
  by (intro nth_equalityI) simp_all

lemma pbkdf2_iterate_U:
  "u = rfc8018_U bank_hmac_sha256 P S i j \<Longrightarrow>
   pbkdf2_iterate P n u d = foldl xor_bytes d (map (rfc8018_U bank_hmac_sha256 P S i) [Suc j..<Suc (j + n)])"
proof (induction n arbitrary: j u d)
  case (Suc n)
  have "[Suc j..<Suc (j + Suc n)] = Suc j # [Suc (Suc j)..<Suc (Suc j + n)]"
    by (simp add: upt_conv_Cons)
  then show ?case using Suc.prems Suc.IH [of "bank_hmac_sha256 P u" "Suc j"]
    by (simp add: Let_def)
qed simp

lemma pbkdf2_block_T:
  assumes "length salt \<le> 64" "0 < c" "i < 2 ^ 32"
  shows "pbkdf2_block P salt (int c) i = Inr (rfc8018_T bank_hmac_sha256 P salt c i)"
proof -
  let ?U = "rfc8018_U bank_hmac_sha256 P salt i"
  have u: "bank_hmac_sha256 P (salt @ store_be32 (of_nat i)) = ?U 0"
    using assms(3) by (simp add: store_be32_bytes unat_of_nat)
  have "[0..<c] = 0 # [Suc 0..<Suc (0 + (c - 1))]" using assms(2) by (simp add: upt_conv_Cons)
  moreover have "nat (int c - 1) = c - 1" by simp
  ultimately show ?thesis
    using assms(1) pbkdf2_iterate_U [of "?U 0" P salt i 0 "c - 1" "?U 0"]
    by (simp add: pbkdf2_block_def Let_def u rfc8018_T_def xor_bytes_zeros)
qed

lemma rfc8018_T_length: "0 < c \<Longrightarrow> length (rfc8018_T bank_hmac_sha256 P S c i) = 32"
proof -
  have "length (rfc8018_U bank_hmac_sha256 P S i j) = 32" for j by (cases j) simp_all
  then have "length d = 32 \<Longrightarrow> length (foldl xor_bytes d (map (rfc8018_U bank_hmac_sha256 P S i) js)) = 32"
    for js d by (induction js arbitrary: d) simp_all
  then show ?thesis by (simp add: rfc8018_T_def)
qed

lemma pbkdf2_loop_blocks:
  assumes sl: "length salt \<le> 64" and c: "0 < c" and L: "key_len < 2 ^ 31"
  shows "i + n = (key_len + 31) div 32 \<Longrightarrow>
   pbkdf2_loop P salt (int c) key_len (Suc i) (32 * i) =
     Inr (take (key_len - 32 * i) (concat (map (rfc8018_T bank_hmac_sha256 P salt c) [Suc i..<Suc (i + n)])))"
proof (induction n arbitrary: i)
  case 0
  then have "\<not> 32 * i < key_len" by linarith
  then show ?case by (subst pbkdf2_loop.simps) simp
next
  case (Suc n)
  let ?T = "rfc8018_T bank_hmac_sha256 P salt c"
  have lt: "32 * i < key_len" using Suc.prems by linarith
  have small: "Suc i < int_max" "Suc i < 2 ^ 32" using lt L by (simp_all add: int_max_def)
  have blk: "pbkdf2_block P salt (int c) (Suc i) = Inr (?T (Suc i))"
    using sl c small by (intro pbkdf2_block_T) simp_all
  have upt: "[Suc i..<Suc (i + Suc n)] = Suc i # [Suc (Suc i)..<Suc (Suc i + n)]"
    by (simp add: upt_conv_Cons)
  define m where "m = (if 32 < key_len - 32 * i then 32 else key_len - 32 * i)"
  have len: "length (?T (Suc i)) = 32" using c by (rule rfc8018_T_length)
  have unf: "pbkdf2_loop P salt (int c) key_len (Suc i) (32 * i) =
      (case pbkdf2_loop P salt (int c) key_len (Suc (Suc i)) (32 * i + m) of
         Inl f \<Rightarrow> Inl f | Inr rest \<Rightarrow> Inr (take m (?T (Suc i)) @ rest))"
    using small by (subst pbkdf2_loop.simps) (simp add: lt blk Let_def m_def [symmetric])
  show ?case
  proof (cases "n = 0")
    case True
    then have "key_len - 32 * i \<le> 32" using Suc.prems by linarith
    then have "m = key_len - 32 * i" by (simp add: m_def)
    moreover have "pbkdf2_loop P salt (int c) key_len (Suc (Suc i)) key_len = Inr []"
      by (subst pbkdf2_loop.simps) simp
    ultimately show ?thesis unfolding unf upt using lt True by simp
  next
    case False
    then have gt: "32 < key_len - 32 * i" using Suc.prems by linarith
    then have m: "m = 32" by (simp add: m_def)
    define R where "R = concat (map ?T [Suc (Suc i)..<Suc (Suc i + n)])"
    have "pbkdf2_loop P salt (int c) key_len (Suc (Suc i)) (32 * Suc i) =
        Inr (take (key_len - 32 * Suc i) R)"
      unfolding R_def using Suc.prems by (intro Suc.IH) simp
    moreover have "32 * Suc i = 32 * i + 32" by simp
    ultimately have "pbkdf2_loop P salt (int c) key_len (Suc (Suc i)) (32 * i + 32) =
        Inr (take (key_len - (32 * i + 32)) R)" by (simp only:)
    then show ?thesis
      unfolding unf upt m list.map concat.simps R_def [symmetric] using gt len by (simp add: take_append)
  qed
qed

lemma bank_pbkdf2_eq:
  assumes "length salt \<le> 64" "0 < c" "key_len < 2 ^ 31"
  shows "bank_pbkdf2_hmac_sha256 P salt (int c) key_len = Inr (rfc8018_pbkdf2 bank_hmac_sha256 P salt c key_len)"
  using pbkdf2_loop_blocks [OF assms, of 0 "(key_len + 31) div 32" P]
  by (simp add: bank_pbkdf2_hmac_sha256_def rfc8018_pbkdf2_def)

lemma bank_pbkdf2_long_salt:
  assumes "64 < length salt" "0 < key_len"
  shows "bank_pbkdf2_hmac_sha256 P salt c key_len = Inl Buffer_Overflow"
  using assms unfolding bank_pbkdf2_hmac_sha256_def
  by (subst pbkdf2_loop.simps) (simp add: pbkdf2_block_def)

lemma length_rfc8018_pbkdf2 [layout]:
  "0 < c \<Longrightarrow> length (rfc8018_pbkdf2 bank_hmac_sha256 P S c n) = n"
proof -
  assume c: "0 < c"
  have "length (concat (map (rfc8018_T bank_hmac_sha256 P S c) xs)) = 32 * length xs" for xs
    using c by (induction xs) (simp_all add: rfc8018_T_length)
  then have "length (rfc8018_pbkdf2 bank_hmac_sha256 P S c n) = min (32 * ((n + 31) div 32)) n"
    unfolding rfc8018_pbkdf2_def length_take by (simp only: length_upt diff_Suc_1)
  also have "\<dots> = n" by linarith
  finally show ?thesis .
qed

text \<open>
  bank_derive_key_from_password rejects a null argument; with a salt of at most 64 bytes
  it returns PBKDF2 of RFC 8018 with HMAC-SHA-256 and 100000 iterations; a longer salt
  overruns the salt block.
\<close>

theorem bank_derive_key_correct:
  assumes "key_len < 2 ^ 31"
  shows "bank_derive_key_from_password p s key key_len =
    (case (p, s, key) of
       (Some password, Some salt, True) \<Rightarrow>
         (if length salt \<le> 64
          then Inr (Some (rfc8018_pbkdf2 bank_hmac_sha256 password salt 100000 key_len))
          else if 0 < key_len then Inl Buffer_Overflow else Inr (Some []))
     | _ \<Rightarrow> Inr None)"
proof -
  have "bank_pbkdf2_hmac_sha256 password salt c 0 = Inr []" for password salt c
    unfolding bank_pbkdf2_hmac_sha256_def by (subst pbkdf2_loop.simps) simp
  moreover have "bank_pbkdf2_hmac_sha256 password salt 100000 key_len
      = Inr (rfc8018_pbkdf2 bank_hmac_sha256 password salt 100000 key_len)" if "length salt \<le> 64"
    for password salt
    using bank_pbkdf2_eq [of salt 100000 key_len password] that assms by simp
  ultimately show ?thesis
    by (auto simp: bank_derive_key_from_password_def bank_pbkdf2_long_salt split: option.splits bool.splits)
qed

lemma bank_derive_key_correct_witness:
  "bank_derive_key_from_password (Some [112]) (Some (replicate 65 0)) True 32 = Inl Buffer_Overflow \<and>
   bank_derive_key_from_password (Some [112]) (Some [115]) True 32 =
     Inr (Some (rfc8018_pbkdf2 bank_hmac_sha256 [112] [115] 100000 32))"
  using bank_derive_key_correct [of 32 "Some [112]" "Some (replicate 65 0)" True]
    bank_derive_key_correct [of 32 "Some [112]" "Some [115]" True] by simp

end
