(* ===== verification/Bank_State.thy ===== *)
theory Bank_State
  imports Bank_Kdf
begin

text \<open>
  The library's global state (\<open>src/core/bank_crypto.cpp\<close>, \<open>bank_context.cpp\<close>,
  \<open>bank_init.cpp\<close>) and its random number generator (\<open>src/rng\<close>): initialization, key
  rotation, wiping, statistics, and the byte pool. The mutexes guard single operations and
  are not modelled; an operation is one step on the state.
\<close>

section \<open>The platform\<close>

text \<open>
  What the operating system provides is a parameter: the value of the k-th call of time,
  the k-th read of /dev/urandom on a buffer (whether it succeeded, and the buffer after it),
  and the residue the k-th use of an uninitialized array finds on the stack. The state
  counts the calls.
\<close>

record platform =
  time_at :: "nat \<Rightarrow> int"
  random_at :: "nat \<Rightarrow> bytes \<Rightarrow> bool \<times> bytes"
  residue_at :: "nat \<Rightarrow> nat \<Rightarrow> bytes"

text \<open>what is relied on: neither changes the size of a buffer\<close>

definition platform_ok :: "platform \<Rightarrow> bool" where
  "platform_ok P \<longleftrightarrow> (\<forall>k buf. length (snd (random_at P k buf)) = length buf) \<and>
     (\<forall>k n. length (residue_at P k n) = n)"

section \<open>The global state\<close>

record crypto_context =
  ctx_master_key :: bytes
  ctx_salt :: bytes
  ctx_anti_tamper_seed :: bytes
  ctx_key_rotation_seed :: bytes
  ctx_initialized :: bool
  ctx_ref_count :: int
  ctx_total_encryptions :: u64
  ctx_total_decryptions :: u64
  ctx_key_created_at :: int
  ctx_key_chain :: "bytes list"
  ctx_current_key_index :: nat

record session_key =
  sk_session_key :: bytes
  sk_hmac_key :: bytes
  sk_key_id :: bytes
  sk_key_id_len :: nat
  sk_created_at :: int
  sk_expires_at :: int
  sk_last_used_at :: int
  sk_use_count :: u64
  sk_active :: bool
  sk_salt :: bytes

record session_manager =
  mgr_keys :: "session_key list"
  mgr_count :: int
  mgr_created :: u64
  mgr_destroyed :: u64

record rng_state =
  rng_pool :: bytes
  rng_pool_index :: nat
  rng_entropy_bits :: u64

record world =
  g_ctx :: crypto_context
  g_session_mgr :: session_manager
  g_rng_state :: rng_state
  g_library_initialized :: bool
  g_library_start_time :: u64
  sys_calls :: nat

definition zero_context :: crypto_context where
  "zero_context = \<lparr>ctx_master_key = replicate 32 0, ctx_salt = replicate 32 0,
     ctx_anti_tamper_seed = replicate 32 0, ctx_key_rotation_seed = replicate 32 0,
     ctx_initialized = False, ctx_ref_count = 0, ctx_total_encryptions = 0,
     ctx_total_decryptions = 0, ctx_key_created_at = 0,
     ctx_key_chain = replicate 8 (replicate 32 0), ctx_current_key_index = 0\<rparr>"

definition zero_session :: session_key where
  "zero_session = \<lparr>sk_session_key = replicate 32 0, sk_hmac_key = replicate 32 0,
     sk_key_id = replicate 256 0, sk_key_id_len = 0, sk_created_at = 0, sk_expires_at = 0,
     sk_last_used_at = 0, sk_use_count = 0, sk_active = False, sk_salt = replicate 16 0\<rparr>"

definition zero_manager :: session_manager where
  "zero_manager = \<lparr>mgr_keys = replicate 32 zero_session, mgr_count = 0, mgr_created = 0,
     mgr_destroyed = 0\<rparr>"

definition zero_rng :: rng_state where
  "zero_rng = \<lparr>rng_pool = replicate 1024 0, rng_pool_index = 0, rng_entropy_bits = 0\<rparr>"

definition bank_context_init :: "world \<Rightarrow> world" where
  "bank_context_init w = w\<lparr>g_ctx := zero_context, g_session_mgr := zero_manager,
     g_rng_state := zero_rng, g_library_initialized := False, g_library_start_time := 0\<rparr>"

definition sys_time :: "platform \<Rightarrow> world \<Rightarrow> int \<times> world" where
  "sys_time P w = (time_at P (sys_calls w), w\<lparr>sys_calls := sys_calls w + 1\<rparr>)"

definition bank_platform_random_bytes :: "platform \<Rightarrow> bytes \<Rightarrow> world \<Rightarrow> bool \<times> bytes \<times> world" where
  "bank_platform_random_bytes P buf w =
     (let (ok, buf) = random_at P (sys_calls w) buf in (ok, buf, w\<lparr>sys_calls := sys_calls w + 1\<rparr>))"

section \<open>The random number generator\<close>

definition bank_random_bytes :: "platform \<Rightarrow> bytes \<Rightarrow> world \<Rightarrow> bool \<times> bytes \<times> world" where
  "bank_random_bytes P buf w =
     (if length buf = 0 then (False, buf, w) else bank_platform_random_bytes P buf w)"

definition bank_rng_init :: "platform \<Rightarrow> world \<Rightarrow> world" where
  "bank_rng_init P w =
     (let (_, pool, w) = bank_platform_random_bytes P (rng_pool (g_rng_state w)) w
      in w\<lparr>g_rng_state := \<lparr>rng_pool = pool, rng_pool_index = 0, rng_entropy_bits = 1024 * 8\<rparr>\<rparr>)"

definition bank_rng_reseed :: "platform \<Rightarrow> world \<Rightarrow> world" where
  "bank_rng_reseed P w =
     (if \<not> g_library_initialized w then w
      else let (_, fresh, w) = bank_platform_random_bytes P (residue_at P (sys_calls w) 1024) w;
               r = g_rng_state w
           in w\<lparr>g_rng_state := r\<lparr>rng_pool := xor_bytes (rng_pool r) fresh, rng_entropy_bits := 1024 * 8\<rparr>\<rparr>)"

definition bank_rng_add_entropy :: "ptr \<Rightarrow> world \<Rightarrow> world" where
  "bank_rng_add_entropy data w =
     (case data of
        None \<Rightarrow> w
      | Some d \<Rightarrow>
          if \<not> g_library_initialized w \<or> length d = 0 then w
          else let to_add = (if length d < 1024 then length d else 1024);
                   r = g_rng_state w;
                   r = r\<lparr>rng_pool := xor_bytes (take to_add (rng_pool r)) (take to_add d) @ drop to_add (rng_pool r)\<rparr>;
                   r = r\<lparr>rng_entropy_bits := rng_entropy_bits r + of_nat to_add * 8\<rparr>;
                   r = (if rng_entropy_bits r > 1024 * 8 then r\<lparr>rng_entropy_bits := 1024 * 8\<rparr> else r)
               in w\<lparr>g_rng_state := r\<rparr>)"

definition bank_rng_entropy_available :: "world \<Rightarrow> u64" where
  "bank_rng_entropy_available w = rng_entropy_bits (g_rng_state w)"

text \<open>
  The end of the pool: the 32 bytes of its digest, and behind them whatever the new array
  held. The entropy counter is set to the bits of the digest.
\<close>

definition rng_refill :: "platform \<Rightarrow> world \<Rightarrow> world" where
  "rng_refill P w =
     (let r = g_rng_state w;
          new_pool = bank_sha256 (rng_pool r) @ drop 32 (residue_at P (sys_calls w) 1024)
      in w\<lparr>g_rng_state := \<lparr>rng_pool = new_pool, rng_pool_index = 0, rng_entropy_bits = 32 * 8\<rparr>,
           sys_calls := sys_calls w + 1\<rparr>)"

function rng_copy :: "platform \<Rightarrow> nat \<Rightarrow> world \<Rightarrow> (bytes \<times> world) run" where
  "rng_copy P remaining w =
     (if remaining = 0 then Inr ([], w)
      else let r = g_rng_state w; idx = rng_pool_index r
           in if 1024 < idx then Inl Buffer_Overflow
              else let to_copy = (if 1024 - idx < remaining then 1024 - idx else remaining);
                       out = take to_copy (drop idx (rng_pool r));
                       w = w\<lparr>g_rng_state := r\<lparr>rng_pool_index := idx + to_copy\<rparr>\<rparr>;
                       w = (if 1024 \<le> idx + to_copy then rng_refill P w else w)
                   in case rng_copy P (remaining - to_copy) w of
                        Inl f \<Rightarrow> Inl f
                      | Inr (rest, w) \<Rightarrow> Inr (out @ rest, w))"
  by pat_completeness auto
termination
  by (relation "measure (\<lambda>(P, remaining, w). 2 * remaining +
        (if rng_pool_index (g_rng_state w) = 1024 then 1 else 0))")
     (auto simp: rng_refill_def Let_def split: if_splits)

declare rng_copy.simps [simp del]

text \<open>Inr (None, _) is the return value 0\<close>

definition bank_rng_bytes :: "platform \<Rightarrow> nat \<Rightarrow> world \<Rightarrow> (bytes option \<times> world) run" where
  "bank_rng_bytes P len w =
     (if \<not> g_library_initialized w then Inr (None, w)
      else let w = (if rng_entropy_bits (g_rng_state w) < of_nat len * 8
                    then let (_, pool, w) = bank_platform_random_bytes P (rng_pool (g_rng_state w)) w
                         in w\<lparr>g_rng_state := (g_rng_state w)\<lparr>rng_pool := pool, rng_entropy_bits := 1024 * 8\<rparr>\<rparr>
                    else w)
           in case rng_copy P len w of
                Inl f \<Rightarrow> Inl f
              | Inr (out, w) \<Rightarrow>
                  let r = g_rng_state w
                  in Inr (Some out, w\<lparr>g_rng_state := r\<lparr>rng_entropy_bits := rng_entropy_bits r - of_nat len * 8\<rparr>\<rparr>))"

section \<open>Initialization, rotation and wiping\<close>

text \<open>
  The common end of the two initializations; \<open>fresh\<close> says whether the session totals are
  reset too. The slots of the session manager are not touched.
\<close>

definition init_finish :: "platform \<Rightarrow> bool \<Rightarrow> world \<Rightarrow> world" where
  "init_finish P fresh w =
     (let c = g_ctx w;
          (now, w) = sys_time P w;
          c = c\<lparr>ctx_key_chain := (ctx_key_chain c)[0 := ctx_master_key c], ctx_current_key_index := 0,
                ctx_key_created_at := now, ctx_total_encryptions := 0, ctx_total_decryptions := 0,
                ctx_initialized := True, ctx_ref_count := 1\<rparr>;
          (start, w) = sys_time P w;
          m = (g_session_mgr w)\<lparr>mgr_count := 0\<rparr>;
          m = (if fresh then m\<lparr>mgr_created := 0, mgr_destroyed := 0\<rparr> else m)
      in bank_rng_init P (w\<lparr>g_ctx := c, g_library_initialized := True,
           g_library_start_time := of_int start, g_session_mgr := m\<rparr>))"

text \<open>the draws of the random initialization, in order, with the key zeroed when one fails\<close>

definition bank_init_master_random :: "platform \<Rightarrow> world \<Rightarrow> bool \<times> world" where
  "bank_init_master_random P w =
     (let (ok, b, w) = bank_random_bytes P (ctx_master_key (g_ctx w)) w;
          w = w\<lparr>g_ctx := (g_ctx w)\<lparr>ctx_master_key := b\<rparr>\<rparr>
      in if \<not> ok then (False, w)
      else let (ok, b, w) = bank_random_bytes P (ctx_salt (g_ctx w)) w;
               w = w\<lparr>g_ctx := (g_ctx w)\<lparr>ctx_salt := b\<rparr>\<rparr>
      in if \<not> ok then (False, w\<lparr>g_ctx := (g_ctx w)\<lparr>ctx_master_key := replicate 32 0\<rparr>\<rparr>)
      else let (ok, b, w) = bank_random_bytes P (ctx_anti_tamper_seed (g_ctx w)) w;
               w = w\<lparr>g_ctx := (g_ctx w)\<lparr>ctx_anti_tamper_seed := b\<rparr>\<rparr>
      in if \<not> ok then (False, w\<lparr>g_ctx := (g_ctx w)\<lparr>ctx_master_key := replicate 32 0\<rparr>\<rparr>)
      else let (ok, b, w) = bank_random_bytes P (ctx_key_rotation_seed (g_ctx w)) w;
               w = w\<lparr>g_ctx := (g_ctx w)\<lparr>ctx_key_rotation_seed := b\<rparr>\<rparr>
      in if \<not> ok then (False, w\<lparr>g_ctx := (g_ctx w)\<lparr>ctx_master_key := replicate 32 0\<rparr>\<rparr>)
      else (True, init_finish P True w))"

definition bank_init_master :: "platform \<Rightarrow> bytes \<Rightarrow> bytes \<Rightarrow> world \<Rightarrow> bool \<times> world" where
  "bank_init_master P key salt w =
     (if length key \<noteq> 32 \<or> length salt \<noteq> 32 then (False, w)
      else let w = w\<lparr>g_ctx := (g_ctx w)\<lparr>ctx_master_key := key, ctx_salt := salt\<rparr>\<rparr>;
               (_, b, w) = bank_random_bytes P (ctx_anti_tamper_seed (g_ctx w)) w;
               w = w\<lparr>g_ctx := (g_ctx w)\<lparr>ctx_anti_tamper_seed := b\<rparr>\<rparr>;
               (_, b, w) = bank_random_bytes P (ctx_key_rotation_seed (g_ctx w)) w;
               w = w\<lparr>g_ctx := (g_ctx w)\<lparr>ctx_key_rotation_seed := b\<rparr>\<rparr>
           in (True, init_finish P False w))"

definition bank_rotate_master_key :: "platform \<Rightarrow> world \<Rightarrow> world" where
  "bank_rotate_master_key P w =
     (let c = g_ctx w
      in if \<not> ctx_initialized c then w
         else let new_index = (ctx_current_key_index c + 1) mod 8;
                  hash_input = ctx_key_chain c ! ctx_current_key_index c @ ctx_key_rotation_seed c;
                  new_key = bank_sha256 hash_input;
                  c = c\<lparr>ctx_key_chain := (ctx_key_chain c)[new_index := new_key], ctx_current_key_index := new_index\<rparr>;
                  (now, w) = sys_time P w
              in w\<lparr>g_ctx := c\<lparr>ctx_key_created_at := now\<rparr>\<rparr>)"

definition bank_wipe_master :: "world \<Rightarrow> world" where
  "bank_wipe_master w =
     (if \<not> ctx_initialized (g_ctx w) then w
      else let w = w\<lparr>g_ctx := zero_context, g_session_mgr := zero_manager\<rparr>
           in w\<lparr>g_ctx := (g_ctx w)\<lparr>ctx_initialized := False\<rparr>, g_library_initialized := False\<rparr>)"

definition bank_is_initialized :: "world \<Rightarrow> bool" where
  "bank_is_initialized w = g_library_initialized w"

definition bank_get_stats :: "world \<Rightarrow> u64 \<times> u64 \<times> u64 \<times> u64 \<times> int" where
  "bank_get_stats w = (ctx_total_encryptions (g_ctx w), ctx_total_decryptions (g_ctx w),
     mgr_created (g_session_mgr w), mgr_destroyed (g_session_mgr w), mgr_count (g_session_mgr w))"

definition bank_get_library_uptime :: "platform \<Rightarrow> world \<Rightarrow> u64 \<times> world" where
  "bank_get_library_uptime P w =
     (if \<not> g_library_initialized w then (0, w)
      else let (now, w) = sys_time P w in (of_int now - g_library_start_time w, w))"

definition bank_init :: "platform \<Rightarrow> world \<Rightarrow> bool \<times> world" where
  "bank_init P w =
     (if g_library_initialized w then (True, w)
      else let (ok, w) = bank_init_master_random P w in if \<not> ok then (False, w) else (True, w))"

definition bank_shutdown :: "world \<Rightarrow> world" where
  "bank_shutdown w = (if \<not> g_library_initialized w then w else bank_wipe_master w)"

section \<open>The byte pool\<close>

definition rng_ok :: "world \<Rightarrow> bool" where
  "rng_ok w \<longleftrightarrow> length (rng_pool (g_rng_state w)) = 1024 \<and> rng_pool_index (g_rng_state w) \<le> 1024"

definition same_but_rng :: "world \<Rightarrow> world \<Rightarrow> bool" where
  "same_but_rng v w \<longleftrightarrow> g_ctx w = g_ctx v \<and> g_session_mgr w = g_session_mgr v \<and>
     g_library_initialized w = g_library_initialized v \<and> g_library_start_time w = g_library_start_time v"

lemma same_but_rng_refl [simp]: "same_but_rng w w"
  by (simp add: same_but_rng_def)

lemma same_but_rng_trans: "same_but_rng u v \<Longrightarrow> same_but_rng v w \<Longrightarrow> same_but_rng u w"
  by (simp add: same_but_rng_def)

lemma rng_refill_ok: "platform_ok P \<Longrightarrow> rng_ok (rng_refill P w) \<and> same_but_rng w (rng_refill P w)"
  by (simp add: rng_refill_def rng_ok_def platform_ok_def same_but_rng_def Let_def)

text \<open>
  The entropy counter after the copy: unchanged while the pool lasts, 256 once it has been
  refilled from its digest.
\<close>

lemma rng_copy_ok:
  "platform_ok P \<Longrightarrow> rng_ok w \<Longrightarrow>
   \<exists>out w'. rng_copy P n w = Inr (out, w') \<and> length out = n \<and> rng_ok w' \<and> same_but_rng w w' \<and>
     rng_entropy_bits (g_rng_state w') =
       (if 0 < n \<and> 1024 \<le> rng_pool_index (g_rng_state w) + n then 256 else rng_entropy_bits (g_rng_state w))"
proof (induction P n w rule: rng_copy.induct)
  case (1 P n w)
  show ?case
  proof (cases "n = 0")
    case False
    define r idx where "r = g_rng_state w" and "idx = rng_pool_index r"
    define m where "m = (if 1024 - idx < n then 1024 - idx else n)"
    define w1 where "w1 = w\<lparr>g_rng_state := r\<lparr>rng_pool_index := idx + m\<rparr>\<rparr>"
    define w2 where "w2 = (if 1024 \<le> idx + m then rng_refill P w1 else w1)"
    have idx: "\<not> 1024 < idx" "idx \<le> 1024" using "1.prems" by (simp_all add: rng_ok_def idx_def r_def)
    have ok1: "rng_ok w1" "same_but_rng w w1"
      using "1.prems" idx by (auto simp: w1_def rng_ok_def r_def m_def same_but_rng_def)
    have ok2: "rng_ok w2" "same_but_rng w w2"
      using ok1 rng_refill_ok [OF "1.prems"(1), of w1] by (auto simp: w2_def intro: same_but_rng_trans)
    note IH = "1.IH" [OF False r_def idx_def idx(1) m_def refl w1_def w2_def]
    obtain out w' where rest: "rng_copy P (n - m) w2 = Inr (out, w')" "length out = n - m" "rng_ok w'"
      "same_but_rng w2 w'" "rng_entropy_bits (g_rng_state w') =
       (if 0 < n - m \<and> 1024 \<le> rng_pool_index (g_rng_state w2) + (n - m) then 256 else rng_entropy_bits (g_rng_state w2))"
      using IH [OF "1.prems"(1) ok2(1)] by blast
    have "rng_copy P n w = Inr (take m (drop idx (rng_pool r)) @ out, w')"
      by (subst rng_copy.simps)
         (simp only: False if_False Let_def r_def [symmetric] idx_def [symmetric] idx(1)
           m_def [symmetric] w1_def [symmetric] w2_def [symmetric] rest(1) sum.case prod.case)
    moreover have "length (take m (drop idx (rng_pool r))) = m"
      using "1.prems" idx by (simp add: rng_ok_def r_def m_def)
    moreover have "rng_entropy_bits (g_rng_state w') =
       (if 0 < n \<and> 1024 \<le> idx + n then 256 else rng_entropy_bits r)"
    proof (cases "1024 \<le> idx + m")
      case True
      then have "1024 \<le> idx + n" by (simp add: m_def split: if_splits)
      then show ?thesis using rest(5) True False by (simp add: w2_def rng_refill_def Let_def)
    next
      case nr: False
      then have "m = n" "idx + n < 1024" using idx by (simp_all add: m_def split: if_splits)
      then show ?thesis using rest(5) by (simp add: w2_def w1_def)
    qed
    moreover have "m \<le> n" by (simp add: m_def)
    ultimately show ?thesis
      using rest ok2 unfolding r_def idx_def by (auto intro: same_but_rng_trans)
  qed (use 1 in \<open>simp add: rng_copy.simps\<close>)
qed

text \<open>the state in which the copy starts: fresh bytes when the counter is too low\<close>

definition rng_topped_up :: "platform \<Rightarrow> nat \<Rightarrow> world \<Rightarrow> world" where
  "rng_topped_up P len w =
     (if rng_entropy_bits (g_rng_state w) < of_nat len * 8
      then let (_, pool, w) = bank_platform_random_bytes P (rng_pool (g_rng_state w)) w
           in w\<lparr>g_rng_state := (g_rng_state w)\<lparr>rng_pool := pool, rng_entropy_bits := 1024 * 8\<rparr>\<rparr>
      else w)"

lemma rng_topped_up_ok:
  assumes "platform_ok P" "rng_ok w"
  shows "rng_ok (rng_topped_up P len w)" "same_but_rng w (rng_topped_up P len w)"
    "rng_pool_index (g_rng_state (rng_topped_up P len w)) = rng_pool_index (g_rng_state w)"
proof -
  have "length (snd (random_at P k b)) = length b" for k b using assms(1) by (simp add: platform_ok_def)
  then show "rng_ok (rng_topped_up P len w)" "same_but_rng w (rng_topped_up P len w)"
    "rng_pool_index (g_rng_state (rng_topped_up P len w)) = rng_pool_index (g_rng_state w)"
    using assms(2)
    by (simp_all add: rng_topped_up_def bank_platform_random_bytes_def split_def Let_def rng_ok_def same_but_rng_def)
qed

lemma bank_rng_bytes_ok:
  assumes "platform_ok P" "rng_ok w" "g_library_initialized w"
  shows "\<exists>out w'. bank_rng_bytes P len w = Inr (Some out, w') \<and> length out = len \<and> rng_ok w' \<and> same_but_rng w w' \<and>
    (0 < len \<and> 1024 \<le> rng_pool_index (g_rng_state w) + len \<longrightarrow>
      rng_entropy_bits (g_rng_state w') = 256 - of_nat len * 8)"
proof -
  let ?v = "rng_topped_up P len w"
  have v: "rng_ok ?v" "same_but_rng w ?v" "rng_pool_index (g_rng_state ?v) = rng_pool_index (g_rng_state w)"
    using rng_topped_up_ok [OF assms(1,2)] by blast+
  obtain out w' where c: "rng_copy P len ?v = Inr (out, w')" "length out = len" "rng_ok w'" "same_but_rng ?v w'"
    "rng_entropy_bits (g_rng_state w') =
       (if 0 < len \<and> 1024 \<le> rng_pool_index (g_rng_state ?v) + len then 256 else rng_entropy_bits (g_rng_state ?v))"
    using rng_copy_ok [OF assms(1) v(1), of len] by blast
  have "bank_rng_bytes P len w = Inr (Some out, w'\<lparr>g_rng_state := (g_rng_state w')
      \<lparr>rng_entropy_bits := rng_entropy_bits (g_rng_state w') - of_nat len * 8\<rparr>\<rparr>)"
    unfolding bank_rng_bytes_def rng_topped_up_def [symmetric] using assms(3) c(1) by (simp add: Let_def)
  then show ?thesis using c v by (auto simp: rng_ok_def same_but_rng_def)
qed

text \<open>
  C8: On an initialized library bank_rng_bytes always returns the number of bytes asked for,
  stays inside the pool and changes nothing but the generator; and a request of more than 32
  bytes that reaches the end of the pool leaves the entropy counter wrapped below zero, that
  is, above two to the 63.
\<close>

theorem rng_bytes_sound:
  assumes "platform_ok P" "rng_ok w" "g_library_initialized w"
  shows "\<exists>out w'. bank_rng_bytes P len w = Inr (Some out, w') \<and> length out = len \<and> rng_ok w' \<and> same_but_rng w w' \<and>
    (32 < len \<and> len < 2 ^ 32 \<and> 1024 \<le> rng_pool_index (g_rng_state w) + len \<longrightarrow>
      2 ^ 63 \<le> unat (bank_rng_entropy_available w'))"
proof -
  have "2 ^ 63 \<le> unat (256 - of_nat len * 8 :: u64)" if "32 < len" "len < 2 ^ 32"
  proof -
    have "unat (of_nat len * 8 :: u64) = len * 8" using that by (simp add: unat_word_ariths unat_of_nat)
    then have "unat (256 - of_nat len * 8 :: u64) = 2 ^ 64 + 256 - len * 8"
      using that by (simp add: unat_sub_if')
    then show ?thesis using that by simp
  qed
  then show ?thesis
    using bank_rng_bytes_ok [OF assms, of len] by (auto simp: bank_rng_entropy_available_def)
qed

text \<open>a platform and a state to apply the theorems to\<close>

definition quiet_platform :: platform where
  "quiet_platform = \<lparr>time_at = \<lambda>_. 1000, random_at = \<lambda>_ buf. (True, buf), residue_at = \<lambda>_ n. replicate n 0\<rparr>"

definition zero_world :: world where
  "zero_world = \<lparr>g_ctx = zero_context, g_session_mgr = zero_manager, g_rng_state = zero_rng,
     g_library_initialized = False, g_library_start_time = 0, sys_calls = 0\<rparr>"

definition started_world :: world where
  "started_world = snd (bank_init quiet_platform zero_world)"

lemma quiet_platform_ok: "platform_ok quiet_platform"
  by (simp add: platform_ok_def quiet_platform_def)

lemma started_world_eq:
  "started_world = \<lparr>g_ctx = zero_context\<lparr>ctx_key_created_at := 1000, ctx_initialized := True, ctx_ref_count := 1\<rparr>,
     g_session_mgr = zero_manager, g_rng_state = \<lparr>rng_pool = replicate 1024 0, rng_pool_index = 0, rng_entropy_bits = 8192\<rparr>,
     g_library_initialized = True, g_library_start_time = 1000, sys_calls = 7\<rparr>"
  by (simp add: started_world_def bank_init_def bank_init_master_random_def bank_random_bytes_def
      bank_platform_random_bytes_def init_finish_def bank_rng_init_def sys_time_def quiet_platform_def
      zero_world_def zero_context_def zero_manager_def zero_rng_def Let_def split_def numeral_eq_Suc)

lemma rng_bytes_sound_witness:
  "\<exists>out w'. bank_rng_bytes quiet_platform 1024 started_world = Inr (Some out, w') \<and> length out = 1024 \<and>
     2 ^ 63 \<le> unat (bank_rng_entropy_available w')"
  using rng_bytes_sound [of quiet_platform started_world 1024]
  by (auto simp: quiet_platform_ok started_world_eq rng_ok_def)

section \<open>Key rotation\<close>

definition chain_ok :: "world \<Rightarrow> bool" where
  "chain_ok w \<longleftrightarrow> length (ctx_key_chain (g_ctx w)) = 8 \<and> ctx_current_key_index (g_ctx w) < 8"

definition current_key :: "world \<Rightarrow> bytes" where
  "current_key w = ctx_key_chain (g_ctx w) ! ctx_current_key_index (g_ctx w)"

lemma rotate_step:
  fixes P w
  assumes "ctx_initialized (g_ctx w)" "chain_ok w"
  defines "w' \<equiv> bank_rotate_master_key P w"
  shows "chain_ok w'" "ctx_initialized (g_ctx w')"
    "current_key w' = bank_sha256 (current_key w @ ctx_key_rotation_seed (g_ctx w))"
    "ctx_key_rotation_seed (g_ctx w') = ctx_key_rotation_seed (g_ctx w)"
    "ctx_current_key_index (g_ctx w') = (ctx_current_key_index (g_ctx w) + 1) mod 8"
    "g_session_mgr w' = g_session_mgr w"
    "i < 8 \<Longrightarrow> i \<noteq> ctx_current_key_index (g_ctx w') \<Longrightarrow>
      ctx_key_chain (g_ctx w') ! i = ctx_key_chain (g_ctx w) ! i"
  using assms(1,2) unfolding w'_def
  by (simp_all add: bank_rotate_master_key_def chain_ok_def current_key_def sys_time_def Let_def)

text \<open>
  C37: After n rotations of an initialized context, whose ring has its eight slots and whose
  index is below 8, the current key is n times the hash of the key with the rotation
  seed, kept at n slots further in the ring of eight; the sessions and their keys are those
  of before.
\<close>

theorem rotate_chain:
  assumes "ctx_initialized (g_ctx w)" "chain_ok w"
  shows "chain_ok ((bank_rotate_master_key P ^^ n) w) \<and>
    current_key ((bank_rotate_master_key P ^^ n) w) =
      ((\<lambda>k. bank_sha256 (k @ ctx_key_rotation_seed (g_ctx w))) ^^ n) (current_key w) \<and>
    ctx_current_key_index (g_ctx ((bank_rotate_master_key P ^^ n) w)) = (ctx_current_key_index (g_ctx w) + n) mod 8 \<and>
    g_session_mgr ((bank_rotate_master_key P ^^ n) w) = g_session_mgr w"
proof -
  let ?r = "\<lambda>n. (bank_rotate_master_key P ^^ n) w"
  have "chain_ok (?r n) \<and> ctx_initialized (g_ctx (?r n)) \<and>
    ctx_key_rotation_seed (g_ctx (?r n)) = ctx_key_rotation_seed (g_ctx w) \<and>
    current_key (?r n) = ((\<lambda>k. bank_sha256 (k @ ctx_key_rotation_seed (g_ctx w))) ^^ n) (current_key w) \<and>
    ctx_current_key_index (g_ctx (?r n)) = (ctx_current_key_index (g_ctx w) + n) mod 8 \<and>
    g_session_mgr (?r n) = g_session_mgr w"
  proof (induction n)
    case 0
    then show ?case using assms by (simp add: chain_ok_def)
  next
    case (Suc n)
    then have i: "ctx_initialized (g_ctx (?r n))" "chain_ok (?r n)" by blast+
    have "((ctx_current_key_index (g_ctx w) + n) mod 8 + 1) mod 8 = (ctx_current_key_index (g_ctx w) + Suc n) mod 8"
      by (simp add: mod_Suc_eq)
    then show ?case using Suc by (simp add: rotate_step [OF i])
  qed
  then show ?thesis by blast
qed

lemma rotate_chain_witness:
  "current_key ((bank_rotate_master_key quiet_platform ^^ 9) started_world) =
     ((\<lambda>k. bank_sha256 (k @ replicate 32 0)) ^^ 9) (replicate 32 0) \<and>
   ctx_current_key_index (g_ctx ((bank_rotate_master_key quiet_platform ^^ 9) started_world)) = 1"
proof -
  have w: "ctx_initialized (g_ctx started_world)" "chain_ok started_world" "current_key started_world = replicate 32 0"
    "ctx_key_rotation_seed (g_ctx started_world) = replicate 32 0" "ctx_current_key_index (g_ctx started_world) = 0"
    by (simp_all add: started_world_eq zero_context_def chain_ok_def current_key_def)
  have "(0 + 9) mod 8 = (1::nat)" by simp
  then show ?thesis using rotate_chain [OF w(1,2), of 9 quiet_platform] unfolding w(3-5) by argo
qed

end
