(* ===== verification/Bank_Utils.thy ===== *)
theory Bank_Utils
  imports Bank_Prelude
begin

text \<open>
  Models \<open>bank_crypto_project/src/utils/bank_utils.cpp\<close> (memory helpers, comparison,
  byte swaps) and \<open>bank_crc32.cpp\<close>. A function that returns the int 1 or 0 as a truth
  value returns a bool. The two sleeps of \<open>bank_secure_compare\<close> have no effect on its
  result and are left out.
\<close>

section \<open>Memory helpers\<close>

fun bank_secure_zero :: "bytes \<Rightarrow> nat \<Rightarrow> fault + bytes" where
  "bank_secure_zero p 0 = Inr p"
| "bank_secure_zero [] (Suc len) = Inl Buffer_Overflow"
| "bank_secure_zero (x # p) (Suc len) =
     (case bank_secure_zero p len of Inl f \<Rightarrow> Inl f | Inr p' \<Rightarrow> Inr (0 # p'))"

definition bank_secure_compare :: "bytes \<Rightarrow> bytes \<Rightarrow> nat \<Rightarrow> bool" where
  "bank_secure_compare a b len =
     (foldl (\<lambda>result i. result OR (a ! i XOR b ! i)) 0 [0..<len] = 0)"

definition bank_memxor :: "bytes \<Rightarrow> bytes \<Rightarrow> nat \<Rightarrow> bytes" where
  "bank_memxor dst src len = foldl (\<lambda>d i. d[i := d ! i XOR src ! i]) dst [0..<len]"

definition bank_is_zero :: "bytes \<Rightarrow> nat \<Rightarrow> bool" where
  "bank_is_zero data len = (foldl (\<lambda>result i. result OR data ! i) 0 [0..<len] = 0)"

definition bank_swap_bytes :: "u8 \<Rightarrow> u8 \<Rightarrow> u8 \<times> u8" where
  "bank_swap_bytes a b = (let t = a; a = b; b = t in (a, b))"

definition bank_bswap16 :: "u16 \<Rightarrow> u16" where
  "bank_bswap16 x = drop_bit 8 x OR push_bit 8 x"

definition bank_bswap32 :: "u32 \<Rightarrow> u32" where
  "bank_bswap32 x = drop_bit 24 x OR (drop_bit 8 x AND 0x0000FF00)
     OR (push_bit 8 x AND 0x00FF0000) OR push_bit 24 x"

definition bank_bswap64 :: "u64 \<Rightarrow> u64" where
  "bank_bswap64 x = drop_bit 56 x OR (drop_bit 40 x AND 0x000000000000FF00)
     OR (drop_bit 24 x AND 0x0000000000FF0000) OR (drop_bit 8 x AND 0x00000000FF000000)
     OR (push_bit 8 x AND 0x000000FF00000000) OR (push_bit 24 x AND 0x0000FF0000000000)
     OR (push_bit 40 x AND 0x00FF000000000000) OR push_bit 56 x"

subsection \<open>What they compute\<close>

lemma secure_zero_ok:
  "len \<le> length p \<Longrightarrow> bank_secure_zero p len = Inr (replicate len 0 @ drop len p)"
  by (induction p len rule: bank_secure_zero.induct) auto

lemma secure_zero_overflow:
  "length p < len \<Longrightarrow> bank_secure_zero p len = Inl Buffer_Overflow"
  by (induction p len rule: bank_secure_zero.induct) auto

lemma or_fold_zero:
  "(foldl (\<lambda>r i. r OR f i) r0 xs = (0::u8)) = (r0 = 0 \<and> (\<forall>i\<in>set xs. f i = 0))"
  by (induction xs arbitrary: r0) (auto simp: or_eq_0_iff)

lemma xor_zero_iff: "(x XOR y = (0::'a::len word)) = (x = y)"
  by (metis xor.assoc xor.right_neutral xor_self_eq)

lemma xor_right_cancel: "((x::'a::len word) XOR z = y XOR z) = (x = y)"
proof
  assume "x XOR z = y XOR z"
  then have "(x XOR z) XOR z = (y XOR z) XOR z" by (rule arg_cong)
  then show "x = y" by (simp only: xor.assoc xor_self_eq xor.right_neutral)
qed simp

lemma secure_compare_iff:
  assumes "len \<le> length a" "len \<le> length b"
  shows "bank_secure_compare a b len = (take len a = take len b)"
  using assms by (auto simp: bank_secure_compare_def or_fold_zero xor_zero_iff list_eq_iff_nth_eq)

lemma secure_compare_full:
  "length a = n \<Longrightarrow> length b = n \<Longrightarrow> bank_secure_compare a b n = (a = b)"
  by (simp add: secure_compare_iff)

lemma is_zero_iff: "len \<le> length a \<Longrightarrow> bank_is_zero a len = (take len a = replicate len 0)"
  by (auto simp: bank_is_zero_def or_fold_zero list_eq_iff_nth_eq)

lemma memxor_step:
  "n \<le> length dst \<Longrightarrow> n \<le> length src \<Longrightarrow>
   foldl (\<lambda>d i. d[i := d ! i XOR src ! i]) dst [0..<n] = xor_bytes (take n dst) src @ drop n dst"
proof (induction n)
  case (Suc n)
  then have len: "length (xor_bytes (take n dst) src) = n" by simp
  have d: "drop n dst = dst ! n # drop (Suc n) dst" using Suc.prems by (simp add: Cons_nth_drop_Suc)
  have "xor_bytes (take (Suc n) dst) src = xor_bytes (take n dst) src @ [dst ! n XOR src ! n]"
    using Suc.prems by (intro nth_equalityI) (auto simp: nth_append less_Suc_eq)
  then show ?case using Suc len d by (simp add: list_update_append nth_append)
qed simp

lemma memxor_eq:
  "len \<le> length dst \<Longrightarrow> len \<le> length src \<Longrightarrow>
   bank_memxor dst src len = xor_bytes (take len dst) src @ drop len dst"
  by (simp add: bank_memxor_def memxor_step)

text \<open>the masks of the code are runs of eight ones\<close>

lemma byte_masks32: "(0xFF00::u32) = push_bit 8 (mask 8)" "(0xFF0000::u32) = push_bit 16 (mask 8)"
  by (simp_all add: mask_eq_exp_minus_1)

lemma byte_masks64:
  "(0xFF00::u64) = push_bit 8 (mask 8)" "(0xFF0000::u64) = push_bit 16 (mask 8)"
  "(0xFF000000::u64) = push_bit 24 (mask 8)" "(0xFF00000000::u64) = push_bit 32 (mask 8)"
  "(0xFF0000000000::u64) = push_bit 40 (mask 8)" "(0xFF000000000000::u64) = push_bit 48 (mask 8)"
  by (simp_all add: mask_eq_exp_minus_1)

lemma bit_beyond: "32 \<le> n \<Longrightarrow> \<not> bit (x::u32) n" "64 \<le> n \<Longrightarrow> \<not> bit (y::u64) n"
  by (auto dest: bit_imp_le_length)

lemma bit_bswap32:
  assumes "n < LENGTH(32)"
  shows "bit (bank_bswap32 x) n = (if n < 8 then bit x (24 + n) else if n < 16 then bit x (8 + n)
      else if n < 24 then bit x (n - 8) else bit x (n - 24))"
  using assms by (cases rule: byte_cases32)
    (simp_all only: bank_bswap32_def byte_masks32, simp_all only: bit_ops bit_mask_iff,
     auto simp: bit_beyond)

lemma store_bswap32: "store_be32 (bank_bswap32 x) = store_le32 x"
  unfolding store_be32_def store_le32_def list.inject
  by (intro conjI refl; rule bit_word_eqI; simp only: bit_ops; simp add: bit_bswap32)

lemma store_inject: "store_be32 x = store_be32 y \<Longrightarrow> x = y"
  by (metis load_store_be32)

lemma store_le32_rev: "store_le32 x = rev (store_be32 x)"
  by (simp add: store_le32_def store_be32_def)

lemma bswap32_involution: "bank_bswap32 (bank_bswap32 x) = x"
  by (rule store_inject) (simp add: store_bswap32 store_le32_rev)

lemma byte_cases64:
  assumes "n < LENGTH(64)"
  obtains "n < 8" | "8 \<le> n" "n < 16" | "16 \<le> n" "n < 24" | "24 \<le> n" "n < 32"
    | "32 \<le> n" "n < 40" | "40 \<le> n" "n < 48" | "48 \<le> n" "n < 56" | "56 \<le> n" "n < 64"
  using assms by fastforce

lemma bit_bswap64:
  assumes "n < LENGTH(64)"
  shows "bit (bank_bswap64 x) n = (if n < 8 then bit x (56 + n) else if n < 16 then bit x (40 + n)
      else if n < 24 then bit x (24 + n) else if n < 32 then bit x (8 + n)
      else if n < 40 then bit x (n - 8) else if n < 48 then bit x (n - 24)
      else if n < 56 then bit x (n - 40) else bit x (n - 56))"
  using assms by (cases rule: byte_cases64)
    (simp_all only: bank_bswap64_def byte_masks64, simp_all only: bit_ops bit_mask_iff,
     auto simp: bit_beyond)

lemma bswap64_involution: "bank_bswap64 (bank_bswap64 x) = x"
  by (rule bit_word_eqI, erule byte_cases64) (auto simp: bit_bswap64)

lemma bswap16_involution: "bank_bswap16 (bank_bswap16 x) = x"
  by (rule bit_word_eqI) (simp only: bank_bswap16_def bit_ops, auto dest: bit_imp_le_length)

section \<open>CRC-32\<close>

text \<open>
  One turn of the inner loop, one input byte, and the whole checksum. The C operator \<open>?:\<close>
  on the low bit is the if of \<open>crc32_bit\<close>.
\<close>

definition crc32_poly :: u32 where "crc32_poly = 0xEDB88320"

definition crc32_bit :: "u32 \<Rightarrow> u32" where
  "crc32_bit crc = drop_bit 1 crc XOR (if crc AND 1 \<noteq> 0 then crc32_poly else 0)"

definition crc32_byte :: "u32 \<Rightarrow> u8 \<Rightarrow> u32" where
  "crc32_byte crc d = (crc32_bit ^^ 8) (crc XOR ucast d)"

definition bank_crc32 :: "bytes \<Rightarrow> u32" where
  "bank_crc32 data = NOT (foldl crc32_byte 0xFFFFFFFF data)"

definition crc32_power_step :: "u32 \<Rightarrow> u32" where
  "crc32_power_step p = push_bit 1 p XOR (if p AND 0x80000000 \<noteq> 0 then crc32_poly else 0)"

definition crc32_combine_step :: "u32 \<Rightarrow> u32 \<Rightarrow> nat \<Rightarrow> u32" where
  "crc32_combine_step p crc i = (if p AND push_bit i 1 \<noteq> 0 then crc32_bit crc else crc)"

definition bank_crc32_combine :: "u32 \<Rightarrow> u32 \<Rightarrow> nat \<Rightarrow> u32" where
  "bank_crc32_combine crc1 crc2 len2 =
     (let p = (crc32_power_step ^^ len2) 1;
          crc = foldl (crc32_combine_step p) crc1 [0..<32]
      in crc XOR crc2)"

subsection \<open>The step is linear and injective\<close>

lemma and_one_bit: "(x AND 1 \<noteq> (0::u32)) = bit x 0"
  by (metis and_one_eq odd_iff_mod_2_eq_one even_mod_2_iff bit_0 zero_neq_one even_zero mod2_eq_if)

lemma crc32_bit_xor: "crc32_bit (x XOR y) = crc32_bit x XOR crc32_bit y"
  by (rule bit_word_eqI) (auto simp: crc32_bit_def and_one_bit bit_xor_iff bit_drop_bit_eq)

lemma crc32_bit_0 [simp]: "crc32_bit 0 = 0"
  by (simp add: crc32_bit_def)

lemma bit_crc32_bit: "bit (crc32_bit x) n = (bit x (Suc n) \<noteq> (bit x 0 \<and> bit crc32_poly n))"
  by (simp add: crc32_bit_def and_one_bit bit_xor_iff bit_drop_bit_eq)

lemma crc32_bit_zero:
  assumes "crc32_bit x = 0"
  shows "x = 0"
proof -
  have b: "bit x (Suc n) = (bit x 0 \<and> bit crc32_poly n)" for n
    using bit_crc32_bit [of x n] assms by simp
  have "\<not> bit x (Suc 31)" "bit crc32_poly 31"
    by (simp_all add: bit_beyond crc32_poly_def)
  with b [of 31] have "\<not> bit x 0" by blast
  with b have "\<not> bit x n" for n by (cases n) auto
  then show ?thesis by (intro bit_word_eqI) simp
qed

lemma crc32_pow_xor: "(crc32_bit ^^ n) (x XOR y) = (crc32_bit ^^ n) x XOR (crc32_bit ^^ n) y"
  by (induction n) (simp_all add: crc32_bit_xor)

lemma crc32_pow_zero: "(crc32_bit ^^ n) x = 0 \<Longrightarrow> x = 0"
  by (induction n) (auto dest: crc32_bit_zero)

lemma crc32_pow_inject: "(crc32_bit ^^ n) x = (crc32_bit ^^ n) y \<Longrightarrow> x = y"
  by (metis crc32_pow_xor crc32_pow_zero xor_zero_iff)

lemma crc32_bit_push:
  "k < 24 \<Longrightarrow> crc32_bit (push_bit (Suc k) (ucast (b::u8))) = push_bit k (ucast b)"
  by (rule bit_word_eqI) (simp only: bit_crc32_bit bit_ops, auto dest: bit_imp_le_length)

lemma crc32_pow_push:
  "n \<le> 24 \<Longrightarrow> (crc32_bit ^^ n) (push_bit n (ucast (b::u8))) = ucast b"
proof (induction n)
  case (Suc n)
  then show ?case
    by (simp only: funpow_Suc_right o_apply crc32_bit_push Suc_le_lessD less_imp_le)
qed simp

lemma crc32_byte_state: "crc32_byte c d = crc32_byte c' d \<Longrightarrow> c = c'"
  unfolding crc32_byte_def by (drule crc32_pow_inject) (simp only: xor_right_cancel)

lemma crc32_state: "foldl crc32_byte c s = foldl crc32_byte c' s \<Longrightarrow> c = c'"
  by (induction s arbitrary: c c') (auto dest: crc32_byte_state)

subsection \<open>Four bytes enter as one word\<close>

lemma crc32_absorb:
  assumes "n \<le> 24"
  shows "crc32_byte ((crc32_bit ^^ n) x) d = (crc32_bit ^^ (n + 8)) (x XOR push_bit n (ucast d))"
proof -
  have "(crc32_bit ^^ n) (x XOR push_bit n (ucast d)) = (crc32_bit ^^ n) x XOR ucast d"
    using assms by (simp add: crc32_pow_xor crc32_pow_push)
  moreover have "(crc32_bit ^^ (n + 8)) y = (crc32_bit ^^ 8) ((crc32_bit ^^ n) y)" for y
    by (metis add.commute comp_apply funpow_add)
  ultimately show ?thesis by (simp only: crc32_byte_def)
qed

lemma load_le32_xor:
  "load_le32 [b0, b1, b2, b3] 0 =
     ucast b0 XOR push_bit 8 (ucast b1) XOR push_bit 16 (ucast b2) XOR push_bit 24 (ucast b3)"
proof (rule bit_word_eqI)
  fix n assume "n < LENGTH(32)"
  then show "bit (load_le32 [b0, b1, b2, b3] 0) n = bit (ucast b0 XOR push_bit 8 (ucast b1)
      XOR push_bit 16 (ucast b2) XOR push_bit 24 (ucast b3) :: u32) n"
    by (cases rule: byte_cases32)
       (simp_all add: load_le32_def, simp_all only: bit_ops, auto dest: bit_imp_le_length)
qed

lemma crc32_four:
  "foldl crc32_byte c [b0, b1, b2, b3] = (crc32_bit ^^ 32) (c XOR load_le32 [b0, b1, b2, b3] 0)"
  using crc32_absorb [of 0 c b0] by (simp add: crc32_absorb load_le32_xor xor.assoc)

lemma store_load_le32: "store_le32 (load_le32 [b0, b1, b2, b3] 0) = [b0, b1, b2, b3]"
proof -
  have "bit (load_le32 [b0, b1, b2, b3] 0) n = (if n < 8 then bit b0 n else if n < 16 then bit b1 (n - 8)
      else if n < 24 then bit b2 (n - 16) else bit b3 (n - 24))" if "n < LENGTH(32)" for n
    using that by (cases rule: byte_cases32)
      (simp_all add: load_le32_def, simp_all only: bit_ops, auto dest: bit_imp_le_length)
  then show ?thesis
    unfolding store_le32_def list.inject
    by (intro conjI refl; intro bit_word_eqI; simp only: bit_ops; simp)
qed

lemma crc32_window4:
  assumes "length x = 4" "length y = 4" "foldl crc32_byte c x = foldl crc32_byte c y"
  shows "x = y"
proof -
  obtain a0 a1 a2 a3 b0 b1 b2 b3 where xy: "x = [a0, a1, a2, a3]" "y = [b0, b1, b2, b3]"
    using assms(1,2) by (auto simp: length_Suc_conv numeral_eq_Suc)
  have "load_le32 x 0 XOR c = load_le32 y 0 XOR c"
    using crc32_pow_inject assms(3) unfolding xy crc32_four by (metis xor.commute)
  then have "load_le32 x 0 = load_le32 y 0" by (simp only: xor_right_cancel)
  then show ?thesis using store_load_le32 unfolding xy by metis
qed

lemma crc32_window:
  assumes len: "length x = length y" "length x \<le> 4" and eq: "foldl crc32_byte c x = foldl crc32_byte c y"
  shows "x = y"
proof -
  let ?z = "replicate (4 - length x) (0::u8)"
  have "foldl crc32_byte c (x @ ?z) = foldl crc32_byte c (y @ ?z)" using eq by simp
  then have "x @ ?z = y @ ?z" using len by (intro crc32_window4 [of _ _ c]) simp_all
  then show ?thesis by simp
qed

lemma crc32_burst:
  assumes "length x = length y" "length x \<le> 4" "x \<noteq> y"
  shows "bank_crc32 (p @ x @ s) \<noteq> bank_crc32 (p @ y @ s)"
proof
  assume "bank_crc32 (p @ x @ s) = bank_crc32 (p @ y @ s)"
  then have "foldl crc32_byte (foldl crc32_byte 0xFFFFFFFF p) x
      = foldl crc32_byte (foldl crc32_byte 0xFFFFFFFF p) y"
    by (auto simp: bank_crc32_def dest: crc32_state)
  then show False using assms crc32_window by blast
qed

text \<open>evaluation on concrete bytes: the eight turns of the inner loop, written out\<close>

lemma crc32_byte_unroll:
  "crc32_byte crc d = crc32_bit (crc32_bit (crc32_bit (crc32_bit
     (crc32_bit (crc32_bit (crc32_bit (crc32_bit (crc XOR ucast d))))))))"
  by (simp add: crc32_byte_def numeral_eq_Suc)

lemmas crc32_eval = bank_crc32_def crc32_byte_unroll crc32_bit_def crc32_poly_def

text \<open>the check value of CRC-32 on the digits 1 to 9\<close>

lemma crc32_check_value: "bank_crc32 [49, 50, 51, 52, 53, 54, 55, 56, 57] = 0xCBF43926"
  by (simp add: crc32_eval)

lemma crc32_hello_parts:
  "bank_crc32 [72, 101, 108, 108, 111, 44, 32] = 3730272005"
  "bank_crc32 [87, 111, 114, 108, 100, 33] = 1982373342"
  "bank_crc32 [72, 101, 108, 108, 111, 44, 32, 87, 111, 114, 108, 100, 33] = 3964322768"
  by (simp_all add: crc32_eval)

lemma crc32_combine_step_bit:
  "crc32_combine_step p crc i = (if bit p i then crc32_bit crc else crc)"
  by (simp add: crc32_combine_step_def bit_iff_and_push_bit_not_eq_0)

lemma crc32_hello_power: "(crc32_power_step ^^ 6) 1 = 64"
proof -
  have "(crc32_power_step ^^ 6) 1 = crc32_power_step (crc32_power_step (crc32_power_step
      (crc32_power_step (crc32_power_step (crc32_power_step 1)))))"
    by (simp add: numeral_eq_Suc)
  then show ?thesis by (simp add: crc32_power_step_def)
qed

lemma upt_32: "[0..<32] = [0, 1, 2, 3, 4, 5, 6, 7, 8, 9, 10, 11, 12, 13, 14, 15, 16, 17, 18, 19, 20,
   21, 22, 23, 24, 25, 26, 27, 28, 29, 30, 31]"
  by code_simp

section \<open>Properties\<close>

text \<open>\<open>bank_secure_compare\<close> accepts exactly when the first len bytes agree.\<close>

theorem secure_compare_correct:
  assumes "len \<le> length a" "len \<le> length b"
  shows "bank_secure_compare a b len \<longleftrightarrow> take len a = take len b"
  using assms by (rule secure_compare_iff)

theorem secure_compare_correct_witness:
  "bank_secure_compare [1, 2, 3] [1, 2, 4] 2 \<and> \<not> bank_secure_compare [1, 2, 3] [1, 2, 4] 3"
  using secure_compare_correct [of 2 "[1, 2, 3]" "[1, 2, 4]"]
    secure_compare_correct [of 3 "[1, 2, 3]" "[1, 2, 4]"]
  by simp

text \<open>
  C11: the checksum detects every error burst of at most four bytes: two messages that
  differ, and only inside a window of at most four bytes, never have the same CRC-32.
\<close>

theorem crc32_detects_bursts:
  assumes "length x = length y" "length x \<le> 4" "x \<noteq> y"
  shows "bank_crc32 (p @ x @ s) \<noteq> bank_crc32 (p @ y @ s)"
  using assms by (rule crc32_burst)

theorem crc32_detects_bursts_witness:
  "bank_crc32 ([1, 2] @ [3, 4] @ [5]) \<noteq> bank_crc32 ([1, 2] @ [3, 5] @ [5])"
  by (rule crc32_detects_bursts) simp_all

text \<open>
  \<open>bank_crc32_combine\<close> does not compute the checksum of a concatenation. On the
  input of the unit test \<open>test_crc32_combine\<close> (the two halves of "Hello, World!"),
  which expects equality, the results differ.
\<close>

theorem crc32_combine_wrong:
  "bank_crc32_combine (bank_crc32 [72, 101, 108, 108, 111, 44, 32])
     (bank_crc32 [87, 111, 114, 108, 100, 33]) 6
   \<noteq> bank_crc32 ([72, 101, 108, 108, 111, 44, 32] @ [87, 111, 114, 108, 100, 33])"
proof -
  have "bank_crc32_combine 3730272005 1982373342 6 = crc32_bit 3730272005 XOR 1982373342"
    unfolding bank_crc32_combine_def crc32_hello_power upt_32 Let_def
    by (simp add: crc32_combine_step_bit)
  then show ?thesis
    by (simp add: crc32_hello_parts) (simp add: crc32_bit_def crc32_poly_def)
qed

end
