(* ===== verification/Bank_Session.thy ===== *)
theory Bank_Session
  imports Bank_State Bank_Utils
begin

text \<open>
  Session keys (\<open>src/session\<close>): derivation from the current master key, the table of 32
  slots with its counters, lookup with expiry, destruction and cleanup, and the signature
  functions over them (\<open>src/main.cpp\<close>). Every operation keeps the difference between the
  counter and the number of active slots; an initialization with open sessions changes it.
\<close>

section \<open>Operations\<close>

definition bank_derive_session_key :: "world \<Rightarrow> bytes \<Rightarrow> (bytes \<times> bytes) run" where
  "bank_derive_session_key w key_id =
     (let c = g_ctx w;
          n = (if 32 < length key_id then 32 else length key_id);
          data = ctx_salt c @ take n key_id
      in case bank_pbkdf2_hmac_sha256 (ctx_key_chain c ! ctx_current_key_index c) data 100000 64 of
           Inl f \<Rightarrow> Inl f
         | Inr derived \<Rightarrow> Inr (take 32 derived, take 32 (drop 32 derived)))"

definition set_slot :: "nat \<Rightarrow> session_key \<Rightarrow> session_manager \<Rightarrow> session_manager" where
  "set_slot i k m = m\<lparr>mgr_keys := (mgr_keys m)[i := k]\<rparr>"

definition free_slot :: "session_manager \<Rightarrow> nat option" where
  "free_slot m = List.find (\<lambda>i. \<not> sk_active (mgr_keys m ! i)) [0..<32]"

definition bank_create_session :: "platform \<Rightarrow> bytes \<Rightarrow> int \<Rightarrow> world \<Rightarrow> (int \<times> world) run" where
  "bank_create_session P key_id ttl_seconds w =
     (if \<not> ctx_initialized (g_ctx w) then Inr (0, w)
      else if 256 < length key_id then Inr (0, w)
      else if 32 \<le> mgr_count (g_session_mgr w) then Inr (0, w)
      else case free_slot (g_session_mgr w) of
        None \<Rightarrow> Inr (0, w)
      | Some slot \<Rightarrow>
          (case bank_derive_session_key w key_id of
             Inl f \<Rightarrow> Inl f
           | Inr (skey, hkey) \<Rightarrow>
               let (t1, w) = sys_time P w;
                   (t2, w) = sys_time P w;
                   (t3, w) = sys_time P w;
                   k = mgr_keys (g_session_mgr w) ! slot;
                   k = k\<lparr>sk_session_key := skey, sk_hmac_key := hkey, sk_key_id := blit (sk_key_id k) 0 key_id,
                         sk_key_id_len := length key_id, sk_created_at := t1, sk_expires_at := t2 + ttl_seconds,
                         sk_last_used_at := t3, sk_use_count := 0, sk_active := True\<rparr>;
                   (_, new_salt, w) = bank_random_bytes P (sk_salt k) w;
                   m = set_slot slot (k\<lparr>sk_salt := new_salt\<rparr>) (g_session_mgr w);
                   m = m\<lparr>mgr_count := mgr_count m + 1, mgr_created := mgr_created m + 1\<rparr>
               in Inr (int slot + 1, w\<lparr>g_session_mgr := m\<rparr>)))"

text \<open>an expired slot loses its keys but keeps its identifier\<close>

definition expire_slot :: "nat \<Rightarrow> session_manager \<Rightarrow> session_manager" where
  "expire_slot i m =
     (let k = (mgr_keys m ! i)\<lparr>sk_active := False, sk_session_key := replicate 32 0, sk_hmac_key := replicate 32 0\<rparr>;
          m = set_slot i k m
      in m\<lparr>mgr_count := mgr_count m - 1, mgr_destroyed := mgr_destroyed m + 1\<rparr>)"

definition bank_destroy_session :: "int \<Rightarrow> world \<Rightarrow> world" where
  "bank_destroy_session session_id w =
     (if session_id < 1 \<or> session_id > 32 then w
      else let idx = nat (session_id - 1); m = g_session_mgr w
           in if sk_active (mgr_keys m ! idx)
              then let k = (mgr_keys m ! idx)\<lparr>sk_session_key := replicate 32 0, sk_hmac_key := replicate 32 0,
                             sk_key_id := replicate 256 0, sk_active := False\<rparr>;
                       m = set_slot idx k m
                   in w\<lparr>g_session_mgr := m\<lparr>mgr_count := mgr_count m - 1, mgr_destroyed := mgr_destroyed m + 1\<rparr>\<rparr>
              else w)"

definition cleanup_slot :: "int \<Rightarrow> session_manager \<Rightarrow> nat \<Rightarrow> session_manager" where
  "cleanup_slot now m i =
     (if sk_active (mgr_keys m ! i) \<and> now > sk_expires_at (mgr_keys m ! i) then expire_slot i m else m)"

definition bank_cleanup_expired_sessions :: "platform \<Rightarrow> world \<Rightarrow> world" where
  "bank_cleanup_expired_sessions P w =
     (let (now, w) = sys_time P w
      in w\<lparr>g_session_mgr := foldl (cleanup_slot now) (g_session_mgr w) [0..<32]\<rparr>)"

text \<open>None is the return value 0; otherwise the bytes for the two output pointers\<close>

definition bank_get_session_key :: "platform \<Rightarrow> int \<Rightarrow> world \<Rightarrow> (bytes \<times> bytes) option \<times> world" where
  "bank_get_session_key P session_id w =
     (if \<not> ctx_initialized (g_ctx w) then (None, w)
      else if session_id < 1 \<or> session_id > 32 then (None, w)
      else let idx = nat (session_id - 1); k = mgr_keys (g_session_mgr w) ! idx
           in if \<not> sk_active k then (None, w)
              else let (now, w) = sys_time P w
                   in if now > sk_expires_at k
                      then (None, w\<lparr>g_session_mgr := expire_slot idx (g_session_mgr w)\<rparr>)
                      else let (used, w) = sys_time P w;
                               k' = k\<lparr>sk_last_used_at := used, sk_use_count := sk_use_count k + 1\<rparr>
                           in (Some (sk_session_key k, sk_hmac_key k),
                               w\<lparr>g_session_mgr := set_slot idx k' (g_session_mgr w)\<rparr>))"

definition bank_session_exists :: "int \<Rightarrow> world \<Rightarrow> bool" where
  "bank_session_exists session_id w =
     (if session_id < 1 \<or> session_id > 32 then False
      else sk_active (mgr_keys (g_session_mgr w) ! nat (session_id - 1)))"

definition bank_session_get_info :: "int \<Rightarrow> world \<Rightarrow> (int \<times> int \<times> u64) option" where
  "bank_session_get_info session_id w =
     (if session_id < 1 \<or> session_id > 32 then None
      else let k = mgr_keys (g_session_mgr w) ! nat (session_id - 1)
           in if \<not> sk_active k then None else Some (sk_created_at k, sk_expires_at k, sk_use_count k))"

section \<open>The invariant of the table\<close>

definition slot_ok :: "session_key \<Rightarrow> bool" where
  "slot_ok k \<longleftrightarrow> length (sk_session_key k) = 32 \<and> length (sk_hmac_key k) = 32 \<and>
     length (sk_key_id k) = 256 \<and> length (sk_salt k) = 16"

definition slots_ok :: "session_manager \<Rightarrow> bool" where
  "slots_ok m \<longleftrightarrow> length (mgr_keys m) = 32 \<and> list_all slot_ok (mgr_keys m)"

definition open_slots :: "session_manager \<Rightarrow> nat" where
  "open_slots m = length (filter sk_active (mgr_keys m))"

text \<open>what the operations need: the counter is never above the number of active slots\<close>

definition world_ok :: "world \<Rightarrow> bool" where
  "world_ok w \<longleftrightarrow> slots_ok (g_session_mgr w) \<and> mgr_count (g_session_mgr w) \<le> int (open_slots (g_session_mgr w)) \<and>
     chain_ok w \<and> length (ctx_salt (g_ctx w)) = 32"

text \<open>
  An initialization sets the counter to zero and leaves the slots as they are. The history
  of a state is how many active slots the last one forgot so, and by how much the totals of
  created and destroyed sessions differed from the counter after it.
\<close>

record history =
  lost_slots :: nat
  totals_gap :: u64

definition no_history :: history where
  "no_history = \<lparr>lost_slots = 0, totals_gap = 0\<rparr>"

definition count_ok :: "history \<Rightarrow> session_manager \<Rightarrow> bool" where
  "count_ok h m \<longleftrightarrow> slots_ok m \<and> mgr_count m = int (open_slots m) - int (lost_slots h) \<and>
     mgr_created m - mgr_destroyed m = of_int (mgr_count m) + totals_gap h"

definition table_inv :: "history \<Rightarrow> world \<Rightarrow> bool" where
  "table_inv h w \<longleftrightarrow> count_ok h (g_session_mgr w) \<and> chain_ok w \<and> length (ctx_salt (g_ctx w)) = 32"

lemma table_inv_world_ok: "table_inv h w \<Longrightarrow> world_ok w"
  by (simp add: table_inv_def world_ok_def count_ok_def)

lemma length_filter_update:
  "i < length xs \<Longrightarrow> int (length (filter P (xs[i := x]))) =
     int (length (filter P xs)) + of_bool (P x) - of_bool (P (xs ! i))"
proof (induction xs arbitrary: i)
  case (Cons y ys)
  show ?case
  proof (cases i)
    case (Suc j)
    then have "int (length (filter P (ys[j := x]))) =
        int (length (filter P ys)) + of_bool (P x) - of_bool (P (ys ! j))"
      using Cons.prems by (intro Cons.IH) simp
    then show ?thesis using Suc by simp
  qed (simp add: of_bool_def)
qed simp

lemma length_filter_all: "length (filter P xs) = length xs \<longleftrightarrow> (\<forall>i<length xs. P (xs ! i))"
  by (metis all_set_conv_all_nth filter_id_conv length_filter_less less_irrefl)

lemma list_all_update: "list_all P xs \<Longrightarrow> P x \<Longrightarrow> list_all P (xs[i := x])"
  by (induction xs arbitrary: i) (auto split: nat.split)

lemma list_all_nth: "list_all P xs \<Longrightarrow> i < length xs \<Longrightarrow> P (xs ! i)"
  by (simp add: list_all_length)

lemma slots_ok_nth: "slots_ok m \<Longrightarrow> i < 32 \<Longrightarrow> slot_ok (mgr_keys m ! i)"
  unfolding slots_ok_def by (metis list_all_nth)

lemma open_slots_le: "slots_ok m \<Longrightarrow> open_slots m \<le> 32"
  unfolding slots_ok_def open_slots_def by (metis length_filter_le)

lemma open_slots_full: "slots_ok m \<Longrightarrow> open_slots m = 32 \<longleftrightarrow> (\<forall>i<32. sk_active (mgr_keys m ! i))"
  unfolding slots_ok_def open_slots_def using length_filter_all [of sk_active "mgr_keys m"] by simp

text \<open>one slot changes, and with it the counter and the total that goes with it\<close>

lemma count_ok_open:
  assumes "count_ok h m" "i < 32" "slot_ok k" "sk_active k" "\<not> sk_active (mgr_keys m ! i)"
  shows "count_ok h ((set_slot i k m)\<lparr>mgr_count := mgr_count m + 1, mgr_created := mgr_created m + 1\<rparr>)"
  using assms
  by (simp add: count_ok_def slots_ok_def open_slots_def set_slot_def length_filter_update list_all_update algebra_simps)

lemma count_ok_close:
  assumes "count_ok h m" "i < 32" "slot_ok k" "\<not> sk_active k" "sk_active (mgr_keys m ! i)"
  shows "count_ok h ((set_slot i k m)\<lparr>mgr_count := mgr_count m - 1, mgr_destroyed := mgr_destroyed m + 1\<rparr>)"
  using assms
  by (simp add: count_ok_def slots_ok_def open_slots_def set_slot_def length_filter_update list_all_update algebra_simps)

lemma count_ok_touch:
  assumes "count_ok h m" "i < 32" "slot_ok k" "sk_active k = sk_active (mgr_keys m ! i)"
  shows "count_ok h (set_slot i k m)"
  using assms by (simp add: count_ok_def slots_ok_def open_slots_def set_slot_def length_filter_update list_all_update)

lemma count_ok_expire:
  assumes "count_ok h m" "i < 32" "sk_active (mgr_keys m ! i)"
  shows "count_ok h (expire_slot i m)"
proof -
  have "slot_ok (mgr_keys m ! i)" using assms by (simp add: count_ok_def slots_ok_nth)
  then have "slot_ok ((mgr_keys m ! i)\<lparr>sk_active := False, sk_session_key := replicate 32 0, sk_hmac_key := replicate 32 0\<rparr>)"
    by (simp add: slot_ok_def)
  from count_ok_close [OF assms(1,2) this] assms(3) show ?thesis by (simp add: expire_slot_def Let_def set_slot_def)
qed

lemma free_slot_Some:
  "free_slot m = Some i \<Longrightarrow> i < 32 \<and> \<not> sk_active (mgr_keys m ! i) \<and> (\<forall>j<i. sk_active (mgr_keys m ! j))"
  unfolding free_slot_def find_Some_iff by auto

lemma free_slot_None: "free_slot m = None \<longleftrightarrow> (\<forall>i<32. sk_active (mgr_keys m ! i))"
  unfolding free_slot_def find_None_iff by auto

lemma derive_session_key_eq:
  assumes "length (ctx_salt (g_ctx w)) = 32"
  shows "bank_derive_session_key w key_id =
    (let d = rfc8018_pbkdf2 bank_hmac_sha256 (current_key w) (ctx_salt (g_ctx w) @ take 32 key_id) 100000 64
     in Inr (take 32 d, drop 32 d))"
proof -
  let ?s = "ctx_salt (g_ctx w) @ take 32 key_id"
  have n: "take (if 32 < length key_id then 32 else length key_id) key_id = take 32 key_id" by simp
  have "bank_pbkdf2_hmac_sha256 (current_key w) ?s (int 100000) 64
      = Inr (rfc8018_pbkdf2 bank_hmac_sha256 (current_key w) ?s 100000 64)"
    using assms by (intro bank_pbkdf2_eq) simp_all
  moreover have "length (rfc8018_pbkdf2 bank_hmac_sha256 (current_key w) ?s 100000 64) = 64"
    by (intro length_rfc8018_pbkdf2) simp
  ultimately show ?thesis
    unfolding bank_derive_session_key_def Let_def n current_key_def by simp
qed

text \<open>the slot a successful creation fills\<close>

lemma create_session_cases:
  assumes ok: "world_ok w" and P: "platform_ok P"
  obtains (refused) "bank_create_session P key_id ttl w = Inr (0, w)"
      "\<not> ctx_initialized (g_ctx w) \<or> 256 < length key_id \<or> (\<forall>i<32. sk_active (mgr_keys (g_session_mgr w) ! i))"
    | (created) slot k w' d where "bank_create_session P key_id ttl w = Inr (int slot + 1, w')"
      "ctx_initialized (g_ctx w)" "length key_id \<le> 256"
      "slot < 32" "free_slot (g_session_mgr w) = Some slot"
      "d = rfc8018_pbkdf2 bank_hmac_sha256 (current_key w) (ctx_salt (g_ctx w) @ take 32 key_id) 100000 64"
      "sk_session_key k = take 32 d" "sk_hmac_key k = drop 32 d" "sk_active k" "sk_use_count k = 0"
      "sk_created_at k = time_at P (sys_calls w)" "sk_expires_at k = time_at P (sys_calls w + 1) + ttl"
      "sk_key_id_len k = length key_id" "take (length key_id) (sk_key_id k) = key_id" "slot_ok k"
      "g_session_mgr w' = (set_slot slot k (g_session_mgr w))
         \<lparr>mgr_count := mgr_count (g_session_mgr w) + 1, mgr_created := mgr_created (g_session_mgr w) + 1\<rparr>"
      "g_ctx w' = g_ctx w" "g_rng_state w' = g_rng_state w" "g_library_initialized w' = g_library_initialized w"
      "sys_calls w' = sys_calls w + 4"
proof -
  let ?m = "g_session_mgr w"
  have m: "slots_ok ?m" "mgr_count ?m \<le> int (open_slots ?m)" using ok by (simp_all add: world_ok_def)
  have full: "\<forall>i<32. sk_active (mgr_keys ?m ! i)" if "32 \<le> mgr_count ?m"
    using that m(2) open_slots_le [OF m(1)] open_slots_full [OF m(1)] by auto
  show thesis
  proof (cases "\<not> ctx_initialized (g_ctx w) \<or> 256 < length key_id \<or> 32 \<le> mgr_count ?m \<or> free_slot ?m = None")
    case True
    then show thesis using full free_slot_None [of ?m] by (intro refused) (auto simp: bank_create_session_def)
  next
    case False
    then obtain slot where slot: "free_slot ?m = Some slot" by auto
    then have s: "slot < 32" using free_slot_Some by blast
    define d where "d = rfc8018_pbkdf2 bank_hmac_sha256 (current_key w) (ctx_salt (g_ctx w) @ take 32 key_id) 100000 64"
    have ld: "length d = 64" unfolding d_def by (intro length_rfc8018_pbkdf2) simp
    have der: "bank_derive_session_key w key_id = Inr (take 32 d, drop 32 d)"
      using ok by (simp add: derive_session_key_eq world_ok_def d_def Let_def)
    define k0 where "k0 = mgr_keys ?m ! slot"
    define k where "k = k0\<lparr>sk_session_key := take 32 d, sk_hmac_key := drop 32 d, sk_key_id := blit (sk_key_id k0) 0 key_id,
        sk_key_id_len := length key_id, sk_created_at := time_at P (sys_calls w),
        sk_expires_at := time_at P (sys_calls w + 1) + ttl, sk_last_used_at := time_at P (sys_calls w + 2),
        sk_use_count := 0, sk_active := True, sk_salt := snd (random_at P (sys_calls w + 3) (sk_salt k0))\<rparr>"
    have k0: "slot_ok k0" unfolding k0_def using m(1) s by (rule slots_ok_nth)
    then have "slot_ok k" using False ld P by (simp add: k_def slot_ok_def platform_ok_def)
    moreover have "take (length key_id) (sk_key_id k) = key_id" by (simp add: k_def blit_def)
    moreover have salt0: "length (sk_salt k0) \<noteq> 0" using k0 by (simp add: slot_ok_def)
    define w' where "w' = w\<lparr>g_session_mgr := (set_slot slot k ?m)
         \<lparr>mgr_count := mgr_count ?m + 1, mgr_created := mgr_created ?m + 1\<rparr>, sys_calls := sys_calls w + 4\<rparr>"
    have "bank_create_session P key_id ttl w = Inr (int slot + 1, w')"
      using False slot der salt0
      by (simp add: w'_def bank_create_session_def sys_time_def bank_random_bytes_def bank_platform_random_bytes_def
          Let_def split_def k0_def [symmetric] k_def set_slot_def eval_nat_numeral)
    ultimately show thesis
      using False s slot by (intro created [of slot w' d k]) (simp_all add: k_def d_def w'_def)
  qed
qed

section \<open>The operations keep the invariant of the table\<close>

lemma count_ok_cleanup: "count_ok h m \<Longrightarrow> n \<le> 32 \<Longrightarrow> count_ok h (foldl (cleanup_slot now) m [0..<n])"
  by (induction n) (simp_all add: cleanup_slot_def count_ok_expire)

lemma create_session_inv:
  assumes "table_inv h w" "platform_ok P" "bank_create_session P key_id ttl w = Inr (r, w')"
  shows "table_inv h w'"
  using table_inv_world_ok [OF assms(1)] assms(2)
proof (cases rule: create_session_cases [of w P key_id ttl])
  case refused
  then show ?thesis using assms by simp
next
  case (created slot k v d)
  then have v: "v = w'" using assms(3) by simp
  have "\<not> sk_active (mgr_keys (g_session_mgr w) ! slot)" using created free_slot_Some by blast
  then have "count_ok h (g_session_mgr w')"
    using count_ok_open [of h "g_session_mgr w" slot k] created assms(1) unfolding v by (simp add: table_inv_def)
  then show ?thesis using created assms(1) unfolding v by (simp add: table_inv_def chain_ok_def)
qed

lemma destroy_session_inv:
  assumes "table_inv h w"
  shows "table_inv h (bank_destroy_session i w)"
proof (cases "i < 1 \<or> i > 32 \<or> \<not> sk_active (mgr_keys (g_session_mgr w) ! nat (i - 1))")
  case True
  then show ?thesis using assms by (auto simp: bank_destroy_session_def Let_def)
next
  case False
  let ?m = "g_session_mgr w" and ?j = "nat (i - 1)"
  have m: "count_ok h ?m" using assms by (simp add: table_inv_def)
  have j: "?j < 32" using False by auto
  have "slot_ok (mgr_keys ?m ! ?j)" using m j by (simp add: count_ok_def slots_ok_nth)
  then have "slot_ok ((mgr_keys ?m ! ?j)\<lparr>sk_session_key := replicate 32 0, sk_hmac_key := replicate 32 0,
      sk_key_id := replicate 256 0, sk_active := False\<rparr>)" by (simp add: slot_ok_def)
  from count_ok_close [OF m j this] have "count_ok h (g_session_mgr (bank_destroy_session i w))"
    using False by (simp add: bank_destroy_session_def Let_def set_slot_def)
  then show ?thesis using assms False
    by (simp add: bank_destroy_session_def Let_def table_inv_def chain_ok_def)
qed

lemma cleanup_sessions_inv: "table_inv h w \<Longrightarrow> table_inv h (bank_cleanup_expired_sessions P w)"
  by (simp add: bank_cleanup_expired_sessions_def sys_time_def table_inv_def chain_ok_def count_ok_cleanup)

lemma get_session_key_inv:
  assumes "table_inv h w"
  shows "table_inv h (snd (bank_get_session_key P i w))"
proof (cases "\<not> ctx_initialized (g_ctx w) \<or> i < 1 \<or> i > 32 \<or> \<not> sk_active (mgr_keys (g_session_mgr w) ! nat (i - 1))")
  case True
  then show ?thesis using assms by (auto simp: bank_get_session_key_def Let_def)
next
  case False
  let ?m = "g_session_mgr w" and ?j = "nat (i - 1)"
  have m: "count_ok h ?m" using assms by (simp add: table_inv_def)
  have j: "?j < 32" using False by auto
  have "slot_ok (mgr_keys ?m ! ?j)" using m j by (simp add: count_ok_def slots_ok_nth)
  then have "count_ok h (set_slot ?j ((mgr_keys ?m ! ?j)\<lparr>sk_last_used_at := u, sk_use_count := c\<rparr>) ?m)" for u c
    using m j by (intro count_ok_touch) (simp_all add: slot_ok_def)
  then show ?thesis using False m j assms
    by (simp add: bank_get_session_key_def Let_def sys_time_def table_inv_def chain_ok_def count_ok_expire)
qed

lemma rotate_inv: "table_inv h w \<Longrightarrow> table_inv h (bank_rotate_master_key P w)"
  by (simp add: bank_rotate_master_key_def Let_def sys_time_def table_inv_def chain_ok_def)

lemma started_table_inv: "table_inv no_history started_world"
  by (simp add: started_world_eq table_inv_def count_ok_def slots_ok_def open_slots_def no_history_def chain_ok_def
      zero_manager_def zero_context_def zero_session_def slot_ok_def list_all_length)

section \<open>Lookup\<close>

lemma get_session_key_eq:
  "bank_get_session_key P i w =
    (if ctx_initialized (g_ctx w) \<and> 1 \<le> i \<and> i \<le> 32 \<and> sk_active (mgr_keys (g_session_mgr w) ! nat (i - 1))
     then let k = mgr_keys (g_session_mgr w) ! nat (i - 1); now = time_at P (sys_calls w)
          in if now \<le> sk_expires_at k
             then (Some (sk_session_key k, sk_hmac_key k), w\<lparr>sys_calls := sys_calls w + 2, g_session_mgr :=
               set_slot (nat (i - 1)) (k\<lparr>sk_last_used_at := time_at P (sys_calls w + 1), sk_use_count := sk_use_count k + 1\<rparr>)
                 (g_session_mgr w)\<rparr>)
             else (None, w\<lparr>sys_calls := sys_calls w + 1, g_session_mgr := expire_slot (nat (i - 1)) (g_session_mgr w)\<rparr>)
     else (None, w))"
  by (auto simp: bank_get_session_key_def sys_time_def Let_def)

text \<open>
  A lookup returns keys exactly for an active slot whose expiry time has not passed, and
  then the keys stored in it; an expired slot is closed by the lookup, its two keys zeroed
  and the session no longer existing.
\<close>

theorem get_session_key_correct:
  fixes P and w :: world and i :: int
  assumes "ctx_initialized (g_ctx w)" "1 \<le> i" "i \<le> 32" "length (mgr_keys (g_session_mgr w)) = 32"
  defines "k \<equiv> mgr_keys (g_session_mgr w) ! nat (i - 1)" and "now \<equiv> time_at P (sys_calls w)"
  shows "(fst (bank_get_session_key P i w) = Some ks \<longleftrightarrow>
      sk_active k \<and> now \<le> sk_expires_at k \<and> ks = (sk_session_key k, sk_hmac_key k)) \<and>
    (sk_expires_at k < now \<longrightarrow> (let w' = snd (bank_get_session_key P i w) in \<not> bank_session_exists i w' \<and>
      (sk_active k \<longrightarrow> sk_session_key (mgr_keys (g_session_mgr w') ! nat (i - 1)) = replicate 32 0 \<and>
        sk_hmac_key (mgr_keys (g_session_mgr w') ! nat (i - 1)) = replicate 32 0)))"
proof -
  have "nat (i - 1) < 32" using assms(2,3) by auto
  then show ?thesis
    using assms(1-4) unfolding k_def now_def get_session_key_eq
    by (auto simp: Let_def bank_session_exists_def expire_slot_def set_slot_def)
qed

lemma get_session_key_correct_witness:
  "fst (bank_get_session_key quiet_platform 3 started_world) = None"
proof -
  have "\<not> sk_active (mgr_keys (g_session_mgr started_world) ! nat (3 - 1))"
    by (simp add: started_world_eq zero_manager_def zero_session_def)
  moreover have "ctx_initialized (g_ctx started_world)" "length (mgr_keys (g_session_mgr started_world)) = 32"
    by (simp_all add: started_world_eq zero_manager_def)
  ultimately show ?thesis using get_session_key_correct [of started_world 3 quiet_platform]
    by (cases "fst (bank_get_session_key quiet_platform 3 started_world)") auto
qed

text \<open>
  A session that has been created can be looked up under the returned identifier until
  its time to live is over, and gives the two halves of the PBKDF2 output over the current
  master key, the context's salt and the first 32 bytes of the identifier.
\<close>

theorem create_then_get:
  assumes "world_ok w" "platform_ok P" "bank_create_session P key_id ttl w = Inr (r, w')" "r \<noteq> 0"
    and alive: "time_at P (sys_calls w') \<le> time_at P (sys_calls w + 1) + ttl"
  shows "fst (bank_get_session_key P r w') =
    (let d = rfc8018_pbkdf2 bank_hmac_sha256 (current_key w) (ctx_salt (g_ctx w) @ take 32 key_id) 100000 64
     in Some (take 32 d, drop 32 d))"
  using assms(1,2)
proof (cases rule: create_session_cases [of w P key_id ttl])
  case refused
  then show ?thesis using assms(3,4) by simp
next
  case (created slot k v d)
  then have r: "r = int slot + 1" "v = w'" using assms(3) by auto
  have "slot < length (mgr_keys (g_session_mgr w))" using created assms(1) by (simp add: world_ok_def slots_ok_def)
  then have k: "mgr_keys (g_session_mgr w') ! slot = k" using created r by (simp add: set_slot_def)
  show ?thesis
    using created alive k unfolding r get_session_key_eq by (simp add: Let_def)
qed

lemma create_then_get_witness:
  "\<exists>r w'. bank_create_session quiet_platform [107] 60 started_world = Inr (r, w') \<and>
     fst (bank_get_session_key quiet_platform r w') =
       (let d = rfc8018_pbkdf2 bank_hmac_sha256 (replicate 32 0) (replicate 32 0 @ [107]) 100000 64
        in Some (take 32 d, drop 32 d))"
proof -
  have w: "world_ok started_world" using started_table_inv by (rule table_inv_world_ok)
  from w quiet_platform_ok show ?thesis
  proof (cases rule: create_session_cases [of started_world quiet_platform "[107]" 60])
    case refused
    have "\<not> sk_active (mgr_keys (g_session_mgr started_world) ! 0)"
      by (simp add: started_world_eq zero_manager_def zero_session_def)
    with refused show ?thesis by (auto simp: started_world_eq)
  next
    case (created slot k v d)
    have e: "current_key started_world = replicate 32 0" "ctx_salt (g_ctx started_world) = replicate 32 0"
      by (simp_all add: started_world_eq zero_context_def current_key_def)
    have "int slot + 1 \<noteq> 0" by simp
    then have "fst (bank_get_session_key quiet_platform (int slot + 1) v) =
      (let d = rfc8018_pbkdf2 bank_hmac_sha256 (current_key started_world)
         (ctx_salt (g_ctx started_world) @ take 32 [107]) 100000 64 in Some (take 32 d, drop 32 d))"
      by (intro create_then_get [OF w quiet_platform_ok created(1)]) (simp_all add: quiet_platform_def)
    then show ?thesis using created(1) unfolding e by simp
  qed
qed

section \<open>Initializing again\<close>

lemma init_finish_mgr:
  "g_session_mgr (init_finish P fresh w) = (g_session_mgr w)\<lparr>mgr_count := 0,
     mgr_created := (if fresh then 0 else mgr_created (g_session_mgr w)),
     mgr_destroyed := (if fresh then 0 else mgr_destroyed (g_session_mgr w))\<rparr>"
  by (simp add: init_finish_def bank_rng_init_def bank_platform_random_bytes_def sys_time_def Let_def split_def)

lemma init_random_mgr:
  assumes "bank_init_master_random P w = (True, w')"
  shows "mgr_keys (g_session_mgr w') = mgr_keys (g_session_mgr w)" "mgr_count (g_session_mgr w') = 0"
  using assms
  by (auto simp: bank_init_master_random_def bank_random_bytes_def bank_platform_random_bytes_def Let_def split_def
      init_finish_mgr split: if_splits)

text \<open>
  Initializing again with an open session resets the counter but leaves the slot open, so
  the counter no longer counts; closing the session then makes it negative, and statistics
  report minus one active session.
\<close>

theorem init_again_breaks_count:
  assumes "bank_init_master_random P w = (True, w')" and "1 \<le> i" "i \<le> 32" and "bank_session_exists i w"
    and "length (mgr_keys (g_session_mgr w)) = 32"
  shows "bank_session_exists i w' \<and> mgr_count (g_session_mgr w') = 0 \<and> 0 < open_slots (g_session_mgr w') \<and>
    bank_get_stats (bank_destroy_session i w') =
      (ctx_total_encryptions (g_ctx w'), ctx_total_decryptions (g_ctx w'),
       mgr_created (g_session_mgr w'), mgr_destroyed (g_session_mgr w') + 1, - 1)"
proof -
  have m: "mgr_keys (g_session_mgr w') = mgr_keys (g_session_mgr w)" "mgr_count (g_session_mgr w') = 0"
    using init_random_mgr [OF assms(1)] by simp_all
  let ?j = "nat (i - 1)"
  have a: "sk_active (mgr_keys (g_session_mgr w) ! ?j)" using assms(2-4) by (simp add: bank_session_exists_def)
  have "?j < 32" using assms(2,3) by auto
  then have "mgr_keys (g_session_mgr w) ! ?j \<in> set (mgr_keys (g_session_mgr w))" using assms(5) by simp
  then have "filter sk_active (mgr_keys (g_session_mgr w)) \<noteq> []" using a by (auto simp: filter_empty_conv)
  then have "0 < open_slots (g_session_mgr w')" using m by (simp add: open_slots_def)
  then show ?thesis using a m assms(2,3)
    by (simp add: bank_session_exists_def bank_destroy_session_def Let_def bank_get_stats_def set_slot_def)
qed

text \<open>a state with one open session\<close>

definition busy_world :: world where
  "busy_world = started_world\<lparr>g_session_mgr := (g_session_mgr started_world)
     \<lparr>mgr_keys := (mgr_keys (g_session_mgr started_world))[4 := zero_session\<lparr>sk_active := True, sk_expires_at := 2000\<rparr>],
      mgr_count := 1\<rparr>\<rparr>"

lemma init_again_breaks_count_witness:
  "\<exists>w'. bank_init_master_random quiet_platform busy_world = (True, w') \<and>
     mgr_count (g_session_mgr (bank_destroy_session 5 w')) = - 1"
proof -
  obtain ok w' where i: "bank_init_master_random quiet_platform busy_world = (ok, w')" by (metis surj_pair)
  have ok: "ok = True" using i
    by (auto simp: bank_init_master_random_def bank_random_bytes_def bank_platform_random_bytes_def Let_def split_def
        busy_world_def started_world_eq zero_context_def quiet_platform_def split: if_splits)
  have "bank_session_exists 5 busy_world" "length (mgr_keys (g_session_mgr busy_world)) = 32"
    by (simp_all add: bank_session_exists_def busy_world_def started_world_eq zero_manager_def)
  then have "bank_get_stats (bank_destroy_session 5 w') =
      (ctx_total_encryptions (g_ctx w'), ctx_total_decryptions (g_ctx w'),
       mgr_created (g_session_mgr w'), mgr_destroyed (g_session_mgr w') + 1, - 1)"
    using init_again_breaks_count [of quiet_platform busy_world w' 5] i ok by simp
  then show ?thesis using i ok by (auto simp: bank_get_stats_def)
qed

section \<open>The signature functions of the single-file program\<close>

text \<open>
  \<open>src/main.cpp\<close> holds the library in one file. Its lookup copies the session key without
  testing the pointer, and its signature function passes NULL there.
\<close>

definition main_get_session_key :: "platform \<Rightarrow> int \<Rightarrow> outp \<Rightarrow> world \<Rightarrow> ((bytes \<times> bytes) option \<times> world) run" where
  "main_get_session_key P session_id session_key_out w =
     (case bank_get_session_key P session_id w of
        (None, w) \<Rightarrow> Inr (None, w)
      | (Some ks, w) \<Rightarrow> if \<not> session_key_out then Inl Null_Deref else Inr (Some ks, w))"

definition bank_sign_data :: "platform \<Rightarrow> int \<Rightarrow> ptr \<Rightarrow> world \<Rightarrow> (bytes option \<times> world) run" where
  "bank_sign_data P session_id data w =
     (if \<not> ctx_initialized (g_ctx w) then Inr (None, w)
      else case data of
        None \<Rightarrow> Inr (None, w)
      | Some d \<Rightarrow>
          (case main_get_session_key P session_id False w of
             Inl f \<Rightarrow> Inl f
           | Inr (None, w) \<Rightarrow> Inr (None, w)
           | Inr (Some (skey, hkey), w) \<Rightarrow> Inr (Some (bank_hmac_sha256 hkey d), w)))"

definition bank_verify_signature :: "platform \<Rightarrow> int \<Rightarrow> ptr \<Rightarrow> bytes \<Rightarrow> world \<Rightarrow> (bool \<times> world) run" where
  "bank_verify_signature P session_id data signature w =
     (case bank_sign_data P session_id data w of
        Inl f \<Rightarrow> Inl f
      | Inr (None, w) \<Rightarrow> Inr (False, w)
      | Inr (Some expected, w) \<Rightarrow> Inr (bank_secure_compare signature expected 32, w))"

text \<open>
  In the single-file program no call of bank_sign_data ever returns a signature: for a
  live session it writes through a null pointer, and otherwise it returns 0; so
  verification never succeeds either.
\<close>

theorem main_sign_never_returns:
  "(\<forall>d w'. bank_sign_data P i data w \<noteq> Inr (Some d, w')) \<and>
   (\<forall>sig w'. bank_verify_signature P i data sig w \<noteq> Inr (True, w')) \<and>
   (data \<noteq> None \<longrightarrow> fst (bank_get_session_key P i w) \<noteq> None \<longrightarrow> bank_sign_data P i data w = Inl Null_Deref)"
  by (auto simp: bank_verify_signature_def bank_sign_data_def main_get_session_key_def get_session_key_eq Let_def
      split: option.splits prod.splits sum.splits if_splits)

lemma main_sign_never_returns_witness:
  "bank_sign_data quiet_platform 5 (Some [1]) busy_world = Inl Null_Deref"
proof -
  have "fst (bank_get_session_key quiet_platform 5 busy_world) \<noteq> None"
    by (simp add: get_session_key_eq busy_world_def started_world_eq zero_manager_def zero_session_def
        quiet_platform_def Let_def)
  then show ?thesis using main_sign_never_returns [of quiet_platform 5 "Some [1]" busy_world] by simp
qed

end
