(* ===== verification/Bank_Aes_Tables.thy ===== *)
theory Bank_Aes_Tables
  imports Bank_Prelude
begin

text \<open>
  The two substitution tables of AES (\<open>src/aes/bank_aes_core.cpp\<close>), checked entry by entry
  against the definition of the S-box in FIPS 197 and against each other.
\<close>

section \<open>Tables\<close>

definition bank_sbox :: bytes where
  "bank_sbox = [
     0x63, 0x7c, 0x77, 0x7b, 0xf2, 0x6b, 0x6f, 0xc5, 0x30, 0x01, 0x67, 0x2b, 0xfe, 0xd7, 0xab, 0x76,
     0xca, 0x82, 0xc9, 0x7d, 0xfa, 0x59, 0x47, 0xf0, 0xad, 0xd4, 0xa2, 0xaf, 0x9c, 0xa4, 0x72, 0xc0,
     0xb7, 0xfd, 0x93, 0x26, 0x36, 0x3f, 0xf7, 0xcc, 0x34, 0xa5, 0xe5, 0xf1, 0x71, 0xd8, 0x31, 0x15,
     0x04, 0xc7, 0x23, 0xc3, 0x18, 0x96, 0x05, 0x9a, 0x07, 0x12, 0x80, 0xe2, 0xeb, 0x27, 0xb2, 0x75,
     0x09, 0x83, 0x2c, 0x1a, 0x1b, 0x6e, 0x5a, 0xa0, 0x52, 0x3b, 0xd6, 0xb3, 0x29, 0xe3, 0x2f, 0x84,
     0x53, 0xd1, 0x00, 0xed, 0x20, 0xfc, 0xb1, 0x5b, 0x6a, 0xcb, 0xbe, 0x39, 0x4a, 0x4c, 0x58, 0xcf,
     0xd0, 0xef, 0xaa, 0xfb, 0x43, 0x4d, 0x33, 0x85, 0x45, 0xf9, 0x02, 0x7f, 0x50, 0x3c, 0x9f, 0xa8,
     0x51, 0xa3, 0x40, 0x8f, 0x92, 0x9d, 0x38, 0xf5, 0xbc, 0xb6, 0xda, 0x21, 0x10, 0xff, 0xf3, 0xd2,
     0xcd, 0x0c, 0x13, 0xec, 0x5f, 0x97, 0x44, 0x17, 0xc4, 0xa7, 0x7e, 0x3d, 0x64, 0x5d, 0x19, 0x73,
     0x60, 0x81, 0x4f, 0xdc, 0x22, 0x2a, 0x90, 0x88, 0x46, 0xee, 0xb8, 0x14, 0xde, 0x5e, 0x0b, 0xdb,
     0xe0, 0x32, 0x3a, 0x0a, 0x49, 0x06, 0x24, 0x5c, 0xc2, 0xd3, 0xac, 0x62, 0x91, 0x95, 0xe4, 0x79,
     0xe7, 0xc8, 0x37, 0x6d, 0x8d, 0xd5, 0x4e, 0xa9, 0x6c, 0x56, 0xf4, 0xea, 0x65, 0x7a, 0xae, 0x08,
     0xba, 0x78, 0x25, 0x2e, 0x1c, 0xa6, 0xb4, 0xc6, 0xe8, 0xdd, 0x74, 0x1f, 0x4b, 0xbd, 0x8b, 0x8a,
     0x70, 0x3e, 0xb5, 0x66, 0x48, 0x03, 0xf6, 0x0e, 0x61, 0x35, 0x57, 0xb9, 0x86, 0xc1, 0x1d, 0x9e,
     0xe1, 0xf8, 0x98, 0x11, 0x69, 0xd9, 0x8e, 0x94, 0x9b, 0x1e, 0x87, 0xe9, 0xce, 0x55, 0x28, 0xdf,
     0x8c, 0xa1, 0x89, 0x0d, 0xbf, 0xe6, 0x42, 0x68, 0x41, 0x99, 0x2d, 0x0f, 0xb0, 0x54, 0xbb, 0x16]"

definition bank_inv_sbox :: bytes where
  "bank_inv_sbox = [
     0x52, 0x09, 0x6a, 0xd5, 0x30, 0x36, 0xa5, 0x38, 0xbf, 0x40, 0xa3, 0x9e, 0x81, 0xf3, 0xd7, 0xfb,
     0x7c, 0xe3, 0x39, 0x82, 0x9b, 0x2f, 0xff, 0x87, 0x34, 0x8e, 0x43, 0x44, 0xc4, 0xde, 0xe9, 0xcb,
     0x54, 0x7b, 0x94, 0x32, 0xa6, 0xc2, 0x23, 0x3d, 0xee, 0x4c, 0x95, 0x0b, 0x42, 0xfa, 0xc3, 0x4e,
     0x08, 0x2e, 0xa1, 0x66, 0x28, 0xd9, 0x24, 0xb2, 0x76, 0x5b, 0xa2, 0x49, 0x6d, 0x8b, 0xd1, 0x25,
     0x72, 0xf8, 0xf6, 0x64, 0x86, 0x68, 0x98, 0x16, 0xd4, 0xa4, 0x5c, 0xcc, 0x5d, 0x65, 0xb6, 0x92,
     0x6c, 0x70, 0x48, 0x50, 0xfd, 0xed, 0xb9, 0xda, 0x5e, 0x15, 0x46, 0x57, 0xa7, 0x8d, 0x9d, 0x84,
     0x90, 0xd8, 0xab, 0x00, 0x8c, 0xbc, 0xd3, 0x0a, 0xf7, 0xe4, 0x58, 0x05, 0xb8, 0xb3, 0x45, 0x06,
     0xd0, 0x2c, 0x1e, 0x8f, 0xca, 0x3f, 0x0f, 0x02, 0xc1, 0xaf, 0xbd, 0x03, 0x01, 0x13, 0x8a, 0x6b,
     0x3a, 0x91, 0x11, 0x41, 0x4f, 0x67, 0xdc, 0xea, 0x97, 0xf2, 0xcf, 0xce, 0xf0, 0xb4, 0xe6, 0x73,
     0x96, 0xac, 0x74, 0x22, 0xe7, 0xad, 0x35, 0x85, 0xe2, 0xf9, 0x37, 0xe8, 0x1c, 0x75, 0xdf, 0x6e,
     0x47, 0xf1, 0x1a, 0x71, 0x1d, 0x29, 0xc5, 0x89, 0x6f, 0xb7, 0x62, 0x0e, 0xaa, 0x18, 0xbe, 0x1b,
     0xfc, 0x56, 0x3e, 0x4b, 0xc6, 0xd2, 0x79, 0x20, 0x9a, 0xdb, 0xc0, 0xfe, 0x78, 0xcd, 0x5a, 0xf4,
     0x1f, 0xdd, 0xa8, 0x33, 0x88, 0x07, 0xc7, 0x31, 0xb1, 0x12, 0x10, 0x59, 0x27, 0x80, 0xec, 0x5f,
     0x60, 0x51, 0x7f, 0xa9, 0x19, 0xb5, 0x4a, 0x0d, 0x2d, 0xe5, 0x7a, 0x9f, 0x93, 0xc9, 0x9c, 0xef,
     0xa0, 0xe0, 0x3b, 0x4d, 0xae, 0x2a, 0xf5, 0xb0, 0xc8, 0xeb, 0xbb, 0x3c, 0x83, 0x53, 0x99, 0x61,
     0x17, 0x2b, 0x04, 0x7e, 0xba, 0x77, 0xd6, 0x26, 0xe1, 0x69, 0x14, 0x63, 0x55, 0x21, 0x0c, 0x7d]"


section \<open>The S-box of FIPS 197\<close>

text \<open>
  The field on the numbers below 256: multiplication by x modulo x^8 + x^4 + x^3 + x + 1,
  products, rotation by the factor m = 2 ^ k, and the affine map of the S-box. The S-box of
  x is the affine image of the inverse of x (of 0 at 0).
\<close>

definition gf_times_x :: "int \<Rightarrow> int" where
  "gf_times_x a = (if 256 \<le> 2 * a then (2 * a - 256) XOR 0x1b else 2 * a)"

primrec gf_mul :: "nat \<Rightarrow> int \<Rightarrow> int \<Rightarrow> int" where
  "gf_mul 0 a b = 0"
| "gf_mul (Suc n) a b =
     (let r = gf_mul n (gf_times_x a) (b div 2) in if b mod 2 = 1 then a XOR r else r)"

definition gf_rotate :: "int \<Rightarrow> int \<Rightarrow> int" where
  "gf_rotate m y = (y * m) mod 256 + (y * m) div 256"

definition fips_affine :: "int \<Rightarrow> int" where
  "fips_affine y = y XOR gf_rotate 2 y XOR gf_rotate 4 y XOR gf_rotate 8 y XOR gf_rotate 16 y XOR 0x63"

definition fips_sbox :: "int \<Rightarrow> int \<Rightarrow> bool" where
  "fips_sbox x s \<longleftrightarrow> (\<exists>y. 0 \<le> y \<and> y < 256 \<and> (if x = 0 then y = 0 else gf_mul 8 x y = 1) \<and> s = fips_affine y)"

definition affine_preimage :: "int \<Rightarrow> int" where
  "affine_preimage s = gf_rotate 2 s XOR gf_rotate 8 s XOR gf_rotate 64 s XOR 0x05"

definition sbox_entry_ok :: "int \<Rightarrow> int \<Rightarrow> bool" where
  "sbox_entry_ok x s =
     (let y = affine_preimage s
      in 0 \<le> y \<and> y < 256 \<and> (if x = 0 then y = 0 else gf_mul 8 x y = 1) \<and> s = fips_affine y \<and> 0 \<le> s \<and> s < 256)"

definition sbox_ints :: "int list" where
  "sbox_ints = [
     0x63, 0x7c, 0x77, 0x7b, 0xf2, 0x6b, 0x6f, 0xc5, 0x30, 0x01, 0x67, 0x2b, 0xfe, 0xd7, 0xab, 0x76,
     0xca, 0x82, 0xc9, 0x7d, 0xfa, 0x59, 0x47, 0xf0, 0xad, 0xd4, 0xa2, 0xaf, 0x9c, 0xa4, 0x72, 0xc0,
     0xb7, 0xfd, 0x93, 0x26, 0x36, 0x3f, 0xf7, 0xcc, 0x34, 0xa5, 0xe5, 0xf1, 0x71, 0xd8, 0x31, 0x15,
     0x04, 0xc7, 0x23, 0xc3, 0x18, 0x96, 0x05, 0x9a, 0x07, 0x12, 0x80, 0xe2, 0xeb, 0x27, 0xb2, 0x75,
     0x09, 0x83, 0x2c, 0x1a, 0x1b, 0x6e, 0x5a, 0xa0, 0x52, 0x3b, 0xd6, 0xb3, 0x29, 0xe3, 0x2f, 0x84,
     0x53, 0xd1, 0x00, 0xed, 0x20, 0xfc, 0xb1, 0x5b, 0x6a, 0xcb, 0xbe, 0x39, 0x4a, 0x4c, 0x58, 0xcf,
     0xd0, 0xef, 0xaa, 0xfb, 0x43, 0x4d, 0x33, 0x85, 0x45, 0xf9, 0x02, 0x7f, 0x50, 0x3c, 0x9f, 0xa8,
     0x51, 0xa3, 0x40, 0x8f, 0x92, 0x9d, 0x38, 0xf5, 0xbc, 0xb6, 0xda, 0x21, 0x10, 0xff, 0xf3, 0xd2,
     0xcd, 0x0c, 0x13, 0xec, 0x5f, 0x97, 0x44, 0x17, 0xc4, 0xa7, 0x7e, 0x3d, 0x64, 0x5d, 0x19, 0x73,
     0x60, 0x81, 0x4f, 0xdc, 0x22, 0x2a, 0x90, 0x88, 0x46, 0xee, 0xb8, 0x14, 0xde, 0x5e, 0x0b, 0xdb,
     0xe0, 0x32, 0x3a, 0x0a, 0x49, 0x06, 0x24, 0x5c, 0xc2, 0xd3, 0xac, 0x62, 0x91, 0x95, 0xe4, 0x79,
     0xe7, 0xc8, 0x37, 0x6d, 0x8d, 0xd5, 0x4e, 0xa9, 0x6c, 0x56, 0xf4, 0xea, 0x65, 0x7a, 0xae, 0x08,
     0xba, 0x78, 0x25, 0x2e, 0x1c, 0xa6, 0xb4, 0xc6, 0xe8, 0xdd, 0x74, 0x1f, 0x4b, 0xbd, 0x8b, 0x8a,
     0x70, 0x3e, 0xb5, 0x66, 0x48, 0x03, 0xf6, 0x0e, 0x61, 0x35, 0x57, 0xb9, 0x86, 0xc1, 0x1d, 0x9e,
     0xe1, 0xf8, 0x98, 0x11, 0x69, 0xd9, 0x8e, 0x94, 0x9b, 0x1e, 0x87, 0xe9, 0xce, 0x55, 0x28, 0xdf,
     0x8c, 0xa1, 0x89, 0x0d, 0xbf, 0xe6, 0x42, 0x68, 0x41, 0x99, 0x2d, 0x0f, 0xb0, 0x54, 0xbb, 0x16]"

lemma sbox_entries: "list_all2 sbox_entry_ok [0..255] sbox_ints"
  by code_simp

lemma sbox_table: "bank_sbox = map word_of_int sbox_ints"
  by (simp add: bank_sbox_def sbox_ints_def)

lemma sbox_fips_entry: "fips_sbox (uint x) (uint (bank_sbox ! unat (x::u8)))"
proof -
  have "unat x < 2 ^ LENGTH(8)" by (rule unsigned_less)
  then have x: "unat x < 256" by simp
  have l: "length sbox_ints = 256" using list_all2_lengthD [OF sbox_entries] by simp
  define s where "s = sbox_ints ! unat x"
  have "sbox_entry_ok ([0..255] ! unat x) s"
    unfolding s_def using x l by (intro list_all2_nthD2 [OF sbox_entries]) simp
  moreover have "uint x < 2 ^ LENGTH(8)" by (rule unsigned_less)
  then have "[0..255] ! unat x = uint x" by (subst nth_upto) simp_all
  ultimately have ok: "sbox_entry_ok (uint x) s" by simp
  have b: "bank_sbox ! unat x = word_of_int s" using x l by (simp add: sbox_table s_def)
  have "0 \<le> s" "s < 256" using ok unfolding sbox_entry_ok_def Let_def by blast+
  then have "uint (word_of_int s :: u8) = s" by (simp add: unsigned_of_int take_bit_eq_mod)
  moreover have "fips_sbox (uint x) s"
    using ok unfolding fips_sbox_def sbox_entry_ok_def Let_def by blast
  ultimately show ?thesis by (simp only: b)
qed

section \<open>The inverse table\<close>

lemma inv_sbox_entries: "map (\<lambda>x. bank_inv_sbox ! unat x) bank_sbox = map of_nat [0..<256]"
  by code_simp

lemma inv_sbox_sbox: "bank_inv_sbox ! unat (bank_sbox ! unat (x::u8)) = x"
proof -
  have "unat x < 2 ^ LENGTH(8)" by (rule unsigned_less)
  then have x: "unat x < 256" by simp
  have l: "length bank_sbox = 256" by (simp add: bank_sbox_def)
  have "map (\<lambda>x. bank_inv_sbox ! unat x) bank_sbox ! unat x = of_nat (unat x)"
    unfolding inv_sbox_entries using x by (simp only: nth_map length_upt nth_upt) simp
  then show ?thesis using x l by simp
qed

lemma sbox_inv_sbox: "bank_sbox ! unat (bank_inv_sbox ! unat (x::u8)) = x"
proof -
  have "inj (\<lambda>x::u8. bank_sbox ! unat x)"
    by (rule inj_on_inverseI [where g = "\<lambda>y. bank_inv_sbox ! unat y"]) (rule inv_sbox_sbox)
  then have "surj (\<lambda>x::u8. bank_sbox ! unat x)" by (rule finite_UNIV_inj_surj [OF finite])
  then obtain z where "x = bank_sbox ! unat (z::u8)" by (metis surjD)
  then show ?thesis by (simp add: inv_sbox_sbox)
qed

text \<open>
  The substitution table of the code is the S-box of FIPS 197 (the affine map of the
  inverse in the field), and the second table is its inverse, both ways.
\<close>

theorem aes_sbox_fips:
  "fips_sbox (uint x) (uint (bank_sbox ! unat (x::u8))) \<and>
   bank_inv_sbox ! unat (bank_sbox ! unat x) = x \<and>
   bank_sbox ! unat (bank_inv_sbox ! unat x) = x"
  by (simp only: sbox_fips_entry inv_sbox_sbox sbox_inv_sbox simp_thms)

end
