(* ===== verification/Bank_Aes.thy ===== *)
theory Bank_Aes
  imports Bank_Aes_Tables
begin

text \<open>
  AES-256 (\<open>src/aes/bank_aes_core.cpp\<close>): the four layers of a round and their
  inverses, the key expansion and the two block functions. The state is a list of 16 bytes
  and is updated by index as the code does. Byte substitution and row shifts are
  permutations undone by their inverses; the key expansion never changes its round
  constant; the column mixing has a kernel, so block encryption has no inverse.
\<close>

section \<open>The layers of a round\<close>

definition bank_xtime :: "u8 \<Rightarrow> u8" where
  "bank_xtime x = push_bit 1 x XOR (if x AND 0x80 \<noteq> 0 then 0x1b else 0)"

definition bank_aes_sub_bytes :: "bytes \<Rightarrow> bytes" where
  "bank_aes_sub_bytes state = foldl (\<lambda>s i. s[i := bank_sbox ! unat (s ! i)]) state [0..<16]"

definition bank_aes_inv_sub_bytes :: "bytes \<Rightarrow> bytes" where
  "bank_aes_inv_sub_bytes state = foldl (\<lambda>s i. s[i := bank_inv_sbox ! unat (s ! i)]) state [0..<16]"

definition bank_aes_shift_rows :: "bytes \<Rightarrow> bytes" where
  "bank_aes_shift_rows s =
     (let t = s ! 1; s = s[1 := s ! 5]; s = s[5 := s ! 9]; s = s[9 := s ! 13]; s = s[13 := t];
          t = s ! 2; s = s[2 := s ! 10]; s = s[10 := t];
          t = s ! 6; s = s[6 := s ! 14]; s = s[14 := t];
          t = s ! 3; s = s[3 := s ! 15]; s = s[15 := s ! 11]; s = s[11 := s ! 7]
      in s[7 := t])"

definition bank_aes_inv_shift_rows :: "bytes \<Rightarrow> bytes" where
  "bank_aes_inv_shift_rows s =
     (let t = s ! 13; s = s[13 := s ! 9]; s = s[9 := s ! 5]; s = s[5 := s ! 1]; s = s[1 := t];
          t = s ! 10; s = s[10 := s ! 2]; s = s[2 := t];
          t = s ! 14; s = s[14 := s ! 6]; s = s[6 := t];
          t = s ! 7; s = s[7 := s ! 11]; s = s[11 := s ! 15]; s = s[15 := s ! 3]
      in s[3 := t])"

definition aes_mix_column :: "bytes \<Rightarrow> nat \<Rightarrow> bytes" where
  "aes_mix_column s i =
     (let a = s ! (i * 4); b = s ! (i * 4 + 1); c = s ! (i * 4 + 2); d = s ! (i * 4 + 3);
          t = a XOR b XOR c XOR d;
          s = s[i * 4 := a XOR b XOR bank_xtime (a XOR b) XOR t];
          s = s[i * 4 + 1 := b XOR c XOR bank_xtime (b XOR c) XOR t];
          s = s[i * 4 + 2 := c XOR d XOR bank_xtime (c XOR d) XOR t]
      in s[i * 4 + 3 := d XOR a XOR bank_xtime (d XOR a) XOR t])"

definition bank_aes_mix_columns :: "bytes \<Rightarrow> bytes" where
  "bank_aes_mix_columns state = foldl aes_mix_column state [0..<4]"

definition aes_inv_mix_column :: "bytes \<Rightarrow> nat \<Rightarrow> bytes" where
  "aes_inv_mix_column s i =
     (let a = s ! (i * 4); b = s ! (i * 4 + 1); c = s ! (i * 4 + 2); d = s ! (i * 4 + 3);
          s = s[i * 4 := bank_xtime (bank_xtime (a XOR c) XOR (c XOR d)) XOR (bank_xtime (a XOR b) XOR (a XOR d))];
          s = s[i * 4 + 1 := bank_xtime (bank_xtime (b XOR d) XOR (d XOR a)) XOR (bank_xtime (b XOR c) XOR (b XOR a))];
          s = s[i * 4 + 2 := bank_xtime (bank_xtime (c XOR a) XOR (a XOR b)) XOR (bank_xtime (c XOR d) XOR (c XOR b))]
      in s[i * 4 + 3 := bank_xtime (bank_xtime (d XOR b) XOR (b XOR c)) XOR (bank_xtime (d XOR a) XOR (d XOR c))])"

definition bank_aes_inv_mix_columns :: "bytes \<Rightarrow> bytes" where
  "bank_aes_inv_mix_columns state = foldl aes_inv_mix_column state [0..<4]"

definition aes_add_column :: "u32 list \<Rightarrow> nat \<Rightarrow> bytes \<Rightarrow> nat \<Rightarrow> bytes" where
  "aes_add_column key round s i =
     (let k = key ! (round * 4 + i);
          s = s[i * 4 := s ! (i * 4) XOR ucast (drop_bit 24 k AND 0xFF)];
          s = s[i * 4 + 1 := s ! (i * 4 + 1) XOR ucast (drop_bit 16 k AND 0xFF)];
          s = s[i * 4 + 2 := s ! (i * 4 + 2) XOR ucast (drop_bit 8 k AND 0xFF)]
      in s[i * 4 + 3 := s ! (i * 4 + 3) XOR ucast (k AND 0xFF)])"

definition bank_aes_add_round_key :: "bytes \<Rightarrow> u32 list \<Rightarrow> nat \<Rightarrow> bytes" where
  "bank_aes_add_round_key state key round = foldl (aes_add_column key round) state [0..<4]"

section \<open>Key expansion\<close>

definition aes_sub_word :: "u32 \<Rightarrow> u32" where
  "aes_sub_word w =
     push_bit 24 (ucast (bank_sbox ! unat (drop_bit 24 w))) OR
     push_bit 16 (ucast (bank_sbox ! unat (drop_bit 16 w AND 0xFF))) OR
     push_bit 8 (ucast (bank_sbox ! unat (drop_bit 8 w AND 0xFF))) OR
     ucast (bank_sbox ! unat (w AND 0xFF))"

definition aes_expand_step :: "nat \<Rightarrow> u32 list \<Rightarrow> nat \<Rightarrow> u32 list" where
  "aes_expand_step nk w i =
     (let temp = w ! (i - 1);
          temp = (if i mod nk = 0 then
                    (let temp = push_bit 8 temp OR drop_bit 24 temp
                     in aes_sub_word temp XOR 0x01000000)
                  else if 6 < nk \<and> i mod nk = 4 then aes_sub_word temp
                  else temp)
      in w @ [w ! (i - nk) XOR temp])"

definition bank_aes_key_expansion :: "bytes \<Rightarrow> nat \<Rightarrow> u32 list" where
  "bank_aes_key_expansion key key_bits =
     (let nk = key_bits div 32; nr = nk + 6
      in foldl (aes_expand_step nk) (map (\<lambda>i. load_be32 key (i * 4)) [0..<nk]) [nk..<(nr + 1) * 4])"

record aes_key_schedule =
  round_key :: "u32 list"
  rounds :: nat

record aes256_key =
  enc_key :: aes_key_schedule
  dec_key :: aes_key_schedule

definition aes_reverse_keys :: "u32 list \<Rightarrow> u32 list" where
  "aes_reverse_keys enc =
     foldl (\<lambda>dec i. foldl (\<lambda>dec j. dec[(14 - i) * 4 + j := enc ! (i * 4 + j)]) dec [0..<4])
       (replicate 60 0) [0..<15]"

definition bank_aes256_set_key :: "bytes \<Rightarrow> aes256_key" where
  "bank_aes256_set_key user_key =
     (let enc = bank_aes_key_expansion user_key 256
      in \<lparr>enc_key = \<lparr>round_key = enc, rounds = 14\<rparr>,
          dec_key = \<lparr>round_key = aes_reverse_keys enc, rounds = 14\<rparr>\<rparr>)"

section \<open>Block functions\<close>

definition aes_enc_round :: "u32 list \<Rightarrow> bytes \<Rightarrow> nat \<Rightarrow> bytes" where
  "aes_enc_round key s round =
     bank_aes_add_round_key (bank_aes_mix_columns (bank_aes_shift_rows (bank_aes_sub_bytes s))) key round"

definition bank_aes_encrypt_block :: "bytes \<Rightarrow> aes256_key \<Rightarrow> bytes" where
  "bank_aes_encrypt_block input key =
     (let rk = round_key (enc_key key);
          s = bank_aes_add_round_key input rk 0;
          s = foldl (aes_enc_round rk) s [1..<14];
          s = bank_aes_shift_rows (bank_aes_sub_bytes s)
      in bank_aes_add_round_key s rk 14)"

definition aes_dec_round :: "u32 list \<Rightarrow> bytes \<Rightarrow> nat \<Rightarrow> bytes" where
  "aes_dec_round key s round =
     bank_aes_inv_mix_columns
       (bank_aes_add_round_key (bank_aes_inv_sub_bytes (bank_aes_inv_shift_rows s)) key round)"

definition bank_aes_decrypt_block :: "bytes \<Rightarrow> aes256_key \<Rightarrow> bytes" where
  "bank_aes_decrypt_block input key =
     (let rk = round_key (dec_key key);
          s = bank_aes_add_round_key input rk 0;
          s = foldl (aes_dec_round rk) s [1..<14];
          s = bank_aes_inv_sub_bytes (bank_aes_inv_shift_rows s)
      in bank_aes_add_round_key s rk 14)"

section \<open>States of 16 bytes\<close>

lemma list16:
  assumes "length xs = 16"
  obtains a b c d e f g h i j k l m n p q where "xs = [a, b, c, d, e, f, g, h, i, j, k, l, m, n, p, q]"
  using assms by (auto simp: numeral_eq_Suc length_Suc_conv)

lemmas upt_small = upt_rec [of _ "numeral n" for n]

lemma foldl_length [layout]:
  "(\<And>s i. length (f s i) = length s) \<Longrightarrow> length (foldl f s is) = length s"
  by (induction "is" arbitrary: s) simp_all

lemma aes_lengths [layout, simp]:
  "length (bank_aes_sub_bytes s) = length s"
  "length (bank_aes_inv_sub_bytes s) = length s"
  "length (bank_aes_shift_rows s) = length s"
  "length (bank_aes_inv_shift_rows s) = length s"
  "length (bank_aes_mix_columns s) = length s"
  "length (bank_aes_inv_mix_columns s) = length s"
  "length (bank_aes_add_round_key s key r) = length s"
  by (simp_all add: bank_aes_sub_bytes_def bank_aes_inv_sub_bytes_def bank_aes_shift_rows_def
      bank_aes_inv_shift_rows_def bank_aes_mix_columns_def bank_aes_inv_mix_columns_def
      bank_aes_add_round_key_def foldl_length aes_mix_column_def aes_inv_mix_column_def
      aes_add_column_def Let_def)

lemma length_aes_rounds [layout, simp]:
  "length (foldl (aes_enc_round rk) s rs) = length s"
  "length (foldl (aes_dec_round rk) s rs) = length s"
  by (simp_all add: foldl_length aes_enc_round_def aes_dec_round_def)

lemma length_aes_blocks [layout, simp]:
  "length (bank_aes_encrypt_block s k) = length s"
  "length (bank_aes_decrypt_block s k) = length s"
  by (simp_all add: bank_aes_encrypt_block_def bank_aes_decrypt_block_def Let_def)

lemma foldl_update_map:
  "length s = n \<Longrightarrow> foldl (\<lambda>s i. s[i := f (s ! i)]) s [0..<n] = map f s"
proof -
  have "k \<le> length s \<Longrightarrow> foldl (\<lambda>s i. s[i := f (s ! i)]) s [0..<k] = map f (take k s) @ drop k s" for k
  proof (induction k)
    case (Suc k)
    then have "foldl (\<lambda>s i. s[i := f (s ! i)]) s [0..<Suc k]
        = (map f (take k s) @ drop k s)[k := f ((map f (take k s) @ drop k s) ! k)]" by simp
    also have "\<dots> = map f (take (Suc k) s) @ drop (Suc k) s"
      using Suc.prems by (simp add: nth_append list_update_append take_Suc_conv_app_nth
          Cons_nth_drop_Suc [symmetric])
    finally show ?case .
  qed simp
  then show "length s = n \<Longrightarrow> ?thesis" by auto
qed

lemma aes_sub_bytes_map:
  "length s = 16 \<Longrightarrow> bank_aes_sub_bytes s = map (\<lambda>b. bank_sbox ! unat b) s"
  "length s = 16 \<Longrightarrow> bank_aes_inv_sub_bytes s = map (\<lambda>b. bank_inv_sbox ! unat b) s"
  by (simp_all add: bank_aes_sub_bytes_def bank_aes_inv_sub_bytes_def
      foldl_update_map [where f = "\<lambda>b. bank_sbox ! unat b"]
      foldl_update_map [where f = "\<lambda>b. bank_inv_sbox ! unat b"])

lemma aes_shift_rows_list:
  "bank_aes_shift_rows [a0, a1, a2, a3, a4, a5, a6, a7, a8, a9, a10, a11, a12, a13, a14, a15] =
     [a0, a5, a10, a15, a4, a9, a14, a3, a8, a13, a2, a7, a12, a1, a6, a11]"
  by (simp add: bank_aes_shift_rows_def Let_def)

lemma aes_inv_shift_rows_list:
  "bank_aes_inv_shift_rows [a0, a1, a2, a3, a4, a5, a6, a7, a8, a9, a10, a11, a12, a13, a14, a15] =
     [a0, a13, a10, a7, a4, a1, a14, a11, a8, a5, a2, a15, a12, a9, a6, a3]"
  by (simp add: bank_aes_inv_shift_rows_def Let_def)

lemma aes_shift_rows_inverse:
  assumes "length s = 16"
  shows "bank_aes_inv_shift_rows (bank_aes_shift_rows s) = s"
    and "bank_aes_shift_rows (bank_aes_inv_shift_rows s) = s"
  using assms by (elim list16, simp add: aes_shift_rows_list aes_inv_shift_rows_list)+

section \<open>Inverses of the layers\<close>

lemma aes_sub_bytes_inverse:
  assumes "length s = 16"
  shows "bank_aes_inv_sub_bytes (bank_aes_sub_bytes s) = s"
    and "bank_aes_sub_bytes (bank_aes_inv_sub_bytes s) = s"
  using assms by (simp_all add: aes_sub_bytes_map inv_sbox_sbox sbox_inv_sbox o_def)

section \<open>Adding a round key\<close>

definition aes_key_bytes :: "u32 list \<Rightarrow> nat \<Rightarrow> bytes" where
  "aes_key_bytes key round = concat (map (\<lambda>i. store_be32 (key ! (round * 4 + i))) [0..<4])"

lemma mask_byte: "ucast (w AND 0xFF :: u32) = (ucast w :: u8)"
proof -
  have "w AND 0xFF = take_bit 8 w" by (simp add: take_bit_eq_mask mask_eq_exp_minus_1)
  then show ?thesis by (simp add: bit_word_eqI bit_simps)
qed

lemma aes_add_round_key_xor:
  assumes "length s = 16"
  shows "bank_aes_add_round_key s key round = xor_bytes s (aes_key_bytes key round)"
  using assms
  by (elim list16) (simp add: bank_aes_add_round_key_def aes_add_column_def Let_def mask_byte
      aes_key_bytes_def store_be32_def xor_bytes_def upt_rec)

lemma length_aes_key_bytes [layout, simp]: "length (aes_key_bytes key r) = 16"
  by (simp add: aes_key_bytes_def upt_rec)

lemma aes_add_round_key_twice:
  "length s = 16 \<Longrightarrow> bank_aes_add_round_key (bank_aes_add_round_key s key r) key r = s"
  by (simp add: aes_add_round_key_xor xor_bytes_twice)

section \<open>The kernel of the column mixing\<close>

definition flip_column :: "bytes \<Rightarrow> bytes" where
  "flip_column s = map (\<lambda>b. b XOR 1) (take 4 s) @ drop 4 s"

lemma xor_one_cancel: "(a XOR 1) XOR (b XOR 1) = a XOR (b :: u8)"
  by (rule bit_word_eqI) (auto simp: bit_xor_iff)

lemma xor_one_neq: "a XOR 1 \<noteq> (a :: u8)"
proof
  assume "a XOR 1 = a"
  then have "bit (a XOR 1) 0 = bit a 0" by simp
  then show False by (simp add: bit_xor_iff)
qed

lemma mix_columns_flip:
  assumes "length s = 16"
  shows "bank_aes_mix_columns (flip_column s) = bank_aes_mix_columns s"
  using assms
proof (rule list16)
  fix a b c d e f g h i j k l m n p q
  assume s: "s = [a, b, c, d, e, f, g, h, i, j, k, l, m, n, p, q]"
  have "aes_mix_column (flip_column s) 0 = aes_mix_column s 0"
    by (simp add: s flip_column_def aes_mix_column_def Let_def xor_one_cancel)
       (intro conjI; rule bit_word_eqI; auto simp: bit_xor_iff)
  moreover have "[0..<4] = 0 # [1..<4]" by (simp add: upt_rec)
  ultimately show ?thesis by (simp only: bank_aes_mix_columns_def foldl.simps)
qed

lemma flip_column_differs: "length s = 16 \<Longrightarrow> flip_column s \<noteq> s"
  by (elim list16) (simp add: flip_column_def xor_one_neq)

lemma length_flip_column [layout, simp]: "length (flip_column s) = length s"
  by (simp add: flip_column_def)

lemma aes_first_round:
  "bank_aes_encrypt_block p key =
    (let rk = round_key (enc_key key);
         s = bank_aes_mix_columns (bank_aes_shift_rows (bank_aes_sub_bytes (bank_aes_add_round_key p rk 0)));
         s = foldl (aes_enc_round rk) (bank_aes_add_round_key s rk 1) [2..<14]
     in bank_aes_add_round_key (bank_aes_shift_rows (bank_aes_sub_bytes s)) rk 14)"
proof -
  have "[1..<14] = 1 # [2..<14]" by (simp add: upt_rec)
  then show ?thesis by (simp only: bank_aes_encrypt_block_def Let_def foldl.simps aes_enc_round_def)
qed

text \<open>
  For every key and every block there is another block with the same ciphertext, so no
  function decrypts what bank_aes_encrypt_block encrypts.
\<close>

theorem aes_encrypt_collision:
  assumes p: "length p = 16"
  shows "\<exists>p'. length p' = 16 \<and> p' \<noteq> p \<and> bank_aes_encrypt_block p' key = bank_aes_encrypt_block p key"
proof -
  let ?rk = "round_key (enc_key key)"
  let ?in = "\<lambda>p. bank_aes_shift_rows (bank_aes_sub_bytes (bank_aes_add_round_key p ?rk 0))"
  let ?out = "\<lambda>s. bank_aes_add_round_key (bank_aes_inv_sub_bytes (bank_aes_inv_shift_rows s)) ?rk 0"
  define p' where "p' = ?out (flip_column (?in p))"
  have in': "?in p' = flip_column (?in p)"
    using p by (simp add: p'_def aes_add_round_key_twice aes_sub_bytes_inverse aes_shift_rows_inverse)
  then have "bank_aes_encrypt_block p' key = bank_aes_encrypt_block p key"
    using p by (simp only: aes_first_round Let_def mix_columns_flip aes_lengths)
  moreover have "p' \<noteq> p" using in' flip_column_differs [of "?in p"] p by auto
  moreover have "length p' = 16" using p by (simp add: p'_def)
  ultimately show ?thesis by blast
qed

lemma aes_encrypt_collision_witness:
  "\<exists>p'. length p' = 16 \<and> p' \<noteq> replicate 16 0 \<and>
     bank_aes_encrypt_block p' (bank_aes256_set_key (replicate 32 0)) =
     bank_aes_encrypt_block (replicate 16 0) (bank_aes256_set_key (replicate 32 0))"
  by (rule aes_encrypt_collision) simp

section \<open>The key schedule\<close>

text \<open>
  The words of the AES-256 schedule of FIPS 197, with the round constants as a parameter.
\<close>

fun aes_key_word :: "(nat \<Rightarrow> u32) \<Rightarrow> bytes \<Rightarrow> nat \<Rightarrow> u32" where
  "aes_key_word rcon key i =
     (if i < 8 then load_be32 key (i * 4)
      else let temp = aes_key_word rcon key (i - 1)
           in aes_key_word rcon key (i - 8) XOR
              (if i mod 8 = 0 then aes_sub_word (word_rotl 8 temp) XOR rcon (i div 8)
               else if i mod 8 = 4 then aes_sub_word temp else temp))"

declare aes_key_word.simps [simp del]

definition fips_rcon :: "nat \<Rightarrow> u32" where
  "fips_rcon j = push_bit 24 (word_of_int ((gf_times_x ^^ (j - 1)) 1))"

abbreviation bank_rcon :: "nat \<Rightarrow> u32" where
  "bank_rcon \<equiv> \<lambda>_. 0x01000000"

lemma rotl_8: "push_bit 8 x OR drop_bit 24 x = word_rotl 8 (x::u32)"
proof (rule bit_word_eqI)
  fix n assume "n < LENGTH(32)"
  then have "n < 32" by simp
  then show "bit (push_bit 8 x OR drop_bit 24 x) n = bit (word_rotl 8 x) n"
  proof (cases "n < 8")
    case True
    then have "(n + 24) mod 32 = n + 24" by simp
    with True show ?thesis by (simp add: bit_or_iff bit_push_bit_iff bit_drop_bit_eq bit_word_rotl_iff ac_simps)
  next
    case False
    with \<open>n < 32\<close> have "(n + 24) mod 32 = n - 8" by (simp add: mod_if)
    moreover have "\<not> bit x (n + 24)" using False by (auto dest: bit_imp_le_length)
    ultimately show ?thesis using False \<open>n < 32\<close>
      by (simp add: bit_or_iff bit_push_bit_iff bit_drop_bit_eq bit_word_rotl_iff ac_simps)
  qed
qed

lemma aes_expand_loop:
  "length (foldl (aes_expand_step 8) (map (\<lambda>i. load_be32 key (i * 4)) [0..<8]) [8..<8 + n]) = 8 + n \<and>
   (\<forall>i < 8 + n. foldl (aes_expand_step 8) (map (\<lambda>i. load_be32 key (i * 4)) [0..<8]) [8..<8 + n] ! i
      = aes_key_word bank_rcon key i)"
proof (induction n)
  case 0
  then show ?case by (simp add: aes_key_word.simps)
next
  case (Suc n)
  define w where "w = foldl (aes_expand_step 8) (map (\<lambda>i. load_be32 key (i * 4)) [0..<8]) [8..<8 + n]"
  have w: "length w = 8 + n" "\<And>i. i < 8 + n \<Longrightarrow> w ! i = aes_key_word bank_rcon key i"
    using Suc by (simp_all add: w_def)
  have "[8..<8 + Suc n] = [8..<8 + n] @ [8 + n]" by (simp only: add_Suc_right upt_Suc_append le_add1)
  then have st: "foldl (aes_expand_step 8) (map (\<lambda>i. load_be32 key (i * 4)) [0..<8]) [8..<8 + Suc n]
      = aes_expand_step 8 w (8 + n)" by (simp only: foldl_append foldl.simps w_def)
  have st': "aes_expand_step 8 w (8 + n) = w @ [aes_key_word bank_rcon key (8 + n)]"
    by (subst aes_key_word.simps) (simp add: aes_expand_step_def Let_def w rotl_8)
  then have "length (aes_expand_step 8 w (8 + n)) = 8 + Suc n" using w by simp
  moreover have "aes_expand_step 8 w (8 + n) ! i = aes_key_word bank_rcon key i" if "i < 8 + Suc n" for i
  proof (cases "i < 8 + n")
    case False
    with that have "i = 8 + n" by simp
    then show ?thesis by (simp add: st' nth_append w)
  qed (simp add: st' nth_append w)
  ultimately show ?case unfolding st by blast
qed

lemma aes_expansion_words:
  "length (bank_aes_key_expansion key 256) = 60"
  "i < 60 \<Longrightarrow> bank_aes_key_expansion key 256 ! i = aes_key_word bank_rcon key i"
  using aes_expand_loop [of key 52] by (simp_all add: bank_aes_key_expansion_def Let_def)

lemma aes_key_word_early: "i < 16 \<Longrightarrow> aes_key_word bank_rcon key i = aes_key_word fips_rcon key i"
proof (induction i rule: less_induct)
  case (less i)
  show ?case
  proof (cases "i < 8")
    case False
    with less.prems have "i div 8 = 1" by simp
    moreover have "fips_rcon 1 = 0x01000000" by (simp add: fips_rcon_def)
    ultimately show ?thesis
      using less False by (subst (1 2) aes_key_word.simps) (simp add: Let_def)
  qed (simp add: aes_key_word.simps)
qed

lemma aes_key_word_16:
  "aes_key_word rcon key 16 = aes_key_word rcon key 8 XOR
     (aes_sub_word (word_rotl 8 (aes_key_word rcon key 15)) XOR rcon 2)"
  by (subst aes_key_word.simps) (simp add: Let_def)

text \<open>
  For every key the schedule of the code has the words of FIPS 197 with the round
  constant stuck at its first value: the first 16 words are those of the standard, and the
  next one never is.
\<close>

theorem aes_key_schedule_stuck:
  "length (bank_aes_key_expansion key 256) = 60 \<and>
   (\<forall>i < 60. bank_aes_key_expansion key 256 ! i = aes_key_word (\<lambda>_. 0x01000000) key i) \<and>
   (\<forall>i < 16. bank_aes_key_expansion key 256 ! i = aes_key_word fips_rcon key i) \<and>
   bank_aes_key_expansion key 256 ! 16 XOR aes_key_word fips_rcon key 16 = 0x03000000"
proof -
  have e: "aes_key_word bank_rcon key 8 = aes_key_word fips_rcon key 8"
    "aes_key_word bank_rcon key 15 = aes_key_word fips_rcon key 15"
    by (simp_all add: aes_key_word_early)
  have c: "(a XOR (b XOR (c::u32))) XOR (a XOR (b XOR d)) = c XOR d" for a b c d
    by (rule bit_word_eqI) (auto simp: bit_xor_iff)
  have "fips_rcon 2 = 0x02000000" by (simp add: fips_rcon_def gf_times_x_def)
  then have "aes_key_word bank_rcon key 16 XOR aes_key_word fips_rcon key 16 = 0x03000000"
    unfolding aes_key_word_16 e c by simp
  then show ?thesis by (simp add: aes_expansion_words aes_key_word_early)
qed

lemma aes_key_schedule_stuck_witness:
  "bank_aes_key_expansion (replicate 32 0) 256 ! 10 = aes_key_word fips_rcon (replicate 32 0) 10"
proof -
  have "(10::nat) < 16" by simp
  then show ?thesis using aes_key_schedule_stuck [of "replicate 32 0"] by blast
qed

end
