(* ===== verification/Bank_Gcm.thy ===== *)
theory Bank_Gcm
  imports Bank_Aes
begin

text \<open>
  AES-256-GCM (\<open>src/gcm/bank_gcm_encrypt.cpp\<close>, \<open>bank_gcm_decrypt.cpp\<close>, \<open>bank_ghash.cpp\<close>):
  counter mode, the authentication function and the two entry points. Counter mode
  implements the interface \<open>key_stream\<close>. Decryption accepts exactly what encryption
  produces; the authentication function shifts by one bit where a field multiplication is
  meant, and lets a forged ciphertext keep its tag under every key.
\<close>

section \<open>Counter mode\<close>

fun gctr_carry :: "bytes \<Rightarrow> nat \<Rightarrow> bytes" where
  "gctr_carry cb 0 = cb[0 := cb ! 0 + 1]"
| "gctr_carry cb (Suc j) =
     (let cb = cb[Suc j := cb ! Suc j + 1] in if cb ! Suc j \<noteq> 0 then cb else gctr_carry cb j)"

definition gctr_incr :: "bytes \<Rightarrow> bytes" where
  "gctr_incr cb =
     (let cb = cb[15 := cb ! 15 + 1] in if cb ! 15 = 0 then gctr_carry cb 14 else cb)"

definition gctr_block :: "aes256_key \<Rightarrow> bytes \<Rightarrow> bytes \<times> bytes \<Rightarrow> nat \<Rightarrow> bytes \<times> bytes" where
  "gctr_block key x = (\<lambda>(cb, y) i.
     let n_blocks = (length x + 15) div 16;
         last_block_len = length x mod 16;
         cb = gctr_incr cb;
         enc_cb = bank_aes_encrypt_block cb key;
         block_len = (if i = n_blocks - 1 \<and> 0 < last_block_len then last_block_len else 16)
     in (cb, y @ map (\<lambda>j. x ! (i * 16 + j) XOR enc_cb ! j) [0..<block_len]))"

definition bank_gctr :: "aes256_key \<Rightarrow> bytes \<Rightarrow> bytes \<Rightarrow> bytes" where
  "bank_gctr key icb x = snd (foldl (gctr_block key x) (icb, []) [0..<(length x + 15) div 16])"

section \<open>The authentication function\<close>

definition ghash_mult_step :: "bytes \<Rightarrow> bytes \<times> u8 \<Rightarrow> nat \<Rightarrow> bytes \<times> u8" where
  "ghash_mult_step h = (\<lambda>(x, z) k.
     let x = x[k := drop_bit 1 (x ! k) XOR push_bit 7 (if 0 < k then x ! (k - 1) AND 1 else 0)];
         x = (if z AND 1 \<noteq> 0 then x[k := x ! k XOR h ! k] else x)
     in (x, drop_bit 1 z))"

definition bank_ghash_multiply :: "bytes \<Rightarrow> bytes \<Rightarrow> bytes" where
  "bank_ghash_multiply x h = fst (foldl (ghash_mult_step h) (x, x ! 15) (rev [0..<16]))"

definition ghash_absorb :: "bytes \<Rightarrow> bytes \<Rightarrow> bytes \<Rightarrow> nat \<Rightarrow> bytes" where
  "ghash_absorb h d x i =
     (let blocks = (length d + 15) div 16;
          block_len = (if i = blocks - 1 \<and> length d mod 16 \<noteq> 0 then length d mod 16 else 16);
          temp = blit (replicate 16 0) 0 (take block_len (drop (i * 16) d))
      in bank_ghash_multiply (xor_bytes x temp) h)"

definition bank_ghash :: "bytes \<Rightarrow> bytes \<Rightarrow> bytes \<Rightarrow> bytes" where
  "bank_ghash h aad ciphertext =
     (let x = foldl (ghash_absorb h aad) (replicate 16 0) [0..<(length aad + 15) div 16];
          x = foldl (ghash_absorb h ciphertext) x [0..<(length ciphertext + 15) div 16];
          len_block = store_be64 (of_nat (length aad) * 8) @ store_be64 (of_nat (length ciphertext) * 8)
      in bank_ghash_multiply (xor_bytes x len_block) h)"

section \<open>The two entry points\<close>

text \<open>
  None is the return value 0, with nothing written through the output pointers. The two
  functions share the key setup and the tag computation.
\<close>

definition gcm_setup :: "bytes \<Rightarrow> bytes \<Rightarrow> aes256_key \<times> bytes \<times> bytes" where
  "gcm_setup key iv =
     (let aes_key = bank_aes256_set_key key
      in (aes_key, bank_aes_encrypt_block (replicate 16 0) aes_key, (blit (replicate 16 0) 0 iv)[15 := 1]))"

definition gcm_tag :: "bytes \<Rightarrow> bytes \<Rightarrow> bytes \<Rightarrow> bytes \<Rightarrow> bytes" where
  "gcm_tag key iv aad cipher =
     (let (aes_key, h, j0) = gcm_setup key iv
      in xor_bytes (bank_ghash h aad cipher) (bank_aes_encrypt_block j0 aes_key))"

definition bank_aes256_gcm_encrypt ::
  "ptr \<Rightarrow> ptr \<Rightarrow> bytes \<Rightarrow> ptr \<Rightarrow> outp \<Rightarrow> outp \<Rightarrow> (bytes \<times> bytes) option" where
  "bank_aes256_gcm_encrypt key iv aad plain cipher tag =
     (case (key, iv, plain) of
        (Some k, Some v, Some p) \<Rightarrow>
          if length v \<noteq> 12 then None
          else if \<not> cipher \<or> \<not> tag then None
          else let (aes_key, h, j0) = gcm_setup k v;
                   c = bank_gctr aes_key j0 p
               in Some (c, gcm_tag k v aad c)
      | _ \<Rightarrow> None)"

definition bank_aes256_gcm_decrypt ::
  "ptr \<Rightarrow> ptr \<Rightarrow> bytes \<Rightarrow> ptr \<Rightarrow> ptr \<Rightarrow> outp \<Rightarrow> bytes option" where
  "bank_aes256_gcm_decrypt key iv aad cipher tag plain =
     (case (key, iv, cipher, tag) of
        (Some k, Some v, Some c, Some t) \<Rightarrow>
          if length v \<noteq> 12 then None
          else if \<not> plain then None
          else let (aes_key, h, j0) = gcm_setup k v;
                   expected_tag = gcm_tag k v aad c;
                   tag_ok = foldl (\<lambda>ok i. if t ! i \<noteq> expected_tag ! i then False else ok) True [0..<16]
               in if tag_ok then Some (bank_gctr aes_key j0 c) else None
      | _ \<Rightarrow> None)"

section \<open>Counter mode as a key stream\<close>

lemma length_gctr_carry [layout, simp]: "length (gctr_carry cb j) = length cb"
  by (induction j arbitrary: cb) (simp_all add: Let_def)

lemma length_gctr_incr [layout, simp]: "length (gctr_incr cb) = length cb"
  by (simp add: gctr_incr_def Let_def)

interpretation gctr: key_stream "\<lambda>cb. bank_aes_encrypt_block (gctr_incr cb) key" gctr_incr 16
  "\<lambda>cb. length cb = 16" for key
  by unfold_locales simp_all

lemma gctr_blocks_stream:
  assumes "length cb = 16"
  shows "i + n = (length x + 15) div 16 \<Longrightarrow>
    snd (foldl (gctr_block key x) (cb, y) [i..<i + n]) =
      y @ xor_stream (\<lambda>cb. bank_aes_encrypt_block (gctr_incr cb) key) gctr_incr 16 cb (drop (i * 16) x)"
  using assms
proof (induction n arbitrary: i cb y)
  case 0
  then have "length x \<le> i * 16" by linarith
  then show ?case by simp
next
  case (Suc n)
  define e where "e = bank_aes_encrypt_block (gctr_incr cb) key"
  have le: "length e = 16" using Suc.prems by (simp add: e_def)
  define bl where "bl = (if i = (length x + 15) div 16 - 1 \<and> 0 < length x mod 16 then length x mod 16 else 16)"
  have bl: "bl = min 16 (length x - i * 16)" and ne: "i * 16 < length x"
    unfolding bl_def using Suc.prems by (intro last_block_16; simp)+
  have upt: "[i..<i + Suc n] = i # [Suc i..<Suc i + n]" by (simp add: upt_conv_Cons)
  have m: "map (\<lambda>j. x ! (i * 16 + j) XOR e ! j) [0..<bl] = xor_bytes (take 16 (drop (i * 16) x)) e"
    using le by (intro nth_equalityI) (use ne in \<open>simp_all add: bl\<close>)
  have "gctr_block key x (cb, y) i = (gctr_incr cb, y @ xor_bytes (take 16 (drop (i * 16) x)) e)"
    unfolding m [symmetric] by (simp add: gctr_block_def Let_def e_def [symmetric] bl_def)
  moreover have "drop 16 (drop (i * 16) x) = drop (Suc i * 16) x" by (simp add: add.commute)
  moreover have "snd (foldl (gctr_block key x) (gctr_incr cb, y') [Suc i..<Suc i + n]) =
      y' @ xor_stream (\<lambda>cb. bank_aes_encrypt_block (gctr_incr cb) key) gctr_incr 16 (gctr_incr cb)
        (drop (Suc i * 16) x)" for y'
    using Suc.prems by (intro Suc.IH) simp_all
  moreover have ne': "drop (i * 16) x \<noteq> []" using ne by simp
  ultimately show ?case
    unfolding upt foldl.simps xor_stream_unfold [OF zero_less_numeral ne']
    by (simp only: append_assoc e_def)
qed

lemma bank_gctr_stream:
  "length icb = 16 \<Longrightarrow> bank_gctr key icb x =
    xor_stream (\<lambda>cb. bank_aes_encrypt_block (gctr_incr cb) key) gctr_incr 16 icb x"
  using gctr_blocks_stream [of icb 0 "(length x + 15) div 16" x key "[]"] by (simp add: bank_gctr_def)

lemma bank_gctr_involution: "length icb = 16 \<Longrightarrow> bank_gctr key icb (bank_gctr key icb x) = x"
  by (simp add: bank_gctr_stream gctr.stream_involution)

lemma length_bank_gctr [layout]: "length icb = 16 \<Longrightarrow> length (bank_gctr key icb x) = length x"
  by (simp add: bank_gctr_stream gctr.stream_length)

section \<open>Encryption and decryption\<close>

lemma gcm_setup_j0: "length iv = 12 \<Longrightarrow> gcm_setup k iv = (a, h, j) \<Longrightarrow> length j = 16"
  by (auto simp: gcm_setup_def Let_def)

lemma length_ghash_mult [layout, simp]: "length (bank_ghash_multiply x h) = length x"
proof -
  have "length (fst (foldl (ghash_mult_step h) xz ks)) = length (fst xz)" for ks xz
    by (induction ks arbitrary: xz) (simp_all add: ghash_mult_step_def Let_def split_def)
  then show ?thesis by (simp add: bank_ghash_multiply_def)
qed

lemma length_ghash_absorb [layout, simp]:
  "length x = 16 \<Longrightarrow> length (ghash_absorb h d x i) = 16"
  by (simp add: ghash_absorb_def Let_def)

lemma length_ghash_foldl [layout, simp]:
  "length x = 16 \<Longrightarrow> length (foldl (ghash_absorb h d) x is) = 16"
  by (induction "is" arbitrary: x) simp_all

lemma length_bank_ghash [layout, simp]: "length (bank_ghash h aad c) = 16"
  by (simp add: bank_ghash_def Let_def)

lemma length_gcm_tag [layout, simp]: "length iv = 12 \<Longrightarrow> length (gcm_tag k iv aad c) = 16"
  by (auto simp: gcm_tag_def split: prod.split dest: gcm_setup_j0)

lemma tag_loop:
  "foldl (\<lambda>ok i. if t ! i \<noteq> u ! i then False else ok) b [0..<n] \<longleftrightarrow> b \<and> (\<forall>i<n. t ! i = u ! i)"
  by (induction n) (auto simp: less_Suc_eq)

lemma tag_loop_eq:
  "length t = 16 \<Longrightarrow> length u = 16 \<Longrightarrow>
   foldl (\<lambda>ok i. if t ! i \<noteq> u ! i then False else ok) True [0..<16] \<longleftrightarrow> t = u"
  by (auto simp only: tag_loop intro: nth_equalityI)

lemma gcm_encrypt_eq:
  "length iv = 12 \<Longrightarrow> bank_aes256_gcm_encrypt (Some k) (Some iv) aad (Some p) True True =
    (let (a, h, j0) = gcm_setup k iv; c = bank_gctr a j0 p in Some (c, gcm_tag k iv aad c))"
  by (simp add: bank_aes256_gcm_encrypt_def)

lemma gcm_decrypt_eq:
  "length iv = 12 \<Longrightarrow> length t = 16 \<Longrightarrow>
   bank_aes256_gcm_decrypt (Some k) (Some iv) aad (Some c) (Some t) True =
    (let (a, h, j0) = gcm_setup k iv
     in if t = gcm_tag k iv aad c then Some (bank_gctr a j0 c) else None)"
  by (simp add: bank_aes256_gcm_decrypt_def tag_loop_eq Let_def split_def)

lemma gcm_decrypt_encrypt:
  assumes iv: "length iv = 12" and t: "length t = 16"
  shows "bank_aes256_gcm_decrypt (Some k) (Some iv) aad (Some c) (Some t) True = Some p \<longleftrightarrow>
    bank_aes256_gcm_encrypt (Some k) (Some iv) aad (Some p) True True = Some (c, t)"
proof -
  obtain a h j0 where s: "gcm_setup k iv = (a, h, j0)" by (metis surj_pair)
  have j: "length j0 = 16" using iv s by (rule gcm_setup_j0)
  show ?thesis
    unfolding gcm_decrypt_eq [OF assms] gcm_encrypt_eq [OF iv] s Let_def prod.case
    by (auto simp: bank_gctr_involution [OF j])
qed

text \<open>
  C3: Decryption returns a plaintext exactly when encryption of that plaintext under the same
  key, nonce and associated data gives this ciphertext and this tag; so it undoes
  encryption, and on any other tag it returns 0 and leaves the output untouched.
\<close>

theorem gcm_decrypt_iff_encrypt:
  assumes "length iv = 12" "length t = 16"
  shows "bank_aes256_gcm_decrypt (Some k) (Some iv) aad (Some c) (Some t) True = Some p \<longleftrightarrow>
    bank_aes256_gcm_encrypt (Some k) (Some iv) aad (Some p) True True = Some (c, t)"
  using assms by (rule gcm_decrypt_encrypt)

lemma gcm_decrypt_iff_encrypt_witness:
  "bank_aes256_gcm_decrypt (Some (replicate 32 0)) (Some (replicate 12 0)) [1] (Some [2, 3])
     (Some (replicate 16 4)) True = Some [5, 6] \<longleftrightarrow>
   bank_aes256_gcm_encrypt (Some (replicate 32 0)) (Some (replicate 12 0)) [1] (Some [5, 6]) True True
     = Some ([2, 3], replicate 16 4)"
  by (rule gcm_decrypt_iff_encrypt) simp_all

section \<open>What the authentication function lets through\<close>

lemma ghash_mult_step_eq:
  assumes "k < length x"
  shows "ghash_mult_step h (x, z) k =
    (x[k := drop_bit 1 (x ! k) XOR push_bit 7 (if 0 < k then x ! (k - 1) AND 1 else 0)
         XOR (if bit z 0 then h ! k else 0)], drop_bit 1 z)"
  using assms by (simp add: ghash_mult_step_def Let_def bit_0 and_one_eq odd_iff_mod_2_eq_one xor.assoc)

lemma ghash_mult_loop:
  "n \<le> length x \<Longrightarrow> k < length x \<Longrightarrow>
   fst (foldl (ghash_mult_step h) (x, z) (rev [0..<n])) ! k =
     (if k < n then drop_bit 1 (x ! k) XOR push_bit 7 (if 0 < k then x ! (k - 1) AND 1 else 0)
         XOR (if bit z (n - 1 - k) then h ! k else 0)
      else x ! k)"
proof (induction n arbitrary: x z)
  case (Suc n)
  define e where "e = drop_bit 1 (x ! n) XOR push_bit 7 (if 0 < n then x ! (n - 1) AND 1 else 0)
      XOR (if bit z 0 then h ! n else 0)"
  have st: "ghash_mult_step h (x, z) n = (x[n := e], drop_bit 1 z)"
    unfolding e_def using Suc.prems by (intro ghash_mult_step_eq) simp
  have "rev [0..<Suc n] = n # rev [0..<n]" by simp
  then have "fst (foldl (ghash_mult_step h) (x, z) (rev [0..<Suc n])) ! k =
      fst (foldl (ghash_mult_step h) (x[n := e], drop_bit 1 z) (rev [0..<n])) ! k"
    by (simp only: foldl.simps st)
  also have "\<dots> = (if k < n then drop_bit 1 (x ! k) XOR push_bit 7 (if 0 < k then x ! (k - 1) AND 1 else 0)
         XOR (if bit (drop_bit 1 z) (n - 1 - k) then h ! k else 0) else x[n := e] ! k)"
    using Suc.prems by (subst Suc.IH) auto
  also have "\<dots> = (if k < Suc n then drop_bit 1 (x ! k) XOR push_bit 7 (if 0 < k then x ! (k - 1) AND 1 else 0)
         XOR (if bit z (Suc n - 1 - k) then h ! k else 0) else x ! k)"
  proof -
    consider "k < n" | "k = n" | "n < k" by linarith
    then show ?thesis
    proof cases
      case 1
      then have "bit (drop_bit 1 z) (n - 1 - k) = bit z (Suc n - 1 - k)"
        by (simp add: bit_drop_bit_eq Suc_diff_Suc)
      then show ?thesis using 1 by simp
    next
      case 2
      then show ?thesis using Suc.prems by (simp add: e_def)
    qed simp
  qed
  finally show ?case .
qed simp

lemma ghash_multiply_nth:
  "length x = 16 \<Longrightarrow> k < 16 \<Longrightarrow> bank_ghash_multiply x h ! k =
     drop_bit 1 (x ! k) XOR push_bit 7 (if 0 < k then x ! (k - 1) AND 1 else 0)
       XOR (if bit (x ! 15) (15 - k) then h ! k else 0)"
  using ghash_mult_loop [of 16 x k h "x ! 15"] by (simp add: bank_ghash_multiply_def)

definition flip_head :: "u8 \<Rightarrow> bytes \<Rightarrow> bytes" where
  "flip_head d x = x[0 := x ! 0 XOR d]"

lemma length_flip_head [layout, simp]: "length (flip_head d x) = length x"
  by (simp add: flip_head_def)

lemma ghash_multiply_flip:
  assumes x: "length x = 16"
  shows "bank_ghash_multiply (flip_head 0x80 x) h = flip_head 0x40 (bank_ghash_multiply x h)"
proof (rule nth_equalityI)
  fix k assume "k < length (bank_ghash_multiply (flip_head 0x80 x) h)"
  then have k: "k < 16" using x by simp
  have z: "flip_head 0x80 x ! 15 = x ! 15" by (simp add: flip_head_def)
  have low: "(b XOR 0x80) AND 1 = b AND (1::u8)" for b
  proof (rule bit_word_eqI)
    fix n
    have "\<not> bit (0x80::u8) 0" by simp
    then show "bit ((b XOR 0x80) AND 1) n = bit (b AND (1::u8)) n"
      by (cases n) (simp_all only: bit_and_iff bit_xor_iff bit_1_iff, auto)
  qed
  have b15: "\<not> bit (x ! 15) 15" by (auto dest: bit_imp_le_length)
  have sh: "drop_bit 1 (b XOR 0x80) = drop_bit 1 b XOR (0x40::u8)" for b
    by (simp add: drop_bit_xor)
  consider "k = 0" | "k = 1" | "1 < k" by linarith
  then show "bank_ghash_multiply (flip_head 0x80 x) h ! k = flip_head 0x40 (bank_ghash_multiply x h) ! k"
  proof cases
    case 1
    then show ?thesis using x
      by (simp add: ghash_multiply_nth z) (simp add: flip_head_def ghash_multiply_nth sh b15)
  next
    case 2
    then show ?thesis using x
      by (simp add: ghash_multiply_nth flip_head_def low)
  next
    case 3
    then show ?thesis using x k
      by (simp add: ghash_multiply_nth z) (simp add: flip_head_def ghash_multiply_nth)
  qed
qed (simp add: x)

text \<open>the forged ciphertext: one bit in each of the first two blocks\<close>

definition forge :: "bytes \<Rightarrow> bytes" where
  "forge c = c[0 := c ! 0 XOR 0x80, 16 := c ! 16 XOR 0x40]"

definition forge_mask :: "nat \<Rightarrow> bytes" where
  "forge_mask n = (replicate n 0)[0 := 0x80, 16 := 0x40]"

lemma length_forge [layout, simp]: "length (forge c) = length c"
  by (simp add: forge_def)

lemma forge_xor:
  assumes "16 < length c"
  shows "forge c = xor_bytes c (forge_mask (length c))"
proof (rule nth_equalityI)
  have "c \<noteq> []" using assms by auto
  then show "forge c ! i = xor_bytes c (forge_mask (length c)) ! i" if "i < length (forge c)" for i
    using that assms by (cases "i = 0"; cases "i = 16") (simp_all add: forge_def forge_mask_def)
qed (simp add: forge_mask_def)

lemma forge_differs: "0 < length c \<Longrightarrow> forge c \<noteq> c"
proof
  assume c: "0 < length c" "forge c = c"
  then have "c ! 0 XOR 0x80 = c ! 0" by (metis forge_def nth_list_update_eq nth_list_update_neq zero_neq_numeral)
  then have "bit (c ! 0 XOR 0x80) 7 = bit (c ! 0) 7" by simp
  then show False by (simp add: bit_xor_iff)
qed

definition ghash_temp :: "bytes \<Rightarrow> nat \<Rightarrow> bytes" where
  "ghash_temp d i = blit (replicate 16 0) 0 (take 16 (drop (i * 16) d))"

lemma ghash_absorb_temp:
  "i < (length d + 15) div 16 \<Longrightarrow> ghash_absorb h d x i = bank_ghash_multiply (xor_bytes x (ghash_temp d i)) h"
proof -
  assume i: "i < (length d + 15) div 16"
  have "take (min 16 (length d - i * 16)) (drop (i * 16) d) = take 16 (drop (i * 16) d)"
    by (simp add: min_def)
  with last_block_16 (1) [OF i] show ?thesis
    by (simp only: ghash_absorb_def Let_def ghash_temp_def neq0_conv)
qed

lemma length_ghash_temp [layout, simp]: "length (ghash_temp d i) = 16"
  by (simp add: ghash_temp_def)

lemma ghash_temp_forge:
  assumes c: "32 \<le> length c"
  shows "ghash_temp (forge c) 0 = flip_head 0x80 (ghash_temp c 0)"
    and "ghash_temp (forge c) 1 = flip_head 0x40 (ghash_temp c 1)"
    and "2 \<le> i \<Longrightarrow> ghash_temp (forge c) i = ghash_temp c i"
proof -
  have t0: "ghash_temp d 0 = take 16 d" "ghash_temp d 1 = take 16 (drop 16 d)" if "32 \<le> length d" for d
    using that by (simp_all add: ghash_temp_def blit_def)
  have l: "32 \<le> length (forge c)" using c by simp
  show "ghash_temp (forge c) 0 = flip_head 0x80 (ghash_temp c 0)"
    unfolding t0(1) [OF l] t0(1) [OF c] using c by (simp add: forge_def flip_head_def take_update_swap list_update_beyond)
  show "ghash_temp (forge c) 1 = flip_head 0x40 (ghash_temp c 1)"
    unfolding t0(2) [OF l] t0(2) [OF c] using c
    by (simp add: forge_def flip_head_def take_update_swap drop_update_swap)
  assume "2 \<le> i"
  then show "ghash_temp (forge c) i = ghash_temp c i"
    by (simp add: ghash_temp_def forge_def drop_update_cancel)
qed

lemma xor_flip_head:
  "length x = 16 \<Longrightarrow> length y = 16 \<Longrightarrow> xor_bytes x (flip_head d y) = flip_head d (xor_bytes x y)"
  "length x = 16 \<Longrightarrow> length y = 16 \<Longrightarrow> xor_bytes (flip_head d x) (flip_head d y) = xor_bytes x y"
proof -
  have "(a XOR d) XOR (b XOR d) = a XOR b" for a b
    by (rule bit_word_eqI) (auto simp: bit_xor_iff)
  then show "length x = 16 \<Longrightarrow> length y = 16 \<Longrightarrow> xor_bytes (flip_head d x) (flip_head d y) = xor_bytes x y"
    by (intro nth_equalityI) (auto simp: flip_head_def nth_list_update)
qed (intro nth_equalityI; auto simp: flip_head_def nth_list_update xor.assoc)

lemma ghash_forge:
  assumes c: "32 \<le> length c"
  shows "bank_ghash h aad (forge c) = bank_ghash h aad c"
proof -
  let ?n = "(length c + 15) div 16"
  define x where "x = foldl (ghash_absorb h aad) (replicate 16 0) [0..<(length aad + 15) div 16]"
  have lx: "length x = 16" by (simp add: x_def)
  have n: "2 \<le> ?n" using c by simp
  then have upt: "[0..<?n] = 0 # 1 # [2..<?n]"
    by (simp add: upt_conv_Cons numeral_2_eq_2)
  have i01: "0 < ?n" "1 < ?n" using n by simp_all
  have "ghash_absorb h (forge c) x 0 = bank_ghash_multiply (flip_head 0x80 (xor_bytes x (ghash_temp c 0))) h"
    using i01 lx c by (simp add: ghash_absorb_temp ghash_temp_forge xor_flip_head)
  then have b0: "ghash_absorb h (forge c) x 0 = flip_head 0x40 (ghash_absorb h c x 0)"
    using i01 lx by (simp add: ghash_multiply_flip ghash_absorb_temp)
  have b1: "ghash_absorb h (forge c) (flip_head 0x40 y) 1 = ghash_absorb h c y 1" if "length y = 16" for y
    using i01(2) that c by (simp only: ghash_absorb_temp length_forge ghash_temp_forge xor_flip_head length_ghash_temp)
  have rest: "foldl (ghash_absorb h (forge c)) y [2..<?n] = foldl (ghash_absorb h c) y [2..<?n]" for y
    using c by (intro foldl_cong) (auto simp: ghash_absorb_temp ghash_temp_forge)
  have "foldl (ghash_absorb h (forge c)) x [0..<?n] = foldl (ghash_absorb h c) x [0..<?n]"
    unfolding upt foldl.simps b0 using lx by (simp only: b1 rest length_ghash_absorb)
  then show ?thesis by (simp add: bank_ghash_def x_def [symmetric] Let_def)
qed

text \<open>
  C4: Under every key and nonce, whoever sees a ciphertext of at least two blocks can flip one
  bit in each of the first two blocks and keep the tag: decryption accepts the forgery and
  returns the plaintext with the same two bits flipped.
\<close>

theorem gcm_forgery:
  assumes iv: "length iv = 12" and len: "32 \<le> length p"
    and enc: "bank_aes256_gcm_encrypt (Some k) (Some iv) aad (Some p) True True = Some (c, t)"
  shows "bank_aes256_gcm_decrypt (Some k) (Some iv) aad (Some (forge c)) (Some t) True = Some (forge p)
    \<and> forge p \<noteq> p"
proof -
  obtain a h j0 where s: "gcm_setup k iv = (a, h, j0)" by (metis surj_pair)
  have j: "length j0 = 16" using iv s by (rule gcm_setup_j0)
  have c: "c = bank_gctr a j0 p" and t: "t = gcm_tag k iv aad c"
    using enc by (auto simp: gcm_encrypt_eq [OF iv] s Let_def)
  have lc: "length c = length p" using j by (simp add: c length_bank_gctr)
  have tag: "gcm_tag k iv aad (forge c) = t"
    using len lc by (simp add: t gcm_tag_def s ghash_forge)
  have "bank_gctr a j0 (forge c) = xor_bytes (bank_gctr a j0 c) (forge_mask (length c))"
    using len lc j by (simp add: forge_xor bank_gctr_stream gctr.stream_xor forge_mask_def)
  also have "\<dots> = forge p"
    using len lc j by (simp add: c bank_gctr_involution forge_xor length_bank_gctr)
  finally have "bank_gctr a j0 (forge c) = forge p" .
  moreover have "forge p \<noteq> p" using len by (intro forge_differs) linarith
  moreover have "length t = 16" using iv by (simp add: t)
  ultimately show ?thesis using iv tag by (simp add: gcm_decrypt_eq s)
qed

lemma gcm_forgery_witness:
  "\<exists>c t. bank_aes256_gcm_decrypt (Some (replicate 32 1)) (Some (replicate 12 2)) [] (Some (forge c)) (Some t) True
     = Some (forge (replicate 32 0)) \<and> forge (replicate 32 0) \<noteq> replicate 32 0"
proof -
  have iv: "length (replicate 12 (2::u8)) = 12" by simp
  obtain c t where e: "bank_aes256_gcm_encrypt (Some (replicate 32 1)) (Some (replicate 12 2)) []
      (Some (replicate 32 0)) True True = Some (c, t)"
    unfolding gcm_encrypt_eq [OF iv] Let_def split_def by blast
  have "32 \<le> length (replicate 32 (0::u8))" by simp
  from gcm_forgery [OF iv this e] show ?thesis by blast
qed

end
