(* ===== verification/Bank_Envelope.thy ===== *)
theory Bank_Envelope
  imports Bank_Session Bank_Gcm
begin

text \<open>
  Secure envelopes (\<open>src/envelope\<close>): encryption and decryption under a session key, and
  creation, extraction and verification of an envelope. Extraction undoes creation
  in every later state in which the first open slot with the session's keys is unexpired;
  verification looks at neither the tag nor the associated data.
\<close>

section \<open>Encryption under a session\<close>

text \<open>10 MB, the size of the data array\<close>

definition bank_max_data :: nat where
  "bank_max_data = 10485760"

text \<open>Inr (None, _) is the return value 0; otherwise the ciphertext, the nonce and the tag\<close>

definition bank_encrypt_data ::
  "platform \<Rightarrow> ptr \<Rightarrow> bytes \<Rightarrow> int \<Rightarrow> world \<Rightarrow> ((bytes \<times> bytes \<times> bytes) option \<times> world) run" where
  "bank_encrypt_data P plain aad session_id w =
     (if \<not> ctx_initialized (g_ctx w) then Inr (None, w)
      else case plain of
        None \<Rightarrow> Inr (None, w)
      | Some p \<Rightarrow>
          if bank_max_data < length p then Inr (None, w)
          else case bank_rng_bytes P 12 w of
            Inl f \<Rightarrow> Inl f
          | Inr (None, w) \<Rightarrow> Inr (None, w)
          | Inr (Some iv, w) \<Rightarrow>
              (case bank_get_session_key P session_id w of
                 (None, w) \<Rightarrow> Inr (None, w)
               | (Some (skey, _), w) \<Rightarrow>
                   (case bank_aes256_gcm_encrypt (Some skey) (Some iv) aad (Some p) True True of
                      None \<Rightarrow> Inr (None, w)
                    | Some (cipher, tag) \<Rightarrow>
                        Inr (Some (cipher, iv, tag), w\<lparr>g_ctx := (g_ctx w)
                          \<lparr>ctx_total_encryptions := ctx_total_encryptions (g_ctx w) + 1\<rparr>\<rparr>))))"

definition bank_decrypt_data ::
  "platform \<Rightarrow> ptr \<Rightarrow> bytes \<Rightarrow> int \<Rightarrow> ptr \<Rightarrow> ptr \<Rightarrow> outp \<Rightarrow> world \<Rightarrow> bytes option \<times> world" where
  "bank_decrypt_data P cipher aad session_id iv tag plain w =
     (if \<not> ctx_initialized (g_ctx w) then (None, w)
      else if cipher = None \<or> iv = None \<or> tag = None \<or> \<not> plain then (None, w)
      else if bank_max_data < length (the cipher) then (None, w)
      else case bank_get_session_key P session_id w of
        (None, w) \<Rightarrow> (None, w)
      | (Some (skey, _), w) \<Rightarrow>
          (case bank_aes256_gcm_decrypt (Some skey) iv aad cipher tag True of
             None \<Rightarrow> (None, w)
           | Some p \<Rightarrow> (Some p, w\<lparr>g_ctx := (g_ctx w)
               \<lparr>ctx_total_decryptions := ctx_total_decryptions (g_ctx w) + 1\<rparr>\<rparr>)))"

section \<open>Envelopes\<close>

text \<open>
  \<open>env_data\<close> is the first \<open>encrypted_len\<close> bytes of the data array; the key identifier
  fields, which no function sets after clearing them, are left out.
\<close>

record envelope =
  env_data :: bytes
  env_iv :: bytes
  env_tag :: bytes
  env_timestamp :: u64
  env_crc32 :: u32
  env_version :: u32
  env_auth_tag :: bytes
  env_compression_flag :: u8

text \<open>a null output pointer is False; Inr (None, _) is the return value 0\<close>

definition bank_create_envelope ::
  "platform \<Rightarrow> ptr \<Rightarrow> bytes \<Rightarrow> int \<Rightarrow> outp \<Rightarrow> world \<Rightarrow> (envelope option \<times> world) run" where
  "bank_create_envelope P plain aad session_id env w =
     (if plain = None \<or> \<not> env then Inr (None, w)
      else if bank_max_data - 1024 < length (the plain) then Inr (None, w)
      else case bank_encrypt_data P plain aad session_id w of
        Inl f \<Rightarrow> Inl f
      | Inr (None, w) \<Rightarrow> Inr (None, w)
      | Inr (Some (cipher, iv, tag), w) \<Rightarrow>
          (case bank_get_session_key P session_id w of
             (None, w) \<Rightarrow> Inr (None, w)
           | (Some (skey, hkey), w) \<Rightarrow>
               let auth_tag = bank_sha256 (skey @ hkey);
                   (now, w) = sys_time P w
               in Inr (Some \<lparr>env_data = cipher, env_iv = iv, env_tag = tag, env_timestamp = of_int now,
                     env_crc32 = bank_crc32 cipher, env_version = 2, env_auth_tag = auth_tag,
                     env_compression_flag = 0\<rparr>, w)))"

text \<open>the search through the slots, which both functions below make\<close>

definition slot_matches :: "envelope \<Rightarrow> session_key \<Rightarrow> bool" where
  "slot_matches env k =
     (sk_active k \<and> bank_secure_compare (env_auth_tag env) (bank_sha256 (sk_session_key k @ sk_hmac_key k)) 32)"

definition find_session :: "envelope \<Rightarrow> session_manager \<Rightarrow> int" where
  "find_session env m =
     (case List.find (\<lambda>i. slot_matches env (mgr_keys m ! i)) [0..<32] of None \<Rightarrow> - 1 | Some i \<Rightarrow> int i + 1)"

definition bank_extract_envelope ::
  "platform \<Rightarrow> envelope option \<Rightarrow> bytes \<Rightarrow> outp \<Rightarrow> world \<Rightarrow> bytes option \<times> world" where
  "bank_extract_envelope P env aad plain w =
     (case env of
        None \<Rightarrow> (None, w)
      | Some e \<Rightarrow>
          if \<not> plain then (None, w)
          else if bank_crc32 (env_data e) \<noteq> env_crc32 e then (None, w)
          else let session_id = find_session e (g_session_mgr w)
               in if session_id = - 1 then (None, w)
                  else bank_decrypt_data P (Some (env_data e)) aad session_id (Some (env_iv e)) (Some (env_tag e)) True w)"

definition bank_verify_envelope :: "envelope option \<Rightarrow> bytes \<Rightarrow> world \<Rightarrow> bool" where
  "bank_verify_envelope env aad w =
     (case env of
        None \<Rightarrow> False
      | Some e \<Rightarrow>
          if bank_crc32 (env_data e) \<noteq> env_crc32 e then False
          else find_session e (g_session_mgr w) \<noteq> - 1)"

definition bank_envelope_get_version :: "envelope option \<Rightarrow> int" where
  "bank_envelope_get_version env = (case env of None \<Rightarrow> 0 | Some e \<Rightarrow> sint (env_version e))"

definition bank_envelope_get_timestamp :: "envelope option \<Rightarrow> u64" where
  "bank_envelope_get_timestamp env = (case env of None \<Rightarrow> 0 | Some e \<Rightarrow> env_timestamp e)"

section \<open>Extraction undoes creation\<close>

lemma find_session_first:
  assumes "i < 32" "slot_matches env (mgr_keys m ! i)" "\<And>j. j < i \<Longrightarrow> \<not> slot_matches env (mgr_keys m ! j)"
  shows "find_session env m = int i + 1"
proof -
  have "List.find (\<lambda>i. slot_matches env (mgr_keys m ! i)) [0..<32] = Some i"
    unfolding find_Some_iff using assms by (intro exI [of _ i]) simp
  then show ?thesis by (simp add: find_session_def)
qed

lemma find_session_none:
  "find_session env m = - 1 \<longleftrightarrow> (\<forall>i<32. \<not> slot_matches env (mgr_keys m ! i))"
proof (cases "List.find (\<lambda>i. slot_matches env (mgr_keys m ! i)) [0..<32]")
  case None
  from None have "\<forall>i<32. \<not> slot_matches env (mgr_keys m ! i)"
    unfolding find_None_iff by auto
  moreover from None have "find_session env m = - 1" by (simp add: find_session_def)
  ultimately show ?thesis by blast
next
  case (Some i)
  then have "i < 32 \<and> slot_matches env (mgr_keys m ! i)" unfolding find_Some_iff by auto
  then show ?thesis using Some by (auto simp: find_session_def)
qed

lemma nth_update_same:
  assumes "f x = f (xs ! i)"
  shows "f (xs[i := x] ! j) = f (xs ! j)"
proof (cases "i = j")
  case True
  then show ?thesis using assms by (cases "i < length xs") (auto simp: list_update_beyond)
qed simp

lemma touched_slot:
  fixes xs :: "session_key list" and i :: nat
  defines "ys \<equiv> \<lambda>t n. xs[i := (xs ! i)\<lparr>sk_last_used_at := t, sk_use_count := n\<rparr>]"
  shows "sk_active (ys t n ! j) = sk_active (xs ! j)" "sk_session_key (ys t n ! j) = sk_session_key (xs ! j)"
    "sk_hmac_key (ys t n ! j) = sk_hmac_key (xs ! j)" "sk_expires_at (ys t n ! j) = sk_expires_at (xs ! j)"
  unfolding ys_def by (rule nth_update_same, simp)+

lemma get_session_key_Some:
  assumes "bank_get_session_key P i w = (Some ks, w')"
  shows "ctx_initialized (g_ctx w)" "1 \<le> i" "i \<le> 32"
    "ks = (sk_session_key (mgr_keys (g_session_mgr w) ! nat (i - 1)), sk_hmac_key (mgr_keys (g_session_mgr w) ! nat (i - 1)))"
    "sk_active (mgr_keys (g_session_mgr w) ! nat (i - 1))"
    "g_ctx w' = g_ctx w" "g_library_initialized w' = g_library_initialized w"
    "length (mgr_keys (g_session_mgr w')) = length (mgr_keys (g_session_mgr w))"
    "sk_active (mgr_keys (g_session_mgr w') ! j) = sk_active (mgr_keys (g_session_mgr w) ! j)"
    "sk_session_key (mgr_keys (g_session_mgr w') ! j) = sk_session_key (mgr_keys (g_session_mgr w) ! j)"
    "sk_hmac_key (mgr_keys (g_session_mgr w') ! j) = sk_hmac_key (mgr_keys (g_session_mgr w) ! j)"
    "sk_expires_at (mgr_keys (g_session_mgr w') ! j) = sk_expires_at (mgr_keys (g_session_mgr w) ! j)"
  using assms
  by (auto simp: get_session_key_eq Let_def set_slot_def touched_slot split: if_splits)

lemma encrypt_data_cases:
  assumes "rng_ok w" "g_library_initialized w" "platform_ok P"
    and e: "bank_encrypt_data P (Some p) aad i w = Inr (Some (c, iv, t), w')"
  obtains skey hkey u v where "same_but_rng w u" "bank_get_session_key P i u = (Some (skey, hkey), v)"
    "w' = v\<lparr>g_ctx := (g_ctx v)\<lparr>ctx_total_encryptions := ctx_total_encryptions (g_ctx v) + 1\<rparr>\<rparr>"
    "bank_aes256_gcm_encrypt (Some skey) (Some iv) aad (Some p) True True = Some (c, t)"
    "length iv = 12" "length p \<le> bank_max_data"
proof -
  obtain out u where u: "bank_rng_bytes P 12 w = Inr (Some out, u)" "length out = 12" "same_but_rng w u"
    using bank_rng_bytes_ok [OF assms(3,1,2), of 12] by blast
  obtain r v where v: "bank_get_session_key P i u = (r, v)" by (metis surj_pair)
  have "r \<noteq> None" using e u v by (cases r) (auto simp: bank_encrypt_data_def split: if_splits)
  then obtain skey hkey where r: "r = Some (skey, hkey)" by auto
  show ?thesis
    using e u v r by (intro that [of u skey hkey v]) (auto simp: bank_encrypt_data_def split: if_splits option.splits)
qed

lemma gcm_encrypt_length:
  assumes "length iv = 12" "bank_aes256_gcm_encrypt (Some k) (Some iv) aad (Some p) True True = Some (c, t)"
  shows "length c = length p" "length t = 16"
proof -
  obtain a h j0 where s: "gcm_setup k iv = (a, h, j0)" by (metis surj_pair)
  have "length j0 = 16" using assms(1) s by (rule gcm_setup_j0)
  then show "length c = length p" "length t = 16"
    using assms s by (auto simp: gcm_encrypt_eq Let_def length_bank_gctr)
qed

text \<open>what a successful creation puts into the envelope, and the state it leaves\<close>

lemma create_envelope_cases:
  assumes "rng_ok w" "g_library_initialized w" "platform_ok P"
    and e: "bank_create_envelope P (Some p) aad i True w = Inr (Some e, w')"
  defines "k \<equiv> mgr_keys (g_session_mgr w') ! nat (i - 1)"
  shows "1 \<le> i" "i \<le> 32" "sk_active k" "ctx_initialized (g_ctx w')" "length p \<le> bank_max_data - 1024"
    "bank_aes256_gcm_encrypt (Some (sk_session_key k)) (Some (env_iv e)) aad (Some p) True True = Some (env_data e, env_tag e)"
    "length (env_iv e) = 12" "env_crc32 e = bank_crc32 (env_data e)"
    "env_auth_tag e = bank_sha256 (sk_session_key k @ sk_hmac_key k)" "env_version e = 2"
proof -
  obtain c iv t w1 where enc: "bank_encrypt_data P (Some p) aad i w = Inr (Some (c, iv, t), w1)"
    and rest: "Inr (Some e, w') = (case bank_get_session_key P i w1 of
             (None, w) \<Rightarrow> Inr (None, w)
           | (Some (skey, hkey), w) \<Rightarrow>
               let auth_tag = bank_sha256 (skey @ hkey);
                   (now, w) = sys_time P w
               in Inr (Some \<lparr>env_data = c, env_iv = iv, env_tag = t, env_timestamp = of_int now,
                     env_crc32 = bank_crc32 c, env_version = 2, env_auth_tag = auth_tag,
                     env_compression_flag = 0\<rparr>, w))" and l: "length p \<le> bank_max_data - 1024"
    using e by (auto simp: bank_create_envelope_def split: if_splits sum.splits option.splits prod.splits)
  obtain skey hkey u v where u: "same_but_rng w u" "bank_get_session_key P i u = (Some (skey, hkey), v)"
    "w1 = v\<lparr>g_ctx := (g_ctx v)\<lparr>ctx_total_encryptions := ctx_total_encryptions (g_ctx v) + 1\<rparr>\<rparr>"
    "bank_aes256_gcm_encrypt (Some skey) (Some iv) aad (Some p) True True = Some (c, t)" "length iv = 12"
    using encrypt_data_cases [OF assms(1-3) enc] by metis
  obtain sk hk v' where v': "bank_get_session_key P i w1 = (Some (sk, hk), v')"
    and w': "w' = snd (sys_time P v')" and e': "env_data e = c" "env_iv e = iv" "env_tag e = t" "env_crc32 e = bank_crc32 c"
      "env_auth_tag e = bank_sha256 (sk @ hk)" "env_version e = 2"
    using rest by (auto simp: Let_def sys_time_def split: option.splits prod.splits)
  note a = get_session_key_Some [OF u(2)] and b = get_session_key_Some [OF v']
  have m: "g_session_mgr w1 = g_session_mgr v" "g_session_mgr w' = g_session_mgr v'" "g_ctx w' = g_ctx v'"
    unfolding u(3) w' by (simp_all add: sys_time_def)
  have k: "sk_session_key k = sk" "sk_hmac_key k = hk" "sk_active k" "skey = sk" "hkey = hk"
    using a b unfolding k_def m by simp_all
  show "1 \<le> i" "i \<le> 32" "sk_active k" "length p \<le> bank_max_data - 1024" "env_version e = 2" "length (env_iv e) = 12"
    "env_crc32 e = bank_crc32 (env_data e)"
    using a b k l e' u(5) by simp_all
  show "ctx_initialized (g_ctx w')" using b unfolding m by simp
  show "bank_aes256_gcm_encrypt (Some (sk_session_key k)) (Some (env_iv e)) aad (Some p) True True = Some (env_data e, env_tag e)"
    using u(4) k e' by simp
  show "env_auth_tag e = bank_sha256 (sk_session_key k @ sk_hmac_key k)" using k e' by simp
qed

lemma find_session_at_most:
  assumes "slot_matches e (mgr_keys m ! i)" "i < 32"
  obtains j where "j \<le> i" "slot_matches e (mgr_keys m ! j)" "find_session e m = int j + 1"
proof -
  define j where "j = (LEAST j. slot_matches e (mgr_keys m ! j))"
  have j: "j \<le> i" "slot_matches e (mgr_keys m ! j)" "\<And>k. k < j \<Longrightarrow> \<not> slot_matches e (mgr_keys m ! k)"
    unfolding j_def using assms(1) by (auto intro: Least_le LeastI dest: not_less_Least)
  then show ?thesis using assms(2) that [of j] find_session_first [of j e m] by simp
qed

text \<open>extraction in any state, by the first slot whose keys have the envelope's tag\<close>

lemma extract_by_first_slot:
  fixes w' v :: world
  assumes "rng_ok w" "g_library_initialized w" "platform_ok P"
    and "bank_create_envelope P (Some p) aad i True w = Inr (Some e, w')"
    and v: "ctx_initialized (g_ctx v)" "find_session e (g_session_mgr v) = int j + 1" "j < 32"
      "sk_active (mgr_keys (g_session_mgr v) ! j)"
  shows "sk_session_key (mgr_keys (g_session_mgr v) ! j) = sk_session_key (mgr_keys (g_session_mgr w') ! nat (i - 1)) \<Longrightarrow>
      time_at P (sys_calls v) \<le> sk_expires_at (mgr_keys (g_session_mgr v) ! j) \<Longrightarrow>
      fst (bank_extract_envelope P (Some e) aad True v) = Some p"
    and "sk_expires_at (mgr_keys (g_session_mgr v) ! j) < time_at P (sys_calls v) \<Longrightarrow>
      fst (bank_extract_envelope P (Some e) aad' True v) = None"
    and "bank_verify_envelope (Some e) aad' v"
proof -
  note c = create_envelope_cases [OF assms(1-4)]
  let ?k = "mgr_keys (g_session_mgr v) ! j"
  have l: "length (env_data e) \<le> bank_max_data" "length (env_tag e) = 16"
    using gcm_encrypt_length [OF c(7,6)] c(5) by auto
  have g: "fst (bank_get_session_key P (int j + 1) v) =
      (if time_at P (sys_calls v) \<le> sk_expires_at ?k then Some (sk_session_key ?k, sk_hmac_key ?k) else None)"
    using v by (simp add: get_session_key_eq Let_def)
  show "fst (bank_extract_envelope P (Some e) aad True v) = Some p"
    if "sk_session_key ?k = sk_session_key (mgr_keys (g_session_mgr w') ! nat (i - 1))"
      "time_at P (sys_calls v) \<le> sk_expires_at ?k"
  proof -
    have "bank_aes256_gcm_decrypt (Some (sk_session_key ?k)) (Some (env_iv e)) aad (Some (env_data e)) (Some (env_tag e)) True = Some p"
      using gcm_decrypt_encrypt [OF c(7) l(2)] c(6) that(1) by metis
    then show ?thesis using l g c v that
      by (auto simp: bank_extract_envelope_def bank_decrypt_data_def split: prod.splits option.splits)
  qed
  show "fst (bank_extract_envelope P (Some e) aad' True v) = None" if "sk_expires_at ?k < time_at P (sys_calls v)"
    using l g c v that
    by (auto simp: bank_extract_envelope_def bank_decrypt_data_def split: prod.splits option.splits)
  show "bank_verify_envelope (Some e) aad' v" using c v by (simp add: bank_verify_envelope_def)
qed

lemma extract_without_slot:
  assumes "find_session e (g_session_mgr v) = - 1"
  shows "fst (bank_extract_envelope P (Some e) aad True v) = None" "\<not> bank_verify_envelope (Some e) aad v"
  using assms by (simp_all add: bank_extract_envelope_def bank_verify_envelope_def)

lemma extract_created:
  fixes w' :: world
  assumes "rng_ok w" "g_library_initialized w" "platform_ok P"
    and "bank_create_envelope P (Some p) aad i True w = Inr (Some e, w')"
    and "time_at P (sys_calls w') \<le> sk_expires_at (mgr_keys (g_session_mgr w') ! nat (i - 1))"
    and "\<And>j. j < nat (i - 1) \<Longrightarrow> \<not> slot_matches e (mgr_keys (g_session_mgr w') ! j)"
  shows "fst (bank_extract_envelope P (Some e) aad True w') = Some p \<and> bank_verify_envelope (Some e) aad w'"
proof -
  note c = create_envelope_cases [OF assms(1-4)]
  have "slot_matches e (mgr_keys (g_session_mgr w') ! nat (i - 1))" using c by (simp add: slot_matches_def secure_compare_full)
  then have "find_session e (g_session_mgr w') = int (nat (i - 1)) + 1"
    using find_session_first [of "nat (i - 1)" e "g_session_mgr w'"] c(1,2) assms(6) by auto
  moreover have "nat (i - 1) < 32" using c(1,2) by auto
  ultimately show ?thesis using extract_by_first_slot(1,3) [OF assms(1-4) c(4)] c(3) assms(5) by blast
qed

text \<open>
  C6: An envelope created under a session can be opened in any later state, under the same
  associated data, in which the session is open with the two keys it had: the library takes
  the first open slot whose keys hash to the envelope's tag, at the latest the session's
  own. When that slot has not expired, extraction gives the plaintext back (or its keys are
  others with the same SHA-256 hash, a collision); when it has expired, as an earlier slot
  with the same two keys may while the session itself has not, extraction fails.
  Verification accepts the envelope either way. With no such slot both refuse it.
\<close>

theorem envelope_round_trip:
  fixes w w' v :: world and i :: int
  assumes "rng_ok w" "g_library_initialized w" "platform_ok P"
    and "bank_create_envelope P (Some p) aad i True w = Inr (Some e, w')"
    and "ctx_initialized (g_ctx v)" "slots_ok (g_session_mgr v)"
  defines "k \<equiv> mgr_keys (g_session_mgr w') ! nat (i - 1)"
    and "l \<equiv> mgr_keys (g_session_mgr v) ! nat (i - 1)"
    and "f \<equiv> find_session e (g_session_mgr v)"
    and "s \<equiv> mgr_keys (g_session_mgr v) ! nat (find_session e (g_session_mgr v) - 1)"
  shows "(sk_active l \<and> sk_session_key l = sk_session_key k \<and> sk_hmac_key l = sk_hmac_key k \<longrightarrow>
      1 \<le> f \<and> f \<le> i \<and> bank_verify_envelope (Some e) aad v \<and>
      (time_at P (sys_calls v) \<le> sk_expires_at s \<longrightarrow> fst (bank_extract_envelope P (Some e) aad True v) = Some p \<or>
        sk_session_key s @ sk_hmac_key s \<noteq> sk_session_key k @ sk_hmac_key k \<and>
        bank_sha256 (sk_session_key s @ sk_hmac_key s) = bank_sha256 (sk_session_key k @ sk_hmac_key k)) \<and>
      (sk_expires_at s < time_at P (sys_calls v) \<longrightarrow> fst (bank_extract_envelope P (Some e) aad True v) = None)) \<and>
    (f = - 1 \<longrightarrow> fst (bank_extract_envelope P (Some e) aad True v) = None \<and> \<not> bank_verify_envelope (Some e) aad v)"
proof -
  note c = create_envelope_cases [OF assms(1-4), folded k_def]
  have tag: "slot_matches e x \<longleftrightarrow> sk_active x \<and> bank_sha256 (sk_session_key k @ sk_hmac_key k) =
      bank_sha256 (sk_session_key x @ sk_hmac_key x)" for x
    using c(9) by (auto simp: slot_matches_def secure_compare_full)
  have main: "1 \<le> f \<and> f \<le> i \<and> bank_verify_envelope (Some e) aad v \<and>
      (time_at P (sys_calls v) \<le> sk_expires_at s \<longrightarrow> fst (bank_extract_envelope P (Some e) aad True v) = Some p \<or>
        sk_session_key s @ sk_hmac_key s \<noteq> sk_session_key k @ sk_hmac_key k \<and>
        bank_sha256 (sk_session_key s @ sk_hmac_key s) = bank_sha256 (sk_session_key k @ sk_hmac_key k)) \<and>
      (sk_expires_at s < time_at P (sys_calls v) \<longrightarrow> fst (bank_extract_envelope P (Some e) aad True v) = None)"
    if l: "sk_active l" "sk_session_key l = sk_session_key k" "sk_hmac_key l = sk_hmac_key k"
  proof -
    have i: "nat (i - 1) < 32" using c(1,2) by auto
    have "slot_matches e l" using l by (simp add: tag)
    then obtain j where j: "j \<le> nat (i - 1)" "slot_matches e (mgr_keys (g_session_mgr v) ! j)" "find_session e (g_session_mgr v) = int j + 1"
      using i unfolding l_def by (metis find_session_at_most)
    have s: "s = mgr_keys (g_session_mgr v) ! j" unfolding s_def j(3) by simp
    have j32: "j < 32" using j(1) i by simp
    have "slot_ok s" "slot_ok l" unfolding s l_def using assms(6) i j32 by (simp_all add: slots_ok_nth)
    then have same: "sk_session_key s = sk_session_key k" if "sk_session_key s @ sk_hmac_key s = sk_session_key k @ sk_hmac_key k"
      using that l by (simp add: slot_ok_def)
    note x = extract_by_first_slot [OF assms(1-5) j(3) j32]
    have "sk_active s" using j(2) s by (simp add: tag)
    note x = x [folded s k_def, OF this]
    have "bank_sha256 (sk_session_key s @ sk_hmac_key s) = bank_sha256 (sk_session_key k @ sk_hmac_key k)"
      using j(2) s by (simp add: tag)
    moreover have "1 \<le> f" "f \<le> i" unfolding f_def j(3) using j(1) c(1) by auto
    ultimately show ?thesis using x same by blast
  qed
  show ?thesis using main extract_without_slot unfolding f_def by blast
qed

text \<open>a creation that succeeds\<close>

lemma busy_create:
  "\<exists>e w'. bank_create_envelope quiet_platform (Some p) aad 5 True busy_world = Inr (Some e, w') \<and>
     rng_ok busy_world \<and> g_library_initialized busy_world \<and>
     slots_ok (g_session_mgr w') \<and>
     mgr_keys (g_session_mgr w') ! 4 = zero_session\<lparr>sk_active := True, sk_expires_at := 2000, sk_last_used_at := 1000, sk_use_count := 2\<rparr> \<and>
     (\<forall>j<4. mgr_keys (g_session_mgr w') ! j = zero_session)"
  if "length p \<le> 1000"
proof -
  have ok: "rng_ok busy_world" "g_library_initialized busy_world"
    by (simp_all add: busy_world_def started_world_eq rng_ok_def)
  obtain iv u where u: "bank_rng_bytes quiet_platform 12 busy_world = Inr (Some iv, u)" "length iv = 12" "same_but_rng busy_world u"
    using bank_rng_bytes_ok [OF quiet_platform_ok ok, of 12] by blast
  have m: "g_ctx u = g_ctx busy_world" "g_session_mgr u = g_session_mgr busy_world"
    using u(3) by (simp_all add: same_but_rng_def)
  obtain c t where c: "bank_aes256_gcm_encrypt (Some (replicate 32 0)) (Some iv) aad (Some p) True True = Some (c, t)"
    using u(2) by (simp add: gcm_encrypt_eq Let_def split_def)
  show ?thesis
    using that ok u(1) c
    by (simp add: bank_create_envelope_def bank_encrypt_data_def get_session_key_eq m busy_world_def started_world_eq
        zero_context_def zero_manager_def zero_session_def quiet_platform_def bank_max_data_def set_slot_def sys_time_def Let_def
        nth_Cons' slots_ok_def slot_ok_def list_all_length nth_list_update)
qed

text \<open>
  The envelope is opened after its creation; and it is not, though its session is alive, in
  a state with an earlier slot that holds the same keys and has expired.
\<close>

lemma envelope_round_trip_witness:
  "\<exists>e w'. bank_create_envelope quiet_platform (Some [1, 2, 3]) [4] 5 True busy_world = Inr (Some e, w') \<and>
     fst (bank_extract_envelope quiet_platform (Some e) [4] True w') = Some [1, 2, 3] \<and>
     fst (bank_extract_envelope quiet_platform (Some e) [4] True
       (w'\<lparr>g_session_mgr := set_slot 2 (zero_session\<lparr>sk_active := True, sk_expires_at := 10\<rparr>) (g_session_mgr w')\<rparr>)) = None"
proof -
  obtain e w' where e: "bank_create_envelope quiet_platform (Some [1, 2, 3]) [4] 5 True busy_world = Inr (Some e, w')"
    and w: "rng_ok busy_world" "g_library_initialized busy_world" "slots_ok (g_session_mgr w')"
      "mgr_keys (g_session_mgr w') ! 4 = zero_session\<lparr>sk_active := True, sk_expires_at := 2000, sk_last_used_at := 1000, sk_use_count := 2\<rparr>"
      "\<forall>j<4. mgr_keys (g_session_mgr w') ! j = zero_session"
    using busy_create [of "[1, 2, 3]" "[4]"] by auto
  note c = create_envelope_cases [OF w(1,2) quiet_platform_ok e]
  have m: "slot_matches e x \<longleftrightarrow> sk_active x" if "sk_session_key x = replicate 32 0" "sk_hmac_key x = replicate 32 0" for x
    using c(9) w(4) that by (simp add: slot_matches_def secure_compare_full zero_session_def)
  have l: "length (mgr_keys (g_session_mgr w')) = 32" using w(3) by (simp add: slots_ok_def)
  let ?v = "w'\<lparr>g_session_mgr := set_slot 2 (zero_session\<lparr>sk_active := True, sk_expires_at := 10\<rparr>) (g_session_mgr w')\<rparr>"
  have k: "sk_active (mgr_keys (g_session_mgr w') ! 4)" "sk_session_key (mgr_keys (g_session_mgr w') ! 4) = replicate 32 0"
    "sk_hmac_key (mgr_keys (g_session_mgr w') ! 4) = replicate 32 0"
    using w(4) by (simp_all add: zero_session_def)
  have o: "slots_ok (g_session_mgr ?v)"
    using w(3) by (simp add: slots_ok_def set_slot_def list_all_update slot_ok_def zero_session_def)
  have "find_session e (g_session_mgr w') = int 4 + 1"
    using k w(5) by (intro find_session_first) (simp_all add: m zero_session_def)
  then have first: "fst (bank_extract_envelope quiet_platform (Some e) [4] True w') = Some [1, 2, 3]"
    using envelope_round_trip [OF w(1,2) quiet_platform_ok e c(4) w(3)] w(4) k
    by (auto simp: quiet_platform_def)
  have "find_session e (g_session_mgr ?v) = int 2 + 1"
    using w(5) l by (intro find_session_first) (simp_all add: m zero_session_def set_slot_def)
  then have "fst (bank_extract_envelope quiet_platform (Some e) [4] True ?v) = None"
    using envelope_round_trip [OF w(1,2) quiet_platform_ok e _ o] c(4) k l
    by (simp add: set_slot_def quiet_platform_def)
  with first e show ?thesis by blast
qed

section \<open>What extraction and verification accept\<close>

lemma find_session_Some:
  assumes "find_session e m \<noteq> - 1"
  obtains i where "i < 32" "slot_matches e (mgr_keys m ! i)" "find_session e m = int i + 1"
proof -
  obtain i where "List.find (\<lambda>i. slot_matches e (mgr_keys m ! i)) [0..<32] = Some i"
    using assms by (auto simp: find_session_def split: option.splits)
  moreover from this have "i < 32 \<and> slot_matches e (mgr_keys m ! i)" unfolding find_Some_iff by auto
  ultimately show ?thesis using that [of i] by (simp add: find_session_def)
qed

text \<open>
  C7: Whatever extraction returns is authentic: the stored checksum is that of the data, and
  some active, unexpired session whose two keys hash to the envelope's authentication tag
  encrypts the result, under the associated data given, to exactly the envelope's data and
  tag.
\<close>

theorem extract_authentic:
  assumes "fst (bank_extract_envelope P (Some e) aad True w) = Some p" "length (env_iv e) = 12" "length (env_tag e) = 16"
    and "length (env_auth_tag e) = 32"
  shows "env_crc32 e = bank_crc32 (env_data e) \<and>
    (\<exists>i<32. let k = mgr_keys (g_session_mgr w) ! i
        in sk_active k \<and> time_at P (sys_calls w) \<le> sk_expires_at k \<and>
           env_auth_tag e = bank_sha256 (sk_session_key k @ sk_hmac_key k) \<and>
           bank_aes256_gcm_encrypt (Some (sk_session_key k)) (Some (env_iv e)) aad (Some p) True True
             = Some (env_data e, env_tag e))"
proof -
  have f: "find_session e (g_session_mgr w) \<noteq> - 1" and crc: "bank_crc32 (env_data e) = env_crc32 e"
    and d: "fst (bank_decrypt_data P (Some (env_data e)) aad (find_session e (g_session_mgr w)) (Some (env_iv e)) (Some (env_tag e)) True w) = Some p"
    using assms(1) by (auto simp: bank_extract_envelope_def Let_def split: if_splits)
  obtain i where i: "i < 32" "slot_matches e (mgr_keys (g_session_mgr w) ! i)" "find_session e (g_session_mgr w) = int i + 1"
    using f by (rule find_session_Some)
  let ?k = "mgr_keys (g_session_mgr w) ! i"
  have "time_at P (sys_calls w) \<le> sk_expires_at ?k \<and>
      bank_aes256_gcm_decrypt (Some (sk_session_key ?k)) (Some (env_iv e)) aad (Some (env_data e)) (Some (env_tag e)) True = Some p"
    using d i by (auto simp: bank_decrypt_data_def get_session_key_eq Let_def split: if_splits option.splits)
  then show ?thesis
    using i crc assms(2-4) by (intro conjI exI [of _ i]) (auto simp: gcm_decrypt_encrypt slot_matches_def secure_compare_full Let_def)
qed

lemma extract_authentic_witness:
  "\<exists>e w' i. bank_create_envelope quiet_platform (Some [1, 2, 3]) [4] 5 True busy_world = Inr (Some e, w') \<and>
     i < 32 \<and> sk_active (mgr_keys (g_session_mgr w') ! i) \<and>
     bank_aes256_gcm_encrypt (Some (sk_session_key (mgr_keys (g_session_mgr w') ! i))) (Some (env_iv e)) [4] (Some [1, 2, 3]) True True = Some (env_data e, env_tag e)"
proof -
  obtain e w' where e: "bank_create_envelope quiet_platform (Some [1, 2, 3]) [4] 5 True busy_world = Inr (Some e, w')"
    and w: "rng_ok busy_world" "g_library_initialized busy_world"
      "mgr_keys (g_session_mgr w') ! 4 = zero_session\<lparr>sk_active := True, sk_expires_at := 2000, sk_last_used_at := 1000, sk_use_count := 2\<rparr>"
      "\<forall>j<4. mgr_keys (g_session_mgr w') ! j = zero_session"
    using busy_create [of "[1, 2, 3]" "[4]"] by auto
  have x: "fst (bank_extract_envelope quiet_platform (Some e) [4] True w') = Some [1, 2, 3]"
    using extract_created [OF w(1,2) quiet_platform_ok e] w(3,4)
    by (simp add: slot_matches_def zero_session_def quiet_platform_def)
  note c = create_envelope_cases [OF w(1,2) quiet_platform_ok e]
  have "length (env_tag e) = 16" "length (env_auth_tag e) = 32"
    using gcm_encrypt_length [OF c(7,6)] c(9) by simp_all
  from extract_authentic [OF x c(7) this] show ?thesis using e unfolding Let_def by blast
qed

text \<open>
  bank_verify_envelope authenticates nothing: an envelope it accepts stays accepted when
  its data are replaced by any bytes with their checksum, with any nonce, tag, timestamp and
  associated data.
\<close>

theorem verify_envelope_forgery:
  assumes "bank_verify_envelope (Some e) aad w"
  shows "bank_verify_envelope (Some (e\<lparr>env_data := d, env_crc32 := bank_crc32 d, env_iv := v, env_tag := t, env_timestamp := n\<rparr>)) aad' w"
  using assms by (simp add: bank_verify_envelope_def find_session_def slot_matches_def split: if_splits)

lemma verify_envelope_forgery_witness:
  "\<exists>e w'. bank_create_envelope quiet_platform (Some [1, 2, 3]) [4] 5 True busy_world = Inr (Some e, w') \<and>
     bank_verify_envelope (Some (e\<lparr>env_data := [9, 9], env_crc32 := bank_crc32 [9, 9], env_iv := replicate 12 7, env_tag := replicate 16 7, env_timestamp := 0\<rparr>)) [] w'"
proof -
  obtain e w' where e: "bank_create_envelope quiet_platform (Some [1, 2, 3]) [4] 5 True busy_world = Inr (Some e, w')"
    and w: "rng_ok busy_world" "g_library_initialized busy_world"
      "mgr_keys (g_session_mgr w') ! 4 = zero_session\<lparr>sk_active := True, sk_expires_at := 2000, sk_last_used_at := 1000, sk_use_count := 2\<rparr>"
      "\<forall>j<4. mgr_keys (g_session_mgr w') ! j = zero_session"
    using busy_create [of "[1, 2, 3]" "[4]"] by auto
  have "bank_verify_envelope (Some e) [4] w'"
    using extract_created [OF w(1,2) quiet_platform_ok e] w(3,4)
    by (simp add: slot_matches_def zero_session_def quiet_platform_def)
  from verify_envelope_forgery [OF this] show ?thesis using e by blast
qed

end
