(* ===== verification/Bank_Transaction.thy ===== *)
theory Bank_Transaction
  imports Bank_Session
begin

text \<open>
  Transactions (\<open>src/transaction\<close>): creation, verification, validation, signing with a raw
  key, metadata. The signature functions are declared extern there and defined nowhere in
  the project; they are the parameters \<open>sign\<close> and \<open>verify\<close>. Integers are copied into the
  signed data as a little-endian host stores them.
\<close>

record transaction =
  tx_transaction_id :: u64
  tx_timestamp :: u64
  tx_from_account :: bytes
  tx_to_account :: bytes
  tx_amount :: u64
  tx_currency :: bytes
  tx_signature :: bytes
  tx_verified :: bool
  tx_nonce :: u64
  tx_reference_hash :: bytes
  tx_metadata :: bytes
  tx_metadata_len :: nat

definition zero_transaction :: transaction where
  "zero_transaction = \<lparr>tx_transaction_id = 0, tx_timestamp = 0, tx_from_account = replicate 32 0,
     tx_to_account = replicate 32 0, tx_amount = 0, tx_currency = replicate 8 0,
     tx_signature = replicate 32 0, tx_verified = False, tx_nonce = 0,
     tx_reference_hash = replicate 32 0, tx_metadata = replicate 128 0, tx_metadata_len = 0\<rparr>"

text \<open>the block of copies into \<open>data\<close> that creation, verification and signing share\<close>

definition tx_data :: "transaction \<Rightarrow> bytes" where
  "tx_data t = store_le64 (tx_transaction_id t) @ store_le64 (tx_timestamp t) @ tx_from_account t @
     tx_to_account t @ store_le64 (tx_amount t) @ tx_currency t @ store_le64 (tx_nonce t)"

text \<open>the value of eight bytes of memory\<close>

definition load_le64 :: "bytes \<Rightarrow> u64" where
  "load_le64 b = foldr (\<lambda>x v. push_bit 8 v OR ucast x) b 0"

text \<open>
  the parameters: a signature function gets the old contents of the output buffer and gives
  success, the new contents and the new state
\<close>

type_synonym sign_fun = "int \<Rightarrow> bytes \<Rightarrow> bytes \<Rightarrow> world \<Rightarrow> (bool \<times> bytes \<times> world) run"
type_synonym verify_fun = "int \<Rightarrow> bytes \<Rightarrow> bytes \<Rightarrow> world \<Rightarrow> (bool \<times> world) run"

section \<open>Operations\<close>

definition bank_create_transaction ::
  "sign_fun \<Rightarrow> platform \<Rightarrow> u64 \<Rightarrow> ptr \<Rightarrow> ptr \<Rightarrow> u64 \<Rightarrow> ptr \<Rightarrow> int \<Rightarrow> transaction option \<Rightarrow> world
    \<Rightarrow> (bool \<times> transaction option \<times> world) run" where
  "bank_create_transaction sign P tx_id from to amount currency session_id tx w =
     (case (from, to, currency, tx) of
        (Some f, Some t, Some cur, Some _) \<Rightarrow>
          (let (now, w) = sys_time P w;
               tx = zero_transaction\<lparr>tx_transaction_id := tx_id, tx_timestamp := of_int now,
                 tx_from_account := take 32 f, tx_to_account := take 32 t, tx_amount := amount,
                 tx_currency := take 8 cur\<rparr>
           in case bank_rng_bytes P 8 w of
             Inl e \<Rightarrow> Inl e
           | Inr (None, w) \<Rightarrow> Inr (False, Some tx, w)
           | Inr (Some n, w) \<Rightarrow>
               let tx = tx\<lparr>tx_nonce := load_le64 n\<rparr>
               in case sign session_id (tx_data tx) (tx_signature tx) w of
                 Inl e \<Rightarrow> Inl e
               | Inr (ok, sig, w) \<Rightarrow>
                   let tx = tx\<lparr>tx_signature := sig\<rparr>
                   in if \<not> ok then Inr (False, Some tx, w)
                      else Inr (True, Some (tx\<lparr>tx_reference_hash := bank_sha256 (tx_data tx), tx_verified := True\<rparr>), w))
      | _ \<Rightarrow> Inr (False, tx, w))"

definition bank_transaction_set_metadata :: "transaction option \<Rightarrow> ptr \<Rightarrow> transaction option" where
  "bank_transaction_set_metadata tx metadata =
     (case (tx, metadata) of
        (Some t, Some m) \<Rightarrow>
          if 128 < length m then Some t
          else Some (t\<lparr>tx_metadata := m @ drop (length m) (tx_metadata t), tx_metadata_len := length m\<rparr>)
      | _ \<Rightarrow> tx)"

definition bank_transaction_clear_metadata :: "transaction option \<Rightarrow> transaction option run" where
  "bank_transaction_clear_metadata tx =
     (case tx of
        None \<Rightarrow> Inr None
      | Some t \<Rightarrow>
          (case bank_secure_zero (tx_metadata t) 128 of
             Inl f \<Rightarrow> Inl f
           | Inr m \<Rightarrow> Inr (Some (t\<lparr>tx_metadata := m, tx_metadata_len := 0\<rparr>))))"

definition bank_verify_transaction :: "verify_fun \<Rightarrow> transaction option \<Rightarrow> int \<Rightarrow> world \<Rightarrow> (bool \<times> world) run" where
  "bank_verify_transaction verify tx session_id w =
     (case tx of
        None \<Rightarrow> Inr (False, w)
      | Some t \<Rightarrow>
          if \<not> tx_verified t then Inr (False, w)
          else let data = tx_data t; expected_hash = bank_sha256 data
               in if \<not> bank_secure_compare (tx_reference_hash t) expected_hash 32 then Inr (False, w)
                  else verify session_id data (tx_signature t) w)"

definition bank_transaction_validate :: "platform \<Rightarrow> transaction option \<Rightarrow> world \<Rightarrow> bool \<times> world" where
  "bank_transaction_validate P tx w =
     (case tx of
        None \<Rightarrow> (False, w)
      | Some t \<Rightarrow>
          if tx_amount t = 0 then (False, w)
          else let (from_zero, to_zero) = foldl (\<lambda>(fz, tz) i.
                     (if tx_from_account t ! i \<noteq> 0 then False else fz,
                      if tx_to_account t ! i \<noteq> 0 then False else tz)) (True, True) [0..<32]
               in if from_zero \<or> to_zero then (False, w)
                  else let (now, w) = sys_time P w
                       in (\<not> of_int (now + 3600) < tx_timestamp t, w))"

definition bank_transaction_sign :: "transaction option \<Rightarrow> ptr \<Rightarrow> transaction option" where
  "bank_transaction_sign tx key =
     (case (tx, key) of
        (Some t, Some k) \<Rightarrow> Some (t\<lparr>tx_signature := bank_hmac_sha256 k (tx_data t), tx_verified := True\<rparr>)
      | _ \<Rightarrow> tx)"

section \<open>The signed data determine the transaction\<close>

text \<open>the sizes of the arrays\<close>

definition tx_ok :: "transaction \<Rightarrow> bool" where
  "tx_ok t \<longleftrightarrow> length (tx_from_account t) = 32 \<and> length (tx_to_account t) = 32 \<and> length (tx_currency t) = 8 \<and>
     length (tx_signature t) = 32 \<and> length (tx_reference_hash t) = 32 \<and> length (tx_metadata t) = 128"

definition signed_fields :: "transaction \<Rightarrow> u64 \<times> u64 \<times> bytes \<times> bytes \<times> u64 \<times> bytes \<times> u64" where
  "signed_fields t = (tx_transaction_id t, tx_timestamp t, tx_from_account t, tx_to_account t, tx_amount t,
     tx_currency t, tx_nonce t)"

lemma store_le64_inject [simp]: "store_le64 x = store_le64 y \<longleftrightarrow> x = y"
proof
  assume e: "store_le64 x = store_le64 y"
  show "x = y"
  proof (rule bit_word_eqI)
    fix n assume "n < LENGTH(64)"
    then have n: "n < 64" by simp
    then have "n div 8 < 8" by simp
    then have "(ucast (drop_bit (n div 8 * 8) x) :: u8) = ucast (drop_bit (n div 8 * 8) y)"
      using arg_cong [OF e, of "\<lambda>l. l ! (n div 8)"] by (simp add: store_le64_def)
    then have "bit (ucast (drop_bit (n div 8 * 8) x) :: u8) (n mod 8) = bit (ucast (drop_bit (n div 8 * 8) y) :: u8) (n mod 8)"
      by simp
    then show "bit x n = bit y n" by (simp add: bit_unsigned_iff bit_drop_bit_eq o_def)
  qed
qed simp

lemma tx_data_inject:
  assumes "tx_ok t" "tx_ok t'"
  shows "tx_data t = tx_data t' \<longleftrightarrow> signed_fields t = signed_fields t'"
  using assms by (auto simp: tx_data_def signed_fields_def tx_ok_def)

lemma length_tx_data: "tx_ok t \<Longrightarrow> length (tx_data t) = 104"
  by (simp add: tx_data_def tx_ok_def)

lemma tx_data_unsigned [simp]:
  "tx_data (t\<lparr>tx_signature := a\<rparr>) = tx_data t" "tx_data (t\<lparr>tx_verified := b\<rparr>) = tx_data t"
  "tx_data (t\<lparr>tx_reference_hash := c\<rparr>) = tx_data t" "tx_data (t\<lparr>tx_metadata := d\<rparr>) = tx_data t"
  "tx_data (t\<lparr>tx_metadata_len := l\<rparr>) = tx_data t"
  by (simp_all add: tx_data_def)

lemma verify_transaction_iff:
  assumes "tx_ok t"
  shows "bank_verify_transaction verify (Some t) i w =
    (if tx_verified t \<and> tx_reference_hash t = bank_sha256 (tx_data t) then verify i (tx_data t) (tx_signature t) w
     else Inr (False, w))"
  using assms by (simp add: bank_verify_transaction_def secure_compare_full tx_ok_def Let_def)

section \<open>Creation and verification\<close>

lemma create_transaction_cases:
  assumes "bank_create_transaction sign P n (Some f) (Some t) a (Some c) i tx w = Inr (True, Some x, w')"
  obtains sig v where "sign i (tx_data x) (replicate 32 0) v = Inr (True, sig, w')" "tx_signature x = sig" "tx_verified x"
    "tx_reference_hash x = bank_sha256 (tx_data x)" "tx_transaction_id x = n" "tx_from_account x = take 32 f"
    "tx_to_account x = take 32 t" "tx_amount x = a" "tx_currency x = take 8 c" "tx_timestamp x = of_int (time_at P (sys_calls w))"
    "tx_metadata x = replicate 128 0"
  using assms
  by (auto simp: bank_create_transaction_def sys_time_def zero_transaction_def tx_data_def Let_def
      split: option.splits sum.splits prod.splits if_splits)

text \<open>
  What the project documents of the two extern functions (\<open>README.md\<close>, lines 151 and 152:
  an HMAC-SHA256 signature of a session, and its verification; \<open>src/main.cpp\<close> reads the key
  of the HMAC from the session table): signing looks the session up and gives the HMAC under
  its second key, verifying looks it up and compares, and both fail when the lookup does.
\<close>

definition session_signs :: "platform \<Rightarrow> sign_fun \<Rightarrow> bool" where
  "session_signs P sign \<longleftrightarrow> (\<forall>i d b v. sign i d b v = (case bank_get_session_key P i v of
     (None, v') \<Rightarrow> Inr (False, b, v') | (Some (_, hk), v') \<Rightarrow> Inr (True, bank_hmac_sha256 hk d, v')))"

definition session_verifies :: "platform \<Rightarrow> verify_fun \<Rightarrow> bool" where
  "session_verifies P verify \<longleftrightarrow> (\<forall>i d s v. verify i d s v = (case bank_get_session_key P i v of
     (None, v') \<Rightarrow> Inr (False, v') | (Some (_, hk), v') \<Rightarrow> Inr (bank_secure_compare s (bank_hmac_sha256 hk d) 32, v')))"

text \<open>a lookup that succeeds leaves the keys of the slot as they are\<close>

lemma lookup_keeps_hmac_key:
  assumes "bank_get_session_key P i v = (Some (sk, hk), w)"
  shows "1 \<le> i" "i \<le> 32" "sk_hmac_key (mgr_keys (g_session_mgr w) ! nat (i - 1)) = hk"
proof -
  let ?ks = "mgr_keys (g_session_mgr v)" and ?j = "nat (i - 1)"
  have e: "1 \<le> i" "i \<le> 32" "sk_hmac_key (?ks ! ?j) = hk" "mgr_keys (g_session_mgr w) =
      ?ks[?j := (?ks ! ?j)\<lparr>sk_last_used_at := time_at P (sys_calls v + 1), sk_use_count := sk_use_count (?ks ! ?j) + 1\<rparr>]"
    using assms by (auto simp: get_session_key_eq Let_def set_slot_def split: if_splits)
  show "1 \<le> i" "i \<le> 32" using e by simp_all
  show "sk_hmac_key (mgr_keys (g_session_mgr w) ! ?j) = hk"
    using e(3) unfolding e(4) by (cases "?j < length ?ks") (simp_all add: list_update_beyond)
qed

lemma create_signed:
  assumes "bank_create_transaction sign P n (Some f) (Some t) a (Some c) i tx w = Inr (True, Some x, w')"
    and "32 \<le> length f" "32 \<le> length t" "8 \<le> length c" "session_signs P sign"
  shows "tx_ok x" "tx_verified x" "tx_reference_hash x = bank_sha256 (tx_data x)" "1 \<le> i" "i \<le> 32"
    "tx_signature x = bank_hmac_sha256 (sk_hmac_key (mgr_keys (g_session_mgr w') ! nat (i - 1))) (tx_data x)"
proof -
  obtain v where x: "sign i (tx_data x) (replicate 32 0) v = Inr (True, tx_signature x, w')" "tx_verified x"
    "tx_reference_hash x = bank_sha256 (tx_data x)" "tx_from_account x = take 32 f"
    "tx_to_account x = take 32 t" "tx_currency x = take 8 c" "tx_metadata x = replicate 128 0"
    using create_transaction_cases [OF assms(1)] by metis
  obtain sk hk where l: "bank_get_session_key P i v = (Some (sk, hk), w')" "tx_signature x = bank_hmac_sha256 hk (tx_data x)"
    using x(1) assms(5) by (auto simp: session_signs_def split: option.splits prod.splits)
  note k = lookup_keeps_hmac_key [OF l(1)]
  show "1 \<le> i" "i \<le> 32" "tx_verified x" "tx_reference_hash x = bank_sha256 (tx_data x)"
    "tx_signature x = bank_hmac_sha256 (sk_hmac_key (mgr_keys (g_session_mgr w') ! nat (i - 1))) (tx_data x)"
    using x k l(2) by simp_all
  show "tx_ok x" using x assms(2-4) l(2) by (simp add: tx_ok_def)
qed

text \<open>
  C9: With the signature functions that the project documents (HMAC-SHA256 under the second
  key of the session; the transaction code declares them extern, and the one implementation
  in the repository, \<open>src/main.cpp\<close>, writes through a null pointer), a transaction created
  under a session verifies in a state exactly when that session is open and unexpired there
  and its HMAC key gives the same signature, so while the session keeps its keys; and a copy
  of the transaction with any other metadata verifies in the same states, since metadata are
  not signed.
\<close>

theorem create_then_verify:
  assumes "bank_create_transaction sign P n (Some f) (Some t) a (Some c) i tx w = Inr (True, Some x, w')"
    and "32 \<le> length f" "32 \<le> length t" "8 \<le> length c" "session_signs P sign" "session_verifies P verify"
  shows "((\<exists>u. bank_verify_transaction verify (Some x) i v = Inr (True, u)) \<longleftrightarrow>
      (let k = mgr_keys (g_session_mgr v) ! nat (i - 1)
       in ctx_initialized (g_ctx v) \<and> sk_active k \<and> time_at P (sys_calls v) \<le> sk_expires_at k \<and>
          bank_hmac_sha256 (sk_hmac_key k) (tx_data x) =
            bank_hmac_sha256 (sk_hmac_key (mgr_keys (g_session_mgr w') ! nat (i - 1))) (tx_data x))) \<and>
    bank_verify_transaction verify (bank_transaction_set_metadata (Some x) m) i v =
      bank_verify_transaction verify (Some x) i v"
proof -
  note c = create_signed [OF assms(1-5)]
  have v: "verify i (tx_data x) (tx_signature x) v = (case bank_get_session_key P i v of
     (None, v') \<Rightarrow> Inr (False, v')
   | (Some (_, hk), v') \<Rightarrow> Inr (bank_secure_compare (tx_signature x) (bank_hmac_sha256 hk (tx_data x)) 32, v'))"
    using assms(6) by (simp add: session_verifies_def)
  have "length (tx_signature x) = 32" using c(1) by (simp add: tx_ok_def)
  then have "(\<exists>u. bank_verify_transaction verify (Some x) i v = Inr (True, u)) \<longleftrightarrow>
      (let k = mgr_keys (g_session_mgr v) ! nat (i - 1)
       in ctx_initialized (g_ctx v) \<and> sk_active k \<and> time_at P (sys_calls v) \<le> sk_expires_at k \<and>
          bank_hmac_sha256 (sk_hmac_key k) (tx_data x) = tx_signature x)"
    using c(1-5) v by (auto simp: verify_transaction_iff get_session_key_eq secure_compare_full Let_def)
  moreover have "bank_verify_transaction verify (bank_transaction_set_metadata (Some x) m) i v =
      bank_verify_transaction verify (Some x) i v"
    using c(1) by (auto simp: bank_transaction_set_metadata_def verify_transaction_iff tx_ok_def split: option.splits)
  ultimately show ?thesis using c(6) by simp
qed

text \<open>functions of the documented kind to apply the theorems with\<close>

definition hmac_sign :: "platform \<Rightarrow> sign_fun" where
  "hmac_sign P i d b v = (case bank_get_session_key P i v of
     (None, v') \<Rightarrow> Inr (False, b, v') | (Some (_, hk), v') \<Rightarrow> Inr (True, bank_hmac_sha256 hk d, v'))"

definition hmac_verify :: "platform \<Rightarrow> verify_fun" where
  "hmac_verify P i d s v = (case bank_get_session_key P i v of
     (None, v') \<Rightarrow> Inr (False, v') | (Some (_, hk), v') \<Rightarrow> Inr (bank_secure_compare s (bank_hmac_sha256 hk d) 32, v'))"

lemma hmac_documented: "session_signs P (hmac_sign P)" "session_verifies P (hmac_verify P)"
  by (simp_all add: session_signs_def hmac_sign_def session_verifies_def hmac_verify_def)

text \<open>a creation under the open session of \<open>busy_world\<close>\<close>

lemma create_succeeds:
  "\<exists>x w'. bank_create_transaction (hmac_sign quiet_platform) quiet_platform 7 (Some (replicate 32 1)) (Some (replicate 32 2)) 50
     (Some (replicate 8 3)) 5 (Some zero_transaction) busy_world = Inr (True, Some x, w') \<and>
     ctx_initialized (g_ctx w') \<and> length (mgr_keys (g_session_mgr w')) = 32 \<and>
     sk_active (mgr_keys (g_session_mgr w') ! 4) \<and> sk_expires_at (mgr_keys (g_session_mgr w') ! 4) = 2000"
proof -
  let ?w = "snd (sys_time quiet_platform busy_world)"
  have "rng_ok ?w" "g_library_initialized ?w" by (simp_all add: sys_time_def busy_world_def started_world_eq rng_ok_def)
  then obtain n u where u: "bank_rng_bytes quiet_platform 8 ?w = Inr (Some n, u)" "same_but_rng ?w u"
    using bank_rng_bytes_ok [OF quiet_platform_ok, of _ 8] by blast
  have m: "g_ctx u = g_ctx busy_world" "g_session_mgr u = g_session_mgr busy_world"
    using u(2) by (simp_all add: same_but_rng_def sys_time_def)
  show ?thesis using u(1)
    by (simp add: bank_create_transaction_def hmac_sign_def get_session_key_eq m busy_world_def started_world_eq
        zero_context_def zero_manager_def zero_session_def quiet_platform_def set_slot_def split_def Let_def)
qed

lemma create_then_verify_witness:
  "\<exists>x w' u. bank_create_transaction (hmac_sign quiet_platform) quiet_platform 7 (Some (replicate 32 1)) (Some (replicate 32 2)) 50
     (Some (replicate 8 3)) 5 (Some zero_transaction) busy_world = Inr (True, Some x, w') \<and>
     bank_verify_transaction (hmac_verify quiet_platform) (bank_transaction_set_metadata (Some x) (Some [9, 9])) 5 w' = Inr (True, u) \<and>
     (\<forall>u. bank_verify_transaction (hmac_verify quiet_platform) (Some x) 5 (bank_destroy_session 5 w') \<noteq> Inr (True, u))"
proof -
  obtain x w' where x: "bank_create_transaction (hmac_sign quiet_platform) quiet_platform 7 (Some (replicate 32 1)) (Some (replicate 32 2)) 50
     (Some (replicate 8 3)) 5 (Some zero_transaction) busy_world = Inr (True, Some x, w')"
    and w: "ctx_initialized (g_ctx w')" "sk_active (mgr_keys (g_session_mgr w') ! 4)" "length (mgr_keys (g_session_mgr w')) = 32"
      "sk_expires_at (mgr_keys (g_session_mgr w') ! 4) = 2000"
    using create_succeeds by blast
  have "32 \<le> length (replicate 32 (1::u8))" "32 \<le> length (replicate 32 (2::u8))" "8 \<le> length (replicate 8 (3::u8))"
    by simp_all
  note t = create_then_verify [OF x this hmac_documented, of _ "Some [9, 9]"]
  have d: "\<not> sk_active (mgr_keys (g_session_mgr (bank_destroy_session 5 w')) ! 4)"
    using w(2,3) by (simp add: bank_destroy_session_def set_slot_def Let_def)
  show ?thesis
    using t [of w'] t [of "bank_destroy_session 5 w'"] x w d by (auto simp: quiet_platform_def Let_def)
qed

text \<open>
  A transaction that verifies has a reference hash of its own data; so two transactions
  that verify with the same reference hash agree in every signed field, or their data are a
  collision of SHA-256.
\<close>

theorem verified_fields_bound:
  assumes "tx_ok t" "tx_ok t'" "tx_reference_hash t = tx_reference_hash t'"
    and "bank_verify_transaction verify (Some t) i w = Inr (True, v)"
    and "bank_verify_transaction verify (Some t') i' w' = Inr (True, v')"
  shows "signed_fields t = signed_fields t' \<or>
    (tx_data t \<noteq> tx_data t' \<and> bank_sha256 (tx_data t) = bank_sha256 (tx_data t'))"
  using assms by (auto simp: verify_transaction_iff tx_data_inject split: if_splits)

lemma verified_fields_bound_witness:
  "\<exists>x w'. bank_create_transaction (hmac_sign quiet_platform) quiet_platform 7 (Some (replicate 32 1)) (Some (replicate 32 2)) 50
     (Some (replicate 8 3)) 5 (Some zero_transaction) busy_world = Inr (True, Some x, w') \<and>
     (signed_fields x = signed_fields (x\<lparr>tx_metadata := replicate 128 5\<rparr>) \<or>
        tx_data x \<noteq> tx_data (x\<lparr>tx_metadata := replicate 128 5\<rparr>))"
proof -
  obtain x w' where x: "bank_create_transaction (hmac_sign quiet_platform) quiet_platform 7 (Some (replicate 32 1)) (Some (replicate 32 2)) 50
     (Some (replicate 8 3)) 5 (Some zero_transaction) busy_world = Inr (True, Some x, w')"
    and w: "ctx_initialized (g_ctx w')" "sk_active (mgr_keys (g_session_mgr w') ! 4)"
      "sk_expires_at (mgr_keys (g_session_mgr w') ! 4) = 2000"
    using create_succeeds by blast
  have "32 \<le> length (replicate 32 (1::u8))" "32 \<le> length (replicate 32 (2::u8))" "8 \<le> length (replicate 8 (3::u8))"
    by simp_all
  note c = create_signed [OF x this hmac_documented(1)]
  have ok: "tx_ok x" "tx_ok (x\<lparr>tx_metadata := replicate 128 5\<rparr>)" using c(1) by (simp_all add: tx_ok_def)
  have "\<exists>u. bank_verify_transaction (hmac_verify quiet_platform) (Some y) 5 w' = Inr (True, u)"
    if "y = x \<or> y = x\<lparr>tx_metadata := replicate 128 5\<rparr>" for y
    using that c ok w
    by (auto simp: verify_transaction_iff hmac_verify_def get_session_key_eq secure_compare_full quiet_platform_def Let_def)
  then obtain u u' where "bank_verify_transaction (hmac_verify quiet_platform) (Some x) 5 w' = Inr (True, u)"
    "bank_verify_transaction (hmac_verify quiet_platform) (Some (x\<lparr>tx_metadata := replicate 128 5\<rparr>)) 5 w' = Inr (True, u')"
    by metis
  with verified_fields_bound [OF ok] x show ?thesis by fastforce
qed

text \<open>
  bank_transaction_sign marks a transaction verified and does not set its reference hash;
  so what it signs fails verification, under every signature function, unless the reference
  hash was right before.
\<close>

theorem sign_leaves_unverifiable:
  assumes "tx_ok t" "tx_reference_hash t \<noteq> bank_sha256 (tx_data t)"
  shows "bank_verify_transaction verify (bank_transaction_sign (Some t) (Some k)) i w = Inr (False, w)"
  using assms by (simp add: bank_transaction_sign_def bank_verify_transaction_def tx_ok_def secure_compare_full Let_def)

lemma sign_leaves_unverifiable_witness:
  "\<exists>h. bank_verify_transaction (hmac_verify quiet_platform) (bank_transaction_sign (Some (zero_transaction\<lparr>tx_reference_hash := h\<rparr>)) (Some [1]))
     1 started_world = Inr (False, started_world)"
proof -
  have "replicate 32 (0::u8) \<noteq> replicate 32 1" by simp
  then obtain h :: bytes where h: "length h = 32" "h \<noteq> bank_sha256 (tx_data zero_transaction)"
    by (metis length_replicate)
  have "tx_ok (zero_transaction\<lparr>tx_reference_hash := h\<rparr>)" using h by (simp add: tx_ok_def zero_transaction_def)
  from sign_leaves_unverifiable [OF this] h show ?thesis by fastforce
qed

section \<open>Validation\<close>

lemma zero_scan:
  "foldl (\<lambda>(fz, tz) i. (if a ! i \<noteq> (0::u8) then False else fz, if b ! i \<noteq> 0 then False else tz)) (x, y) is =
    (x \<and> (\<forall>i\<in>set is. a ! i = 0), y \<and> (\<forall>i\<in>set is. b ! i = (0::u8)))"
  by (induction "is" arbitrary: x y) auto

text \<open>
  Validation accepts exactly the transactions with a positive amount, two accounts that
  are not all zero, and a time stamp at most an hour ahead, compared as unsigned numbers.
\<close>

theorem validate_correct:
  assumes "tx_ok t"
  shows "fst (bank_transaction_validate P (Some t) w) \<longleftrightarrow>
    tx_amount t \<noteq> 0 \<and> tx_from_account t \<noteq> replicate 32 0 \<and> tx_to_account t \<noteq> replicate 32 0 \<and>
    tx_timestamp t \<le> of_int (time_at P (sys_calls w) + 3600)"
proof -
  have "(\<forall>i\<in>{..<32}. x ! i = 0) = (x = replicate 32 0)" if "length x = 32" for x :: bytes
    using that by (auto simp: list_eq_iff_nth_eq)
  then show ?thesis using assms
    unfolding bank_transaction_validate_def option.case zero_scan
    by (auto simp: tx_ok_def sys_time_def atLeast_upt [symmetric] not_less lessThan_atLeast0 Let_def)
qed

lemma validate_correct_witness:
  "fst (bank_transaction_validate quiet_platform (Some (zero_transaction\<lparr>tx_amount := 5, tx_from_account := replicate 32 1,
     tx_to_account := replicate 32 2, tx_timestamp := 4600\<rparr>)) started_world)"
  using validate_correct [of "zero_transaction\<lparr>tx_amount := 5, tx_from_account := replicate 32 1,
     tx_to_account := replicate 32 2, tx_timestamp := 4600\<rparr>" quiet_platform started_world]
  by (simp add: tx_ok_def zero_transaction_def quiet_platform_def)

end
