(* ===== verification/Bank_Library.thy ===== *)
theory Bank_Library
  imports Bank_Envelope Bank_Transaction
begin

text \<open>
  The library as one state machine: a step for every public function that changes the
  global state, initialization and shutdown included, with the history of the session
  counter. The counter is the number of active slots less those that the last
  initialization forgot, in every state that any sequence of calls reaches.
\<close>

section \<open>The steps\<close>

text \<open>the history after an initialization that succeeds, and after the table is cleared\<close>

definition after_init :: "world \<Rightarrow> world \<Rightarrow> history" where
  "after_init w w' = \<lparr>lost_slots = open_slots (g_session_mgr w),
     totals_gap = mgr_created (g_session_mgr w') - mgr_destroyed (g_session_mgr w')\<rparr>"

text \<open>
  The functions that use an initialized library. The extern signature function of a
  creation or verification is one that the project documents: it looks the session up.
\<close>

inductive bank_call :: "platform \<Rightarrow> world \<Rightarrow> world \<Rightarrow> bool" for P where
  call_create_session: "bank_create_session P key_id ttl w = Inr (r, w') \<Longrightarrow> bank_call P w w'"
| call_destroy_session: "bank_call P w (bank_destroy_session i w)"
| call_cleanup: "bank_call P w (bank_cleanup_expired_sessions P w)"
| call_get_session_key: "bank_get_session_key P i w = (ks, w') \<Longrightarrow> bank_call P w w'"
| call_rotate: "bank_call P w (bank_rotate_master_key P w)"
| call_uptime: "bank_get_library_uptime P w = (t, w') \<Longrightarrow> bank_call P w w'"
| call_rng_init: "bank_call P w (bank_rng_init P w)"
| call_rng_reseed: "bank_call P w (bank_rng_reseed P w)"
| call_rng_add_entropy: "bank_call P w (bank_rng_add_entropy d w)"
| call_rng_bytes: "bank_rng_bytes P n w = Inr (out, w') \<Longrightarrow> bank_call P w w'"
| call_random_bytes: "bank_random_bytes P buf w = (ok, out, w') \<Longrightarrow> bank_call P w w'"
| call_create_envelope: "bank_create_envelope P plain aad i envp w = Inr (env, w') \<Longrightarrow> bank_call P w w'"
| call_extract_envelope: "bank_extract_envelope P env aad outp w = (p, w') \<Longrightarrow> bank_call P w w'"
| call_create_transaction: "bank_create_transaction sign P n f t a c i tx w = Inr (ok, tx', w') \<Longrightarrow>
    session_signs P sign \<Longrightarrow> bank_call P w w'"
| call_verify_transaction: "bank_verify_transaction verify tx i w = Inr (ok, w') \<Longrightarrow>
    session_verifies P verify \<Longrightarrow> bank_call P w w'"
| call_validate: "bank_transaction_validate P tx w = (ok, w') \<Longrightarrow> bank_call P w w'"

text \<open>
  All public functions. With \<open>again\<close> the two functions that initialize unconditionally may
  be called on an initialized library; \<open>bank_init\<close> never initializes twice.
\<close>

inductive lib_step :: "platform \<Rightarrow> bool \<Rightarrow> world \<times> history \<Rightarrow> world \<times> history \<Rightarrow> bool" for P again where
  lib_call: "bank_call P w w' \<Longrightarrow> lib_step P again (w, h) (w', h)"
| lib_init: "bank_init P w = (ok, w') \<Longrightarrow>
    lib_step P again (w, h) (w', if ok \<and> \<not> g_library_initialized w then after_init w w' else h)"
| lib_init_master: "bank_init_master P key salt w = (ok, w') \<Longrightarrow> again \<or> \<not> g_library_initialized w \<Longrightarrow>
    lib_step P again (w, h) (w', if ok then after_init w w' else h)"
| lib_init_master_random: "bank_init_master_random P w = (ok, w') \<Longrightarrow> again \<or> \<not> g_library_initialized w \<Longrightarrow>
    lib_step P again (w, h) (w', if ok then after_init w w' else h)"
| lib_wipe: "lib_step P again (w, h) (bank_wipe_master w, if ctx_initialized (g_ctx w) then no_history else h)"
| lib_shutdown: "lib_step P again (w, h)
    (bank_shutdown w, if g_library_initialized w \<and> ctx_initialized (g_ctx w) then no_history else h)"
| lib_context_init: "lib_step P again (w, h) (bank_context_init w, no_history)"

section \<open>The invariant\<close>

text \<open>without an initialization there is no active slot, and the two flags agree\<close>

definition lib_inv :: "world \<Rightarrow> history \<Rightarrow> bool" where
  "lib_inv w h \<longleftrightarrow> table_inv h w \<and> rng_ok w \<and> g_library_initialized w = ctx_initialized (g_ctx w) \<and>
     (\<not> g_library_initialized w \<longrightarrow> open_slots (g_session_mgr w) = 0) \<and> lost_slots h \<le> 32"

text \<open>what the functions other than the table's own leave alone\<close>

lemma lib_inv_same:
  assumes "lib_inv w h" "g_session_mgr w' = g_session_mgr w" "rng_ok w'"
    and "chain_ok w'" "length (ctx_salt (g_ctx w')) = 32" "ctx_initialized (g_ctx w') = ctx_initialized (g_ctx w)"
    and "g_library_initialized w' = g_library_initialized w"
  shows "lib_inv w' h"
  using assms by (simp add: lib_inv_def table_inv_def)

lemma lib_inv_time [simp]: "lib_inv (snd (sys_time P w)) h = lib_inv w h"
  by (simp add: lib_inv_def table_inv_def chain_ok_def rng_ok_def sys_time_def)

lemma lib_inv_calls [simp]: "lib_inv (w\<lparr>sys_calls := n\<rparr>) h = lib_inv w h"
  by (simp add: lib_inv_def table_inv_def chain_ok_def rng_ok_def)

lemma lib_inv_counters [simp]:
  "lib_inv (w\<lparr>g_ctx := (g_ctx w)\<lparr>ctx_total_encryptions := a\<rparr>\<rparr>) h = lib_inv w h"
  "lib_inv (w\<lparr>g_ctx := (g_ctx w)\<lparr>ctx_total_decryptions := a\<rparr>\<rparr>) h = lib_inv w h"
  by (simp_all add: lib_inv_def table_inv_def chain_ok_def rng_ok_def)

text \<open>an operation of the table that keeps the rest of the state\<close>

lemma lib_inv_table:
  assumes "lib_inv w h" "table_inv h w'" "g_ctx w' = g_ctx w" "g_rng_state w' = g_rng_state w"
    and "g_library_initialized w' = g_library_initialized w"
    and "\<not> ctx_initialized (g_ctx w) \<Longrightarrow> open_slots (g_session_mgr w') = 0"
  shows "lib_inv w' h"
  using assms by (simp add: lib_inv_def rng_ok_def)

lemma create_session_lib:
  assumes "lib_inv w h" "platform_ok P" "bank_create_session P key_id ttl w = Inr (r, w')"
  shows "lib_inv w' h"
proof -
  have t: "table_inv h w" using assms(1) by (simp add: lib_inv_def)
  from table_inv_world_ok [OF t] assms(2) show ?thesis
  proof (cases rule: create_session_cases [of w P key_id ttl])
    case refused
    then show ?thesis using assms by simp
  next
    case (created slot k v d)
    then show ?thesis using assms(3) create_session_inv [OF t assms(2,3)]
      by (intro lib_inv_table [OF assms(1)]) simp_all
  qed
qed

text \<open>closing slots opens none\<close>

lemma no_slot_open: "open_slots m = 0 \<longleftrightarrow> (\<forall>k\<in>set (mgr_keys m). \<not> sk_active k)"
  by (simp add: open_slots_def filter_empty_conv)

lemma destroy_none_open: "open_slots (g_session_mgr w) = 0 \<Longrightarrow> open_slots (g_session_mgr (bank_destroy_session i w)) = 0"
  by (auto simp: no_slot_open bank_destroy_session_def Let_def set_slot_def dest!: set_update_subset_insert [THEN subsetD])

lemma cleanup_none_open:
  "open_slots m = 0 \<Longrightarrow> open_slots (foldl (cleanup_slot now) m is) = 0"
proof (induction "is" arbitrary: m)
  case (Cons i "is")
  have "open_slots (cleanup_slot now m i) = 0"
    using Cons.prems
    by (auto simp: no_slot_open cleanup_slot_def expire_slot_def Let_def set_slot_def dest!: set_update_subset_insert [THEN subsetD])
  then show ?case by (simp add: Cons.IH)
qed simp

lemma lib_invD: "lib_inv w h \<Longrightarrow> table_inv h w"
  "lib_inv w h \<Longrightarrow> \<not> ctx_initialized (g_ctx w) \<Longrightarrow> open_slots (g_session_mgr w) = 0"
  by (simp_all add: lib_inv_def)

lemma destroy_session_lib:
  assumes "lib_inv w h"
  shows "lib_inv (bank_destroy_session i w) h"
proof (rule lib_inv_table [OF assms destroy_session_inv [OF lib_invD(1) [OF assms]]])
  show "open_slots (g_session_mgr (bank_destroy_session i w)) = 0" if "\<not> ctx_initialized (g_ctx w)"
    using lib_invD(2) [OF assms that] by (rule destroy_none_open)
qed (simp_all add: bank_destroy_session_def Let_def)

lemma lib_inv_manager:
  assumes "lib_inv w h" "table_inv h (w\<lparr>sys_calls := n, g_session_mgr := m\<rparr>)"
    and "\<not> ctx_initialized (g_ctx w) \<Longrightarrow> open_slots m = 0"
  shows "lib_inv (w\<lparr>sys_calls := n, g_session_mgr := m\<rparr>) h"
  using assms(2,3) by (intro lib_inv_table [OF assms(1)]) simp_all

lemma cleanup_sessions_eq:
  "bank_cleanup_expired_sessions P w = w\<lparr>sys_calls := sys_calls w + 1,
     g_session_mgr := foldl (cleanup_slot (time_at P (sys_calls w))) (g_session_mgr w) [0..<32]\<rparr>"
  by (simp add: bank_cleanup_expired_sessions_def sys_time_def)

lemma cleanup_sessions_lib:
  assumes "lib_inv w h"
  shows "lib_inv (bank_cleanup_expired_sessions P w) h"
  using cleanup_sessions_inv [OF lib_invD(1) [OF assms], of P] cleanup_none_open [OF lib_invD(2) [OF assms]]
  unfolding cleanup_sessions_eq by (rule lib_inv_manager [OF assms])

lemma get_session_key_lib:
  assumes "bank_get_session_key P i w = (ks, w')" "lib_inv w h"
  shows "lib_inv w' h"
proof -
  have w': "w' = snd (bank_get_session_key P i w)" using assms(1) by simp
  show ?thesis unfolding w' using get_session_key_inv [of h w P i] assms(2)
    by (intro lib_inv_table [OF assms(2)]) (auto simp: lib_inv_def get_session_key_eq Let_def)
qed

lemma rng_bytes_lib:
  assumes "bank_rng_bytes P n w = Inr (out, w')" "lib_inv w h" "platform_ok P"
  shows "lib_inv w' h"
proof (cases "g_library_initialized w")
  case True
  then have "rng_ok w'" "same_but_rng w w'"
    using bank_rng_bytes_ok [OF assms(3) _ True, of n] assms(1,2) by (auto simp: lib_inv_def)
  then show ?thesis using assms(2)
    by (intro lib_inv_same [OF assms(2)]) (simp_all add: same_but_rng_def lib_inv_def table_inv_def chain_ok_def)
next
  case False
  then show ?thesis using assms by (simp add: bank_rng_bytes_def)
qed

lemma random_bytes_lib: "bank_random_bytes P buf w = (ok, out, w') \<Longrightarrow> lib_inv w h \<Longrightarrow> lib_inv w' h"
  by (auto simp: bank_random_bytes_def bank_platform_random_bytes_def split_def Let_def split: if_splits)

lemma rng_pool_lib:
  assumes "platform_ok P" "lib_inv w h"
  shows "lib_inv (bank_rng_init P w) h" "lib_inv (bank_rng_reseed P w) h" "lib_inv (bank_rng_add_entropy d w) h"
proof -
  have l: "length (snd (random_at P k b)) = length b" "length (residue_at P k n) = n" for k b n
    using assms(1) by (simp_all add: platform_ok_def)
  have x: "length (xor_bytes a b) = min (length a) (length b)" for a b by (simp add: xor_bytes_def)
  have i: "rng_ok w" "chain_ok w" "length (ctx_salt (g_ctx w)) = 32" using assms(2) by (simp_all add: lib_inv_def table_inv_def)
  show "lib_inv (bank_rng_init P w) h" "lib_inv (bank_rng_reseed P w) h" "lib_inv (bank_rng_add_entropy d w) h"
    using i l
    by (intro lib_inv_same [OF assms(2)];
        auto simp: bank_rng_init_def bank_rng_reseed_def bank_rng_add_entropy_def bank_platform_random_bytes_def
          split_def Let_def rng_ok_def chain_ok_def x split: option.split)+
qed

section \<open>Envelopes and transactions\<close>

lemma encrypt_data_lib:
  assumes "bank_encrypt_data P plain aad i w = Inr (r, w')" "lib_inv w h" "platform_ok P"
  shows "lib_inv w' h"
  using assms get_session_key_lib rng_bytes_lib
  by (fastforce simp: bank_encrypt_data_def split: if_splits option.splits sum.splits prod.splits)

lemma create_envelope_lib:
  assumes "bank_create_envelope P plain aad i envp w = Inr (r, w')" "lib_inv w h" "platform_ok P"
  shows "lib_inv w' h"
  using assms get_session_key_lib encrypt_data_lib
  by (fastforce simp: bank_create_envelope_def sys_time_def Let_def split: if_splits option.splits sum.splits prod.splits)

lemma decrypt_data_lib:
  assumes "bank_decrypt_data P cipher aad i iv tag outp w = (r, w')" "lib_inv w h"
  shows "lib_inv w' h"
  using assms get_session_key_lib
  by (fastforce simp: bank_decrypt_data_def split: if_splits option.splits prod.splits)

lemma extract_envelope_lib:
  assumes "bank_extract_envelope P env aad outp w = (r, w')" "lib_inv w h"
  shows "lib_inv w' h"
  using assms decrypt_data_lib
  by (fastforce simp: bank_extract_envelope_def Let_def split: if_splits option.splits)

lemma signature_lib:
  assumes "lib_inv w h"
  shows "session_signs P sign \<Longrightarrow> sign i d b w = Inr (ok, sig, w') \<Longrightarrow> lib_inv w' h"
    and "session_verifies P verify \<Longrightarrow> verify i d s w = Inr (ok, w') \<Longrightarrow> lib_inv w' h"
  using assms get_session_key_lib
  by (fastforce simp: session_signs_def session_verifies_def split: option.splits prod.splits)+

lemma create_transaction_lib:
  assumes "bank_create_transaction sign P n f t a c i tx w = Inr (ok, tx', w')" "session_signs P sign"
    and "lib_inv w h" "platform_ok P"
  shows "lib_inv w' h"
proof -
  have s: "sys_time P w = (time_at P (sys_calls w), snd (sys_time P w))" by (simp add: sys_time_def)
  have "lib_inv v h" if "bank_rng_bytes P 8 (snd (sys_time P w)) = Inr (out, v)" for out v
    using rng_bytes_lib [OF that] assms(3,4) by simp
  then show ?thesis using assms signature_lib(1)
    unfolding bank_create_transaction_def by (subst (asm) s)
      (fastforce simp: Let_def split: option.splits sum.splits prod.splits if_splits)
qed

lemma verify_transaction_lib:
  assumes "bank_verify_transaction verify tx i w = Inr (ok, w')" "session_verifies P verify" "lib_inv w h"
  shows "lib_inv w' h"
  using assms signature_lib(2)
  by (fastforce simp: bank_verify_transaction_def Let_def split: option.splits if_splits)

lemma validate_lib: "bank_transaction_validate P tx w = (ok, w') \<Longrightarrow> lib_inv w h \<Longrightarrow> lib_inv w' h"
  by (auto simp: bank_transaction_validate_def sys_time_def Let_def split_def split: option.splits if_splits)

lemma bank_call_lib:
  assumes "bank_call P w w'" "lib_inv w h" "platform_ok P"
  shows "lib_inv w' h"
  using assms(1)
proof (cases rule: bank_call.cases)
  case call_create_session
  then show ?thesis using assms(2,3) create_session_lib by blast
next
  case call_destroy_session
  then show ?thesis using assms(2) destroy_session_lib by simp
next
  case call_cleanup
  then show ?thesis using assms(2) cleanup_sessions_lib by simp
next
  case call_get_session_key
  then show ?thesis using assms(2) get_session_key_lib by blast
next
  case call_rotate
  then show ?thesis using assms(2) rotate_inv [of h w P]
    by (auto simp: lib_inv_def rng_ok_def bank_rotate_master_key_def sys_time_def Let_def)
next
  case (call_uptime t)
  then show ?thesis using assms(2) by (auto simp: bank_get_library_uptime_def sys_time_def Let_def split: if_splits)
next
  case call_rng_init
  then show ?thesis using assms(2,3) rng_pool_lib(1) by simp
next
  case call_rng_reseed
  then show ?thesis using assms(2,3) rng_pool_lib(2) by simp
next
  case call_rng_add_entropy
  then show ?thesis using assms(2,3) rng_pool_lib(3) by simp
next
  case call_rng_bytes
  then show ?thesis using assms(2,3) rng_bytes_lib by blast
next
  case call_random_bytes
  then show ?thesis using assms(2) random_bytes_lib by blast
next
  case call_create_envelope
  then show ?thesis using assms(2,3) create_envelope_lib by blast
next
  case call_extract_envelope
  then show ?thesis using assms(2) extract_envelope_lib by blast
next
  case call_create_transaction
  then show ?thesis using assms(2,3) create_transaction_lib by blast
next
  case call_verify_transaction
  then show ?thesis using assms(2) verify_transaction_lib by blast
next
  case call_validate
  then show ?thesis using assms(2) validate_lib by blast
qed

section \<open>Initialization and shutdown\<close>

text \<open>a successful initialization keeps the slots and sets the counter to zero\<close>

lemma lib_inv_fresh:
  assumes "lib_inv w h" "mgr_keys (g_session_mgr w') = mgr_keys (g_session_mgr w)" "mgr_count (g_session_mgr w') = 0"
    and "rng_ok w'" "chain_ok w'" "length (ctx_salt (g_ctx w')) = 32" "ctx_initialized (g_ctx w')" "g_library_initialized w'"
  shows "lib_inv w' (after_init w w')"
proof -
  have "slots_ok (g_session_mgr w)" using assms(1) by (simp add: lib_inv_def table_inv_def count_ok_def)
  then have "slots_ok (g_session_mgr w')" "open_slots (g_session_mgr w') = open_slots (g_session_mgr w)"
    "open_slots (g_session_mgr w) \<le> 32"
    using assms(2) open_slots_le by (simp_all add: slots_ok_def open_slots_def)
  then show ?thesis using assms(3-8) by (simp add: lib_inv_def table_inv_def count_ok_def after_init_def)
qed

lemma init_finish_lib:
  assumes "lib_inv w h" "platform_ok P" "g_session_mgr v = g_session_mgr w" "rng_ok v" "chain_ok v"
    and "length (ctx_salt (g_ctx v)) = 32"
  shows "lib_inv (init_finish P fresh v) (after_init w (init_finish P fresh v))"
proof (rule lib_inv_fresh [OF assms(1)])
  have l: "length (snd (random_at P k b)) = length b" for k b using assms(2) by (simp add: platform_ok_def)
  show "rng_ok (init_finish P fresh v)" "chain_ok (init_finish P fresh v)"
    "length (ctx_salt (g_ctx (init_finish P fresh v))) = 32" "ctx_initialized (g_ctx (init_finish P fresh v))"
    "g_library_initialized (init_finish P fresh v)"
    using assms(4-6) l
    by (simp_all add: init_finish_def bank_rng_init_def bank_platform_random_bytes_def sys_time_def split_def Let_def
        rng_ok_def chain_ok_def)
qed (simp_all add: init_finish_mgr assms(3))

lemma init_master_lib:
  assumes "bank_init_master P key salt w = (ok, w')" "lib_inv w h" "platform_ok P"
  shows "lib_inv w' (if ok then after_init w w' else h)"
proof -
  have i: "rng_ok w" "chain_ok w" using assms(2) by (simp_all add: lib_inv_def table_inv_def)
  show ?thesis
  proof (cases "length key \<noteq> 32 \<or> length salt \<noteq> 32")
    case False
    then obtain v where "w' = init_finish P False v" "ok" "g_session_mgr v = g_session_mgr w" "rng_ok v" "chain_ok v"
      "length (ctx_salt (g_ctx v)) = 32"
      using assms(1) i
      by (auto simp: bank_init_master_def bank_random_bytes_def bank_platform_random_bytes_def split_def Let_def
          rng_ok_def chain_ok_def)
    then show ?thesis using init_finish_lib [OF assms(2,3)] by simp
  qed (use assms in \<open>auto simp: bank_init_master_def\<close>)
qed

lemma init_master_random_lib:
  assumes "bank_init_master_random P w = (ok, w')" "lib_inv w h" "platform_ok P"
  shows "lib_inv w' (if ok then after_init w w' else h)"
proof -
  have l: "length (snd (random_at P k b)) = length b" for k b using assms(3) by (simp add: platform_ok_def)
  have i: "rng_ok w" "chain_ok w" "length (ctx_salt (g_ctx w)) = 32" using assms(2) by (simp_all add: lib_inv_def table_inv_def)
  obtain v where v: "w' = (if ok then init_finish P True v else v)" "g_session_mgr v = g_session_mgr w" "rng_ok v"
    "chain_ok v" "length (ctx_salt (g_ctx v)) = 32" "ctx_initialized (g_ctx v) = ctx_initialized (g_ctx w)"
    "g_library_initialized v = g_library_initialized w"
    using assms(1) i l
    by (auto simp: bank_init_master_random_def bank_random_bytes_def bank_platform_random_bytes_def split_def Let_def
        rng_ok_def chain_ok_def split: if_splits)
  show ?thesis
  proof (cases ok)
    case True
    then show ?thesis using v(1) init_finish_lib [OF assms(2,3) v(2-5)] by simp
  next
    case False
    then show ?thesis using v by (auto intro: lib_inv_same [OF assms(2)])
  qed
qed

lemma zero_table: "count_ok no_history zero_manager" "open_slots zero_manager = 0"
  by (simp_all add: count_ok_def slots_ok_def open_slots_def zero_manager_def zero_session_def no_history_def slot_ok_def
      list_all_length)

lemma wipe_lib:
  assumes "lib_inv w h" "ctx_initialized (g_ctx w)"
  shows "lib_inv (bank_wipe_master w) no_history"
  using assms zero_table by (simp add: bank_wipe_master_def lib_inv_def table_inv_def chain_ok_def rng_ok_def
      zero_context_def Let_def) (simp add: no_history_def)

lemma context_init_lib: "lib_inv (bank_context_init w) no_history"
  using zero_table by (simp add: bank_context_init_def lib_inv_def table_inv_def chain_ok_def rng_ok_def
      zero_context_def zero_rng_def Let_def) (simp add: no_history_def)

text \<open>an initialization with no active slot loses none, and leaves the totals in step with the counter\<close>

lemma clean_init:
  assumes "lib_inv w no_history" "\<not> g_library_initialized w"
  shows "bank_init_master P key salt w = (True, w') \<Longrightarrow> after_init w w' = no_history"
    and "bank_init_master_random P w = (True, w') \<Longrightarrow> after_init w w' = no_history"
proof -
  have o: "open_slots (g_session_mgr w) = 0" using assms by (simp add: lib_inv_def)
  have t: "mgr_created (g_session_mgr w) - mgr_destroyed (g_session_mgr w) = 0"
    using assms o by (simp add: lib_inv_def table_inv_def count_ok_def no_history_def)
  show "after_init w w' = no_history" if "bank_init_master P key salt w = (True, w')"
    using that o t
    by (auto simp: bank_init_master_def after_init_def no_history_def init_finish_mgr bank_random_bytes_def
        bank_platform_random_bytes_def split_def Let_def split: if_splits)
  show "after_init w w' = no_history" if "bank_init_master_random P w = (True, w')"
    using that o t
    by (auto simp: bank_init_master_random_def after_init_def no_history_def init_finish_mgr bank_random_bytes_def
        bank_platform_random_bytes_def split_def Let_def split: if_splits)
qed

lemma lib_step_inv:
  assumes "lib_step P again s s'" "platform_ok P" "lib_inv (fst s) (snd s)"
  shows "lib_inv (fst s') (snd s') \<and> (\<not> again \<and> snd s = no_history \<longrightarrow> snd s' = no_history)"
  using assms(1)
proof (cases rule: lib_step.cases)
  case (lib_call w w' h)
  then show ?thesis using bank_call_lib [of P w w' h] assms(2,3) by simp
next
  case (lib_init w ok w' h)
  show ?thesis
  proof (cases "g_library_initialized w")
    case True
    then show ?thesis using lib_init assms(3) by (auto simp: bank_init_def)
  next
    case False
    then have r: "bank_init_master_random P w = (ok, w')"
      using lib_init(3) by (auto simp: bank_init_def split: prod.splits if_splits)
    then show ?thesis using lib_init False assms(2,3) init_master_random_lib [OF r, of h] clean_init(2) [of w P w'] by auto
  qed
next
  case (lib_init_master key salt w ok w' h)
  then show ?thesis using assms(2,3) init_master_lib [of P key salt w ok w' h] clean_init(1) [of w P key salt w'] by auto
next
  case (lib_init_master_random w ok w' h)
  then show ?thesis using assms(2,3) init_master_random_lib [of P w ok w' h] clean_init(2) [of w P w'] by auto
next
  case (lib_wipe w h)
  then show ?thesis using assms(3) wipe_lib by (auto simp: bank_wipe_master_def)
next
  case (lib_shutdown w h)
  then show ?thesis using assms(3) wipe_lib by (auto simp: bank_shutdown_def bank_wipe_master_def)
next
  case (lib_context_init w h)
  then show ?thesis using context_init_lib by simp
qed

section \<open>The session counter\<close>

text \<open>
  C5: In every state that any sequence of calls of the library's public functions reaches
  (one after the other, and without writing through the pointers \<open>bank_get_context\<close> gives),
  the session counter is the number of active slots less the number of slots that were
  active when the library was last initialized (those the initialization forgot); so it lies
  between -32 and 32, and the totals of created and destroyed sessions differ by it and by
  what they differed by then. If the two functions that initialize unconditionally are never
  called on an initialized library, nothing is ever forgotten: the counter is exactly the
  number of active slots, and the totals differ by it.
\<close>

theorem session_count_invariant:
  assumes "(lib_step P again)\<^sup>*\<^sup>* (w, h) (w', h')" "platform_ok P" "lib_inv w h"
  shows "mgr_count (g_session_mgr w') = int (open_slots (g_session_mgr w')) - int (lost_slots h') \<and>
    - 32 \<le> mgr_count (g_session_mgr w') \<and> mgr_count (g_session_mgr w') \<le> 32 \<and>
    mgr_created (g_session_mgr w') - mgr_destroyed (g_session_mgr w') = of_int (mgr_count (g_session_mgr w')) + totals_gap h' \<and>
    lib_inv w' h' \<and> (\<not> again \<and> h = no_history \<longrightarrow> h' = no_history \<and>
      mgr_count (g_session_mgr w') = int (open_slots (g_session_mgr w')) \<and>
      mgr_created (g_session_mgr w') - mgr_destroyed (g_session_mgr w') = of_nat (open_slots (g_session_mgr w')))"
proof -
  have "lib_inv (fst (w', h')) (snd (w', h')) \<and> (\<not> again \<and> snd (w, h) = no_history \<longrightarrow> snd (w', h') = no_history)"
    using assms(1)
  proof (induction rule: rtranclp_induct)
    case base
    then show ?case using assms(3) by simp
  next
    case (step s s')
    then show ?case using lib_step_inv [OF step(2) assms(2)] by blast
  qed
  then have i: "lib_inv w' h'" and n: "\<not> again \<and> h = no_history \<longrightarrow> h' = no_history" by simp_all
  have c: "count_ok h' (g_session_mgr w')" "lost_slots h' \<le> 32" using i by (simp_all add: lib_inv_def table_inv_def)
  then have "open_slots (g_session_mgr w') \<le> 32" by (simp add: count_ok_def open_slots_le)
  then show ?thesis using i n c by (auto simp: count_ok_def no_history_def)
qed

lemma started_lib_inv: "lib_inv started_world no_history"
  using started_table_inv
  by (simp add: lib_inv_def rng_ok_def started_world_eq open_slots_def zero_manager_def zero_session_def no_history_def)

lemma create_keeps_context:
  assumes "world_ok w" "platform_ok P" "bank_create_session P key_id ttl w = Inr (r, w')"
  shows "g_ctx w' = g_ctx w"
  using assms(1,2) by (cases rule: create_session_cases [of w P key_id ttl]) (use assms(3) in simp_all)

text \<open>
  Opening a session and initializing again: the history remembers one lost slot, and
  closing the session takes the counter to minus one.
\<close>

lemma session_count_invariant_witness:
  "\<exists>r w1 w2 h. bank_create_session quiet_platform [107] 60 started_world = Inr (r, w1) \<and>
     bank_init_master_random quiet_platform w1 = (True, w2) \<and>
     (lib_step quiet_platform True)\<^sup>*\<^sup>* (started_world, no_history) (bank_destroy_session r w2, h) \<and>
     lost_slots h = 1 \<and> mgr_count (g_session_mgr (bank_destroy_session r w2)) = - 1 \<and>
     open_slots (g_session_mgr (bank_destroy_session r w2)) = 0"
proof -
  have w: "world_ok started_world" using started_table_inv by (rule table_inv_world_ok)
  from w quiet_platform_ok obtain slot k w1 where c: "bank_create_session quiet_platform [107] 60 started_world = Inr (int slot + 1, w1)"
    "slot < 32" "sk_active k" "g_session_mgr w1 = (set_slot slot k (g_session_mgr started_world))
       \<lparr>mgr_count := mgr_count (g_session_mgr started_world) + 1, mgr_created := mgr_created (g_session_mgr started_world) + 1\<rparr>"
  proof (cases rule: create_session_cases [of started_world quiet_platform "[107]" 60])
    case refused
    have "\<not> sk_active (mgr_keys (g_session_mgr started_world) ! 0)"
      by (simp add: started_world_eq zero_manager_def zero_session_def)
    with refused show ?thesis by (auto simp: started_world_eq)
  qed (use that in blast)
  have o: "open_slots (g_session_mgr w1) = 1"
    using create_session_lib [OF started_lib_inv quiet_platform_ok c(1)] c(4)
    by (simp add: lib_inv_def table_inv_def count_ok_def no_history_def set_slot_def started_world_eq zero_manager_def)
  obtain ok w2 where i: "bank_init_master_random quiet_platform w1 = (ok, w2)" by (metis surj_pair)
  have "ctx_master_key (g_ctx w1) \<noteq> [] \<and> ctx_salt (g_ctx w1) \<noteq> [] \<and> ctx_anti_tamper_seed (g_ctx w1) \<noteq> [] \<and>
    ctx_key_rotation_seed (g_ctx w1) \<noteq> []"
    using create_keeps_context [OF w quiet_platform_ok c(1)] by (simp add: started_world_eq zero_context_def)
  then have ok: "ok" using i
    by (auto simp: bank_init_master_random_def bank_random_bytes_def bank_platform_random_bytes_def Let_def split_def
        quiet_platform_def split: if_splits)
  let ?w3 = "bank_destroy_session (int slot + 1) w2" and ?h = "after_init w1 w2"
  have "lib_step quiet_platform True (started_world, no_history) (w1, no_history)"
    using c(1) by (intro lib_call call_create_session)
  moreover have "lib_step quiet_platform True (w1, no_history) (w2, ?h)"
    using lib_init_master_random [of quiet_platform w1 True w2 True no_history] i ok by simp
  moreover have "lib_step quiet_platform True (w2, ?h) (?w3, ?h)" by (intro lib_call call_destroy_session)
  ultimately have run: "(lib_step quiet_platform True)\<^sup>*\<^sup>* (started_world, no_history) (?w3, ?h)"
    by (meson converse_rtranclp_into_rtranclp r_into_rtranclp)
  have m: "mgr_keys (g_session_mgr w2) = mgr_keys (g_session_mgr w1)" "mgr_count (g_session_mgr w2) = 0"
    using init_random_mgr [of quiet_platform w1 w2] i ok by simp_all
  have "sk_active (mgr_keys (g_session_mgr w2) ! slot)"
    using c(2-4) unfolding m by (simp add: set_slot_def started_world_eq zero_manager_def)
  then have n: "mgr_count (g_session_mgr ?w3) = - 1"
    using c(2) m(2) by (simp add: bank_destroy_session_def set_slot_def Let_def)
  have l: "lost_slots ?h = 1" using o by (simp add: after_init_def)
  from session_count_invariant [OF run quiet_platform_ok started_lib_inv] n l
  have "open_slots (g_session_mgr ?w3) = 0" by simp
  moreover have "bank_init_master_random quiet_platform w1 = (True, w2)" using i ok by simp
  ultimately show ?thesis using run n l c(1) by blast
qed

end
