(* ===== verification/P2p_Prelude.thy ===== *)
theory P2p_Prelude
  imports Bank_Prelude "HOL-Library.List_Lexorder" "HOL-Library.Char_ord" "HOL-Library.Log_Nat"
begin

text \<open>
  What the programs of \<open>p2p_banking_system\<close> use of the C++ language and library: ordered maps,
  double-precision numbers with rounding, decimal printing, byte strings, and the faults
  they can run into. An interface of dictionaries (\<open>dictionary\<close>), with \<open>std::map\<close> as its
  first instance.
\<close>

text \<open>
  \<open>Deadlock\<close>: a thread locks a mutex it holds already (undefined for \<open>std::mutex\<close>; in the
  usual implementations the call never returns). \<open>Out_Of_Range\<close>, \<open>Invalid_Argument\<close>,
  \<open>Length_Error\<close>: the exceptions of \<open>map::at\<close>, of the number parsers and of an oversized
  vector. \<open>Bad_Index\<close>, \<open>Overflow\<close>, \<open>Div_Zero\<close>: undefined accesses and signed arithmetic.
\<close>

datatype cpp_fault = Deadlock | Out_Of_Range | Invalid_Argument | Length_Error | Bad_Index | Overflow | Div_Zero

type_synonym 'a cpp = "cpp_fault + 'a"

section \<open>Ordered maps\<close>

text \<open>
  A \<open>std::map\<close> is the list of its pairs in the order of iteration, that is, of increasing
  keys; strings are compared byte by byte.
\<close>

type_synonym ('k, 'v) std_map = "('k \<times> 'v) list"

fun map_put :: "'k::linorder \<Rightarrow> 'v \<Rightarrow> ('k, 'v) std_map \<Rightarrow> ('k, 'v) std_map" where
  "map_put k v [] = [(k, v)]"
| "map_put k v ((k', v') # m) =
     (if k < k' then (k, v) # (k', v') # m
      else if k = k' then (k, v) # m
      else (k', v') # map_put k v m)"

definition map_erase :: "'k \<Rightarrow> ('k, 'v) std_map \<Rightarrow> ('k, 'v) std_map" where
  "map_erase k m = filter (\<lambda>(k', _). k' \<noteq> k) m"

text \<open>\<open>m[k]\<close> for a value type with default d: a missing key is inserted\<close>

definition map_index :: "'v \<Rightarrow> 'k::linorder \<Rightarrow> ('k, 'v) std_map \<Rightarrow> 'v \<times> ('k, 'v) std_map" where
  "map_index d k m = (case map_of m k of Some v \<Rightarrow> (v, m) | None \<Rightarrow> (d, map_put k d m))"

text \<open>\<open>m[k] = f(m[k])\<close>\<close>

definition map_change :: "'v \<Rightarrow> 'k::linorder \<Rightarrow> ('v \<Rightarrow> 'v) \<Rightarrow> ('k, 'v) std_map \<Rightarrow> ('k, 'v) std_map" where
  "map_change d k f m = map_put k (f (case map_of m k of Some v \<Rightarrow> v | None \<Rightarrow> d)) m"

definition map_ok :: "('k::linorder, 'v) std_map \<Rightarrow> bool" where
  "map_ok m \<longleftrightarrow> sorted_wrt (<) (map fst m)"

lemma map_ok_simps [simp]:
  "map_ok []" "map_ok ((k, v) # m) \<longleftrightarrow> (\<forall>x\<in>set m. k < fst x) \<and> map_ok m"
  by (auto simp: map_ok_def)

lemma set_map_put: "set (map_put k v m) \<subseteq> insert (k, v) (set m)"
  by (induction k v m rule: map_put.induct) auto

lemma map_put_ok [simp]: "map_ok m \<Longrightarrow> map_ok (map_put k v m)"
proof (induction k v m rule: map_put.induct)
  case (2 k v k' v' m)
  have "\<forall>x\<in>set (map_put k v m). k' < fst x" if "k' < k" "\<forall>x\<in>set m. k' < fst x"
    using that set_map_put [of k v m] by auto
  then show ?case using 2 by auto
qed simp

lemma map_of_put [simp]: "map_ok m \<Longrightarrow> map_of (map_put k v m) = (map_of m)(k \<mapsto> v)"
proof (induction k v m rule: map_put.induct)
  case (2 k v k' v' m)
  then show ?case by (auto simp: fun_eq_iff)
qed simp

lemma map_erase_ok [simp]: "map_ok m \<Longrightarrow> map_ok (map_erase k m)"
  by (induction m) (auto simp: map_erase_def)

lemma map_of_erase [simp]: "map_of (map_erase k m) = (map_of m)(k := None)"
  by (induction m) (auto simp: map_erase_def fun_eq_iff)

lemma map_ok_distinct: "map_ok m \<Longrightarrow> distinct (map fst m)"
  by (induction m) fastforce+

text \<open>the value at a key, or the default\<close>

definition map_at :: "'v \<Rightarrow> ('k, 'v) std_map \<Rightarrow> 'k \<Rightarrow> 'v" where
  "map_at d m k = (case map_of m k of Some v \<Rightarrow> v | None \<Rightarrow> d)"

lemma map_at_simps [simp]:
  "fst (map_index d k m) = map_at d m k"
  "map_ok m \<Longrightarrow> map_at d (map_put k v m) k' = (if k' = k then v else map_at d m k')"
  "map_ok m \<Longrightarrow> map_at d (map_change d k f m) k' = (if k' = k then f (map_at d m k) else map_at d m k')"
  "map_ok m \<Longrightarrow> map_at d (snd (map_index d k m)) k' = map_at d m k'"
  "map_ok m \<Longrightarrow> map_ok (map_change d k f m)" "map_ok m \<Longrightarrow> map_ok (snd (map_index d k m))"
  by (auto simp: map_at_def map_index_def map_change_def split: option.split)

text \<open>two ordered maps with the same entries are equal\<close>

lemma map_ok_ext:
  assumes "map_ok m" "map_ok m'" "map_of m = map_of m'"
  shows "m = m'"
proof -
  have "sorted_wrt (<) (map fst m)" "sorted_wrt (<) (map fst m')" using assms by (simp_all add: map_ok_def)
  moreover have "set (map fst m) = set (map fst m')"
    using arg_cong [OF assms(3), of dom] by (simp add: dom_map_of_conv_image_fst)
  ultimately have k: "map fst m = map fst m'"
    by (metis strict_sorted_equal)
  have v: "map snd l = map (\<lambda>k. the (map_of l k)) (map fst l)" if "map_ok l" for l :: "('a \<times> 'b) list"
    using map_ok_distinct [OF that] by (force simp: map_of_is_SomeI)
  have "map snd m = map (\<lambda>k. the (map_of m k)) (map fst m)" using assms(1) by (rule v)
  moreover have "map snd m' = map (\<lambda>k. the (map_of m' k)) (map fst m')" using assms(2) by (rule v)
  ultimately have "map snd m = map snd m'" using k assms(3) by simp
  then show ?thesis using k by (metis zip_map_fst_snd)
qed

lemma map_of_filter: "map_ok m \<Longrightarrow> map_of (filter (\<lambda>(_, x). P x) m) k = (case map_of m k of None \<Rightarrow> None | Some x \<Rightarrow> if P x then Some x else None)"
proof (induction m)
  case (Cons a m)
  have "map_of m (fst a) = None" using Cons.prems by (cases a) (auto simp: map_of_eq_None_iff)
  then show ?case using Cons by (cases a) auto
qed simp

lemma map_ok_filter: "map_ok m \<Longrightarrow> map_ok (filter P m)"
  by (simp add: map_ok_def sorted_wrt_map sorted_wrt_filter)

lemma map_of_filter_Some:
  "map_ok m \<Longrightarrow> map_of (filter (\<lambda>(_, x). P x) m) k = Some x \<longleftrightarrow> map_of m k = Some x \<and> P x"
  by (auto simp: map_of_filter split: option.splits if_splits)

section \<open>Dictionaries\<close>

locale dictionary =
  fixes wf :: "'s \<Rightarrow> bool" and find :: "'s \<Rightarrow> 'k \<Rightarrow> 'v option"
    and put :: "'k \<Rightarrow> 'v \<Rightarrow> 's \<Rightarrow> 's" and del :: "'k \<Rightarrow> 's \<Rightarrow> 's"
  assumes put_wf: "wf s \<Longrightarrow> wf (put k v s)"
    and del_wf: "wf s \<Longrightarrow> wf (del k s)"
    and find_put: "wf s \<Longrightarrow> find (put k v s) = (find s)(k \<mapsto> v)"
    and find_del: "wf s \<Longrightarrow> find (del k s) = (find s)(k := None)"
begin

lemma find_put_same: "wf s \<Longrightarrow> find (put k v s) k = Some v"
  by (simp add: find_put)

lemma find_put_other: "wf s \<Longrightarrow> k' \<noteq> k \<Longrightarrow> find (put k v s) k' = find s k'"
  by (simp add: find_put)

lemma puts: "wf s \<Longrightarrow> wf (foldl (\<lambda>s (k, v). put k v s) s kvs) \<and>
    find (foldl (\<lambda>s (k, v). put k v s) s kvs) = find s ++ map_of (rev kvs)"
proof (induction kvs arbitrary: s)
  case (Cons kv kvs)
  obtain k v where "kv = (k, v)" by (cases kv)
  then show ?case using Cons.IH [OF put_wf [OF Cons.prems], of k v] find_put [OF Cons.prems, of k v]
    by (simp add: map_add_upd_left map_of_append fun_eq_iff map_add_def split: option.splits)
qed simp

lemma dels: "wf s \<Longrightarrow> wf (foldl (\<lambda>s k. del k s) s ks) \<and>
    find (foldl (\<lambda>s k. del k s) s ks) = find s |` (- set ks)"
proof (induction ks arbitrary: s)
  case (Cons k ks)
  then show ?case using Cons.IH [OF del_wf [OF Cons.prems], of k]
    by (auto simp: find_del restrict_map_def fun_eq_iff)
qed (simp add: restrict_map_def)

end

interpretation std_map: dictionary map_ok map_of map_put map_erase
  by unfold_locales simp_all

section \<open>Doubles\<close>

text \<open>
  A double is a rational number that fits the format, or one of the three special values;
  the two zeros are one. Every operation rounds its exact result to the nearest double, a
  tie to the even one; subnormal numbers and overflow are included.
\<close>

datatype double = Fin rat | PInf | MInf | NaN

text \<open>the exponent of the leading digit of a positive number in base b\<close>

definition ilog :: "nat \<Rightarrow> rat \<Rightarrow> int" where
  "ilog b x = (if 1 \<le> x then int (floorlog b (nat \<lfloor>x\<rfloor>)) - 1
     else - int (floorlog b (nat (\<lceil>1 / x\<rceil> - 1))))"

definition round_even :: "rat \<Rightarrow> int" where
  "round_even x =
     (let n = \<lfloor>x\<rfloor>; f = x - of_int n
      in if f < 1 / 2 then n else if 1 / 2 < f then n + 1 else if even n then n else n + 1)"

definition fl :: "rat \<Rightarrow> double" where
  "fl x =
     (if x = 0 then Fin 0
      else let u = 2 powi (max (ilog 2 \<bar>x\<bar> - 52) (- 1074));
               y = of_int (round_even (x / u)) * u
           in if 2 ^ 1024 \<le> \<bar>y\<bar> then (if 0 < x then PInf else MInf) else Fin y)"

fun dbl_neg :: "double \<Rightarrow> double" where
  "dbl_neg (Fin x) = Fin (- x)"
| "dbl_neg PInf = MInf"
| "dbl_neg MInf = PInf"
| "dbl_neg NaN = NaN"

fun dbl_add :: "double \<Rightarrow> double \<Rightarrow> double" where
  "dbl_add (Fin x) (Fin y) = fl (x + y)"
| "dbl_add NaN _ = NaN"
| "dbl_add _ NaN = NaN"
| "dbl_add PInf MInf = NaN"
| "dbl_add MInf PInf = NaN"
| "dbl_add PInf _ = PInf"
| "dbl_add _ PInf = PInf"
| "dbl_add MInf _ = MInf"
| "dbl_add _ MInf = MInf"

definition dbl_sub :: "double \<Rightarrow> double \<Rightarrow> double" where
  "dbl_sub a b = dbl_add a (dbl_neg b)"

fun dbl_less :: "double \<Rightarrow> double \<Rightarrow> bool" where
  "dbl_less NaN _ = False"
| "dbl_less _ NaN = False"
| "dbl_less (Fin x) (Fin y) = (x < y)"
| "dbl_less MInf b = (b \<noteq> MInf)"
| "dbl_less a PInf = (a \<noteq> PInf)"
| "dbl_less _ _ = False"

definition dbl_eq :: "double \<Rightarrow> double \<Rightarrow> bool" where
  "dbl_eq a b = (a = b \<and> a \<noteq> NaN)"

definition dbl_le :: "double \<Rightarrow> double \<Rightarrow> bool" where
  "dbl_le a b = (dbl_less a b \<or> dbl_eq a b)"

lemma dbl_nan [simp]:
  "\<not> dbl_less NaN a" "\<not> dbl_less a NaN" "\<not> dbl_le NaN a" "\<not> dbl_le a NaN" "\<not> dbl_eq NaN a" "\<not> dbl_eq a NaN"
  "dbl_add NaN a = NaN" "dbl_add a NaN = NaN" "dbl_sub NaN a = NaN" "dbl_sub a NaN = NaN"
  by (cases a; simp add: dbl_le_def dbl_eq_def dbl_sub_def)+

lemma dbl_fin [simp]:
  "dbl_less (Fin x) (Fin y) = (x < y)" "dbl_le (Fin x) (Fin y) = (x \<le> y)" "dbl_eq (Fin x) (Fin y) = (x = y)"
  "dbl_sub (Fin x) (Fin y) = fl (x - y)"
  by (auto simp: dbl_le_def dbl_eq_def dbl_sub_def)

definition dbl_mul :: "double \<Rightarrow> double \<Rightarrow> double" where
  "dbl_mul a b =
     (case (a, b) of
        (Fin x, Fin y) \<Rightarrow> fl (x * y)
      | (NaN, _) \<Rightarrow> NaN
      | (_, NaN) \<Rightarrow> NaN
      | _ \<Rightarrow> if a = Fin 0 \<or> b = Fin 0 then NaN
             else if dbl_less a (Fin 0) = dbl_less b (Fin 0) then PInf else MInf)"

text \<open>integers below two to the 53 are exact\<close>

lemma round_even_int [simp]: "round_even (of_int n) = n"
  by (simp add: round_even_def Let_def)

lemma fl_int: "\<bar>m\<bar> < 2 ^ 53 \<Longrightarrow> fl (of_int m) = Fin (of_int m)"
proof (cases "m = 0")
  case False
  assume m: "\<bar>m\<bar> < 2 ^ 53"
  define e where "e = max (ilog 2 \<bar>of_int m\<bar> - 52) (- 1074)"
  have "1 \<le> \<bar>m\<bar>" using False by simp
  then have "(1::rat) \<le> \<bar>of_int m\<bar>" by (simp flip: of_int_abs)
  moreover have "nat \<lfloor>\<bar>of_int m :: rat\<bar>\<rfloor> = nat \<bar>m\<bar>" by (simp flip: of_int_abs)
  ultimately have "ilog 2 \<bar>of_int m\<bar> = int (floorlog 2 (nat \<bar>m\<bar>)) - 1" by (simp add: ilog_def)
  moreover have "floorlog 2 (nat \<bar>m\<bar>) \<le> 53" using m by (intro floorlog_leI) auto
  ultimately have "e \<le> 0" by (simp add: e_def)
  then obtain k where "- e = int k" using zero_le_imp_eq_int [of "- e"] by auto
  then have e: "e = - int k" by simp
  have u: "(2::rat) powi e = 1 / 2 ^ k" by (simp add: e power_int_minus inverse_eq_divide)
  have "of_int m / (2 powi e) = (of_int (m * 2 ^ k) :: rat)" unfolding u by simp
  then have "round_even (of_int m / (2 powi e)) = m * 2 ^ k" by (simp only: round_even_int)
  then have "of_int (round_even (of_int m / (2 powi e))) * 2 powi e = (of_int m :: rat)"
    unfolding u by simp
  moreover have "\<bar>of_int m :: rat\<bar> < 2 ^ 1024"
  proof -
    have "\<bar>m\<bar> < 2 ^ 1024" using m by (rule less_trans) simp
    then have "of_int \<bar>m\<bar> < (of_int (2 ^ 1024) :: rat)" by (simp only: of_int_less_iff)
    then show ?thesis by simp
  qed
  ultimately show ?thesis using False by (simp add: fl_def Let_def e_def [symmetric])
qed (simp add: fl_def)

lemma fl_0 [simp]: "fl 0 = Fin 0"
  by (simp add: fl_def)

text \<open>the double of an integer\<close>

definition dbl_int :: "int \<Rightarrow> double" where
  "dbl_int i = Fin (of_int i)"

lemma dbl_int_simps [simp]:
  "dbl_int x = dbl_int y \<longleftrightarrow> x = y" "dbl_eq (dbl_int x) (dbl_int y) \<longleftrightarrow> x = y" "dbl_less (dbl_int x) (dbl_int y) \<longleftrightarrow> x < y"
  "dbl_le (dbl_int x) (dbl_int y) \<longleftrightarrow> x \<le> y" "dbl_int x \<noteq> NaN" "dbl_int x \<noteq> PInf" "dbl_int x \<noteq> MInf"
  by (simp_all add: dbl_int_def)

lemma dbl_int_0: "Fin 0 = dbl_int 0"
  by (simp add: dbl_int_def)

lemma dbl_add_int: "\<bar>x + y\<bar> < 2 ^ 53 \<Longrightarrow> dbl_add (dbl_int x) (dbl_int y) = dbl_int (x + y)"
  unfolding dbl_int_def dbl_add.simps by (simp only: fl_int flip: of_int_add)

lemma dbl_sub_int: "\<bar>x - y\<bar> < 2 ^ 53 \<Longrightarrow> dbl_sub (dbl_int x) (dbl_int y) = dbl_int (x - y)"
  unfolding dbl_int_def dbl_fin by (simp only: fl_int flip: of_int_diff)

text \<open>rounding keeps the sign\<close>

lemma round_even_nonneg: "0 \<le> x \<Longrightarrow> 0 \<le> round_even x"
  by (simp add: round_even_def Let_def)

lemma fl_nonneg: assumes "0 \<le> x" shows "dbl_le (Fin 0) (fl x)"
proof (cases "x = 0")
  case False
  define u :: rat where "u = 2 powi (max (ilog 2 \<bar>x\<bar> - 52) (- 1074))"
  have "0 < u" by (simp add: u_def)
  then have "0 \<le> (of_int (round_even (x / u)) :: rat) * u" using assms by (simp add: round_even_nonneg)
  moreover have "fl x = (if 2 ^ 1024 \<le> \<bar>of_int (round_even (x / u)) * u\<bar> then PInf else Fin (of_int (round_even (x / u)) * u))"
    using False assms by (simp add: fl_def Let_def u_def)
  moreover have "dbl_le (Fin 0) PInf" by (simp add: dbl_le_def)
  ultimately show ?thesis by (simp del: power_numeral)
qed simp

section \<open>Decimal printing\<close>

fun dec_nat :: "nat \<Rightarrow> string" where
  "dec_nat n = (if n < 10 then [char_of (48 + n)] else dec_nat (n div 10) @ [char_of (48 + n mod 10)])"

declare dec_nat.simps [simp del]

definition dec_int :: "int \<Rightarrow> string" where
  "dec_int n = (if n < 0 then ''-'' @ dec_nat (nat (- n)) else dec_nat (nat n))"

text \<open>\<open>std::to_string\<close> of a double: six decimals\<close>

definition dec_double :: "double \<Rightarrow> string" where
  "dec_double a =
     (case a of
        PInf \<Rightarrow> ''inf'' | MInf \<Rightarrow> ''-inf'' | NaN \<Rightarrow> ''nan''
      | Fin x \<Rightarrow>
          let n = nat (round_even (\<bar>x\<bar> * 1000000))
          in (if x < 0 then ''-'' else []) @ dec_nat (n div 1000000) @ ''.'' @ tl (dec_nat (1000000 + n mod 1000000)))"

lemma dec_nat_snoc: "d < 10 \<Longrightarrow> dec_nat (n * 10 + d) = (if n = 0 then [] else dec_nat n) @ [char_of (48 + d)]"
  by (cases "n = 0") (simp_all add: dec_nat.simps [of "n * 10 + d"] dec_nat.simps [of d])

end
