(* ===== verification/P2p_Ternary.thy ===== *)
theory P2p_Ternary
  imports P2p_Prelude "HOL-Library.Signed_Division"
begin

text \<open>
  The ternary codes of \<open>core/ternary.cpp\<close>: numbers and byte strings in ternary and balanced
  ternary notation, and the tree of remainders over a string. Decoding undoes encoding for
  every string; balanced notation covers every 64-bit integer but the least, on which the
  code overflows.
\<close>

section \<open>Numbers\<close>

text \<open>the range of int64_t\<close>

definition in_int64 :: "int \<Rightarrow> bool" where
  "in_int64 n \<longleftrightarrow> - (2 ^ 63) \<le> n \<and> n < 2 ^ 63"

text \<open>the loop of toBalancedTernary; % and / of C++ truncate\<close>

function to_balanced_loop :: "int \<Rightarrow> int list \<Rightarrow> int list cpp" where
  "to_balanced_loop n res =
     (if n = 0 then Inr res
      else let r = n smod 3;
               (r, n) = (if r = 2 then (- 1, n + 1) else if r = - 2 then (1, n - 1) else (r, n))
           in if \<not> in_int64 n then Inl Overflow
              else to_balanced_loop (n sdiv 3) (res @ [r]))"
  by pat_completeness auto

termination
proof (relation "measure (\<lambda>(n, res). nat \<bar>n\<bar>)", simp_all, goal_cases)
  case (1 n a b c d)
  then show ?case
    by (cases "n < 0") (auto simp: signed_divide_int_def signed_modulo_int_def sgn_if split: if_splits; presburger)+
qed

declare to_balanced_loop.simps [simp del]

definition toBalancedTernary :: "int \<Rightarrow> int list cpp" where
  "toBalancedTernary n =
     (case to_balanced_loop n [] of
        Inl f \<Rightarrow> Inl f
      | Inr res \<Rightarrow> Inr (rev (if res = [] then [0] else res)))"

definition balanced_step :: "int cpp \<Rightarrow> int \<Rightarrow> int cpp" where
  "balanced_step v d =
     (case v of
        Inl f \<Rightarrow> Inl f
      | Inr v \<Rightarrow> if \<not> in_int64 (v * 3) \<or> \<not> in_int64 (v * 3 + d) then Inl Overflow else Inr (v * 3 + d))"

definition fromBalancedTernary :: "int list \<Rightarrow> int cpp" where
  "fromBalancedTernary t = foldl balanced_step (Inr 0) t"

fun to_ternary_loop :: "nat \<Rightarrow> nat list \<Rightarrow> nat list" where
  "to_ternary_loop n res = (if n = 0 then res else to_ternary_loop (n div 3) (res @ [n mod 3]))"

declare to_ternary_loop.simps [simp del]

definition toTernary :: "nat \<Rightarrow> nat list" where
  "toTernary n = rev (to_ternary_loop n (if n = 0 then [0] else []))"

text \<open>unsigned arithmetic: it wraps\<close>

definition fromTernary :: "nat list \<Rightarrow> u64" where
  "fromTernary t = foldl (\<lambda>v d. v * 3 + of_nat d) 0 t"

section \<open>Strings\<close>

definition digit_char :: "nat \<Rightarrow> char" where
  "digit_char d = char_of (48 + d)"

definition encodeBinary :: "string \<Rightarrow> string" where
  "encodeBinary data = concat (map (\<lambda>c. map digit_char (toTernary (of_char c)) @ ''|'') data)"

fun decode_step :: "string \<times> nat list \<Rightarrow> char \<Rightarrow> string \<times> nat list" where
  "decode_step (out, cur) ch =
     (if ch = CHR ''|'' then (out @ [char_of (unat (fromTernary cur))], [])
      else if CHR ''0'' \<le> ch \<and> ch \<le> CHR ''2'' then (out, cur @ [of_char ch - 48])
      else (out, cur))"

definition decodeTernary :: "string \<Rightarrow> string" where
  "decodeTernary enc = fst (foldl decode_step ([], []) enc)"

definition balanced_char :: "int \<Rightarrow> char" where
  "balanced_char x = (if x = - 1 then CHR ''T'' else char_of (nat (48 + x)))"

fun encodeBalanced :: "string \<Rightarrow> string cpp" where
  "encodeBalanced [] = Inr []"
| "encodeBalanced (c # data) =
     (case toBalancedTernary (of_char c) of
        Inl f \<Rightarrow> Inl f
      | Inr t \<Rightarrow>
          (case encodeBalanced data of
             Inl f \<Rightarrow> Inl f
           | Inr out \<Rightarrow> Inr (map balanced_char t @ ''|'' @ out)))"

fun decode_balanced_step :: "(string \<times> int list) cpp \<Rightarrow> char \<Rightarrow> (string \<times> int list) cpp" where
  "decode_balanced_step (Inl f) ch = Inl f"
| "decode_balanced_step (Inr (out, cur)) ch =
     (if ch = CHR ''|'' then
        (case fromBalancedTernary cur of Inl f \<Rightarrow> Inl f | Inr v \<Rightarrow> Inr (out @ [char_of v], []))
      else if ch = CHR ''T'' then Inr (out, cur @ [- 1])
      else if CHR ''0'' \<le> ch \<and> ch \<le> CHR ''2'' then Inr (out, cur @ [of_char ch - 48])
      else Inr (out, cur))"

definition decodeBalanced :: "string \<Rightarrow> string cpp" where
  "decodeBalanced enc =
     (case foldl decode_balanced_step (Inr ([], [])) enc of Inl f \<Rightarrow> Inl f | Inr (out, _) \<Rightarrow> Inr out)"

section \<open>Trees\<close>

text \<open>char is signed here, and so is its remainder\<close>

definition signed_char :: "char \<Rightarrow> int" where
  "signed_char c = (if (of_char c :: int) < 128 then of_char c else of_char c - 256)"

text \<open>one level from the level below it\<close>

definition tree_parents :: "int list \<Rightarrow> nat \<Rightarrow> int list" where
  "tree_parents level n =
     map (\<lambda>i. (\<Sum>j\<leftarrow>[0..<3]. if i * 3 + j < length level then level ! (i * 3 + j) else 0) smod 3) [0..<n]"

fun tree_levels :: "nat \<Rightarrow> int list \<Rightarrow> int list list" where
  "tree_levels 0 level = [level]"
| "tree_levels (Suc d) level = tree_levels d (tree_parents level (3 ^ d)) @ [level]"

text \<open>a tree of no levels has no last level; above depth 18 the node count does not fit an int\<close>

definition buildTernaryTree :: "string \<Rightarrow> int \<Rightarrow> int list list cpp" where
  "buildTernaryTree data depth =
     (if depth < - 1 then Inl Length_Error
      else if depth = - 1 then if data = [] then Inr [] else Inl Bad_Index
      else if 18 < depth then Inl Overflow
      else let n = 3 ^ nat depth
           in Inr (tree_levels (nat depth)
                (map (\<lambda>i. if i < length data then signed_char (data ! i) smod 3 else 0) [0..<n])))"

definition verifyTernaryTree :: "int list list \<Rightarrow> string \<Rightarrow> bool cpp" where
  "verifyTernaryTree tree data =
     (if tree = [] then if data = [] then Inr True else Inl Bad_Index
      else let leaves = last tree
           in Inr (\<forall>i\<in>set [0..<min (length data) (length leaves)]. leaves ! i = signed_char (data ! i) smod 3))"

section \<open>Numbers: decoding undoes encoding\<close>

lemma to_ternary_loop_append: "to_ternary_loop n res = res @ to_ternary_loop n []"
proof (induction n arbitrary: res rule: less_induct)
  case (less n)
  show ?case
  proof (cases "n = 0")
    case False
    then have "to_ternary_loop n r = to_ternary_loop (n div 3) (r @ [n mod 3])" for r
      by (subst to_ternary_loop.simps) simp
    moreover have "to_ternary_loop (n div 3) r = r @ to_ternary_loop (n div 3) []" for r
      using less [of "n div 3" r] False by simp
    ultimately show ?thesis by (metis append.assoc append_Nil)
  qed (simp add: to_ternary_loop.simps)
qed

lemma to_ternary_loop_0 [simp]: "to_ternary_loop 0 res = res"
  by (simp add: to_ternary_loop.simps)

lemma to_ternary_loop_Cons: "0 < n \<Longrightarrow> to_ternary_loop n [] = (n mod 3) # to_ternary_loop (n div 3) []"
  by (subst to_ternary_loop.simps) (simp add: to_ternary_loop_append [of _ "[_]"])

lemma fromTernary_snoc: "fromTernary (t @ [d]) = fromTernary t * 3 + of_nat d"
  by (simp add: fromTernary_def)

lemma to_ternary_loop_value:
  "fromTernary (rev (to_ternary_loop n [])) = of_nat n \<and> (\<forall>d\<in>set (to_ternary_loop n []). d < 3)"
proof (induction n rule: less_induct)
  case (less n)
  show ?case
  proof (cases "n = 0")
    case False
    then have c: "to_ternary_loop n [] = (n mod 3) # to_ternary_loop (n div 3) []"
      by (simp only: to_ternary_loop_Cons)
    have ih: "fromTernary (rev (to_ternary_loop (n div 3) [])) = of_nat (n div 3)"
      "\<forall>d\<in>set (to_ternary_loop (n div 3) []). d < 3"
      using less [of "n div 3"] False by simp_all
    have "fromTernary (rev (to_ternary_loop n [])) = of_nat (n div 3) * 3 + of_nat (n mod 3)"
      unfolding c rev.simps fromTernary_snoc ih(1) ..
    also have "\<dots> = of_nat (n div 3 * 3 + n mod 3)" by (simp only: of_nat_add of_nat_mult of_nat_numeral)
    finally have "fromTernary (rev (to_ternary_loop n [])) = of_nat n" by (simp only: div_mult_mod_eq)
    moreover have "\<forall>d\<in>set (to_ternary_loop n []). d < 3" unfolding c using ih(2) by simp
    ultimately show ?thesis ..
  qed (simp add: to_ternary_loop.simps fromTernary_def)
qed

lemma toTernary_eq: "toTernary n = (if n = 0 then [0] else rev (to_ternary_loop n []))"
  by (simp add: toTernary_def)

lemma fromTernary_toTernary: "fromTernary (toTernary n) = of_nat n"
proof (cases "n = 0")
  case True
  then show ?thesis by (simp add: toTernary_eq fromTernary_def)
next
  case False
  then show ?thesis using to_ternary_loop_value [of n] unfolding toTernary_eq by (simp only: if_False)
qed

lemma toTernary_digits: "d \<in> set (toTernary n) \<Longrightarrow> d < 3"
proof (cases "n = 0")
  case False
  then show "d \<in> set (toTernary n) \<Longrightarrow> d < 3"
    using to_ternary_loop_value [of n] unfolding toTernary_eq by (simp only: if_False set_rev)
qed (simp add: toTernary_eq)

section \<open>Strings: decoding undoes encoding\<close>

lemma digit_chars:
  "digit_char 0 = CHR ''0''" "digit_char (Suc 0) = CHR ''1''" "digit_char (Suc (Suc 0)) = CHR ''2''"
  by (simp_all add: digit_char_def char_of_eq_iff)

lemma digit_char_decode:
  "d < 3 \<Longrightarrow> digit_char d \<noteq> CHR ''|'' \<and> CHR ''0'' \<le> digit_char d \<and> digit_char d \<le> CHR ''2'' \<and> of_char (digit_char d) - 48 = d"
  by (auto simp: digit_chars less_eq_char_def numeral_3_eq_3 less_Suc_eq)

lemma decode_digits:
  "\<forall>d\<in>set t. d < 3 \<Longrightarrow> foldl decode_step (out, cur) (map digit_char t) = (out, cur @ t)"
  by (induction t arbitrary: cur) (simp_all add: digit_char_decode)

lemma decode_encode: "foldl decode_step (out, []) (encodeBinary data) = (out @ data, [])"
proof (induction data arbitrary: out)
  case (Cons c data)
  have "foldl decode_step (out, []) (map digit_char (toTernary (of_char c)) @ ''|'') = (out @ [c], [])"
  proof -
    have "of_char c mod 2 ^ 64 = (of_char c :: nat)"
      by (rule mod_less, rule less_trans [OF nat_of_char_less_256]) simp
    then have "unat (fromTernary (toTernary (of_char c))) = of_char c"
      by (simp add: fromTernary_toTernary unat_of_nat)
    then have "char_of (unat (fromTernary (toTernary (of_char c)))) = c" by simp
    then show ?thesis by (simp add: decode_digits toTernary_digits)
  qed
  then show ?case using Cons by (simp add: encodeBinary_def)
qed (simp add: encodeBinary_def)

lemma decode_encodeBinary: "decodeTernary (encodeBinary data) = data"
  by (simp add: decodeTernary_def decode_encode)

text \<open>no line break, so that a line of a file holds one encoded string\<close>

lemma encodeBinary_lines: "ch \<in> set (encodeBinary data) \<Longrightarrow> ch \<in> set ''012|''"
proof -
  assume "ch \<in> set (encodeBinary data)"
  then have "\<exists>c. ch \<in> set (map digit_char (toTernary (of_char c)) @ ''|'')"
    by (auto simp: encodeBinary_def split: if_splits)
  then obtain c where "ch \<in> set (map digit_char (toTernary (of_char c)) @ ''|'')" ..
  then consider "ch = CHR ''|''" | d where "ch = digit_char d" "d < 3"
    using toTernary_digits by auto
  then show ?thesis by cases (auto simp: digit_chars numeral_3_eq_3 less_Suc_eq)
qed

lemma encodeBinary_Nil_iff: "encodeBinary data = [] \<longleftrightarrow> data = []"
  by (cases data) (simp_all add: encodeBinary_def)

section \<open>Balanced notation\<close>

text \<open>one round of the loop, as the code computes it\<close>

definition balanced_round :: "int \<Rightarrow> int \<times> int" where
  "balanced_round n =
     (let r = n smod 3 in if r = 2 then (- 1, n + 1) else if r = - 2 then (1, n - 1) else (r, n))"

lemma balanced_round_cases:
  assumes "n \<noteq> 0" "in_int64 n" "n \<noteq> - (2 ^ 63)" "balanced_round n = (r, m)"
  shows "m sdiv 3 * 3 + r = n" "r \<in> {- 1, 0, 1}" "\<bar>m sdiv 3\<bar> < \<bar>n\<bar>" "in_int64 m" "in_int64 (m sdiv 3)"
    "m sdiv 3 \<noteq> - (2 ^ 63)" "in_int64 (m sdiv 3 * 3)"
proof -
  have rm: "r = (if n smod 3 = 2 then - 1 else if n smod 3 = - 2 then 1 else n smod 3)"
    "m = (if n smod 3 = 2 then n + 1 else if n smod 3 = - 2 then n - 1 else n)"
    using assms(4) by (auto simp: balanced_round_def Let_def split: if_splits)
  have "m sdiv 3 * 3 + r = n \<and> r \<in> {- 1, 0, 1} \<and> \<bar>m sdiv 3\<bar> < \<bar>n\<bar> \<and> in_int64 m \<and> in_int64 (m sdiv 3) \<and>
      m sdiv 3 \<noteq> - (2 ^ 63) \<and> in_int64 (m sdiv 3 * 3)"
  proof (cases "0 < n")
    case True
    define q s where "q = n div 3" and "s = n mod 3"
    have n: "n = 3 * q + s" "0 \<le> s" "s < 3" by (simp_all add: q_def s_def)
    have mod: "n smod 3 = s" using True by (simp add: signed_modulo_int_def signed_divide_int_def s_def minus_mult_div_eq_mod)
    then have r: "r = (if s = 2 then - 1 else s)" and m: "m = (if s = 2 then 3 * (q + 1) else 3 * q + s)"
      using rm n by auto
    have "m sdiv 3 = (if s = 2 then q + 1 else q)"
      using n True unfolding m by (auto simp: signed_divide_int_def sgn_if)
    then show ?thesis using n True assms(2,3) r m by (auto simp: in_int64_def)
  next
    case False
    define k where "k = - n"
    define q s where "q = k div 3" and "s = k mod 3"
    have k: "0 < k" using False assms(1) by (simp add: k_def)
    have n: "n = - (3 * q + s)" "0 \<le> s" "s < 3" by (simp_all add: q_def s_def k_def)
    have mod: "n smod 3 = - s" using k by (simp add: signed_modulo_int_def signed_divide_int_def s_def k_def minus_mult_div_eq_mod)
    then have r: "r = (if s = 2 then 1 else - s)" and m: "m = (if s = 2 then - (3 * (q + 1)) else - (3 * q + s))"
      using rm n by auto
    have "m sdiv 3 = - (if s = 2 then q + 1 else q)"
      using n k unfolding m k_def by (auto simp: signed_divide_int_def sgn_if)
    then show ?thesis using n k assms(2,3) r m unfolding k_def by (auto simp: in_int64_def)
  qed
  then show "m sdiv 3 * 3 + r = n" "r \<in> {- 1, 0, 1}" "\<bar>m sdiv 3\<bar> < \<bar>n\<bar>" "in_int64 m" "in_int64 (m sdiv 3)"
    "m sdiv 3 \<noteq> - (2 ^ 63)" "in_int64 (m sdiv 3 * 3)" by simp_all
qed

lemma to_balanced_loop_round:
  "n \<noteq> 0 \<Longrightarrow> balanced_round n = (r, m) \<Longrightarrow> to_balanced_loop n res =
    (if \<not> in_int64 m then Inl Overflow else to_balanced_loop (m sdiv 3) (res @ [r]))"
  by (subst to_balanced_loop.simps) (simp add: balanced_round_def Let_def split: if_splits)

lemma to_balanced_loop_value:
  assumes "in_int64 n" "n \<noteq> - (2 ^ 63)"
  shows "\<exists>ds. (\<forall>res. to_balanced_loop n res = Inr (res @ ds)) \<and> set ds \<subseteq> {- 1, 0, 1} \<and>
    fromBalancedTernary (rev ds) = Inr n \<and> (ds = [] \<longleftrightarrow> n = 0)"
  using assms
proof (induction "nat \<bar>n\<bar>" arbitrary: n rule: less_induct)
  case less
  show ?case
  proof (cases "n = 0")
    case True
    then show ?thesis by (intro exI [of _ "[]"]) (simp add: to_balanced_loop.simps fromBalancedTernary_def)
  next
    case False
    obtain r m where rm: "balanced_round n = (r, m)" by (metis surj_pair)
    note c = balanced_round_cases [OF False less.prems rm]
    obtain ds where ds: "\<And>res. to_balanced_loop (m sdiv 3) res = Inr (res @ ds)" "set ds \<subseteq> {- 1, 0, 1}"
      "fromBalancedTernary (rev ds) = Inr (m sdiv 3)"
    proof -
      have "nat \<bar>m sdiv 3\<bar> < nat \<bar>n\<bar>" using c(3) by simp
      from less.hyps [OF this c(5,6)] show ?thesis using that by blast
    qed
    have "fromBalancedTernary (rev (r # ds)) = balanced_step (Inr (m sdiv 3)) r"
      using ds(3) by (simp add: fromBalancedTernary_def)
    also have "\<dots> = Inr n" using c(1,7) less.prems(1) by (simp add: balanced_step_def)
    finally have "fromBalancedTernary (rev (r # ds)) = Inr n" .
    moreover have "to_balanced_loop n res = Inr (res @ r # ds)" for res
      using to_balanced_loop_round [OF False rm] c(4) ds(1) by simp
    ultimately show ?thesis using c(2) ds(2) False by (intro exI [of _ "r # ds"]) auto
  qed
qed

lemma balanced_round_trip:
  assumes "in_int64 n"
  shows "n \<noteq> - (2 ^ 63) \<Longrightarrow> \<exists>t. toBalancedTernary n = Inr t \<and> set t \<subseteq> {- 1, 0, 1} \<and> fromBalancedTernary t = Inr n"
    and "toBalancedTernary (- (2 ^ 63)) = Inl Overflow"
proof -
  assume "n \<noteq> - (2 ^ 63)"
  then obtain ds where "to_balanced_loop n [] = Inr ds" "set ds \<subseteq> {- 1, 0, 1}" "fromBalancedTernary (rev ds) = Inr n" "ds = [] \<longleftrightarrow> n = 0"
    using to_balanced_loop_value [OF assms] by fastforce
  then show "\<exists>t. toBalancedTernary n = Inr t \<and> set t \<subseteq> {- 1, 0, 1} \<and> fromBalancedTernary t = Inr n"
    by (intro exI [of _ "rev (if ds = [] then [0] else ds)"])
       (auto simp: toBalancedTernary_def fromBalancedTernary_def balanced_step_def in_int64_def)
next
  have "balanced_round (- (2 ^ 63)) = (1, - (2 ^ 63) - 1)" by code_simp
  then show "toBalancedTernary (- (2 ^ 63)) = Inl Overflow"
    by (simp add: toBalancedTernary_def to_balanced_loop_round in_int64_def)
qed

lemma balanced_chars:
  "balanced_char (- 1) = CHR ''T''" "balanced_char 0 = CHR ''0''" "balanced_char 1 = CHR ''1''"
  by (simp_all add: balanced_char_def char_of_eq_iff)

lemma decode_balanced_digits:
  "set t \<subseteq> {- 1, 0, 1} \<Longrightarrow>
   foldl decode_balanced_step (Inr (out, cur)) (map balanced_char t) = Inr (out, cur @ t)"
  by (induction t arbitrary: cur) (auto simp: balanced_chars less_eq_char_def)

lemma decode_encodeBalanced_fold:
  "\<exists>enc. encodeBalanced data = Inr enc \<and> (\<forall>out. foldl decode_balanced_step (Inr (out, [])) enc = Inr (out @ data, []))"
proof (induction data)
  case (Cons c data)
  have i: "(of_char c :: int) = int (of_char c)" by (rule of_nat_of_char [symmetric])
  have "0 \<le> (of_char c :: int) \<and> (of_char c :: int) < 256"
    unfolding i using nat_of_char_less_256 [of c] by linarith
  then have "in_int64 (of_char c)" "(of_char c :: int) \<noteq> - (2 ^ 63)" by (auto simp: in_int64_def)
  then obtain t where t: "toBalancedTernary (of_char c) = Inr t" "set t \<subseteq> {- 1, 0, 1}" "fromBalancedTernary t = Inr (of_char c)"
    using balanced_round_trip(1) by blast
  obtain enc where enc: "encodeBalanced data = Inr enc"
    "\<And>out. foldl decode_balanced_step (Inr (out, [])) enc = Inr (out @ data, [])"
    using Cons by blast
  show ?case
    using t enc by (intro exI [of _ "map balanced_char t @ ''|'' @ enc"]) (simp add: decode_balanced_digits)
qed simp

lemma decode_encodeBalanced: "\<exists>enc. encodeBalanced data = Inr enc \<and> decodeBalanced enc = Inr data"
  using decode_encodeBalanced_fold [of data] by (auto simp: decodeBalanced_def)

text \<open>
  C12: Both codes give back every byte string, and balanced ternary gives back every 64-bit
  integer except the least, on which the subtraction of the code overflows.
\<close>

theorem ternary_round_trip:
  "decodeTernary (encodeBinary s) = s \<and>
   (\<exists>enc. encodeBalanced s = Inr enc \<and> decodeBalanced enc = Inr s) \<and>
   (in_int64 n \<longrightarrow> n \<noteq> - (2 ^ 63) \<longrightarrow> (\<exists>t. toBalancedTernary n = Inr t \<and> fromBalancedTernary t = Inr n)) \<and>
   toBalancedTernary (- (2 ^ 63)) = Inl Overflow"
  using balanced_round_trip [of n] balanced_round_trip(2) [of 0]
  by (auto simp: decode_encodeBinary decode_encodeBalanced in_int64_def)

lemma ternary_round_trip_witness:
  "\<exists>t. toBalancedTernary (- 5) = Inr t \<and> fromBalancedTernary t = Inr (- 5)"
  using ternary_round_trip [of "[]" "- 5"] by (simp add: in_int64_def)

section \<open>Trees\<close>

text \<open>the test of a tree looks at its leaves only, so it accepts what was built, and any inner nodes\<close>

lemma tree_levels_last: "\<exists>ls. tree_levels d level = ls @ [level]"
  by (cases d) auto

lemma verify_built_tree:
  assumes "buildTernaryTree s d = Inr t" "0 \<le> d"
  shows "verifyTernaryTree t s = Inr True" "verifyTernaryTree (rev (map (map (\<lambda>_. x)) (tl (rev t))) @ [last t]) s = Inr True"
proof -
  obtain ls where t: "t = ls @ [map (\<lambda>i. if i < length s then signed_char (s ! i) smod 3 else 0) [0..<3 ^ nat d]]"
    using assms tree_levels_last by (fastforce simp: buildTernaryTree_def Let_def split: if_splits)
  show "verifyTernaryTree t s = Inr True" "verifyTernaryTree (rev (map (map (\<lambda>_. x)) (tl (rev t))) @ [last t]) s = Inr True"
    unfolding t by (simp_all add: verifyTernaryTree_def)
qed

end
