(* ===== verification/P2p_Store.thy ===== *)
theory P2p_Store
  imports P2p_Ternary
begin

text \<open>
  The data stores of \<open>p2p_banking_system/database\<close>: the key-value store, the indexer, and
  the database with expiry times and a file of ternary-encoded lines. The key-value store
  is a dictionary; the file gives back what was saved; the methods of the database that
  lock its mutex twice never return.
\<close>

section \<open>The key-value store\<close>

record kv_store =
  kv_data :: "(string, string) std_map"
  kv_indexes :: "(string, string list) std_map"

definition kv_empty :: kv_store where
  "kv_empty = \<lparr>kv_data = [], kv_indexes = []\<rparr>"

definition kv_put :: "string \<Rightarrow> string \<Rightarrow> kv_store \<Rightarrow> kv_store" where
  "kv_put key value s = s\<lparr>kv_data := map_put key value (kv_data s)\<rparr>"

definition kv_get :: "string \<Rightarrow> kv_store \<Rightarrow> string" where
  "kv_get key s = (case map_of (kv_data s) key of Some v \<Rightarrow> v | None \<Rightarrow> [])"

definition kv_remove :: "string \<Rightarrow> kv_store \<Rightarrow> bool \<times> kv_store" where
  "kv_remove key s = (map_of (kv_data s) key \<noteq> None, s\<lparr>kv_data := map_erase key (kv_data s)\<rparr>)"

definition kv_has :: "string \<Rightarrow> kv_store \<Rightarrow> bool" where
  "kv_has key s = (map_of (kv_data s) key \<noteq> None)"

definition kv_batchPut :: "(string, string) std_map \<Rightarrow> kv_store \<Rightarrow> kv_store" where
  "kv_batchPut items s = foldl (\<lambda>s (key, value). kv_put key value s) s items"

definition kv_getRange :: "string \<Rightarrow> string \<Rightarrow> kv_store \<Rightarrow> (string, string) std_map" where
  "kv_getRange start stop s =
     foldl (\<lambda>result (key, value). if start \<le> key \<and> key \<le> stop then map_put key value result else result) [] (kv_data s)"

definition kv_addIndex :: "string \<Rightarrow> string \<Rightarrow> kv_store \<Rightarrow> kv_store" where
  "kv_addIndex indexName key s = s\<lparr>kv_indexes := map_change [] indexName (\<lambda>ks. ks @ [key]) (kv_indexes s)\<rparr>"

definition kv_getByIndex :: "string \<Rightarrow> kv_store \<Rightarrow> string list" where
  "kv_getByIndex indexName s = (case map_of (kv_indexes s) indexName of Some ks \<Rightarrow> ks | None \<Rightarrow> [])"

definition kv_size :: "kv_store \<Rightarrow> nat" where
  "kv_size s = length (kv_data s)"

definition kv_clear :: "kv_store \<Rightarrow> kv_store" where
  "kv_clear s = s\<lparr>kv_data := [], kv_indexes := []\<rparr>"

section \<open>The indexer\<close>

type_synonym indices = "(string, (string, string set) std_map) std_map"

definition addToIndex :: "string \<Rightarrow> string \<Rightarrow> string \<Rightarrow> indices \<Rightarrow> indices" where
  "addToIndex indexName indexValue recordId ix =
     map_change [] indexName (map_change {} indexValue (insert recordId)) ix"

definition removeFromIndex :: "string \<Rightarrow> string \<Rightarrow> string \<Rightarrow> indices \<Rightarrow> indices" where
  "removeFromIndex indexName indexValue recordId ix =
     (case map_of ix indexName of
        None \<Rightarrow> ix
      | Some valueMap \<Rightarrow>
          let valueMap = (case map_of valueMap indexValue of
                None \<Rightarrow> valueMap
              | Some records \<Rightarrow>
                  if records - {recordId} = {} then map_erase indexValue valueMap
                  else map_put indexValue (records - {recordId}) valueMap)
          in if valueMap = [] then map_erase indexName ix else map_put indexName valueMap ix)"

definition queryIndex :: "string \<Rightarrow> string \<Rightarrow> indices \<Rightarrow> string set" where
  "queryIndex indexName indexValue ix =
     (case map_of ix indexName of
        None \<Rightarrow> {}
      | Some valueMap \<Rightarrow> (case map_of valueMap indexValue of None \<Rightarrow> {} | Some records \<Rightarrow> records))"

definition queryRange :: "string \<Rightarrow> string \<Rightarrow> string \<Rightarrow> indices \<Rightarrow> string set" where
  "queryRange indexName start stop ix =
     (case map_of ix indexName of
        None \<Rightarrow> {}
      | Some valueMap \<Rightarrow>
          foldl (\<lambda>result (value, records). if start \<le> value \<and> value \<le> stop then result \<union> records else result) {} valueMap)"

definition dropIndex :: "string \<Rightarrow> indices \<Rightarrow> indices" where
  "dropIndex indexName ix = map_erase indexName ix"

definition indexer_clear :: "indices \<Rightarrow> indices" where
  "indexer_clear ix = []"

definition getIndexSize :: "string \<Rightarrow> indices \<Rightarrow> nat" where
  "getIndexSize indexName ix =
     (case map_of ix indexName of
        None \<Rightarrow> 0
      | Some valueMap \<Rightarrow> foldl (\<lambda>total (value, records). total + card records) 0 valueMap)"

section \<open>The database\<close>

text \<open>\<open>db_file\<close> is the contents of the file, None when it cannot be opened for reading\<close>

record db =
  db_data :: "(string, string) std_map"
  db_expiry :: "(string, u64) std_map"
  db_autoSave :: bool
  db_file :: "string option"

text \<open>the lines that getline gives: the text behind the last line break is one if not empty\<close>

fun getlines :: "string \<Rightarrow> string \<Rightarrow> string list" where
  "getlines line [] = (if line = [] then [] else [line])"
| "getlines line (c # cs) = (if c = CHR 0x0A then line # getlines [] cs else getlines (line @ [c]) cs)"

text \<open>the text before and behind the first colon\<close>

definition split_colon :: "string \<Rightarrow> (string \<times> string) option" where
  "split_colon s =
     (if CHR '':'' \<in> set s then Some (takeWhile (\<lambda>c. c \<noteq> CHR '':'') s, tl (dropWhile (\<lambda>c. c \<noteq> CHR '':'') s)) else None)"

definition load_line :: "(string, string) std_map \<Rightarrow> string \<Rightarrow> (string, string) std_map" where
  "load_line m line =
     (if line = [] then m
      else case split_colon (decodeTernary line) of
        None \<Rightarrow> m
      | Some (key, value) \<Rightarrow> map_put key value m)"

definition loadFromDisk :: "db \<Rightarrow> db" where
  "loadFromDisk d =
     (case db_file d of
        None \<Rightarrow> d
      | Some text \<Rightarrow> d\<lparr>db_data := foldl load_line (db_data d) (getlines [] text)\<rparr>)"

text \<open>\<open>held\<close>: the calling thread holds the mutex already\<close>

definition saveToDisk :: "bool \<Rightarrow> db \<Rightarrow> db cpp" where
  "saveToDisk held d =
     (if held then Inl Deadlock
      else Inr (d\<lparr>db_file := Some (concat (map (\<lambda>(key, value).
             encodeBinary (key @ '':'' @ value) @ [CHR 0x0A]) (db_data d)))\<rparr>))"

definition cleanupExpired :: "bool \<Rightarrow> u64 \<Rightarrow> db \<Rightarrow> db cpp" where
  "cleanupExpired held now d =
     (if held then Inl Deadlock
      else Inr (foldl (\<lambda>d (key, t).
             if t \<le> now then d\<lparr>db_data := map_erase key (db_data d), db_expiry := map_erase key (db_expiry d)\<rparr> else d)
             d (db_expiry d)))"

definition db_open :: "bool \<Rightarrow> string option \<Rightarrow> db" where
  "db_open autoSave text = loadFromDisk \<lparr>db_data = [], db_expiry = [], db_autoSave = autoSave, db_file = text\<rparr>"

definition db_destroy :: "db \<Rightarrow> db cpp" where
  "db_destroy d = (if db_autoSave d then saveToDisk False d else Inr d)"

definition db_set :: "string \<Rightarrow> string \<Rightarrow> u64 \<Rightarrow> u64 \<Rightarrow> db \<Rightarrow> (bool \<times> db) cpp" where
  "db_set key value ttlMs now d =
     (let d = d\<lparr>db_data := map_put key value (db_data d)\<rparr>;
          d = (if 0 < ttlMs then d\<lparr>db_expiry := map_put key (now + ttlMs) (db_expiry d)\<rparr>
               else d\<lparr>db_expiry := map_erase key (db_expiry d)\<rparr>)
      in if db_autoSave d then (case saveToDisk True d of Inl f \<Rightarrow> Inl f | Inr d \<Rightarrow> Inr (True, d))
         else Inr (True, d))"

definition db_get :: "string \<Rightarrow> u64 \<Rightarrow> db \<Rightarrow> (string \<times> db) cpp" where
  "db_get key now d =
     (case cleanupExpired True now d of
        Inl f \<Rightarrow> Inl f
      | Inr d \<Rightarrow> Inr (case map_of (db_data d) key of Some v \<Rightarrow> v | None \<Rightarrow> [], d))"

definition db_del :: "string \<Rightarrow> db \<Rightarrow> (bool \<times> db) cpp" where
  "db_del key d =
     (let d = d\<lparr>db_data := map_erase key (db_data d), db_expiry := map_erase key (db_expiry d)\<rparr>
      in if db_autoSave d then (case saveToDisk True d of Inl f \<Rightarrow> Inl f | Inr d \<Rightarrow> Inr (True, d))
         else Inr (True, d))"

definition db_exists :: "string \<Rightarrow> db \<Rightarrow> bool" where
  "db_exists key d = (map_of (db_data d) key \<noteq> None)"

text \<open>a substring test\<close>

fun has_substring :: "string \<Rightarrow> string \<Rightarrow> bool" where
  "has_substring pat [] = (pat = [])"
| "has_substring pat (c # cs) = (take (length pat) (c # cs) = pat \<or> has_substring pat cs)"

definition db_keys :: "string \<Rightarrow> db \<Rightarrow> string list" where
  "db_keys pattern d = filter (\<lambda>key. pattern = [] \<or> has_substring pattern key) (map fst (db_data d))"

definition db_size :: "db \<Rightarrow> nat" where
  "db_size d = length (db_data d)"

definition db_flush :: "db \<Rightarrow> db cpp" where
  "db_flush d = saveToDisk False d"

definition db_close :: "db \<Rightarrow> db cpp" where
  "db_close d = saveToDisk False d"

section \<open>The key-value store is a dictionary\<close>

definition kv_ok :: "kv_store \<Rightarrow> bool" where
  "kv_ok s \<longleftrightarrow> map_ok (kv_data s)"

interpretation kv: dictionary kv_ok "\<lambda>s. map_of (kv_data s)" kv_put "\<lambda>k s. snd (kv_remove k s)"
  by unfold_locales (simp_all add: kv_ok_def kv_put_def kv_remove_def)

text \<open>the operations that change the data, and what they do to a finite map\<close>

datatype kv_op = Put string string | Remove string | Batch "(string, string) std_map" | Add_Index string string | Clear

fun kv_step :: "kv_store \<Rightarrow> kv_op \<Rightarrow> kv_store" where
  "kv_step s (Put k v) = kv_put k v s"
| "kv_step s (Remove k) = snd (kv_remove k s)"
| "kv_step s (Batch items) = kv_batchPut items s"
| "kv_step s (Add_Index i k) = kv_addIndex i k s"
| "kv_step s Clear = kv_clear s"

fun map_step :: "(string \<rightharpoonup> string) \<Rightarrow> kv_op \<Rightarrow> (string \<rightharpoonup> string)" where
  "map_step m (Put k v) = m(k \<mapsto> v)"
| "map_step m (Remove k) = m(k := None)"
| "map_step m (Batch items) = m ++ map_of (rev items)"
| "map_step m (Add_Index i k) = m"
| "map_step m Clear = Map.empty"

lemma kv_step_refines:
  "kv_ok s \<Longrightarrow> kv_ok (kv_step s op) \<and> map_of (kv_data (kv_step s op)) = map_step (map_of (kv_data s)) op"
  using kv.puts [of s] kv.put_wf kv.del_wf kv.find_put kv.find_del
  by (cases op) (simp_all add: kv_batchPut_def kv_addIndex_def kv_clear_def kv_ok_def)

lemma kv_run_refines:
  "kv_ok s \<Longrightarrow> kv_ok (foldl kv_step s ops) \<and> map_of (kv_data (foldl kv_step s ops)) = foldl map_step (map_of (kv_data s)) ops"
proof (induction ops arbitrary: s)
  case (Cons op ops)
  then show ?case using kv_step_refines [OF Cons.prems, of op] by simp
qed simp

lemma map_ok_size: "map_ok m \<Longrightarrow> length m = card (dom (map_of m))"
  using map_ok_distinct [of m] distinct_card [of "map fst m"] by (simp add: dom_map_of_conv_image_fst)

lemma range_fold:
  assumes "map_ok r"
  shows "map_of (foldl (\<lambda>r (k, v). if P k then map_put k v r else r) r m) = map_of r ++ (map_of (rev m) |` Collect P)"
  using assms
proof (induction m arbitrary: r)
  case (Cons kv m)
  obtain k v where kv: "kv = (k, v)" by (cases kv)
  show ?case
  proof (cases "P k")
    case True
    then show ?thesis using Cons.IH [of "map_put k v r"] Cons.prems
      by (auto simp: kv map_of_append fun_eq_iff map_add_def restrict_map_def split: option.splits)
  next
    case False
    then show ?thesis using Cons
      by (auto simp: kv map_of_append fun_eq_iff map_add_def restrict_map_def split: option.splits)
  qed
qed (simp add: restrict_map_def map_add_def)

lemma map_of_rev: "map_ok m \<Longrightarrow> map_of (rev m) = map_of m"
proof -
  assume "map_ok m"
  then have d: "distinct (map fst (rev m))" "distinct (map fst m)"
    using map_ok_distinct by (auto simp: rev_map [symmetric])
  show ?thesis
  proof
    fix k
    show "map_of (rev m) k = map_of m k"
    proof (cases "map_of m k")
      case None
      then have "map_of (rev m) k = None" by (simp add: map_of_eq_None_iff)
      then show ?thesis using None by (simp only:)
    next
      case (Some v)
      then have "(k, v) \<in> set (rev m)" by (simp add: map_of_SomeD)
      then show ?thesis using Some d(1) by simp
    qed
  qed
qed

text \<open>
  C14: Under every sequence of operations from the empty store the key-value store behaves as
  a finite map: lookups, membership, size and range queries are those of the map, and a
  batch is its sequence of insertions.
\<close>

theorem kv_refines_map:
  "let s = foldl kv_step kv_empty ops; m = foldl map_step Map.empty ops
   in kv_get k s = (case m k of Some v \<Rightarrow> v | None \<Rightarrow> []) \<and> kv_has k s = (k \<in> dom m) \<and>
      fst (kv_remove k s) = (k \<in> dom m) \<and> kv_size s = card (dom m) \<and>
      map_of (kv_getRange a b s) = m |` {a..b}"
proof -
  define s m where "s = foldl kv_step kv_empty ops" and "m = foldl map_step Map.empty ops"
  have s: "kv_ok s" "map_of (kv_data s) = m"
    using kv_run_refines [of kv_empty ops] by (simp_all add: s_def m_def kv_empty_def kv_ok_def)
  have "Collect (\<lambda>k. a \<le> k \<and> k \<le> b) = {a..b}" by auto
  then have "map_of (kv_getRange a b s) = m |` {a..b}"
    using range_fold [of "[]" "\<lambda>k. a \<le> k \<and> k \<le> b" "kv_data s"] s
    by (simp add: kv_getRange_def map_of_rev kv_ok_def map_add_def restrict_map_def fun_eq_iff)
  then show ?thesis using s map_ok_size [of "kv_data s"]
    unfolding s_def [symmetric] m_def [symmetric] Let_def
    by (auto simp: kv_get_def kv_has_def kv_remove_def kv_size_def kv_ok_def)
qed

section \<open>The indexer keeps no empty entries\<close>

definition indices_ok :: "indices \<Rightarrow> bool" where
  "indices_ok ix \<longleftrightarrow> map_ok ix \<and>
     (\<forall>n m. map_of ix n = Some m \<longrightarrow> map_ok m \<and> m \<noteq> [] \<and> (\<forall>v r. map_of m v = Some r \<longrightarrow> finite r \<and> r \<noteq> {}))"

lemma map_put_not_Nil [simp]: "map_put k v m \<noteq> []"
  by (induction k v m rule: map_put.induct) auto

lemma map_change_ok [simp]: "map_ok m \<Longrightarrow> map_ok (map_change d k f m)"
  by (simp add: map_change_def)

lemma map_of_change: "map_ok m \<Longrightarrow>
    map_of (map_change d k f m) = (map_of m)(k \<mapsto> f (case map_of m k of Some v \<Rightarrow> v | None \<Rightarrow> d))"
  by (simp add: map_change_def)

lemma addToIndex_ok:
  assumes "indices_ok ix"
  shows "indices_ok (addToIndex n v r ix)"
    "queryIndex n' v' (addToIndex n v r ix) = (if n' = n \<and> v' = v then insert r (queryIndex n v ix) else queryIndex n' v' ix)"
proof -
  let ?m = "case map_of ix n of Some m \<Rightarrow> m | None \<Rightarrow> []"
  have m: "map_ok ?m" "\<forall>v r. map_of ?m v = Some r \<longrightarrow> finite r \<and> r \<noteq> {}"
    using assms by (auto simp: indices_ok_def split: option.splits)
  have ix: "map_ok ix" using assms by (simp add: indices_ok_def)
  show "indices_ok (addToIndex n v r ix)"
    using assms m ix
    by (auto simp: indices_ok_def addToIndex_def map_of_change [of _ _ n] map_of_change [OF m(1)] split: if_splits option.splits)
       (simp add: map_change_def)+
  show "queryIndex n' v' (addToIndex n v r ix) = (if n' = n \<and> v' = v then insert r (queryIndex n v ix) else queryIndex n' v' ix)"
    using ix m(1) by (auto simp: queryIndex_def addToIndex_def map_of_change split: option.splits)
qed

lemma map_of_Nil_iff: "map_ok m \<Longrightarrow> m = [] \<longleftrightarrow> map_of m = Map.empty"
  by (cases m) (auto simp: fun_eq_iff)

lemma removeFromIndex_ok:
  assumes "indices_ok ix"
  shows "indices_ok (removeFromIndex n v r ix)"
    "queryIndex n' v' (removeFromIndex n v r ix) = (if n' = n \<and> v' = v then queryIndex n v ix - {r} else queryIndex n' v' ix)"
proof -
  have ix: "map_ok ix" using assms by (simp add: indices_ok_def)
  have "indices_ok (removeFromIndex n v r ix) \<and>
    queryIndex n' v' (removeFromIndex n v r ix) = (if n' = n \<and> v' = v then queryIndex n v ix - {r} else queryIndex n' v' ix)"
  proof (cases "map_of ix n")
    case None
    then show ?thesis using assms by (simp add: removeFromIndex_def queryIndex_def)
  next
    case (Some m)
    define m' where "m' = (case map_of m v of None \<Rightarrow> m
        | Some records \<Rightarrow> if records - {r} = {} then map_erase v m else map_put v (records - {r}) m)"
    have m: "map_ok m" "\<forall>v r. map_of m v = Some r \<longrightarrow> finite r \<and> r \<noteq> {}"
      using assms Some by (auto simp: indices_ok_def)
    have m': "map_ok m'" using m(1) by (auto simp: m'_def split: option.splits)
    have of: "map_of m' = (map_of m)(v := (case map_of m v of None \<Rightarrow> None | Some a \<Rightarrow> if a - {r} = {} then None else Some (a - {r})))"
      using m(1) by (auto simp: m'_def fun_eq_iff split: option.splits)
    have rem: "removeFromIndex n v r ix = (if m' = [] then map_erase n ix else map_put n m' ix)"
      unfolding removeFromIndex_def Some option.case m'_def [symmetric] Let_def ..
    have "indices_ok (removeFromIndex n v r ix)"
      using assms m m' ix unfolding rem
      by (auto simp: indices_ok_def of split: if_splits option.splits)
    moreover have "queryIndex n' v' (removeFromIndex n v r ix) = (if n' = n \<and> v' = v then queryIndex n v ix - {r} else queryIndex n' v' ix)"
      using ix m m' Some map_of_Nil_iff [OF m'] unfolding rem
      by (auto simp: queryIndex_def of fun_eq_iff split: option.splits if_splits)
    ultimately show ?thesis ..
  qed
  then show "indices_ok (removeFromIndex n v r ix)"
    "queryIndex n' v' (removeFromIndex n v r ix) = (if n' = n \<and> v' = v then queryIndex n v ix - {r} else queryIndex n' v' ix)"
    by blast+
qed

lemma dropIndex_ok:
  assumes "indices_ok ix"
  shows "indices_ok (dropIndex n ix)" "queryIndex n' v' (dropIndex n ix) = (if n' = n then {} else queryIndex n' v' ix)"
  using assms by (auto simp: indices_ok_def dropIndex_def queryIndex_def)

text \<open>the operations, and the relation they maintain\<close>

datatype ix_op = Ix_Add string string string | Ix_Remove string string string | Ix_Drop string | Ix_Clear

fun ix_step :: "indices \<Rightarrow> ix_op \<Rightarrow> indices" where
  "ix_step ix (Ix_Add n v r) = addToIndex n v r ix"
| "ix_step ix (Ix_Remove n v r) = removeFromIndex n v r ix"
| "ix_step ix (Ix_Drop n) = dropIndex n ix"
| "ix_step ix Ix_Clear = indexer_clear ix"

fun rel_step :: "(string \<times> string \<times> string) set \<Rightarrow> ix_op \<Rightarrow> (string \<times> string \<times> string) set" where
  "rel_step R (Ix_Add n v r) = insert (n, v, r) R"
| "rel_step R (Ix_Remove n v r) = R - {(n, v, r)}"
| "rel_step R (Ix_Drop n) = {(n', v, r) \<in> R. n' \<noteq> n}"
| "rel_step R Ix_Clear = {}"

lemma ix_step_refines:
  assumes "indices_ok ix" "\<forall>n v. queryIndex n v ix = {r. (n, v, r) \<in> R}"
  shows "indices_ok (ix_step ix op) \<and> (\<forall>n v. queryIndex n v (ix_step ix op) = {r. (n, v, r) \<in> rel_step R op})"
proof (cases op)
  case (Ix_Add n v r)
  then show ?thesis using assms addToIndex_ok [OF assms(1)] by auto
next
  case (Ix_Remove n v r)
  then show ?thesis using assms removeFromIndex_ok [OF assms(1)] by auto
next
  case (Ix_Drop n)
  then show ?thesis using assms dropIndex_ok [OF assms(1)] by auto
qed (simp add: indexer_clear_def indices_ok_def queryIndex_def)

lemma ix_run_refines:
  "indices_ok ix \<Longrightarrow> \<forall>n v. queryIndex n v ix = {r. (n, v, r) \<in> R} \<Longrightarrow>
   indices_ok (foldl ix_step ix ops) \<and> (\<forall>n v. queryIndex n v (foldl ix_step ix ops) = {r. (n, v, r) \<in> foldl rel_step R ops})"
proof (induction ops arbitrary: ix R)
  case (Cons op ops)
  note st = ix_step_refines [OF Cons.prems, of op]
  show ?case unfolding foldl_Cons by (rule Cons.IH [OF conjunct1 [OF st] conjunct2 [OF st]])
qed simp

lemma range_union:
  "foldl (\<lambda>s (v, a). if P v then s \<union> a else s) s0 m = s0 \<union> {x. \<exists>v a. (v, a) \<in> set m \<and> P v \<and> x \<in> a}"
proof (induction m arbitrary: s0)
  case (Cons va m)
  then show ?case by (cases va) (simp, blast)
qed simp

lemma queryRange_eq:
  assumes "indices_ok ix"
  shows "queryRange n a b ix = (\<Union>v\<in>{a..b}. queryIndex n v ix)"
proof (cases "map_of ix n")
  case (Some m)
  then have m: "map_ok m" using assms by (auto simp: indices_ok_def)
  have "(v, s) \<in> set m \<longleftrightarrow> map_of m v = Some s" for v s
    using map_ok_distinct [OF m] by simp
  then show ?thesis
    using Some range_union [of "\<lambda>v. a \<le> v \<and> v \<le> b" "{}" m]
    by (fastforce simp: queryRange_def queryIndex_def split: option.splits)
qed (simp add: queryRange_def queryIndex_def)

text \<open>
  C15: Under every sequence of operations the indexer holds a relation of index names, values
  and records: exact and range queries are its images, removal deletes one triple, and no
  empty bucket or empty index is ever kept.
\<close>

theorem indexer_refines_relation:
  "let ix = foldl ix_step [] ops; R = foldl rel_step {} ops
   in indices_ok ix \<and> queryIndex n v ix = {r. (n, v, r) \<in> R} \<and> queryRange n a b ix = {r. \<exists>v\<in>{a..b}. (n, v, r) \<in> R}"
proof -
  have "indices_ok (foldl ix_step [] ops) \<and> (\<forall>n v. queryIndex n v (foldl ix_step [] ops) = {r. (n, v, r) \<in> foldl rel_step {} ops})"
    by (rule ix_run_refines) (simp_all add: indices_ok_def queryIndex_def)
  then show ?thesis using queryRange_eq by (auto simp: Let_def)
qed

section \<open>The file gives back the data\<close>

lemma getlines_line:
  "CHR 0x0A \<notin> set l \<Longrightarrow> getlines acc (l @ CHR 0x0A # rest) = (acc @ l) # getlines [] rest"
  by (induction l arbitrary: acc) auto

lemma getlines_concat:
  "\<forall>x\<in>set xs. CHR 0x0A \<notin> set (f x) \<Longrightarrow> getlines [] (concat (map (\<lambda>x. f x @ [CHR 0x0A]) xs)) = map f xs"
  by (induction xs) (simp_all add: getlines_line)

lemma split_colon_key:
  "CHR '':'' \<notin> set k \<Longrightarrow> split_colon (k @ CHR '':'' # v) = Some (k, v)"
  by (auto simp: split_colon_def takeWhile_append dropWhile_append)

lemma load_line_encoded:
  "CHR '':'' \<notin> set k \<Longrightarrow> load_line m (encodeBinary (k @ CHR '':'' # v)) = map_put k v m"
  by (simp add: load_line_def encodeBinary_Nil_iff decode_encodeBinary split_colon_key)

lemma map_put_last: "\<forall>x\<in>set m. fst x < k \<Longrightarrow> map_put k v m = m @ [(k, v)]"
  by (induction m) auto

lemma map_puts_sorted:
  "map_ok (m @ m') \<Longrightarrow> foldl (\<lambda>m (k, v). map_put k v m) m m' = m @ m'"
proof (induction m' arbitrary: m)
  case (Cons kv m')
  obtain k v where kv: "kv = (k, v)" by (cases kv)
  have "\<forall>x\<in>set m. fst x < k" using Cons.prems by (auto simp: map_ok_def kv sorted_wrt_append)
  then show ?case using Cons.IH [of "m @ [kv]"] Cons.prems by (simp add: kv map_put_last)
qed simp

lemma load_saved:
  assumes "map_ok m" "\<forall>k\<in>fst ` set m. CHR '':'' \<notin> set k"
  shows "foldl load_line [] (getlines [] (concat (map (\<lambda>(k, v). encodeBinary (k @ '':'' @ v) @ [CHR 0x0A]) m))) = m"
proof -
  let ?f = "\<lambda>(k, v). encodeBinary (k @ '':'' @ v)"
  have "CHR 0x0A \<notin> set (encodeBinary s)" for s using encodeBinary_lines [of "CHR 0x0A" s] by auto
  then have "getlines [] (concat (map (\<lambda>x. ?f x @ [CHR 0x0A]) m)) = map ?f m"
    by (intro getlines_concat) auto
  moreover have "(\<lambda>x. ?f x @ [CHR 0x0A]) = (\<lambda>(k, v). encodeBinary (k @ '':'' @ v) @ [CHR 0x0A])" by auto
  moreover have "foldl load_line r (map ?f l) = foldl (\<lambda>m (k, v). map_put k v m) r l"
    if "\<forall>k\<in>fst ` set l. CHR '':'' \<notin> set k" for l r
    using that by (induction l arbitrary: r) (auto simp: load_line_encoded)
  ultimately show ?thesis using assms map_puts_sorted [of "[]" m] by simp
qed

text \<open>
  C16: What the database saves it loads again, entry for entry, when no key contains a colon;
  the expiry times are not saved.
\<close>

theorem db_disk_round_trip:
  assumes "map_ok (db_data d)" "\<forall>k\<in>fst ` set (db_data d). CHR '':'' \<notin> set k"
  shows "\<exists>d'. db_flush d = Inr d' \<and> db_data (db_open a (db_file d')) = db_data d \<and> db_expiry (db_open a (db_file d')) = []"
  using load_saved [OF assms]
  by (simp add: db_flush_def saveToDisk_def db_open_def loadFromDisk_def)

lemma db_disk_round_trip_witness:
  "\<exists>d'. db_flush \<lparr>db_data = [(''a'', ''1:2''), (''b'', [])], db_expiry = [(''a'', 7)], db_autoSave = True, db_file = None\<rparr> = Inr d' \<and>
     db_data (db_open True (db_file d')) = [(''a'', ''1:2''), (''b'', [])]"
proof -
  let ?d = "\<lparr>db_data = [(''a'', ''1:2''), (''b'', [])], db_expiry = [(''a'', 7)], db_autoSave = True, db_file = None\<rparr>"
  have "map_ok (db_data ?d)" "\<forall>k\<in>fst ` set (db_data ?d). CHR '':'' \<notin> set k" by (simp_all add: less_char_def)
  then show ?thesis using db_disk_round_trip [of ?d True] by auto
qed

section \<open>The methods that never return\<close>

text \<open>
  get never returns, and with automatic saving, which is the default, neither do set and
  del: each locks the mutex that it holds. Without automatic saving set and del work on the
  data as on a finite map, and set with a time to live records when it ends.
\<close>

theorem db_locks_itself:
  "db_get key now d = Inl Deadlock \<and>
   (db_autoSave d \<longrightarrow> db_set key value ttl now d = Inl Deadlock \<and> db_del key d = Inl Deadlock) \<and>
   (map_ok (db_data d) \<longrightarrow> map_ok (db_expiry d) \<longrightarrow> \<not> db_autoSave d \<longrightarrow>
     (\<exists>d1 d2. db_set key value ttl now d = Inr (True, d1) \<and> db_del key d = Inr (True, d2) \<and>
       map_of (db_data d1) = (map_of (db_data d))(key \<mapsto> value) \<and>
       map_of (db_expiry d1) = (map_of (db_expiry d))(key := if 0 < ttl then Some (now + ttl) else None) \<and>
       map_of (db_data d2) = (map_of (db_data d))(key := None)))"
  by (auto simp: db_get_def db_set_def db_del_def cleanupExpired_def saveToDisk_def Let_def)

lemma db_locks_itself_witness:
  "db_set ''k'' ''v'' 0 5 (db_open True None) = Inl Deadlock"
  using db_locks_itself [of "''k''" 5 "db_open True None" "''v''" 0]
  by (simp add: db_open_def loadFromDisk_def)

end
