(* ===== verification/P2p_Sha1.thy ===== *)
theory P2p_Sha1
  imports P2p_Prelude Sha2_Spec
begin

text \<open>
  The hash function of \<open>core/sha1.cpp\<close>, on which every identifier, signature, block and
  proof of \<open>p2p_banking_system\<close> rests, compared with SHA-1 of FIPS 180-4; and the functions
  built on it.
\<close>

section \<open>The code\<close>

record sha1_ctx =
  sha1_h :: "u32 list"
  sha1_msg_len :: u64
  sha1_buffer :: bytes

definition sha1_reset :: sha1_ctx where
  "sha1_reset = \<lparr>sha1_h = [0x67452301, 0xEFCDAB89, 0x98BADCFE, 0x10325476, 0xC3D2E1F0],
     sha1_msg_len = 0, sha1_buffer = []\<rparr>"

definition sha1_sched_step :: "u32 list \<Rightarrow> nat \<Rightarrow> u32 list" where
  "sha1_sched_step w i =
     (let x = w ! (i - 3) XOR w ! (i - 8) XOR w ! (i - 14) XOR w ! (i - 16)
      in w @ [push_bit 1 x OR drop_bit 31 x])"

definition sha1_schedule :: "bytes \<Rightarrow> u32 list" where
  "sha1_schedule chunk = foldl sha1_sched_step (map (\<lambda>i. load_be32 chunk (i * 4)) [0..<16]) [16..<80]"

type_synonym sha1_regs = "u32 \<times> u32 \<times> u32 \<times> u32 \<times> u32"

fun sha1_round :: "u32 list \<Rightarrow> sha1_regs \<Rightarrow> nat \<Rightarrow> sha1_regs" where
  "sha1_round w (a, b, c, d, e) i =
     (let (f, k) =
            (if i < 20 then ((b AND c) OR (NOT b AND d), 0x5A827999)
             else if i < 40 then (b XOR c XOR d, 0x6ED9EBA1)
             else if i < 60 then ((b AND c) OR (b AND d) OR (c AND d), 0x8F1BBCDC)
             else (b XOR c XOR d, 0xCA62C1D6));
          temp = (push_bit 5 a OR drop_bit 27 a) + f + e + k + w ! i
      in (temp, a, push_bit 30 b OR drop_bit 2 b, c, d))"

definition sha1_transform :: "u32 list \<Rightarrow> bytes \<Rightarrow> u32 list" where
  "sha1_transform h chunk =
     (let (a, b, c, d, e) = foldl (sha1_round (sha1_schedule chunk)) (h ! 0, h ! 1, h ! 2, h ! 3, h ! 4) [0..<80]
      in [h ! 0 + a, h ! 1 + b, h ! 2 + c, h ! 3 + d, h ! 4 + e])"

text \<open>the loop that both update and final run\<close>

function sha1_drain :: "u32 list \<Rightarrow> bytes \<Rightarrow> u32 list \<times> bytes" where
  "sha1_drain h buffer =
     (if 64 \<le> length buffer then sha1_drain (sha1_transform h (take 64 buffer)) (drop 64 buffer) else (h, buffer))"
  by pat_completeness auto
termination by (relation "measure (\<lambda>(h, buffer). length buffer)") auto

declare sha1_drain.simps [simp del]

definition sha1_update :: "sha1_ctx \<Rightarrow> bytes \<Rightarrow> sha1_ctx" where
  "sha1_update ctx data =
     (let (h, buffer) = sha1_drain (sha1_h ctx) (sha1_buffer ctx @ data)
      in ctx\<lparr>sha1_h := h, sha1_msg_len := sha1_msg_len ctx + of_nat (length data), sha1_buffer := buffer\<rparr>)"

function sha1_pad_loop :: "bytes \<Rightarrow> bytes" where
  "sha1_pad_loop buffer = (if length buffer mod 64 \<noteq> 56 then sha1_pad_loop (buffer @ [0]) else buffer)"
  by pat_completeness auto
termination
proof (relation "measure (\<lambda>buffer. let r = length buffer mod 64 in if r \<le> 56 then 56 - r else 120 - r)")
  fix buffer :: bytes
  assume "length buffer mod 64 \<noteq> 56"
  moreover have "length buffer mod 64 < 64" by simp
  moreover have "length (buffer @ [0]) mod 64 = (if length buffer mod 64 = 63 then 0 else Suc (length buffer mod 64))"
    by (simp add: mod_Suc)
  ultimately show "(buffer @ [0], buffer) \<in> measure (\<lambda>buffer. let r = length buffer mod 64 in if r \<le> 56 then 56 - r else 120 - r)"
    by (simp only: in_measure Let_def) auto
qed simp

declare sha1_pad_loop.simps [simp del]

definition hex_digit :: "nat \<Rightarrow> char" where
  "hex_digit d = (if d < 10 then char_of (48 + d) else char_of (87 + d))"

text \<open>a 32-bit number in eight hexadecimal digits\<close>

definition hex_word :: "u32 \<Rightarrow> string" where
  "hex_word x = map (\<lambda>i. hex_digit (unat (drop_bit (28 - 4 * i) x) mod 16)) [0..<8]"

definition sha1_final :: "sha1_ctx \<Rightarrow> string" where
  "sha1_final ctx =
     (let bits = sha1_msg_len ctx * 8;
          buffer = sha1_pad_loop (sha1_buffer ctx @ [0x80]) @ store_be64 bits;
          (h, _) = sha1_drain (sha1_h ctx) buffer
      in concat (map (\<lambda>i. hex_word (h ! i)) [0..<5]))"

text \<open>the bytes of a string\<close>

definition str_bytes :: "string \<Rightarrow> bytes" where
  "str_bytes s = map of_char s"

definition sha1 :: "string \<Rightarrow> string" where
  "sha1 s = sha1_final (sha1_update sha1_reset (str_bytes s))"

definition sha1_double :: "string \<Rightarrow> string" where
  "sha1_double s = sha1 (sha1 s)"

definition sha1_hmac :: "string \<Rightarrow> string \<Rightarrow> string" where
  "sha1_hmac key msg = sha1 (key @ msg @ key)"

definition sha1_hmac_raw :: "string \<Rightarrow> string \<Rightarrow> string" where
  "sha1_hmac_raw key msg = sha1 (key @ msg)"

text \<open>named after other functions, but these\<close>

definition sha256 :: "string \<Rightarrow> string" where
  "sha256 s = sha1_double (s @ ''256'' @ s)"

definition sha3_256 :: "string \<Rightarrow> string" where
  "sha3_256 s = sha256 (sha256 s)"

section \<open>The standard\<close>

text \<open>SHA-1 of FIPS 180-4, with the padding of the family\<close>

definition fips_f :: "nat \<Rightarrow> u32 \<Rightarrow> u32 \<Rightarrow> u32 \<Rightarrow> u32" where
  "fips_f t x y z =
     (if t \<le> 19 then sha2_Ch x y z else if 40 \<le> t \<and> t \<le> 59 then sha2_Maj x y z else x XOR y XOR z)"

text \<open>the integer parts of the square roots of 2, 3, 5 and 10, times two to the 30\<close>

definition sqrt_30 :: "nat \<Rightarrow> nat \<Rightarrow> bool" where
  "sqrt_30 n r \<longleftrightarrow> r ^ 2 \<le> n * 2 ^ 60 \<and> n * 2 ^ 60 < (r + 1) ^ 2"

definition fips_K :: "nat \<Rightarrow> nat" where
  "fips_K t = (if t \<le> 19 then 0x5A827999 else if t \<le> 39 then 0x6ED9EBA1 else if t \<le> 59 then 0x8F1BBCDC else 0xCA62C1D6)"

lemma fips_K_sqrt: "t < 80 \<Longrightarrow> sqrt_30 ([2, 3, 5, 10] ! (t div 20)) (fips_K t)"
proof -
  assume "t < 80"
  then have "t div 20 = (if t \<le> 19 then 0 else if t \<le> 39 then 1 else if t \<le> 59 then 2 else 3)" by auto
  then show ?thesis by (simp add: sqrt_30_def fips_K_def)
qed

fun fips_W :: "u32 list \<Rightarrow> nat \<Rightarrow> u32" where
  "fips_W M t =
     (if t < 16 then M ! t
      else word_rotl 1 (fips_W M (t - 3) XOR fips_W M (t - 8) XOR fips_W M (t - 14) XOR fips_W M (t - 16)))"

declare fips_W.simps [simp del]

primrec fips_rounds :: "u32 list \<Rightarrow> nat \<Rightarrow> sha1_regs \<Rightarrow> sha1_regs" where
  "fips_rounds M 0 r = r"
| "fips_rounds M (Suc t) r =
     (let (a, b, c, d, e) = fips_rounds M t r
      in (word_rotl 5 a + fips_f t b c d + e + of_nat (fips_K t) + fips_W M t, a, word_rotl 30 b, c, d))"

definition fips_compress :: "u32 list \<Rightarrow> bytes \<Rightarrow> u32 list" where
  "fips_compress H blk =
     (let (a, b, c, d, e) = fips_rounds (be_words 4 blk) 80 (H ! 0, H ! 1, H ! 2, H ! 3, H ! 4)
      in [H ! 0 + a, H ! 1 + b, H ! 2 + c, H ! 3 + d, H ! 4 + e])"

definition fips_sha1 :: "bytes \<Rightarrow> u32 list" where
  "fips_sha1 m = foldl fips_compress [0x67452301, 0xEFCDAB89, 0x98BADCFE, 0x10325476, 0xC3D2E1F0]
     (chunks 64 (sha2_pad 64 8 m))"

section \<open>The block function\<close>

lemma sha1_schedule_words:
  assumes "length blk = 64" "t < 80"
  shows "sha1_schedule blk ! t = fips_W (be_words 4 blk) t"
proof -
  let ?w = "\<lambda>n. foldl sha1_sched_step (map (\<lambda>i. load_be32 blk (i * 4)) [0..<16]) [16..<16 + n]"
  let ?M = "be_words 4 blk"
  have "length (?w n) = 16 + n \<and> (\<forall>t<16 + n. ?w n ! t = fips_W ?M t)" for n
  proof (induction n)
    case 0
    then show ?case using load_be32_words [OF assms(1)] by (simp add: fips_W.simps)
  next
    case (Suc n)
    let ?x = "?w n ! (16 + n - 3) XOR ?w n ! (16 + n - 8) XOR ?w n ! (16 + n - 14) XOR ?w n ! (16 + n - 16)"
    have "[16..<16 + Suc n] = [16..<16 + n] @ [16 + n]" by (simp only: add_Suc_right upt_Suc_append le_add1)
    then have st: "?w (Suc n) = ?w n @ [push_bit 1 ?x OR drop_bit 31 ?x]"
      unfolding foldl_append by (simp only: foldl_append foldl.simps sha1_sched_step_def Let_def)
    have "push_bit 1 ?x OR drop_bit 31 ?x = word_rotl 1 ?x"
      using shifts_rotl32 [of 1 ?x] by simp
    also have "\<dots> = fips_W ?M (16 + n)"
      using Suc by (subst fips_W.simps) simp
    finally have last: "push_bit 1 ?x OR drop_bit 31 ?x = fips_W ?M (16 + n)" .
    have "length (?w (Suc n)) = 16 + Suc n" unfolding st using Suc by simp
    moreover have "?w (Suc n) ! t = fips_W ?M t" if "t < 16 + Suc n" for t
      unfolding st last using Suc that by (cases "t = 16 + n") (simp_all add: nth_append)
    ultimately show ?case by blast
  qed
  from this [of 64] show ?thesis using assms(2) by (simp add: sha1_schedule_def)
qed

lemma sha1_functions:
  "(b AND c) OR (NOT b AND d) = sha2_Ch b c (d::u32)"
  "(b AND c) OR (b AND d) OR (c AND d) = sha2_Maj b c (d::u32)"
  by (rule bit_word_eqI; auto simp: sha2_Ch_def sha2_Maj_def bit_or_iff bit_and_iff bit_xor_iff bit_not_iff)+

lemma sha1_round_step:
  assumes "w ! t = fips_W M t"
  shows "sha1_round w (a, b, c, d, e) t =
    (word_rotl 5 a + fips_f t b c d + e + of_nat (fips_K t) + fips_W M t, a, word_rotl 30 b, c, d)"
proof -
  have "push_bit 5 a OR drop_bit 27 a = word_rotl 5 a" "push_bit 30 b OR drop_bit 2 b = word_rotl 30 b"
    using shifts_rotl32 [of 5 a] shifts_rotl32 [of 30 b] by simp_all
  then show ?thesis
    using assms by (simp add: sha1_functions fips_f_def fips_K_def Let_def)
qed

lemma sha1_transform_fips:
  assumes "length blk = 64"
  shows "sha1_transform h blk = fips_compress h blk"
proof -
  let ?w = "sha1_schedule blk" and ?M = "be_words 4 blk"
  have "foldl (sha1_round ?w) r [0..<n] = fips_rounds ?M n r" if "n \<le> 80" for n r
    using that
  proof (induction n)
    case (Suc n)
    obtain a b c d e where r: "fips_rounds ?M n r = (a, b, c, d, e)" by (metis surj_pair)
    have "?w ! n = fips_W ?M n" using Suc.prems assms by (intro sha1_schedule_words) simp_all
    from sha1_round_step [OF this] show ?case using Suc r by simp
  qed simp
  then show ?thesis by (simp add: sha1_transform_def fips_compress_def)
qed

section \<open>Buffering and padding\<close>

text \<open>draining compresses the complete blocks\<close>

lemma sha1_drain_eq:
  "sha1_drain h buf = (let k = length buf - length buf mod 64 in (foldl sha1_transform h (chunks 64 (take k buf)), drop k buf))"
proof (induction h buf rule: sha1_drain.induct)
  case (1 h buf)
  show ?case
  proof (cases "64 \<le> length buf")
    case True
    define k where "k = length (drop 64 buf) - length (drop 64 buf) mod 64"
    have l: "length buf = length (drop 64 buf) + 64" using True by simp
    then have k: "length buf - length buf mod 64 = 64 + k" unfolding k_def l by (simp add: mod_le_divisor)
    have "chunks 64 (take (64 + k) buf) = take 64 buf # chunks 64 (take k (drop 64 buf))"
      using True by (subst chunks.simps) (auto simp: take_drop ac_simps)
    moreover have "sha1_drain h buf = (foldl sha1_transform (sha1_transform h (take 64 buf)) (chunks 64 (take k (drop 64 buf))),
        drop k (drop 64 buf))"
      using True 1 [OF True] unfolding Let_def k_def [symmetric] by (subst sha1_drain.simps) (simp only: if_True)
    ultimately show ?thesis unfolding k Let_def by (simp only: foldl.simps drop_drop add.commute)
  next
    case False
    then show ?thesis by (subst sha1_drain.simps) simp
  qed
qed

lemma sha1_pad_loop_eq: "\<exists>n. sha1_pad_loop buf = buf @ replicate n 0 \<and> (length buf + n) mod 64 = 56 \<and>
   (\<forall>k<n. (length buf + k) mod 64 \<noteq> 56)"
proof (induction buf rule: sha1_pad_loop.induct)
  case (1 buf)
  show ?case
  proof (cases "length buf mod 64 = 56")
    case True
    then show ?thesis by (intro exI [of _ 0]) (simp add: sha1_pad_loop.simps)
  next
    case False
    obtain n where n: "sha1_pad_loop (buf @ [0]) = (buf @ [0]) @ replicate n 0" "(length (buf @ [0]) + n) mod 64 = 56"
      "\<forall>k<n. (length (buf @ [0]) + k) mod 64 \<noteq> 56"
      using 1 [OF False] by blast
    have "(length buf + k) mod 64 \<noteq> 56" if "k < Suc n" for k
      using that n(3) False by (cases k) auto
    moreover have "sha1_pad_loop buf = buf @ replicate (Suc n) 0"
      using n(1) False by (subst sha1_pad_loop.simps) simp
    moreover have "(length buf + Suc n) mod 64 = 56" using n(2) by simp
    ultimately show ?thesis by blast
  qed
qed

lemma sha1_pad_block:
  assumes "8 * length m < 2 ^ 64" "r = drop (length m - length m mod 64) m"
  shows "take (length m - length m mod 64) m @ sha1_pad_loop (r @ [0x80]) @ store_be64 (of_nat (length m) * 8) = sha2_pad 64 8 m"
proof -
  obtain n where n: "sha1_pad_loop (r @ [0x80]) = (r @ [0x80]) @ replicate n 0" "(length (r @ [0x80]) + n) mod 64 = 56"
    "\<forall>k<n. (length (r @ [0x80]) + k) mod 64 \<noteq> 56"
    using sha1_pad_loop_eq [of "r @ [0x80]"] by blast
  have l: "(length (r @ [0x80]) + k) mod 64 = (length m + 1 + k) mod 64" for k
  proof -
    have "length (r @ [0x80]) + k = length m mod 64 + (1 + k)" by (simp add: assms(2))
    then show ?thesis by (metis add.assoc mod_add_left_eq)
  qed
  have e: "(length m + 1 + 8 + k) mod 64 = 0 \<longleftrightarrow> (length m + 1 + k) mod 64 = 56" for k
  proof -
    have "(length m + 1 + 8 + k) mod 64 = ((length m + 1 + k) mod 64 + 8) mod 64"
      by (simp only: mod_add_left_eq) (simp add: ac_simps)
    moreover have "(x + 8) mod 64 = 0 \<longleftrightarrow> x = 56" if "x < 64" for x :: nat
      using that by (auto simp: mod_if)
    ultimately show ?thesis by simp
  qed
  have "(length m + 1 + 8 + n) mod 64 = 0" using n(2) l e by metis
  then have "sha2_zeros 64 8 (length m) \<le> n" by (intro sha2_zeros_least(2)) simp_all
  moreover have "(length m + 1 + 8 + sha2_zeros 64 8 (length m)) mod 64 = 0" by (intro sha2_zeros_least(1)) simp
  then have "\<not> sha2_zeros 64 8 (length m) < n" using n(3) l e by metis
  ultimately have "n = sha2_zeros 64 8 (length m)" by simp
  moreover have "store_be64 (of_nat (length m) * 8) = be_bytes 8 (8 * length m)"
    using store_be64_of_nat [OF assms(1)] by (simp add: mult.commute)
  ultimately show ?thesis using n(1) by (simp add: sha2_pad_def assms(2))
qed

definition fips_hex :: "u32 list \<Rightarrow> string" where
  "fips_hex h = concat (map hex_word h)"

lemma length_fips_compress [simp]: "length (fips_compress H b) = 5"
  by (simp add: fips_compress_def split: prod.split)

lemma length_fips_sha1: "length (fips_sha1 m) = 5"
  by (cases "chunks 64 (sha2_pad 64 8 m)" rule: rev_cases) (simp_all add: fips_sha1_def)

lemma sha1_fips_eq:
  assumes "8 * length s < 2 ^ 64"
  shows "sha1 s = fips_hex (fips_sha1 (str_bytes s))"
proof -
  define m iv where "m = str_bytes s" and "iv = sha1_h sha1_reset"
  define k r where "k = length m - length m mod 64" and "r = drop k m"
  define P where "P = sha2_pad 64 8 m"
  let ?c = "foldl sha1_transform iv (chunks 64 (take k m))"
  have len: "8 * length m < 2 ^ 64" using assms by (simp add: m_def str_bytes_def)
  have up: "sha1_update sha1_reset m = \<lparr>sha1_h = ?c, sha1_msg_len = of_nat (length m), sha1_buffer = r\<rparr>"
    by (simp add: sha1_update_def sha1_drain_eq sha1_reset_def iv_def k_def r_def Let_def)
  let ?b = "sha1_pad_loop (r @ [0x80]) @ store_be64 (of_nat (length m) * 8)"
  have P: "take k m @ ?b = P" unfolding P_def k_def by (rule sha1_pad_block [OF len]) (simp add: r_def k_def)
  have d: "64 dvd length (take k m)" by (simp add: k_def dvd_minus_mod)
  have "64 dvd length P" unfolding P_def by (rule sha2_pad_blocks) simp
  then have "64 dvd length ?b" using d unfolding P [symmetric] length_append by (simp only: dvd_add_right_iff)
  then have "sha1_drain ?c ?b = (foldl sha1_transform ?c (chunks 64 ?b), [])"
    by (simp add: sha1_drain_eq dvd_imp_mod_0)
  also have "foldl sha1_transform ?c (chunks 64 ?b) = foldl sha1_transform iv (chunks 64 P)"
    unfolding P [symmetric] by (subst chunks_append) (use d in simp_all)
  also have "\<dots> = foldl fips_compress iv (chunks 64 P)"
    using \<open>64 dvd length P\<close> by (intro foldl_chunks_cong [where P = "\<lambda>_. True"]) (simp_all add: sha1_transform_fips)
  also have "\<dots> = fips_sha1 m" by (simp add: fips_sha1_def P_def iv_def sha1_reset_def)
  finally have "sha1_final (sha1_update sha1_reset m) = concat (map (\<lambda>i. hex_word (fips_sha1 m ! i)) [0..<5])"
    unfolding sha1_final_def up by simp
  also have "\<dots> = fips_hex (fips_sha1 m)"
    unfolding fips_hex_def using length_fips_sha1 [of m] by (metis (no_types, lifting) map_nth list.map_comp comp_apply map_eq_conv)
  finally show ?thesis by (simp add: sha1_def m_def)
qed

text \<open>
  C13: The hash of a string of fewer than 2^61 bytes is its SHA-1 digest of FIPS 180-4, in
  hexadecimal: schedule, rounds, padding and buffering.
\<close>

theorem sha1_fips:
  assumes "8 * length s < 2 ^ 64"
  shows "sha1 s = fips_hex (fips_sha1 (str_bytes s))"
  using assms by (rule sha1_fips_eq)

lemma sha1_fips_witness: "sha1 ''abc'' = fips_hex (fips_sha1 [97, 98, 99])"
proof -
  have "str_bytes ''abc'' = [97, 98, 99]" by (simp add: str_bytes_def)
  then show ?thesis using sha1_fips [of "''abc''"] by simp
qed

section \<open>Digests\<close>

lemma length_sha1 [simp]: "length (sha1 s) = 40"
  by (simp add: sha1_def sha1_final_def hex_word_def split_def Let_def upt_rec)

lemma set_sha1: "set (sha1 s) \<subseteq> hex_digit ` {..<16}"
  by (auto simp: sha1_def sha1_final_def hex_word_def split_def Let_def)

lemma length_sha1_double [simp]: "length (sha1_double s) = 40"
  by (simp add: sha1_double_def)

text \<open>key and message are hashed in one string, so the border between them does not count\<close>

lemma hmac_raw_shift: "sha1_hmac_raw (k @ x) m = sha1_hmac_raw k (x @ m)"
  by (simp add: sha1_hmac_raw_def)

text \<open>a collision of the hash function\<close>

definition collision :: "string \<Rightarrow> string \<Rightarrow> bool" where
  "collision s t \<longleftrightarrow> s \<noteq> t \<and> sha1 s = sha1 t"

end
