(* ===== verification/P2p_Merkle.thy ===== *)
theory P2p_Merkle
  imports P2p_Sha1
begin

text \<open>
  Merkle trees (\<open>blockchain/merkle_tree.cpp\<close>): roots, proofs and their verification, and the
  class that keeps the levels. A proof verifies when the leaf has a sibling on every level,
  and binds its leaf up to collisions of the hash function; the duplicated last node of an
  odd level is missing from proofs, and makes two different lists have one root.
\<close>

section \<open>Roots and proofs\<close>

text \<open>one level from the one below; an odd level gets its last node twice\<close>

definition merkle_pad :: "string list \<Rightarrow> string list" where
  "merkle_pad hs = (if odd (length hs) then hs @ [last hs] else hs)"

definition merkle_next :: "string list \<Rightarrow> string list" where
  "merkle_next hs =
     (let l = merkle_pad hs in map (\<lambda>i. sha1 (l ! (2 * i) @ l ! (2 * i + 1))) [0..<length l div 2])"

lemma length_merkle_next: "length (merkle_next hs) = (length hs + 1) div 2"
  by (auto simp: merkle_next_def merkle_pad_def Let_def)

function merkle_reduce :: "string list \<Rightarrow> string list" where
  "merkle_reduce hs = (if 1 < length hs then merkle_reduce (merkle_next hs) else hs)"
  by pat_completeness auto
termination by (relation "measure length") (auto simp: length_merkle_next)

declare merkle_reduce.simps [simp del]

definition computeMerkleRoot :: "string list \<Rightarrow> string" where
  "computeMerkleRoot hashes = (if hashes = [] then sha1 ''empty'' else merkle_reduce hashes ! 0)"

definition sibling_index :: "nat \<Rightarrow> nat" where
  "sibling_index idx = (if idx mod 2 = 0 then idx + 1 else idx - 1)"

function proof_loop :: "string list \<Rightarrow> nat \<Rightarrow> string list" where
  "proof_loop level idx =
     (if 1 < length level then
        (if sibling_index idx < length level then [level ! sibling_index idx] else [])
        @ proof_loop (merkle_next level) (idx div 2)
      else [])"
  by pat_completeness auto
termination by (relation "measure (\<lambda>(level, idx). length level)") (auto simp: length_merkle_next)

declare proof_loop.simps [simp del]

definition computeProof :: "string list \<Rightarrow> nat \<Rightarrow> string list" where
  "computeProof hashes targetIndex = (if length hashes \<le> targetIndex then [] else proof_loop hashes targetIndex)"

text \<open>the loop of verifyProof, for a hash function H\<close>

fun proof_path :: "(string \<Rightarrow> string) \<Rightarrow> string \<Rightarrow> nat \<Rightarrow> string list \<Rightarrow> string" where
  "proof_path H current idx [] = current"
| "proof_path H current idx (sibling # proof) =
     proof_path H (if idx mod 2 = 0 then H (current @ sibling) else H (sibling @ current)) (idx div 2) proof"

text \<open>the strings that are hashed on the way\<close>

fun path_inputs :: "(string \<Rightarrow> string) \<Rightarrow> string \<Rightarrow> nat \<Rightarrow> string list \<Rightarrow> string list" where
  "path_inputs H x i [] = []"
| "path_inputs H x i (a # p) =
     (let s = (if i mod 2 = 0 then x @ a else a @ x) in s # path_inputs H (H s) (i div 2) p)"

definition verifyProof :: "string \<Rightarrow> string list \<Rightarrow> string \<Rightarrow> nat \<Rightarrow> bool" where
  "verifyProof hash proof root_hash index = (proof_path sha1 hash index proof = root_hash)"

section \<open>The class\<close>

record merkle_tree =
  mt_leaves :: "string list"
  mt_tree :: "string list list"
  mt_root :: string
  mt_built :: bool

definition mt_empty :: merkle_tree where
  "mt_empty = \<lparr>mt_leaves = [], mt_tree = [], mt_root = [], mt_built = False\<rparr>"

text \<open>the levels behind the first\<close>

function mt_levels :: "string list \<Rightarrow> string list list" where
  "mt_levels level = (if 1 < length level then merkle_next level # mt_levels (merkle_next level) else [])"
  by pat_completeness auto
termination by (relation "measure length") (auto simp: length_merkle_next)

declare mt_levels.simps [simp del]

definition mt_build :: "merkle_tree \<Rightarrow> merkle_tree" where
  "mt_build t =
     (if mt_leaves t = [] then t\<lparr>mt_root := sha1 ''empty'', mt_built := True\<rparr>
      else let tree = mt_leaves t # mt_levels (mt_leaves t)
           in t\<lparr>mt_tree := tree, mt_root := last tree ! 0, mt_built := True\<rparr>)"

definition mt_new :: "string list \<Rightarrow> merkle_tree" where
  "mt_new leafHashes = mt_build (mt_empty\<lparr>mt_leaves := leafHashes\<rparr>)"

definition mt_addLeaf :: "string \<Rightarrow> merkle_tree \<Rightarrow> merkle_tree" where
  "mt_addLeaf leafHash t = t\<lparr>mt_leaves := mt_leaves t @ [leafHash], mt_built := False\<rparr>"

definition mt_addLeaves :: "string list \<Rightarrow> merkle_tree \<Rightarrow> merkle_tree" where
  "mt_addLeaves leafHashes t = t\<lparr>mt_leaves := mt_leaves t @ leafHashes, mt_built := False\<rparr>"

definition mt_rebuild :: "merkle_tree \<Rightarrow> merkle_tree" where
  "mt_rebuild t = mt_build t"

definition mt_getRoot :: "merkle_tree \<Rightarrow> string" where
  "mt_getRoot t = mt_root t"

text \<open>the loop over the levels but the last\<close>

fun mt_proof_loop :: "string list list \<Rightarrow> nat \<Rightarrow> string list" where
  "mt_proof_loop [] idx = []"
| "mt_proof_loop [level] idx = []"
| "mt_proof_loop (level # l # ls) idx =
     (if sibling_index idx < length level then [level ! sibling_index idx] else []) @ mt_proof_loop (l # ls) (idx div 2)"

definition mt_getProof :: "nat \<Rightarrow> merkle_tree \<Rightarrow> string list" where
  "mt_getProof leafIndex t =
     (if \<not> mt_built t \<or> length (mt_leaves t) \<le> leafIndex then [] else mt_proof_loop (mt_tree t) leafIndex)"

definition mt_verifyProof :: "string \<Rightarrow> string list \<Rightarrow> nat \<Rightarrow> merkle_tree \<Rightarrow> bool" where
  "mt_verifyProof leafHash proof leafIndex t = verifyProof leafHash proof (mt_root t) leafIndex"

definition mt_getLeafCount :: "merkle_tree \<Rightarrow> nat" where
  "mt_getLeafCount t = length (mt_leaves t)"

definition mt_clear :: "merkle_tree \<Rightarrow> merkle_tree" where
  "mt_clear t = t\<lparr>mt_leaves := [], mt_tree := [], mt_root := [], mt_built := False\<rparr>"

section \<open>Hash functions of fixed length\<close>

locale fixed_hash =
  fixes H :: "string \<Rightarrow> string" and n :: nat
  assumes length_H: "length (H s) = n"
begin

text \<open>equal hashes of pairs: the pairs are equal, or their strings collide\<close>

lemma pair_collision:
  assumes "H (a @ b) = H (c @ d)" "length a = length c \<or> length b = length d"
  shows "(a = c \<and> b = d) \<or> (a @ b \<noteq> c @ d \<and> H (a @ b) = H (c @ d))"
  using assms by auto

lemma path_binds:
  assumes "length p = length q" "length x = length y" "proof_path H x i p = proof_path H y i q"
  shows "x = y \<or> (\<exists>(s, t)\<in>set (zip (path_inputs H x i p) (path_inputs H y i q)). s \<noteq> t \<and> H s = H t)"
  using assms
proof (induction p q arbitrary: x y i rule: list_induct2)
  case (Cons a p b q)
  let ?s = "if i mod 2 = 0 then x @ a else a @ x" and ?t = "if i mod 2 = 0 then y @ b else b @ y"
  have "length (H ?s) = length (H ?t)" by (simp add: length_H)
  then have "H ?s = H ?t \<or>
      (\<exists>(s, t)\<in>set (zip (path_inputs H (H ?s) (i div 2) p) (path_inputs H (H ?t) (i div 2) q)). s \<noteq> t \<and> H s = H t)"
    using Cons.IH [of "H ?s" "H ?t" "i div 2"] Cons.prems by (simp add: if_distrib [of H] cong: if_cong)
  moreover have "?s = ?t \<Longrightarrow> x = y" using Cons.prems(1) by (auto split: if_splits)
  ultimately show ?case by (auto simp: Let_def simp del: proof_path.simps)
qed simp

end

interpretation sha1: fixed_hash sha1 40
  by unfold_locales simp

section \<open>What proofs show\<close>

lemma length_merkle_reduce: "hs \<noteq> [] \<Longrightarrow> length (merkle_reduce hs) = 1"
proof (induction hs rule: merkle_reduce.induct)
  case (1 hs)
  show ?case
  proof (cases "1 < length hs")
    case True
    then have "length (merkle_next hs) \<noteq> 0" by (simp add: length_merkle_next)
    then show ?thesis using 1 True by (subst merkle_reduce.simps) simp
  next
    case False
    then show ?thesis using 1(2) by (subst merkle_reduce.simps) (cases hs, simp_all)
  qed
qed

text \<open>on no level is the node on the path an unpaired last node\<close>

function paired :: "nat \<Rightarrow> nat \<Rightarrow> bool" where
  "paired n i = (if 1 < n then (odd n \<longrightarrow> i \<noteq> n - 1) \<and> paired ((n + 1) div 2) (i div 2) else True)"
  by pat_completeness auto
termination by (relation "measure fst") auto

declare paired.simps [simp del]

lemma merkle_next_nth:
  assumes "i < length hs" "odd (length hs) \<longrightarrow> i \<noteq> length hs - 1"
  shows "sibling_index i < length hs"
    "merkle_next hs ! (i div 2) = (if i mod 2 = 0 then sha1 (hs ! i @ hs ! sibling_index i) else sha1 (hs ! sibling_index i @ hs ! i))"
proof -
  have s: "sibling_index i < length hs"
  proof (cases "i mod 2 = 0")
    case True
    then have "even i" by (simp add: even_iff_mod_2_eq_zero)
    then have "i + 1 \<noteq> length hs" using assms(2) by (metis add_diff_cancel_right' even_plus_one_iff)
    then show ?thesis using True assms(1) by (simp add: sibling_index_def)
  qed (use assms in \<open>simp add: sibling_index_def\<close>)
  then show "sibling_index i < length hs" .
  define l where "l = merkle_pad hs"
  have l: "l ! j = hs ! j" if "j < length hs" for j using that by (simp add: l_def merkle_pad_def nth_append)
  have "i div 2 < length l div 2" using assms by (auto simp: l_def merkle_pad_def)
  then have "merkle_next hs ! (i div 2) = sha1 (l ! (2 * (i div 2)) @ l ! (2 * (i div 2) + 1))"
    by (simp add: merkle_next_def l_def Let_def)
  moreover have "2 * (i div 2) = (if i mod 2 = 0 then i else sibling_index i)"
    "2 * (i div 2) + 1 = (if i mod 2 = 0 then sibling_index i else i)"
    by (auto simp: sibling_index_def minus_mod_eq_mult_div [symmetric] mod_2_eq_odd)
  ultimately show "merkle_next hs ! (i div 2) = (if i mod 2 = 0 then sha1 (hs ! i @ hs ! sibling_index i) else sha1 (hs ! sibling_index i @ hs ! i))"
    using l assms(1) s by simp
qed

lemma proof_complete:
  "i < length hs \<Longrightarrow> paired (length hs) i \<Longrightarrow> proof_path sha1 (hs ! i) i (proof_loop hs i) = merkle_reduce hs ! 0"
proof (induction hs i rule: proof_loop.induct)
  case (1 hs i)
  show ?case
  proof (cases "1 < length hs")
    case True
    then have "paired (length hs) i = ((odd (length hs) \<longrightarrow> i \<noteq> length hs - 1) \<and> paired ((length hs + 1) div 2) (i div 2))"
      by (subst paired.simps) simp
    then have p: "odd (length hs) \<longrightarrow> i \<noteq> length hs - 1" "paired ((length hs + 1) div 2) (i div 2)"
      using 1(3) by blast+
    have "i div 2 < length (merkle_next hs)" using 1(2) by (simp add: length_merkle_next)
    then have ih: "proof_path sha1 (merkle_next hs ! (i div 2)) (i div 2) (proof_loop (merkle_next hs) (i div 2)) = merkle_reduce (merkle_next hs) ! 0"
      using 1(1) True p(2) by (simp add: length_merkle_next)
    then show ?thesis
      using True merkle_next_nth [OF 1(2) p(1)]
      by (subst proof_loop.simps, subst merkle_reduce.simps) (auto split: if_splits)
  next
    case False
    then show ?thesis using 1(2) by (subst proof_loop.simps, subst merkle_reduce.simps) (cases hs, auto)
  qed
qed

text \<open>the class gives the same roots and proofs as the static functions\<close>

lemma mt_levels_last: "hs \<noteq> [] \<Longrightarrow> last (hs # mt_levels hs) = merkle_reduce hs"
proof (induction hs rule: merkle_reduce.induct)
  case (1 hs)
  show ?case
  proof (cases "1 < length hs")
    case True
    then have "length (merkle_next hs) \<noteq> 0" by (simp add: length_merkle_next)
    then have "merkle_next hs \<noteq> []" by auto
    then show ?thesis using 1 True by (subst mt_levels.simps, subst merkle_reduce.simps) simp
  next
    case False
    then show ?thesis by (subst mt_levels.simps, subst merkle_reduce.simps) simp
  qed
qed

lemma mt_proof_levels: "mt_proof_loop (hs # mt_levels hs) i = proof_loop hs i"
proof (induction hs arbitrary: i rule: merkle_reduce.induct)
  case (1 hs)
  show ?case
  proof (cases "1 < length hs")
    case True
    then show ?thesis using 1 by (subst mt_levels.simps, subst proof_loop.simps) simp
  next
    case False
    then show ?thesis by (subst mt_levels.simps, subst proof_loop.simps) simp
  qed
qed

lemma mt_new_static:
  "mt_getRoot (mt_new hs) = computeMerkleRoot hs" "mt_getProof i (mt_new hs) = computeProof hs i"
  using mt_levels_last [of hs] mt_proof_levels [of hs i]
  by (auto simp: mt_new_def mt_build_def mt_empty_def mt_getRoot_def computeMerkleRoot_def mt_getProof_def computeProof_def Let_def)

lemma proof_verifies:
  assumes "i < length hs" "paired (length hs) i"
  shows "verifyProof (hs ! i) (computeProof hs i) (computeMerkleRoot hs) i"
  using proof_complete [OF assms] assms by (auto simp: computeProof_def computeMerkleRoot_def verifyProof_def)

text \<open>
  C17: A proof for a leaf that has a sibling on every level verifies against the root of the
  list, in the static functions and in the class. Two strings of one length that verify
  with proofs of one length against the same root at the same index are equal, or two of the
  strings that are hashed at the same step of the two verifications are a collision; so a
  string as long as the leaf, with a proof as long as the leaf's, verifies in its place only
  by a collision. With a shorter proof other strings do verify: nothing tells leaves from
  inner nodes, and of four leaves the node over the first two verifies at index 0.
\<close>

theorem merkle_proofs:
  "(i < length hs \<longrightarrow> paired (length hs) i \<longrightarrow>
      verifyProof (hs ! i) (computeProof hs i) (computeMerkleRoot hs) i \<and>
      mt_verifyProof (hs ! i) (mt_getProof i (mt_new hs)) i (mt_new hs) \<and>
      (length x = length (hs ! i) \<longrightarrow> length p = length (computeProof hs i) \<longrightarrow> verifyProof x p (computeMerkleRoot hs) i \<longrightarrow>
        x = hs ! i \<or> (\<exists>(s, t)\<in>set (zip (path_inputs sha1 x i p) (path_inputs sha1 (hs ! i) i (computeProof hs i))). collision s t))) \<and>
   (length x = length y \<longrightarrow> length p = length q \<longrightarrow> verifyProof x p r j \<longrightarrow> verifyProof y q r j \<longrightarrow>
      x = y \<or> (\<exists>(s, t)\<in>set (zip (path_inputs sha1 x j p) (path_inputs sha1 y j q)). collision s t)) \<and>
   verifyProof (sha1 (a @ b)) [sha1 (c @ d)] (computeMerkleRoot [a, b, c, d]) 0"
proof -
  have bind: "x = y \<or> (\<exists>(s, t)\<in>set (zip (path_inputs sha1 x j p) (path_inputs sha1 y j q)). collision s t)"
    if "length x = length y" "length p = length q" "verifyProof x p r j" "verifyProof y q r j" for x y p q r j
    using sha1.path_binds [of p q x y j] that by (auto simp: verifyProof_def collision_def)
  have "merkle_next [a, b, c, d] = [sha1 (a @ b), sha1 (c @ d)]" "merkle_next [x, y] = [sha1 (x @ y)]" for x y
    by (simp_all add: merkle_next_def merkle_pad_def upt_rec Let_def)
  then have "verifyProof (sha1 (a @ b)) [sha1 (c @ d)] (computeMerkleRoot [a, b, c, d]) 0"
    by (simp add: verifyProof_def computeMerkleRoot_def merkle_reduce.simps)
  then show ?thesis using proof_verifies [of i hs] bind mt_new_static [where hs = hs]
    by (auto simp: mt_verifyProof_def mt_getRoot_def)
qed

lemma merkle_proofs_witness:
  "verifyProof ''b'' (computeProof [''a'', ''b'', ''c'', ''d''] 1) (computeMerkleRoot [''a'', ''b'', ''c'', ''d'']) 1"
proof -
  let ?l = "[''a'', ''b'', ''c'', ''d'']"
  have "1 < length ?l" "paired (length ?l) 1" by (simp_all add: paired.simps)
  then have "verifyProof (?l ! 1) (computeProof ?l 1) (computeMerkleRoot ?l) 1" using merkle_proofs by blast
  then show ?thesis by simp
qed

text \<open>a number of leaves that is a power of two pairs every leaf\<close>

lemma paired_power: "i < 2 ^ k \<Longrightarrow> paired (2 ^ k) i"
proof (induction k arbitrary: i)
  case (Suc k)
  have "((2::nat) ^ Suc k + 1) div 2 = 2 ^ k" by simp
  then show ?case using Suc by (subst paired.simps) auto
qed (simp add: paired.simps)

text \<open>
  The proof of an unpaired last leaf lacks the duplicate of the leaf: for three leaves
  the third one's proof verifies only if the strings hashed last are a collision or the leaf is
  the hash of its own double. And a list of
  an odd number of leaves, three or more, has the root of the longer list in which its last
  leaf is repeated.
\<close>

theorem merkle_odd_leaves:
  "(verifyProof c (computeProof [a, b, c] 2) (computeMerkleRoot [a, b, c]) 2 \<longrightarrow>
      collision (c @ sha1 (a @ b)) (sha1 (a @ b) @ sha1 (c @ c)) \<or> c = sha1 (c @ c)) \<and>
   (odd (length hs) \<longrightarrow> 3 \<le> length hs \<longrightarrow> computeMerkleRoot (hs @ [last hs]) = computeMerkleRoot hs)"
proof (intro conjI impI)
  assume v: "verifyProof c (computeProof [a, b, c] 2) (computeMerkleRoot [a, b, c]) 2"
  have next3: "merkle_next [a, b, c] = [sha1 (a @ b), sha1 (c @ c)]"
    by (simp add: merkle_next_def merkle_pad_def upt_rec Let_def)
  have next2: "merkle_next [x, y] = [sha1 (x @ y)]" for x y
    by (simp add: merkle_next_def merkle_pad_def Let_def)
  have "computeProof [a, b, c] 2 = [sha1 (a @ b)]"
    by (simp add: computeProof_def proof_loop.simps next3 next2 sibling_index_def)
  moreover have "computeMerkleRoot [a, b, c] = sha1 (sha1 (a @ b) @ sha1 (c @ c))"
    by (simp add: computeMerkleRoot_def merkle_reduce.simps next3 next2)
  ultimately have "sha1 (c @ sha1 (a @ b)) = sha1 (sha1 (a @ b) @ sha1 (c @ c))"
    using v by (simp add: verifyProof_def)
  moreover have "c = sha1 (c @ c)" if e: "c @ sha1 (a @ b) = sha1 (a @ b) @ sha1 (c @ c)"
  proof -
    have "length (sha1 (a @ b)) = length (sha1 (c @ c))" by simp
    then have "c = sha1 (a @ b) \<and> sha1 (a @ b) = sha1 (c @ c)"
      by (intro iffD1 [OF append_eq_append_conv e] disjI2)
    then show ?thesis by (rule conjE) (erule trans)
  qed
  ultimately show "collision (c @ sha1 (a @ b)) (sha1 (a @ b) @ sha1 (c @ c)) \<or> c = sha1 (c @ c)" unfolding collision_def by blast
next
  assume o: "odd (length hs)" "3 \<le> length hs"
  then have "merkle_next (hs @ [last hs]) = merkle_next hs" by (simp add: merkle_next_def merkle_pad_def)
  moreover have "merkle_reduce l = merkle_reduce (merkle_next l)" if "1 < length l" for l
    using that by (subst merkle_reduce.simps) simp
  moreover have l: "1 < length hs" using o(2) by simp
  moreover from l have "1 < length (hs @ [last hs])" by auto
  ultimately have "merkle_reduce (hs @ [last hs]) = merkle_reduce hs" by metis
  moreover have "hs \<noteq> []" using l by auto
  ultimately show "computeMerkleRoot (hs @ [last hs]) = computeMerkleRoot hs" by (simp add: computeMerkleRoot_def)
qed

lemma merkle_odd_leaves_witness:
  "computeMerkleRoot [''a'', ''b'', ''c'', ''c''] = computeMerkleRoot [''a'', ''b'', ''c'']"
  using merkle_odd_leaves [of "[]" "[]" "[]" "[''a'', ''b'', ''c'']"] by simp

end
