(* ===== verification/P2p_Chain.thy ===== *)
theory P2p_Chain
  imports P2p_Merkle "HOL-Library.Signed_Division"
begin

text \<open>
  Transactions, blocks and the chain of \<open>p2p_banking_system/blockchain\<close>
  (\<open>transaction.cpp\<close>, \<open>block.cpp\<close>, \<open>blockchain.cpp\<close>). Time stamps and random numbers are
  arguments. Serialized forms, which need the parsers of the library, are not modelled.
\<close>

section \<open>Transactions\<close>

record tx =
  tx_txId :: string
  tx_from :: string
  tx_to :: string
  tx_value :: double
  tx_time :: u64
  tx_rand :: u64
  tx_sig :: string
  tx_hash :: string
  tx_meta :: string

definition dec_u64 :: "u64 \<Rightarrow> string" where
  "dec_u64 x = dec_nat (unat x)"

definition generateTxId :: "string \<Rightarrow> string \<Rightarrow> double \<Rightarrow> u64 \<Rightarrow> u64 \<Rightarrow> string" where
  "generateTxId from to amount timestamp nonce =
     sha1 (from @ to @ dec_double amount @ dec_u64 timestamp @ dec_u64 nonce)"

text \<open>the signed string, built alike in three functions\<close>

definition tx_text :: "tx \<Rightarrow> string" where
  "tx_text t = tx_txId t @ tx_from t @ tx_to t @ dec_double (tx_value t) @ dec_u64 (tx_time t) @ dec_u64 (tx_rand t)"

definition calculateTxHash :: "tx \<Rightarrow> string" where
  "calculateTxHash t = sha1_double (tx_text t @ tx_sig t)"

definition createTransaction :: "string \<Rightarrow> string \<Rightarrow> double \<Rightarrow> string \<Rightarrow> u64 \<Rightarrow> u64 \<Rightarrow> tx" where
  "createTransaction from to amount privateKey timestamp nonce =
     (let t = \<lparr>tx_txId = generateTxId from to amount timestamp nonce, tx_from = from, tx_to = to, tx_value = amount,
                tx_time = timestamp, tx_rand = nonce, tx_sig = [], tx_hash = [], tx_meta = []\<rparr>;
          t = t\<lparr>tx_sig := sha1_hmac privateKey (tx_text t)\<rparr>
      in t\<lparr>tx_hash := calculateTxHash t\<rparr>)"

definition verifyTransaction :: "tx \<Rightarrow> string \<Rightarrow> bool" where
  "verifyTransaction t publicKey = (sha1_hmac publicKey (tx_text t) = tx_sig t)"

definition validateTransaction :: "tx \<Rightarrow> double \<Rightarrow> bool" where
  "validateTransaction t senderBalance =
     (if dbl_le (tx_value t) (Fin 0) then False
      else if dbl_less senderBalance (tx_value t) then False
      else if tx_from t = [] \<or> tx_to t = [] then False
      else if tx_from t = tx_to t then False
      else True)"

text \<open>the loop of calculateMerkleRoot is that of computeMerkleRoot\<close>

definition calculateMerkleRoot :: "tx list \<Rightarrow> string" where
  "calculateMerkleRoot txs = (if txs = [] then sha1 ''empty'' else merkle_reduce (map tx_hash txs) ! 0)"

section \<open>Blocks\<close>

record block =
  b_index :: u32
  b_previousHash :: string
  b_timestamp :: u64
  b_transactions :: "tx list"
  b_merkleRoot :: string
  b_hash :: string
  b_nonce :: u64
  b_validator :: string
  b_difficulty :: u64
  b_version :: string

definition empty_block :: block where
  "empty_block = \<lparr>b_index = 0, b_previousHash = [], b_timestamp = 0, b_transactions = [], b_merkleRoot = [],
     b_hash = [], b_nonce = 0, b_validator = [], b_difficulty = 4, b_version = []\<rparr>"

definition new_block :: "u32 \<Rightarrow> string \<Rightarrow> u64 \<Rightarrow> block" where
  "new_block idx prevHash now = empty_block\<lparr>b_index := idx, b_previousHash := prevHash, b_timestamp := now\<rparr>"

definition getHeaderData :: "block \<Rightarrow> string" where
  "getHeaderData b = dec_int (sint (b_index b)) @ b_previousHash b @ dec_u64 (b_timestamp b) @ b_merkleRoot b @
     dec_u64 (b_nonce b) @ b_validator b @ dec_u64 (b_difficulty b) @ b_version b"

definition calculateBlockHash :: "block \<Rightarrow> string" where
  "calculateBlockHash b = sha1_double (getHeaderData b)"

text \<open>
  The test of the leading zeros: the prefix is at most the whole hash, and the character
  behind its end, which the loop reads before it stops, is not a zero digit.
\<close>

definition zero_prefix :: "nat \<Rightarrow> string \<Rightarrow> bool" where
  "zero_prefix n h =
     (let prefix = take n h in \<forall>i\<in>set [0..<n]. if i < length prefix then prefix ! i = CHR ''0'' else False)"

text \<open>\<open>rng k\<close> is the k-th number drawn\<close>

primrec mine_loop :: "(nat \<Rightarrow> u64) \<Rightarrow> nat \<Rightarrow> nat \<Rightarrow> nat \<Rightarrow> block \<Rightarrow> bool \<times> block" where
  "mine_loop rng target attempt 0 b = (False, b)"
| "mine_loop rng target attempt (Suc attempts) b =
     (let b = b\<lparr>b_nonce := rng attempt\<rparr>;
          b = b\<lparr>b_hash := calculateBlockHash b\<rparr>
      in if zero_prefix target (b_hash b) then (True, b) else mine_loop rng target (attempt + 1) attempts b)"

definition mineBlock :: "(nat \<Rightarrow> u64) \<Rightarrow> u64 \<Rightarrow> u64 \<Rightarrow> block \<Rightarrow> bool \<times> block" where
  "mineBlock rng targetDifficulty maxAttempts b =
     mine_loop rng (unat targetDifficulty) 0 (unat maxAttempts) (b\<lparr>b_difficulty := targetDifficulty\<rparr>)"

definition validateBlock :: "block \<Rightarrow> block \<Rightarrow> bool cpp" where
  "validateBlock b previousBlock =
     (if sint (b_index previousBlock) = 2 ^ 31 - 1 then Inl Overflow
      else if b_index b \<noteq> b_index previousBlock + 1 then Inr False
      else if b_previousHash b \<noteq> b_hash previousBlock then Inr False
      else if b_timestamp b \<le> b_timestamp previousBlock then Inr False
      else if calculateBlockHash b \<noteq> b_hash b then Inr False
      else Inr (zero_prefix (unat (b_difficulty b)) (b_hash b)))"

section \<open>The chain\<close>

record blockchain =
  bc_chain :: "block list"
  bc_balances :: "(string, double) std_map"
  bc_accountTransactions :: "(string, string list) std_map"
  bc_blockIndex :: "(string, block) std_map"

definition createGenesisBlock :: "u64 \<Rightarrow> block" where
  "createGenesisBlock now =
     (let g = (new_block 0 (sha1 ''GENESIS'') now)\<lparr>b_timestamp := 0, b_validator := ''SYSTEM'',
            b_merkleRoot := sha1 ''GENESIS_BLOCK'', b_nonce := 0\<rparr>
      in g\<lparr>b_hash := calculateBlockHash g\<rparr>)"

definition bc_new :: "u64 \<Rightarrow> blockchain" where
  "bc_new now = \<lparr>bc_chain = [createGenesisBlock now], bc_balances = [], bc_accountTransactions = [], bc_blockIndex = []\<rparr>"

fun validateTransactions :: "(string, double) std_map \<Rightarrow> tx list \<Rightarrow> bool" where
  "validateTransactions temp [] = True"
| "validateTransactions temp (t # txs) =
     (if \<not> verifyTransaction t (tx_from t) then False
      else let (have, temp) = map_index (Fin 0) (tx_from t) temp
           in if dbl_less have (tx_value t) then False
              else let temp = map_change (Fin 0) (tx_from t) (\<lambda>x. dbl_sub x (tx_value t)) temp;
                       temp = map_change (Fin 0) (tx_to t) (\<lambda>x. dbl_add x (tx_value t)) temp
                   in validateTransactions temp txs)"

definition apply_tx :: "blockchain \<Rightarrow> tx \<Rightarrow> blockchain" where
  "apply_tx c t =
     (let m = map_change (Fin 0) (tx_from t) (\<lambda>x. dbl_sub x (tx_value t)) (bc_balances c);
          m = map_change (Fin 0) (tx_to t) (\<lambda>x. dbl_add x (tx_value t)) m;
          a = map_change [] (tx_from t) (\<lambda>l. l @ [tx_txId t]) (bc_accountTransactions c);
          a = map_change [] (tx_to t) (\<lambda>l. l @ [tx_txId t]) a
      in c\<lparr>bc_balances := m, bc_accountTransactions := a\<rparr>)"

definition updateBalances :: "tx list \<Rightarrow> blockchain \<Rightarrow> blockchain" where
  "updateBalances txs c = foldl apply_tx c txs"

definition append_block :: "block \<Rightarrow> blockchain \<Rightarrow> blockchain" where
  "append_block b c = c\<lparr>bc_chain := bc_chain c @ [b], bc_blockIndex := map_put (b_hash b) b (bc_blockIndex c)\<rparr>"

definition addBlock :: "(nat \<Rightarrow> u64) \<Rightarrow> u64 \<Rightarrow> tx list \<Rightarrow> string \<Rightarrow> blockchain \<Rightarrow> bool \<times> blockchain" where
  "addBlock rng now txs validator c =
     (if \<not> validateTransactions (bc_balances c) txs then (False, c)
      else let b = empty_block\<lparr>b_index := of_nat (length (bc_chain c)), b_previousHash := b_hash (last (bc_chain c)),
                     b_timestamp := now, b_transactions := txs, b_merkleRoot := calculateMerkleRoot txs,
                     b_validator := validator, b_difficulty := 4\<rparr>;
               (found, b) = mineBlock rng 4 1000000 b
           in if \<not> found then (False, c) else (True, append_block b (updateBalances txs c)))"

definition addBlockDirect :: "block \<Rightarrow> blockchain \<Rightarrow> bool \<times> blockchain" where
  "addBlockDirect b c =
     (if b_index b \<noteq> of_nat (length (bc_chain c)) then (False, c)
      else if b_previousHash b \<noteq> b_hash (last (bc_chain c)) then (False, c)
      else if calculateBlockHash b \<noteq> b_hash b then (False, c)
      else if \<not> validateTransactions (bc_balances c) (b_transactions b) then (False, c)
      else (True, append_block b (updateBalances (b_transactions b) c)))"

definition getBlock :: "u32 \<Rightarrow> blockchain \<Rightarrow> block" where
  "getBlock index c =
     (if sint index < 0 \<or> sint (of_nat (length (bc_chain c)) :: u32) \<le> sint index then empty_block
      else bc_chain c ! nat (sint index))"

definition getLatestBlock :: "blockchain \<Rightarrow> block" where
  "getLatestBlock c = (if bc_chain c = [] then empty_block else last (bc_chain c))"

definition getLatestHash :: "blockchain \<Rightarrow> string" where
  "getLatestHash c = (if bc_chain c = [] then [] else b_hash (last (bc_chain c)))"

definition getHeight :: "blockchain \<Rightarrow> u32" where
  "getHeight c = of_nat (length (bc_chain c))"

definition bc_getBalance :: "string \<Rightarrow> blockchain \<Rightarrow> double \<times> blockchain" where
  "bc_getBalance account c =
     (let (x, m) = map_index (Fin 0) account (bc_balances c) in (x, c\<lparr>bc_balances := m\<rparr>))"

definition getAccountTransactions :: "string \<Rightarrow> blockchain \<Rightarrow> string list" where
  "getAccountTransactions account c =
     (case map_of (bc_accountTransactions c) account of None \<Rightarrow> [] | Some l \<Rightarrow> l)"

definition verify_link :: "block list \<Rightarrow> nat \<Rightarrow> bool" where
  "verify_link chain i =
     (b_previousHash (chain ! i) = b_hash (chain ! (i - 1)) \<and> calculateBlockHash (chain ! i) = b_hash (chain ! i) \<and>
      b_index (chain ! i) = of_nat i \<and> b_merkleRoot (chain ! i) = calculateMerkleRoot (b_transactions (chain ! i)))"

definition verifyChain :: "blockchain \<Rightarrow> bool" where
  "verifyChain c = (\<forall>i\<in>set [1..<length (bc_chain c)]. verify_link (bc_chain c) i)"

definition containsBlock :: "string \<Rightarrow> blockchain \<Rightarrow> bool" where
  "containsBlock hash c = (map_of (bc_blockIndex c) hash \<noteq> None)"

definition findBlockByHash :: "string \<Rightarrow> blockchain \<Rightarrow> block" where
  "findBlockByHash hash c = (case map_of (bc_blockIndex c) hash of Some b \<Rightarrow> b | None \<Rightarrow> empty_block)"

definition getBlocksFrom :: "u32 \<Rightarrow> blockchain \<Rightarrow> block list" where
  "getBlocksFrom startIndex c =
     (if sint startIndex < 0 \<or> sint (of_nat (length (bc_chain c)) :: u32) \<le> sint startIndex then []
      else drop (nat (sint startIndex)) (bc_chain c))"

definition getTotalSupply :: "blockchain \<Rightarrow> double" where
  "getTotalSupply c = foldl (\<lambda>total (account, balance). dbl_add total balance) (Fin 0) (bc_balances c)"

section \<open>The block validator\<close>

definition validateBlockStructure :: "block \<Rightarrow> bool" where
  "validateBlockStructure b =
     (if sint (b_index b) < 0 then False
      else if b_previousHash b = [] then False
      else if b_timestamp b = 0 then False
      else if b_merkleRoot b = [] then False
      else if b_hash b = [] then False
      else if b_validator b = [] then False
      else True)"

definition validateTransactionOrder :: "tx list \<Rightarrow> bool" where
  "validateTransactionOrder txs = (\<forall>i\<in>set [1..<length txs]. \<not> tx_time (txs ! i) < tx_time (txs ! (i - 1)))"

definition validateMerkleRoot :: "block \<Rightarrow> bool" where
  "validateMerkleRoot b = (calculateMerkleRoot (b_transactions b) = b_merkleRoot b)"

definition validateTimestamp :: "block \<Rightarrow> u64 \<Rightarrow> u64 \<Rightarrow> bool" where
  "validateTimestamp b maxFutureMs now = (if now + maxFutureMs < b_timestamp b then False else True)"

text \<open>
  An int from an unsigned quotient keeps its low 32 bits; the comparisons are signed. The
  doubling of the target overflows for targets above two to the 30.
\<close>

definition calculateNextDifficulty :: "block list \<Rightarrow> u32 \<Rightarrow> u32 cpp" where
  "calculateNextDifficulty recentBlocks targetBlockTimeMs =
     (if length recentBlocks < 2 then Inr 4
      else let totalTime = b_timestamp (last recentBlocks) - b_timestamp (hd recentBlocks);
               actualBlockTime = sint (ucast (totalTime div of_nat (length recentBlocks - 1)) :: u32);
               target = sint targetBlockTimeMs
           in if actualBlockTime < target sdiv 2 then Inr 5
              else if target * 2 < - (2 ^ 31) \<or> 2 ^ 31 \<le> target * 2 then Inl Overflow
              else if actualBlockTime > target * 2 then Inr 3
              else Inr 4)"

section \<open>Mining\<close>

lemma zero_prefix_iff: "zero_prefix n h \<longleftrightarrow> take n h = replicate n CHR ''0''"
proof
  assume z: "zero_prefix n h"
  then have "i < length (take n h) \<and> take n h ! i = CHR ''0''" if "i < n" for i
    using that by (auto simp: zero_prefix_def Let_def split: if_splits)
  moreover from this have "length (take n h) = n" by (metis length_take min_less_iff_conj nat_neq_iff)
  ultimately show "take n h = replicate n CHR ''0''" by (intro nth_equalityI) auto
next
  assume e: "take n h = replicate n CHR ''0''"
  then have "length (take n h) = n" by simp
  then show "zero_prefix n h" unfolding zero_prefix_def Let_def e by simp
qed

text \<open>what mining leaves alone\<close>

definition same_content :: "block \<Rightarrow> block \<Rightarrow> bool" where
  "same_content b b' \<longleftrightarrow> b_index b' = b_index b \<and> b_previousHash b' = b_previousHash b \<and> b_timestamp b' = b_timestamp b \<and>
     b_transactions b' = b_transactions b \<and> b_merkleRoot b' = b_merkleRoot b \<and> b_validator b' = b_validator b \<and>
     b_version b' = b_version b"

lemma mine_loop_sound:
  "mine_loop rng n k m b = (True, b') \<Longrightarrow> same_content b b' \<and> b_difficulty b' = b_difficulty b \<and>
     b_hash b' = calculateBlockHash b' \<and> zero_prefix n (b_hash b')"
proof (induction m arbitrary: k b)
  case (Suc m)
  let ?b = "b\<lparr>b_nonce := rng k\<rparr>"
  show ?case
  proof (cases "zero_prefix n (calculateBlockHash ?b)")
    case True
    then show ?thesis using Suc.prems
      by (auto simp: Let_def same_content_def calculateBlockHash_def getHeaderData_def)
  next
    case False
    then have "mine_loop rng n (k + 1) m (?b\<lparr>b_hash := calculateBlockHash ?b\<rparr>) = (True, b')"
      using Suc.prems by (simp add: Let_def calculateBlockHash_def getHeaderData_def)
    from Suc.IH [OF this] show ?thesis by (auto simp: same_content_def)
  qed
qed simp

text \<open>the search succeeds exactly when one of the numbers drawn is good\<close>

lemma mine_loop_found:
  "fst (mine_loop rng n k m b) \<longleftrightarrow> (\<exists>i<m. zero_prefix n (calculateBlockHash (b\<lparr>b_nonce := rng (k + i)\<rparr>)))"
proof (induction m arbitrary: k b)
  case (Suc m)
  let ?c = "b\<lparr>b_nonce := rng k\<rparr>"
  have h: "calculateBlockHash (x\<lparr>b_hash := h\<rparr>) = calculateBlockHash x"
    "calculateBlockHash (x\<lparr>b_hash := h, b_nonce := y\<rparr>) = calculateBlockHash (x\<lparr>b_nonce := y\<rparr>)" for x h y
    by (simp_all add: calculateBlockHash_def getHeaderData_def)
  have "fst (mine_loop rng n k (Suc m) b) \<longleftrightarrow>
      zero_prefix n (calculateBlockHash ?c) \<or> (\<exists>i<m. zero_prefix n (calculateBlockHash (b\<lparr>b_nonce := rng (k + 1 + i)\<rparr>)))"
    using Suc [of "k + 1" "?c\<lparr>b_hash := calculateBlockHash ?c\<rparr>"] by (simp add: Let_def h)
  also have "\<dots> \<longleftrightarrow> (\<exists>i<Suc m. zero_prefix n (calculateBlockHash (b\<lparr>b_nonce := rng (k + i)\<rparr>)))"
    by (simp add: ex_simps less_Suc_eq_0_disj) (metis add_0_right add_Suc_right)
  finally show ?case .
qed simp

text \<open>
  C18: Mining ends after at most the given number of attempts; it succeeds exactly when one of
  the numbers drawn within them gives a hash with the wanted zeros, and then the block has
  that hash and its content unchanged; with a target above the length of a hash it never
  succeeds.
\<close>

theorem mining_correct:
  fixes b :: block
  shows "(fst (mineBlock rng d m b) \<longleftrightarrow>
      (\<exists>i<unat m. zero_prefix (unat d) (calculateBlockHash (b\<lparr>b_difficulty := d, b_nonce := rng i\<rparr>)))) \<and>
    (mineBlock rng d m b = (True, b') \<longrightarrow> same_content b b' \<and> b_difficulty b' = d \<and> b_hash b' = calculateBlockHash b' \<and>
       take (unat d) (b_hash b') = replicate (unat d) CHR ''0'') \<and>
    (40 < d \<longrightarrow> \<not> fst (mineBlock rng d m b))"
proof -
  have "\<not> zero_prefix (unat d) (calculateBlockHash x)" if "40 < d" for x
  proof
    assume "zero_prefix (unat d) (calculateBlockHash x)"
    then have "length (take (unat d) (calculateBlockHash x)) = unat d" by (simp only: zero_prefix_iff length_replicate)
    then show False using that by (simp add: calculateBlockHash_def word_less_nat_alt)
  qed
  then show ?thesis
    using mine_loop_sound [of rng "unat d" 0 "unat m" "b\<lparr>b_difficulty := d\<rparr>" b']
    by (auto simp: mineBlock_def mine_loop_found same_content_def zero_prefix_iff)
qed

lemma mining_correct_witness: "\<not> fst (mineBlock (\<lambda>_. 5) 41 1000 empty_block)"
proof -
  have "(40::u64) < 41" by simp
  then show ?thesis using mining_correct by blast
qed

section \<open>The chain stays linked\<close>

text \<open>the operations that change a chain\<close>

inductive chain_step :: "blockchain \<Rightarrow> blockchain \<Rightarrow> bool" where
  step_mined: "addBlock rng now txs validator c = (True, c') \<Longrightarrow> chain_step c c'"
| step_direct: "addBlockDirect b c = (True, c') \<Longrightarrow> chain_step c c'"
| step_balance: "bc_getBalance account c = (x, c') \<Longrightarrow> chain_step c c'"

definition linked :: "block list \<Rightarrow> nat \<Rightarrow> bool" where
  "linked chain i \<longleftrightarrow> b_previousHash (chain ! i) = b_hash (chain ! (i - 1)) \<and>
     calculateBlockHash (chain ! i) = b_hash (chain ! i) \<and> b_index (chain ! i) = of_nat i"

definition chain_inv :: "blockchain \<Rightarrow> bool" where
  "chain_inv c \<longleftrightarrow> bc_chain c \<noteq> [] \<and> map_ok (bc_balances c) \<and> map_ok (bc_blockIndex c) \<and>
     (\<forall>i. 1 \<le> i \<longrightarrow> i < length (bc_chain c) \<longrightarrow> linked (bc_chain c) i) \<and>
     (\<forall>h. (\<exists>b. map_of (bc_blockIndex c) h = Some b) \<longleftrightarrow> (\<exists>b\<in>set (tl (bc_chain c)). b_hash b = h))"

lemma apply_tx_simps [simp]:
  "bc_chain (apply_tx c t) = bc_chain c" "bc_blockIndex (apply_tx c t) = bc_blockIndex c"
  by (simp_all add: apply_tx_def Let_def)

lemma map_change_ok' [simp]: "map_ok m \<Longrightarrow> map_ok (map_change d k f m)"
  by (simp add: map_change_def)

lemma updateBalances_simps [simp]:
  "bc_chain (updateBalances txs c) = bc_chain c" "bc_blockIndex (updateBalances txs c) = bc_blockIndex c"
  "map_ok (bc_balances c) \<Longrightarrow> map_ok (bc_balances (updateBalances txs c))"
  by (induction txs arbitrary: c) (simp_all add: updateBalances_def, simp add: apply_tx_def Let_def)

text \<open>both ways of adding a block append one that is linked\<close>

lemma addBlock_appends:
  assumes "addBlock rng now txs validator c = (True, c')"
  shows "\<exists>b. c' = append_block b (updateBalances (b_transactions b) c) \<and> b_index b = of_nat (length (bc_chain c)) \<and>
    b_previousHash b = b_hash (last (bc_chain c)) \<and> calculateBlockHash b = b_hash b \<and>
    b_merkleRoot b = calculateMerkleRoot (b_transactions b) \<and>
    validateTransactions (bc_balances c) (b_transactions b) \<and> zero_prefix 4 (b_hash b)"
proof -
  let ?b = "empty_block\<lparr>b_index := of_nat (length (bc_chain c)), b_previousHash := b_hash (last (bc_chain c)),
     b_timestamp := now, b_transactions := txs, b_merkleRoot := calculateMerkleRoot txs, b_validator := validator, b_difficulty := 4\<rparr>"
  obtain f b where m: "mineBlock rng 4 1000000 ?b = (f, b)" by (metis surj_pair)
  then have f: "f" "c' = append_block b (updateBalances txs c)" "validateTransactions (bc_balances c) txs"
    using assms by (auto simp: addBlock_def Let_def split: if_splits)
  have "same_content ?b b \<and> b_hash b = calculateBlockHash b \<and> zero_prefix 4 (b_hash b)"
    using mine_loop_sound [of rng "unat (4::u64)" 0 "unat (1000000::u64)" "?b\<lparr>b_difficulty := 4\<rparr>" b] m f(1)
    by (auto simp: mineBlock_def same_content_def)
  then show ?thesis using f by (intro exI [of _ b]) (auto simp: same_content_def)
qed

lemma addBlockDirect_appends:
  assumes "addBlockDirect b c = (True, c')"
  shows "c' = append_block b (updateBalances (b_transactions b) c)" "b_index b = of_nat (length (bc_chain c))"
    "b_previousHash b = b_hash (last (bc_chain c))" "calculateBlockHash b = b_hash b"
    "validateTransactions (bc_balances c) (b_transactions b)"
  using assms by (auto simp: addBlockDirect_def split: if_splits)

lemma append_block_inv:
  assumes "chain_inv c" "b_index b = of_nat (length (bc_chain c))" "b_previousHash b = b_hash (last (bc_chain c))"
    "calculateBlockHash b = b_hash b"
  shows "chain_inv (append_block b (updateBalances txs c))"
proof -
  let ?l = "bc_chain c" and ?c = "append_block b (updateBalances txs c)"
  have ne: "?l \<noteq> []" using assms(1) by (simp add: chain_inv_def)
  have "linked (?l @ [b]) i" if "1 \<le> i" "i < length (?l @ [b])" for i
  proof (cases "i < length ?l")
    case True
    then have "linked ?l i" using assms(1) that by (simp add: chain_inv_def)
    moreover have "i - 1 < length ?l" using True by simp
    ultimately show ?thesis using True by (simp add: linked_def nth_append)
  next
    case False
    then have "i = length ?l" using that by simp
    then show ?thesis using assms ne that by (simp add: linked_def nth_append last_conv_nth)
  qed
  moreover have "(\<exists>x. map_of (map_put (b_hash b) b (bc_blockIndex c)) h = Some x) \<longleftrightarrow> (\<exists>x\<in>set (tl (?l @ [b])). b_hash x = h)" for h
    using assms(1) ne by (auto simp: chain_inv_def)
  ultimately show ?thesis using assms(1) by (simp add: chain_inv_def append_block_def)
qed

lemma getBalance_inv: "chain_inv c \<Longrightarrow> bc_getBalance a c = (x, c') \<Longrightarrow> chain_inv c' \<and> bc_chain c' = bc_chain c"
proof -
  assume c: "chain_inv c" "bc_getBalance a c = (x, c')"
  let ?m = "snd (map_index (Fin 0) a (bc_balances c))"
  have "c' = c\<lparr>bc_balances := ?m\<rparr>" using c(2) by (auto simp: bc_getBalance_def split_def Let_def)
  moreover have "map_ok ?m" using c(1) by (simp add: map_index_def chain_inv_def split: option.split)
  ultimately show ?thesis using c(1) by (simp add: chain_inv_def)
qed

lemma chain_step_inv: "chain_step c c' \<Longrightarrow> chain_inv c \<Longrightarrow> chain_inv c'"
proof (induction rule: chain_step.induct)
  case (step_mined rng now txs validator c c')
  then show ?case using addBlock_appends append_block_inv by metis
next
  case (step_direct b c c')
  then show ?case using addBlockDirect_appends append_block_inv by metis
qed (use getBalance_inv in blast)

lemma bc_new_inv: "chain_inv (bc_new now)"
  by (simp add: chain_inv_def bc_new_def)

lemma chain_reach_inv: "chain_step\<^sup>*\<^sup>* c c' \<Longrightarrow> chain_inv c \<Longrightarrow> chain_inv c'"
  by (induction rule: rtranclp_induct) (auto intro: chain_step_inv)

text \<open>
  C19: In every chain reached from the genesis block by mining and by adding foreign blocks,
  each block has its position as index, the hash of the one before it and the hash of its
  own header; so the check of the whole chain fails exactly when some block's Merkle root
  is not that of its transactions, which adding a foreign block does not test. The index
  holds the hashes of the chain without its genesis block.
\<close>

theorem verify_chain_reachable:
  assumes "chain_step\<^sup>*\<^sup>* (bc_new now) c"
  shows "(\<forall>i. 1 \<le> i \<longrightarrow> i < length (bc_chain c) \<longrightarrow> linked (bc_chain c) i) \<and>
    (verifyChain c \<longleftrightarrow> (\<forall>b\<in>set (tl (bc_chain c)). validateMerkleRoot b)) \<and>
    (containsBlock h c \<longleftrightarrow> (\<exists>b\<in>set (tl (bc_chain c)). b_hash b = h))"
proof -
  have inv: "chain_inv c" using chain_reach_inv [OF assms bc_new_inv] .
  let ?l = "bc_chain c"
  have "verify_link ?l i \<longleftrightarrow> validateMerkleRoot (?l ! i)" if "1 \<le> i" "i < length ?l" for i
    using inv that by (auto simp: chain_inv_def linked_def verify_link_def validateMerkleRoot_def)
  moreover have "(\<forall>b\<in>set (tl ?l). P b) \<longleftrightarrow> (\<forall>i. 1 \<le> i \<longrightarrow> i < length ?l \<longrightarrow> P (?l ! i))" for P
  proof -
    have l: "?l \<noteq> []" using inv by (simp add: chain_inv_def)
    then obtain g r where r: "?l = g # r" by (cases ?l) auto
    have "(\<forall>b\<in>set r. P b) \<longleftrightarrow> (\<forall>j. j < length r \<longrightarrow> P (r ! j))" by (metis in_set_conv_nth)
    also have "\<dots> \<longleftrightarrow> (\<forall>i. 1 \<le> i \<longrightarrow> i < length (g # r) \<longrightarrow> P ((g # r) ! i))"
      by (auto simp: nth_Cons split: nat.splits)
    finally show ?thesis unfolding r by simp
  qed
  ultimately show ?thesis using inv by (auto simp: verifyChain_def chain_inv_def containsBlock_def)
qed

lemma direct_block:
  fixes m :: string and now :: u64
  defines "b \<equiv> empty_block\<lparr>b_index := 1, b_previousHash := getLatestHash (bc_new now), b_merkleRoot := m\<rparr>"
  defines "c \<equiv> snd (addBlockDirect (b\<lparr>b_hash := calculateBlockHash b\<rparr>) (bc_new now))"
  shows "chain_step (bc_new now) c \<and> bc_chain c = [createGenesisBlock now, b\<lparr>b_hash := calculateBlockHash b\<rparr>]"
proof -
  have "calculateBlockHash (b\<lparr>b_hash := h\<rparr>) = calculateBlockHash b" for h
    by (simp add: calculateBlockHash_def getHeaderData_def)
  then have a: "addBlockDirect (b\<lparr>b_hash := calculateBlockHash b\<rparr>) (bc_new now) = (True, c)"
    "bc_chain c = [createGenesisBlock now, b\<lparr>b_hash := calculateBlockHash b\<rparr>]"
    by (simp_all add: c_def b_def addBlockDirect_def bc_new_def getLatestHash_def empty_block_def append_block_def updateBalances_def)
  then show ?thesis using step_direct by auto
qed

lemma verify_chain_reachable_witness:
  "let b = empty_block\<lparr>b_index := 1, b_previousHash := getLatestHash (bc_new 7), b_merkleRoot := []\<rparr>
   in \<not> verifyChain (snd (addBlockDirect (b\<lparr>b_hash := calculateBlockHash b\<rparr>) (bc_new 7)))"
proof -
  let ?b = "empty_block\<lparr>b_index := 1, b_previousHash := getLatestHash (bc_new 7), b_merkleRoot := []\<rparr>"
  let ?c = "snd (addBlockDirect (?b\<lparr>b_hash := calculateBlockHash ?b\<rparr>) (bc_new 7))"
  have d: "chain_step (bc_new 7) ?c" "bc_chain ?c = [createGenesisBlock 7, ?b\<lparr>b_hash := calculateBlockHash ?b\<rparr>]"
    using direct_block by blast+
  have "sha1 ''empty'' \<noteq> []" by (metis length_sha1 list.size(3) zero_neq_numeral)
  then have "\<not> (\<forall>b\<in>set (tl (bc_chain ?c)). validateMerkleRoot b)"
    unfolding d(2) by (simp add: validateMerkleRoot_def empty_block_def calculateMerkleRoot_def)
  then show ?thesis
    using verify_chain_reachable [of 7, OF r_into_rtranclp, OF d(1)] unfolding Let_def by blast
qed

section \<open>Who can spend what\<close>

definition balance_of :: "string \<Rightarrow> blockchain \<Rightarrow> double" where
  "balance_of a c = (case map_of (bc_balances c) a of Some x \<Rightarrow> x | None \<Rightarrow> Fin 0)"

lemma verify_created: "verifyTransaction (createTransaction f t a k n r) k"
  by (simp add: verifyTransaction_def createTransaction_def tx_text_def Let_def)

lemma created_simps [simp]:
  "tx_from (createTransaction f t a k n r) = f" "tx_to (createTransaction f t a k n r) = t"
  "tx_value (createTransaction f t a k n r) = a"
  by (simp_all add: createTransaction_def Let_def)

lemma validate_single:
  "validateTransactions (bc_balances c) [t] \<longleftrightarrow>
    verifyTransaction t (tx_from t) \<and> \<not> dbl_less (balance_of (tx_from t) c) (tx_value t)"
  by (simp add: balance_of_def map_index_def split_def Let_def split: option.split)

lemma balance_apply_tx:
  assumes "map_ok (bc_balances c)" "tx_from t \<noteq> tx_to t"
  shows "balance_of a (apply_tx c t) =
    (if a = tx_from t then dbl_sub (balance_of a c) (tx_value t)
     else if a = tx_to t then dbl_add (balance_of a c) (tx_value t) else balance_of a c)"
  using assms by (simp add: balance_of_def apply_tx_def Let_def map_change_def split: option.split)

text \<open>
  The key with which a block's transactions are checked is the name of the sending
  account, so whoever knows the name can make a transaction that the chain accepts; and no
  amount is too negative: paying minus x moves x from the receiver to the sender, whatever
  the receiver has.
\<close>

theorem anyone_can_spend:
  assumes "map_ok (bc_balances c)"
  shows "(\<not> dbl_less (balance_of f c) v \<longrightarrow> validateTransactions (bc_balances c) [createTransaction f t v f n r]) \<and>
    (balance_of f c = Fin y \<longrightarrow> 0 \<le> y \<longrightarrow> 0 < x \<longrightarrow> f \<noteq> t \<longrightarrow>
      (let p = createTransaction f t (Fin (- x)) f n r; c' = updateBalances [p] c
       in validateTransactions (bc_balances c) [p] \<and>
          balance_of f c' = dbl_add (Fin y) (Fin x) \<and> balance_of t c' = dbl_sub (balance_of t c) (Fin x)))"
proof -
  have "validateTransactions (bc_balances c) [createTransaction f t v f n r] \<longleftrightarrow> \<not> dbl_less (balance_of f c) v" for v
    by (simp only: validate_single created_simps verify_created simp_thms)
  then show ?thesis using assms
    by (auto simp: updateBalances_def balance_apply_tx Let_def dbl_sub_def simp del: validateTransactions.simps)
qed

lemma anyone_can_spend_witness:
  "balance_of ''mallory'' (updateBalances [createTransaction ''mallory'' ''alice'' (Fin (- 100)) ''mallory'' 1 2] (bc_new 0)) = Fin 100"
proof -
  have "map_ok (bc_balances (bc_new 0))" "balance_of ''mallory'' (bc_new 0) = Fin 0"
    by (simp_all add: bc_new_def balance_of_def)
  moreover have "fl 100 = Fin 100" using fl_int [of 100] by simp
  ultimately show ?thesis
    using anyone_can_spend [of "bc_new 0" "''mallory''" "Fin 0" "''alice''" 1 2 0 100] by (simp add: Let_def)
qed

lemma positive_rejected:
  assumes "\<forall>x\<in>set (bc_balances c). snd x = Fin 0" "dbl_less (Fin 0) (tx_value t)"
  shows "\<not> validateTransactions (bc_balances c) (t # txs)"
proof -
  have "fst (map_index (Fin 0) (tx_from t) (bc_balances c)) = Fin 0"
    using assms(1) map_of_SomeD by (fastforce simp: map_index_def split: option.split)
  then show ?thesis using assms(2) by (simp add: split_def Let_def)
qed

lemma zero_chain_step:
  assumes "chain_step c c'" "\<forall>x\<in>set (bc_balances c). snd x = Fin 0" "\<forall>b\<in>set (bc_chain c). b_transactions b = []"
    "\<forall>b\<in>set (bc_chain c'). \<forall>t\<in>set (b_transactions b). dbl_less (Fin 0) (tx_value t)"
  shows "(\<forall>x\<in>set (bc_balances c'). snd x = Fin 0) \<and> (\<forall>b\<in>set (bc_chain c'). b_transactions b = [])"
proof -
  have app: ?thesis if "c' = append_block b (updateBalances (b_transactions b) c)"
    "validateTransactions (bc_balances c) (b_transactions b)" for b
  proof -
    have "b_transactions b = []"
      using that assms(2,4) positive_rejected by (cases "b_transactions b") (auto simp: append_block_def)
    then show ?thesis using that assms(2,3) by (simp add: append_block_def updateBalances_def)
  qed
  from assms(1) show ?thesis
  proof cases
    case (step_balance a x)
    then show ?thesis using assms(2,3) set_map_put [of a "Fin 0" "bc_balances c"]
      by (auto simp: bc_getBalance_def map_index_def split: option.splits)
  next
    case (step_mined rng now txs validator)
    then show ?thesis using addBlock_appends app by metis
  next
    case (step_direct b)
    then show ?thesis using addBlockDirect_appends app by metis
  qed
qed

text \<open>
  No chain ever holds a positive payment unless somebody first makes a payment that is
  not positive: from the genesis block, if every amount in the chain is positive, no block
  has any transaction. There is no operation that creates money.
\<close>

theorem no_positive_payment:
  assumes "chain_step\<^sup>*\<^sup>* (bc_new now) c"
    and "\<forall>b\<in>set (bc_chain c). \<forall>t\<in>set (b_transactions b). dbl_less (Fin 0) (tx_value t)"
  shows "\<forall>b\<in>set (bc_chain c). b_transactions b = []"
proof -
  have "(\<forall>x\<in>set (bc_balances c). snd x = Fin 0) \<and> (\<forall>b\<in>set (bc_chain c). b_transactions b = [])"
    using assms
  proof (induction rule: rtranclp_induct)
    case base
    then show ?case by (simp add: bc_new_def createGenesisBlock_def new_block_def empty_block_def Let_def)
  next
    case (step c c')
    have "set (bc_chain c) \<subseteq> set (bc_chain c')"
      using step(2) by cases (auto dest!: addBlock_appends addBlockDirect_appends(1) simp: append_block_def bc_getBalance_def split: prod.splits)
    then have "\<forall>b\<in>set (bc_chain c). \<forall>t\<in>set (b_transactions b). dbl_less (Fin 0) (tx_value t)" using step.prems by auto
    from step.IH [OF this] show ?case using zero_chain_step [OF step(2)] step.prems by blast
  qed
  then show ?thesis ..
qed

lemma no_positive_payment_witness:
  "let b = empty_block\<lparr>b_index := 1, b_previousHash := getLatestHash (bc_new 3), b_merkleRoot := sha1 ''empty''\<rparr>
   in b_transactions (last (bc_chain (snd (addBlockDirect (b\<lparr>b_hash := calculateBlockHash b\<rparr>) (bc_new 3))))) = []"
proof -
  let ?b = "empty_block\<lparr>b_index := 1, b_previousHash := getLatestHash (bc_new 3), b_merkleRoot := sha1 ''empty''\<rparr>"
  let ?c = "snd (addBlockDirect (?b\<lparr>b_hash := calculateBlockHash ?b\<rparr>) (bc_new 3))"
  have d: "chain_step (bc_new 3) ?c" "bc_chain ?c = [createGenesisBlock 3, ?b\<lparr>b_hash := calculateBlockHash ?b\<rparr>]"
    using direct_block by blast+
  have "\<forall>b\<in>set (bc_chain ?c). \<forall>t\<in>set (b_transactions b). dbl_less (Fin 0) (tx_value t)"
    unfolding d(2) by (simp add: createGenesisBlock_def new_block_def empty_block_def Let_def)
  from no_positive_payment [OF r_into_rtranclp, OF d(1) this] show ?thesis unfolding Let_def d(2) by (simp add: empty_block_def)
qed

section \<open>Fields that run into each other\<close>

lemma dec_double_nat: "dec_double (Fin (of_nat n)) = dec_nat n @ ''.000000''"
proof -
  have "\<bar>of_nat n :: rat\<bar> * 1000000 = of_int (int n * 1000000)" by simp
  then have r: "round_even (\<bar>of_nat n :: rat\<bar> * 1000000) = int n * 1000000" by (simp only: round_even_int)
  have "nat (int n * 1000000) = n * 1000000" by simp
  moreover have "tl (dec_nat 1000000) = ''000000''" by (simp add: dec_nat.simps char_of_eq_iff)
  ultimately show ?thesis unfolding dec_double_def double.case r Let_def by simp
qed

text \<open>
  The parts of a signed or hashed string are joined without separators, so they can run
  into each other: moving the leading digits of the amount to the end of the receiver's
  name keeps the text, and with it the signature under every key and the hash; moving the
  first digit of the validator's name to the nonce keeps the hash of a block.
\<close>

theorem fields_run_together:
  "(0 < n \<longrightarrow> d < 10 \<longrightarrow>
     (let t1 = t\<lparr>tx_to := r, tx_value := Fin (of_nat (10 * n + d))\<rparr>; t2 = t\<lparr>tx_to := r @ dec_nat n, tx_value := Fin (of_nat d)\<rparr>
      in tx_text t1 = tx_text t2 \<and> verifyTransaction t1 k = verifyTransaction t2 k \<and> calculateTxHash t1 = calculateTxHash t2)) \<and>
   (0 < m \<longrightarrow> d < 10 \<longrightarrow> 10 * m + d < 2 ^ 64 \<longrightarrow>
      calculateBlockHash (b\<lparr>b_nonce := of_nat m, b_validator := char_of (48 + d) # v\<rparr>) =
      calculateBlockHash (b\<lparr>b_nonce := of_nat (10 * m + d), b_validator := v\<rparr>))"
proof (intro conjI impI)
  assume n: "0 < n" "d < 10"
  have "dec_nat (10 * n + d) = dec_nat n @ dec_nat d"
    using n dec_nat_snoc [of d n] by (simp add: mult.commute dec_nat.simps [of d])
  then have "tx_text (t\<lparr>tx_to := r, tx_value := Fin (of_nat (10 * n + d))\<rparr>) = tx_text (t\<lparr>tx_to := r @ dec_nat n, tx_value := Fin (of_nat d)\<rparr>)"
    unfolding tx_text_def by (simp add: dec_double_nat del: of_nat_add of_nat_mult)
  then show "let t1 = t\<lparr>tx_to := r, tx_value := Fin (of_nat (10 * n + d))\<rparr>; t2 = t\<lparr>tx_to := r @ dec_nat n, tx_value := Fin (of_nat d)\<rparr>
      in tx_text t1 = tx_text t2 \<and> verifyTransaction t1 k = verifyTransaction t2 k \<and> calculateTxHash t1 = calculateTxHash t2"
    by (simp add: verifyTransaction_def calculateTxHash_def Let_def)
next
  assume m: "0 < m" "d < 10" "10 * m + d < 2 ^ 64"
  have "dec_u64 (of_nat (10 * m + d)) = dec_u64 (of_nat m) @ [char_of (48 + d)]"
    using m dec_nat_snoc [of d m] by (simp add: dec_u64_def unat_of_nat mult.commute del: of_nat_add of_nat_mult)
  then show "calculateBlockHash (b\<lparr>b_nonce := of_nat m, b_validator := char_of (48 + d) # v\<rparr>) =
      calculateBlockHash (b\<lparr>b_nonce := of_nat (10 * m + d), b_validator := v\<rparr>)"
    by (simp add: calculateBlockHash_def getHeaderData_def)
qed

lemma fields_run_together_witness:
  "let p = createTransaction ''eve'' ''bob'' (Fin 15) ''key'' 1 2
   in verifyTransaction (p\<lparr>tx_to := ''bob1'', tx_value := Fin 5\<rparr>) ''key''"
proof -
  let ?p = "createTransaction ''eve'' ''bob'' (Fin 15) ''key'' 1 2"
  have d: "dec_nat 1 = ''1''" by (simp add: dec_nat.simps char_of_eq_iff)
  have "?p\<lparr>tx_to := ''bob'', tx_value := Fin 15\<rparr> = ?p" by (simp add: createTransaction_def Let_def)
  then have "verifyTransaction (?p\<lparr>tx_to := ''bob'', tx_value := Fin 15\<rparr>) ''key''" by (simp only: verify_created)
  then show ?thesis
    using fields_run_together [where n = 1 and d = 5 and t = ?p and r = "''bob''" and k = "''key''"] d by (simp add: Let_def)
qed

end
