(* ===== verification/P2p_Text.thy ===== *)
theory P2p_Text
  imports P2p_Prelude
begin

text \<open>
  The text forms the serializers of \<open>p2p_banking_system\<close> use: fields joined by a separator
  and read with \<open>std::getline\<close> from a string stream, numbers printed with \<open>operator<<\<close> (default
  format, precision 6) and parsed with \<open>std::stod\<close>, \<open>std::stoull\<close>, \<open>std::stoi\<close>, as the C library
  parses them in the C locale. They throw on a text without a number (\<open>Invalid_Argument\<close>) and
  on a number out of range (\<open>Out_Of_Range\<close>), and ignore what follows the number.
\<close>

section \<open>Exceptions\<close>

text \<open>one call after another: an exception of the first ends both\<close>

definition cpp_then :: "'a cpp \<Rightarrow> ('a \<Rightarrow> 'b cpp) \<Rightarrow> 'b cpp" where
  "cpp_then x f = (case x of Inl e \<Rightarrow> Inl e | Inr v \<Rightarrow> f v)"

lemma cpp_then_simps [simp]: "cpp_then (Inl e) f = Inl e" "cpp_then (Inr v) f = f v"
  by (simp_all add: cpp_then_def)

section \<open>Search\<close>

text \<open>\<open>s.find(p) != npos\<close>\<close>

fun str_contains :: "string \<Rightarrow> string \<Rightarrow> bool" where
  "str_contains p [] = (p = [])"
| "str_contains p (c # s) = (take (length p) (c # s) = p \<or> str_contains p s)"

section \<open>Fields\<close>

text \<open>
  A string stream is the text not read yet, None when its end has been reached: from then
  on getline leaves its argument, in this program an empty string, as it is.
\<close>

type_synonym stream = "string option"

fun getline :: "char \<Rightarrow> stream \<Rightarrow> string \<times> stream" where
  "getline d None = ([], None)"
| "getline d (Some s) =
     (if d \<in> set s then (takeWhile (\<lambda>c. c \<noteq> d) s, Some (tl (dropWhile (\<lambda>c. c \<noteq> d) s))) else (s, None))"

text \<open>\<open>while (std::getline(ss, x, d))\<close>: the fields read until the first failure\<close>

function split_fields :: "char \<Rightarrow> string \<Rightarrow> string list" where
  "split_fields d s =
     (if s = [] then []
      else if d \<in> set s then takeWhile (\<lambda>c. c \<noteq> d) s # split_fields d (tl (dropWhile (\<lambda>c. c \<noteq> d) s))
      else [s])"
  by pat_completeness auto
termination
proof (relation "measure (\<lambda>(d, s). length s)")
  fix d :: char and s :: string
  assume "s \<noteq> []"
  moreover have "length (dropWhile (\<lambda>c. c \<noteq> d) s) \<le> length s" by (rule length_dropWhile_le)
  ultimately have "length (tl (dropWhile (\<lambda>c. c \<noteq> d) s)) < length s" by (cases s) auto
  then show "((d, tl (dropWhile (\<lambda>c. c \<noteq> d) s)), d, s) \<in> measure (\<lambda>(d, s). length s)" by simp
qed simp

declare split_fields.simps [simp del]

definition rest_fields :: "char \<Rightarrow> stream \<Rightarrow> string list" where
  "rest_fields d s = (case s of None \<Rightarrow> [] | Some s \<Rightarrow> split_fields d s)"

fun join :: "char \<Rightarrow> string list \<Rightarrow> string" where
  "join d [] = []"
| "join d [f] = f"
| "join d (f # g # fs) = f @ d # join d (g # fs)"

lemma takeWhile_field: "d \<notin> set f \<Longrightarrow> takeWhile (\<lambda>c. c \<noteq> d) (f @ d # r) = f"
  by (induction f) auto

lemma dropWhile_field: "d \<notin> set f \<Longrightarrow> dropWhile (\<lambda>c. c \<noteq> d) (f @ d # r) = d # r"
  by (induction f) auto

lemma getline_field [simp]: "d \<notin> set f \<Longrightarrow> getline d (Some (f @ d # r)) = (f, Some r)"
  by (simp add: takeWhile_field dropWhile_field)

lemma getline_last [simp]: "d \<notin> set f \<Longrightarrow> getline d (Some f) = (f, None)"
  by simp

lemma split_fields_cons: "d \<notin> set f \<Longrightarrow> split_fields d (f @ d # r) = f # split_fields d r"
  by (subst split_fields.simps) (simp add: takeWhile_field dropWhile_field)

lemma split_fields_join:
  "\<forall>f\<in>set fs. d \<notin> set f \<Longrightarrow> fs = [] \<or> last fs \<noteq> [] \<Longrightarrow> split_fields d (join d fs) = fs"
proof (induction d fs rule: join.induct)
  case (2 d f)
  then show ?case by (simp add: split_fields.simps [of d f])
qed (simp_all add: split_fields_cons split_fields.simps [of _ "[]"])

declare getline.simps [simp del]

lemma getline_None [simp]: "getline d None = ([], None)"
  by (simp add: getline.simps)

section \<open>Printing\<close>

text \<open>
  A double as \<open>operator<<\<close> prints it, which is the format g of printf with precision 6: six
  significant digits, an exponent below -4 or above 5 in scientific form, no trailing zeros.
\<close>

definition strip_zeros :: "string \<Rightarrow> string" where
  "strip_zeros s = rev (dropWhile (\<lambda>c. c = CHR ''0'') (rev s))"

definition with_fraction :: "string \<Rightarrow> string \<Rightarrow> string" where
  "with_fraction whole decimals = (if strip_zeros decimals = [] then whole else whole @ ''.'' @ strip_zeros decimals)"

definition dec_g :: "double \<Rightarrow> string" where
  "dec_g a =
     (case a of
        PInf \<Rightarrow> ''inf'' | MInf \<Rightarrow> ''-inf'' | NaN \<Rightarrow> ''nan''
      | Fin x \<Rightarrow>
          if x = 0 then ''0''
          else let e = ilog 10 \<bar>x\<bar>;
                   m = nat (round_even (\<bar>x\<bar> * 10 powi (5 - e)));
                   (m, e) = (if m = 1000000 then (100000, e + 1) else (m, e));
                   ds = dec_nat m
               in (if x < 0 then ''-'' else []) @
                  (if e < - 4 \<or> 6 \<le> e then
                     with_fraction (take 1 ds) (drop 1 ds) @ (if e < 0 then ''e-'' else ''e+'') @
                     (if \<bar>e\<bar> < 10 then ''0'' else []) @ dec_nat (nat \<bar>e\<bar>)
                   else if 0 \<le> e then with_fraction (take (nat e + 1) ds) (drop (nat e + 1) ds)
                   else with_fraction ''0'' (replicate (nat (- e) - 1) CHR ''0'' @ ds)))"

section \<open>Parsing\<close>

definition skip_space :: "string \<Rightarrow> string" where
  "skip_space s = dropWhile (\<lambda>c. of_char c = (32::nat) \<or> (9 \<le> (of_char c :: nat) \<and> of_char c \<le> (13::nat))) s"

text \<open>the sign: negative or not\<close>

definition take_sign :: "string \<Rightarrow> bool \<times> string" where
  "take_sign s =
     (case s of
        [] \<Rightarrow> (False, s)
      | c # t \<Rightarrow> if c = CHR ''-'' then (True, t) else if c = CHR ''+'' then (False, t) else (False, s))"

text \<open>the value of a digit in a base of at most 16\<close>

definition digit_value :: "nat \<Rightarrow> char \<Rightarrow> nat option" where
  "digit_value b c =
     (let n = of_char c :: nat;
          v = (if 48 \<le> n \<and> n \<le> 57 then n - 48
               else if 97 \<le> n \<and> n \<le> 102 then n - 87
               else if 65 \<le> n \<and> n \<le> 70 then n - 55 else 16)
      in if v < b then Some v else None)"

fun take_digits :: "nat \<Rightarrow> string \<Rightarrow> nat list \<times> string" where
  "take_digits b [] = ([], [])"
| "take_digits b (c # s) =
     (case digit_value b c of
        None \<Rightarrow> ([], c # s)
      | Some v \<Rightarrow> let (vs, r) = take_digits b s in (v # vs, r))"

definition digits_value :: "nat \<Rightarrow> nat list \<Rightarrow> nat" where
  "digits_value b ds = foldl (\<lambda>n d. n * b + d) 0 ds"

text \<open>digits with a point somewhere: the number without the point, and how many digits follow it\<close>

definition take_mantissa :: "nat \<Rightarrow> string \<Rightarrow> (nat \<times> nat \<times> string) option" where
  "take_mantissa b s =
     (let (whole, r) = take_digits b s;
          (decimals, r) = (case r of c # t \<Rightarrow> if c = CHR ''.'' then take_digits b t else ([], r) | [] \<Rightarrow> ([], r))
      in if whole @ decimals = [] then None else Some (digits_value b (whole @ decimals), length decimals, r))"

definition take_exponent :: "string \<Rightarrow> string \<Rightarrow> int" where
  "take_exponent marks s =
     (case s of
        [] \<Rightarrow> 0
      | c # t \<Rightarrow>
          if c \<in> set marks then
            let (neg, r) = take_sign t; (ds, _) = take_digits 10 r
            in if neg then - int (digits_value 10 ds) else int (digits_value 10 ds)
          else 0)"

definition lower :: "char \<Rightarrow> char" where
  "lower c = (if 65 \<le> (of_char c :: nat) \<and> of_char c \<le> (90::nat) then char_of ((of_char c :: nat) + 32) else c)"

text \<open>the number a text begins with: a special value, or a sign and an exact number\<close>

definition strtod :: "string \<Rightarrow> (double + rat) option" where
  "strtod s =
     (let (neg, s) = take_sign (skip_space s)
      in if map lower (take 3 s) = ''inf'' then Some (Inl (if neg then MInf else PInf))
         else if map lower (take 3 s) = ''nan'' then Some (Inl NaN)
         else map_option (\<lambda>x. Inr (if neg then - x else x))
           (case (if map lower (take 2 s) = ''0x'' then take_mantissa 16 (drop 2 s) else None) of
              Some (m, k, r) \<Rightarrow> Some (of_nat m * 2 powi (take_exponent ''pP'' r - 4 * int k))
            | None \<Rightarrow>
                (case take_mantissa 10 s of
                   Some (m, k, r) \<Rightarrow> Some (of_nat m * 10 powi (take_exponent ''eE'' r - int k))
                 | None \<Rightarrow> None)))"

text \<open>a result that overflows, or that is inexact below the normal numbers, is out of range\<close>

definition stod :: "string \<Rightarrow> double cpp" where
  "stod s =
     (case strtod s of
        None \<Rightarrow> Inl Invalid_Argument
      | Some (Inl a) \<Rightarrow> Inr a
      | Some (Inr x) \<Rightarrow>
          if fl x = PInf \<or> fl x = MInf then Inl Out_Of_Range
          else if fl x \<noteq> Fin x \<and> \<bar>x\<bar> < 2 powi (- 1022) - 2 powi (- 1076) then Inl Out_Of_Range
          else Inr (fl x))"

text \<open>an integer, its sign before it\<close>

definition strto_int :: "string \<Rightarrow> (bool \<times> nat) option" where
  "strto_int s =
     (let (neg, s) = take_sign (skip_space s); (ds, _) = take_digits 10 s
      in if ds = [] then None else Some (neg, digits_value 10 ds))"

text \<open>an unsigned number behind a minus sign is negated modulo 2 to the 64\<close>

definition stoull :: "string \<Rightarrow> u64 cpp" where
  "stoull s =
     (case strto_int s of
        None \<Rightarrow> Inl Invalid_Argument
      | Some (neg, n) \<Rightarrow>
          if 2 ^ 64 \<le> n then Inl Out_Of_Range else Inr (if neg then - of_nat n else of_nat n))"

definition sto_signed :: "nat \<Rightarrow> string \<Rightarrow> int cpp" where
  "sto_signed w s =
     (case strto_int s of
        None \<Rightarrow> Inl Invalid_Argument
      | Some (neg, n) \<Rightarrow>
          let x = (if neg then - int n else int n)
          in if x < - (2 ^ (w - 1)) \<or> 2 ^ (w - 1) \<le> x then Inl Out_Of_Range else Inr x)"

definition stoi :: "string \<Rightarrow> int cpp" where
  "stoi s = sto_signed 32 s"

definition stoll :: "string \<Rightarrow> int cpp" where
  "stoll s = sto_signed 64 s"

section \<open>What is printed is parsed\<close>

lemma dec_nat_digit: "n < 10 \<Longrightarrow> dec_nat n = [char_of (48 + n)]"
  by (simp add: dec_nat.simps)

lemma dec_nat_more: "10 \<le> n \<Longrightarrow> dec_nat n = dec_nat (n div 10) @ [char_of (48 + n mod 10)]"
  by (simp add: dec_nat.simps [of n])

lemma dec_nat_nonempty [simp]: "dec_nat n \<noteq> []"
  by (simp add: dec_nat.simps)

lemma set_dec_nat: "c \<in> set (dec_nat n) \<Longrightarrow> 48 \<le> (of_char c :: nat) \<and> of_char c \<le> (57::nat)"
proof (induction n rule: dec_nat.induct)
  case (1 n)
  then show ?case by (cases "n < 10") (auto simp: dec_nat_digit dec_nat_more)
qed

lemma digit_value_digit: "d < 10 \<Longrightarrow> digit_value 10 (char_of (48 + d)) = Some d"
  by (simp add: digit_value_def)

lemma take_digits_append:
  "\<forall>c\<in>set s. digit_value b c \<noteq> None \<Longrightarrow>
    take_digits b (s @ r) = (map (\<lambda>c. the (digit_value b c)) s @ fst (take_digits b r), snd (take_digits b r))"
  by (induction s) (auto simp: Let_def split_def)

lemma digits_value_snoc: "digits_value b (ds @ [d]) = digits_value b ds * b + d"
  by (simp add: digits_value_def)

lemma dec_nat_digits:
  "(\<forall>c\<in>set (dec_nat n). digit_value 10 c \<noteq> None) \<and> digits_value 10 (map (\<lambda>c. the (digit_value 10 c)) (dec_nat n)) = n"
proof (induction n rule: dec_nat.induct)
  case (1 n)
  show ?case
  proof (cases "n < 10")
    case True
    then show ?thesis by (simp add: dec_nat_digit digit_value_digit digits_value_def)
  next
    case False
    then show ?thesis using 1 by (simp add: dec_nat_more digit_value_digit digits_value_snoc)
  qed
qed

lemma take_digits_dec_nat:
  obtains ds where "take_digits 10 (dec_nat n) = (ds, [])" "ds \<noteq> []" "digits_value 10 ds = n"
  using that take_digits_append [of "dec_nat n" 10 "[]"] dec_nat_digits [of n] by simp

lemma skip_space_keeps: "s = [] \<or> 33 \<le> (of_char (hd s) :: nat) \<Longrightarrow> skip_space s = s"
  by (cases s) (auto simp: skip_space_def)

lemma dec_nat_cons:
  obtains c r where "dec_nat n = c # r" "48 \<le> (of_char c :: nat)" "of_char c \<le> (57::nat)"
  using set_dec_nat [of _ n] by (cases "dec_nat n") auto

lemma take_sign_dec_nat [simp]: "take_sign (dec_nat n) = (False, dec_nat n)"
proof (rule dec_nat_cons)
  fix c r assume "dec_nat n = c # r" "48 \<le> (of_char c :: nat)"
  then show ?thesis by (auto simp: take_sign_def)
qed

lemma skip_space_dec_nat [simp]: "skip_space (dec_nat n) = dec_nat n" "skip_space (CHR ''-'' # dec_nat n) = CHR ''-'' # dec_nat n"
  by (rule skip_space_keeps, rule dec_nat_cons [of n], simp, rule skip_space_keeps, simp)

lemma strto_int_dec_int: "strto_int (dec_int x) = Some (x < 0, nat \<bar>x\<bar>)"
proof -
  obtain ds where ds: "take_digits 10 (dec_nat (nat \<bar>x\<bar>)) = (ds, [])" "ds \<noteq> []" "digits_value 10 ds = nat \<bar>x\<bar>"
    using take_digits_dec_nat .
  show ?thesis
  proof (cases "x < 0")
    case True
    then have "dec_int x = CHR ''-'' # dec_nat (nat \<bar>x\<bar>)" by (simp add: dec_int_def)
    then show ?thesis using ds True by (simp add: strto_int_def take_sign_def)
  next
    case False
    then have "dec_int x = dec_nat (nat \<bar>x\<bar>)" by (simp add: dec_int_def)
    then show ?thesis using ds False by (simp add: strto_int_def)
  qed
qed

lemma dec_int_nat: "dec_int (int n) = dec_nat n"
  by (simp add: dec_int_def)

lemma stoull_dec_nat [simp]: "n < 2 ^ 64 \<Longrightarrow> stoull (dec_nat n) = Inr (of_nat n)"
  using strto_int_dec_int [of "int n"] by (simp add: dec_int_nat stoull_def)

lemma stoi_dec_int [simp]: "- (2 ^ 31) \<le> x \<Longrightarrow> x < 2 ^ 31 \<Longrightarrow> stoi (dec_int x) = Inr x"
  using strto_int_dec_int [of x] by (simp add: stoi_def sto_signed_def split: if_splits)

lemma parse_nothing [simp]: "stod [] = Inl Invalid_Argument" "stoull [] = Inl Invalid_Argument" "stoi [] = Inl Invalid_Argument"
  by (simp_all add: stod_def strtod_def take_mantissa_def stoull_def stoi_def sto_signed_def strto_int_def skip_space_def take_sign_def)

text \<open>integers of at most six digits keep their value in the default format\<close>

lemma length_dec_nat: "0 < n \<Longrightarrow> length (dec_nat n) = floorlog 10 n"
proof (induction n rule: dec_nat.induct)
  case (1 n)
  show ?case
  proof (cases "n < 10")
    case True
    then show ?thesis using 1(2) compute_floorlog [of 10 n] by (simp add: dec_nat_digit floorlog_eq_zero_iff)
  next
    case False
    then show ?thesis using 1 compute_floorlog [of 10 n] by (simp add: dec_nat_more)
  qed
qed

lemma char_zero: "char_of (48::nat) = CHR ''0''"
  by (simp add: char_of_eq_iff)

lemma dec_nat_zeros: "0 < n \<Longrightarrow> dec_nat (n * 10 ^ k) = dec_nat n @ replicate k CHR ''0''"
proof (induction k)
  case (Suc k)
  have "n * 10 ^ Suc k = n * 10 ^ k * 10 + 0" by simp
  then have "dec_nat (n * 10 ^ Suc k) = dec_nat (n * 10 ^ k * 10 + 0)" by (rule arg_cong)
  also have "\<dots> = (if n * 10 ^ k = 0 then [] else dec_nat (n * 10 ^ k)) @ [char_of (48 + 0 :: nat)]"
    by (rule dec_nat_snoc) simp
  also have "\<dots> = dec_nat (n * 10 ^ k) @ [CHR ''0'']" using Suc.prems by (simp add: char_zero)
  finally show ?case using Suc by (simp only: replicate_append_same append_assoc replicate_Suc)
qed simp

lemma strip_zeros_replicate [simp]: "strip_zeros (replicate k CHR ''0'') = []"
  by (simp add: strip_zeros_def)

lemma dec_g_int: assumes "\<bar>m\<bar> < 1000000" shows "dec_g (Fin (of_int m)) = dec_int m"
proof (cases "m = 0")
  case True
  then show ?thesis by (simp add: dec_g_def dec_int_def dec_nat_digit char_zero)
next
  case False
  define n where "n = nat \<bar>m\<bar>"
  define k where "k = 6 - floorlog 10 n"
  have n: "0 < n" "n < 10 ^ 6" using False assms by (auto simp: n_def)
  have "floorlog 10 n \<noteq> 0" unfolding floorlog_eq_zero_iff using n by simp
  moreover have "floorlog 10 n \<le> 6" using n by (intro floorlog_leI) simp_all
  ultimately have l: "0 < floorlog 10 n" "floorlog 10 n \<le> 6" by (simp_all only: neq0_conv)
  have a: "\<bar>of_int m :: rat\<bar> = of_nat n" by (simp add: n_def flip: of_int_abs)
  have "\<bar>of_int m :: rat\<bar> \<ge> 1" using n unfolding a by simp
  moreover have "nat \<lfloor>\<bar>of_int m :: rat\<bar>\<rfloor> = n" unfolding a by simp
  ultimately have e: "ilog 10 \<bar>of_int m :: rat\<bar> = int (floorlog 10 n) - 1" by (simp add: ilog_def)
  have p: "(10::rat) powi (5 - (int (floorlog 10 n) - 1)) = 10 ^ k"
    using l by (simp add: k_def power_int_def nat_diff_distrib)
  have "\<bar>of_int m :: rat\<bar> * 10 ^ k = of_int (int (n * 10 ^ k))" unfolding a by simp
  then have r: "nat (round_even (\<bar>of_int m :: rat\<bar> * 10 ^ k)) = n * 10 ^ k" by (simp only: round_even_int nat_int)
  have "n * 10 ^ k < 10 ^ floorlog 10 n * 10 ^ k" using n floorlog_bounds [of n 10] by simp
  also have "\<dots> = 10 ^ 6" using l unfolding k_def by (simp flip: power_add)
  finally have lt: "n * 10 ^ k \<noteq> 1000000" by simp
  have d: "take (nat (int (floorlog 10 n) - 1) + 1) (dec_nat (n * 10 ^ k)) = dec_nat n"
    "drop (nat (int (floorlog 10 n) - 1) + 1) (dec_nat (n * 10 ^ k)) = replicate k CHR ''0''"
    using l n by (simp_all add: dec_nat_zeros length_dec_nat nat_diff_distrib)
  have "dec_g (Fin (of_int m)) = (if m < 0 then ''-'' else []) @ dec_nat n"
    unfolding dec_g_def double.case e p r Let_def using False lt l d by (simp add: with_fraction_def)
  then show ?thesis using False by (simp add: dec_int_def n_def)
qed

lemma lower_digit: "(of_char c :: nat) \<le> 57 \<Longrightarrow> lower c = c"
  by (simp add: lower_def)

lemma strtod_dec_int: "strtod (dec_int m) = Some (Inr (of_int m))"
proof -
  define n where "n = nat \<bar>m\<bar>"
  obtain ds where ds: "take_digits 10 (dec_nat n) = (ds, [])" "ds \<noteq> []" "digits_value 10 ds = n"
    using take_digits_dec_nat .
  then have tm: "take_mantissa 10 (dec_nat n) = Some (n, 0, [])" by (simp add: take_mantissa_def)
  have low: "map lower (take k (dec_nat n)) = take k (dec_nat n)" for k
    using set_dec_nat [of _ n] by (intro map_idI lower_digit) (auto dest: in_set_takeD)
  have no: "c \<notin> set (take k (dec_nat n))" if "57 < (of_char c :: nat)" for c k
    using set_dec_nat [of c n] that in_set_takeD [of c k] by fastforce
  have t: "take 3 (dec_nat n) \<noteq> ''inf''" "take 3 (dec_nat n) \<noteq> ''nan''" "take 2 (dec_nat n) \<noteq> ''0x''"
    using no [of "CHR ''n''" 3] no [of "CHR ''x''" 2] by auto
  have n: "(of_nat n :: rat) = \<bar>of_int m\<bar>" by (simp add: n_def flip: of_int_abs)
  show ?thesis
  proof (cases "m < 0")
    case True
    then have "dec_int m = CHR ''-'' # dec_nat n" by (simp add: dec_int_def n_def)
    then show ?thesis using True t by (simp add: strtod_def take_sign_def low tm take_exponent_def n)
  next
    case False
    then have "dec_int m = dec_nat n" by (simp add: dec_int_def n_def)
    then show ?thesis using False t by (simp add: strtod_def low tm take_exponent_def n)
  qed
qed

lemma stod_dec_int [simp]: "\<bar>m\<bar> < 2 ^ 53 \<Longrightarrow> stod (dec_int m) = Inr (Fin (of_int m))"
  by (simp add: stod_def strtod_dec_int fl_int)

lemma stod_dec_g: "\<bar>m\<bar> < 1000000 \<Longrightarrow> stod (dec_g (Fin (of_int m))) = Inr (Fin (of_int m))"
  by (simp add: dec_g_int)

text \<open>seven digits are more than the default format prints\<close>

lemma dec_g_loses: "dec_g (Fin 1234567) = ''1.23457e+06''"
proof -
  have "floorlog 10 1234567 \<le> 7" by (intro floorlog_leI) simp_all
  moreover have "7 \<le> floorlog 10 1234567" by (intro floorlog_geI) simp_all
  ultimately have f: "floorlog 10 1234567 = 7" by simp
  then have e: "ilog 10 \<bar>1234567 :: rat\<bar> = 6" by (simp add: ilog_def)
  have "(1234567 :: rat) * 10 powi (5 - 6) = 1234567 / 10" by (simp add: power_int_minus field_simps)
  moreover have "\<lfloor>1234567 / 10 :: rat\<rfloor> = 123456" by (simp add: floor_eq_iff)
  ultimately have r: "nat (round_even (\<bar>1234567\<bar> * 10 powi (5 - 6))) = 123457" by (simp add: round_even_def)
  have d: "dec_nat 123457 = ''123457''" "dec_nat 6 = ''6''" by (simp_all add: dec_nat.simps char_of_eq_iff)
  show ?thesis unfolding dec_g_def double.case e r Let_def
    by (simp add: d with_fraction_def strip_zeros_def)
qed

lemma stod_loses: "stod ''1.23457e+06'' = Inr (Fin 1234570)"
proof -
  have "strtod ''1.23457e+06'' = Some (Inr 1234570)"
    by (simp add: strtod_def skip_space_def take_sign_def lower_def take_mantissa_def take_exponent_def digit_value_def
        digits_value_def Let_def char_of_eq_iff power_int_def)
  moreover have "fl 1234570 = Fin 1234570" using fl_int [of 1234570] by simp
  ultimately show ?thesis by (simp add: stod_def)
qed

text \<open>whatever double is printed, the text is not empty and has no separator in it\<close>

lemma strip_zeros_set: "set (strip_zeros s) \<subseteq> set s"
  using set_dropWhileD by (fastforce simp: strip_zeros_def)

lemma with_fraction_set: "set (with_fraction a b) \<subseteq> set a \<union> set b \<union> {CHR ''.''}"
  using strip_zeros_set [of b] by (auto simp: with_fraction_def)

definition number_chars :: "char set" where
  "number_chars = {c. 48 \<le> (of_char c :: nat) \<and> of_char c \<le> (57::nat)} \<union> set ''-+.einfa''"

lemma dec_nat_chars: "set (dec_nat n) \<subseteq> number_chars"
  using set_dec_nat [of _ n] by (auto simp: number_chars_def)

lemma with_fraction_chars:
  "set a \<subseteq> number_chars \<Longrightarrow> set b \<subseteq> number_chars \<Longrightarrow> set (with_fraction a b) \<subseteq> number_chars"
  using with_fraction_set [of a b] by (auto simp: number_chars_def)

lemma chars_intros:
  "set [] \<subseteq> number_chars"
  "set s \<subseteq> number_chars \<Longrightarrow> set s' \<subseteq> number_chars \<Longrightarrow> set (s @ s') \<subseteq> number_chars"
  "set s \<subseteq> number_chars \<Longrightarrow> set s' \<subseteq> number_chars \<Longrightarrow> set (if P then s else s') \<subseteq> number_chars"
  by auto

lemma part_chars:
  "set (take k (dec_nat n)) \<subseteq> number_chars" "set (drop k (dec_nat n)) \<subseteq> number_chars"
  "set (replicate k CHR ''0'') \<subseteq> number_chars"
  "set ''-'' \<subseteq> number_chars" "set ''e-'' \<subseteq> number_chars" "set ''e+'' \<subseteq> number_chars" "set ''0'' \<subseteq> number_chars"
  using dec_nat_chars [of n] set_take_subset [of k "dec_nat n"] set_drop_subset [of k "dec_nat n"]
  by (auto simp: number_chars_def)

lemma dec_g_chars: "set (dec_g a) \<subseteq> number_chars"
proof (cases a)
  case (Fin x)
  show ?thesis
    unfolding Fin dec_g_def double.case Let_def split_def
    by (intro chars_intros with_fraction_chars part_chars dec_nat_chars)
qed (auto simp: dec_g_def number_chars_def)

lemma with_fraction_nonempty [simp]: "with_fraction a b = [] \<longleftrightarrow> a = [] \<and> strip_zeros b = []"
  by (simp add: with_fraction_def)

lemma dec_g_nonempty [simp]: "dec_g a \<noteq> []"
  by (cases a) (simp_all add: dec_g_def Let_def split_def)

lemma no_separator [simp]: "CHR ''|'' \<notin> set (dec_g a)" "CHR '';'' \<notin> set (dec_g a)"
  using dec_g_chars [of a] by (auto simp: number_chars_def)

lemma no_separator_integer [simp]:
  "CHR ''|'' \<notin> set (dec_nat n)" "CHR '';'' \<notin> set (dec_nat n)" "CHR ''|'' \<notin> set (dec_int i)"
  using set_dec_nat [of "CHR ''|''"] set_dec_nat [of "CHR '';''"] by (auto simp: dec_int_def)

lemma stoull_unat [simp]: "stoull (dec_nat (unat (x :: u64))) = Inr x"
proof -
  have "unat x < 2 ^ 64" using unsigned_less [of x] by simp
  then show ?thesis by simp
qed

section \<open>The fields of a text\<close>

lemma split_fields_props:
  "(\<forall>f\<in>set (split_fields d s). d \<notin> set f) \<and> ((\<exists>f\<in>set (split_fields d s). f \<noteq> []) \<longleftrightarrow> (\<exists>c\<in>set s. c \<noteq> d))"
proof (induction d s rule: split_fields.induct)
  case (1 d s)
  show ?case
  proof (cases "d \<in> set s")
    case True
    then obtain a r where s: "s = a @ d # r" "d \<notin> set a" by (blast dest: split_list_first)
    then have r: "tl (dropWhile (\<lambda>c. c \<noteq> d) s) = r" by (simp add: dropWhile_field)
    have "s \<noteq> []" using s by simp
    from 1 [OF this True] have IH: "(\<forall>f\<in>set (split_fields d r). d \<notin> set f) \<and>
        ((\<exists>f\<in>set (split_fields d r). f \<noteq> []) \<longleftrightarrow> (\<exists>c\<in>set r. c \<noteq> d))" unfolding r .
    have e: "split_fields d s = a # split_fields d r" using s by (simp add: split_fields_cons)
    have a: "a \<noteq> [] \<longleftrightarrow> (\<exists>c\<in>set a. c \<noteq> d)" using s(2) by (cases a) auto
    show ?thesis unfolding e unfolding s(1) using IH a s(2) by (simp add: bex_Un)
  next
    case False
    then have e: "split_fields d s = (if s = [] then [] else [s])" by (simp add: split_fields.simps [of d s])
    show ?thesis unfolding e using False by (cases s) auto
  qed
qed

end
