(* ===== verification/P2p_Codec.thy ===== *)
theory P2p_Codec
  imports P2p_Chain P2p_Text
begin

text \<open>
  The text forms of transactions, blocks and block headers: \<open>serialize\<close> and \<open>deserialize\<close> of
  \<open>blockchain/transaction.cpp\<close> and \<open>blockchain/block.cpp\<close>. The fields are joined by bars; a
  block appends the text of its transactions with the same bars.
\<close>

section \<open>Transactions\<close>

definition tx_serialize :: "tx \<Rightarrow> string" where
  "tx_serialize t = join CHR ''|'' [tx_txId t, tx_from t, tx_to t, dec_g (tx_value t), dec_u64 (tx_time t),
     dec_u64 (tx_rand t), tx_sig t, tx_hash t, tx_meta t]"

definition tx_deserialize :: "string \<Rightarrow> tx cpp" where
  "tx_deserialize text =
     (let (txId, ss) = getline CHR ''|'' (Some text);
          (from, ss) = getline CHR ''|'' ss;
          (to, ss) = getline CHR ''|'' ss;
          (amountStr, ss) = getline CHR ''|'' ss
      in cpp_then (stod amountStr) (\<lambda>amount.
         let (tsStr, ss) = getline CHR ''|'' ss
         in cpp_then (stoull tsStr) (\<lambda>timestamp.
            let (nonceStr, ss) = getline CHR ''|'' ss
            in cpp_then (stoull nonceStr) (\<lambda>nonce.
               let (sig, ss) = getline CHR ''|'' ss;
                   (hash, ss) = getline CHR ''|'' ss;
                   (meta, ss) = getline CHR ''|'' ss
               in Inr \<lparr>tx_txId = txId, tx_from = from, tx_to = to, tx_value = amount, tx_time = timestamp,
                       tx_rand = nonce, tx_sig = sig, tx_hash = hash, tx_meta = meta\<rparr>))))"

section \<open>Blocks\<close>

definition block_serialize :: "block \<Rightarrow> string" where
  "block_serialize b =
     join CHR ''|'' [dec_int (sint (b_index b)), b_previousHash b, dec_u64 (b_timestamp b), b_merkleRoot b, b_hash b,
       dec_u64 (b_nonce b), b_validator b, dec_u64 (b_difficulty b), b_version b] @
     concat (map (\<lambda>t. ''|'' @ tx_serialize t) (b_transactions b))"

text \<open>every field behind the version is taken for a transaction\<close>

fun read_transactions :: "string list \<Rightarrow> tx list cpp" where
  "read_transactions [] = Inr []"
| "read_transactions (txData # rest) =
     (if txData = [] then read_transactions rest
      else cpp_then (tx_deserialize txData) (\<lambda>t. cpp_then (read_transactions rest) (\<lambda>ts. Inr (t # ts))))"

definition block_deserialize :: "string \<Rightarrow> block cpp" where
  "block_deserialize text =
     (let (indexStr, ss) = getline CHR ''|'' (Some text)
      in cpp_then (stoi indexStr) (\<lambda>index.
         let (previousHash, ss) = getline CHR ''|'' ss;
             (tsStr, ss) = getline CHR ''|'' ss
         in cpp_then (stoull tsStr) (\<lambda>timestamp.
            let (merkleRoot, ss) = getline CHR ''|'' ss;
                (hash, ss) = getline CHR ''|'' ss;
                (nonceStr, ss) = getline CHR ''|'' ss
            in cpp_then (stoull nonceStr) (\<lambda>nonce.
               let (validator, ss) = getline CHR ''|'' ss;
                   (diffStr, ss) = getline CHR ''|'' ss
               in cpp_then (stoull diffStr) (\<lambda>difficulty.
                  let (version, ss) = getline CHR ''|'' ss
                  in cpp_then (read_transactions (rest_fields CHR ''|'' ss)) (\<lambda>transactions.
                     Inr \<lparr>b_index = of_int index, b_previousHash = previousHash, b_timestamp = timestamp,
                          b_transactions = transactions, b_merkleRoot = merkleRoot, b_hash = hash, b_nonce = nonce,
                          b_validator = validator, b_difficulty = difficulty, b_version = version\<rparr>))))))"

section \<open>Block headers\<close>

record block_header =
  bh_version :: u32
  bh_previousBlockHash :: string
  bh_merkleRootHash :: string
  bh_timestamp :: u64
  bh_difficultyTarget :: u64
  bh_nonce :: u64

definition header_hash :: "block_header \<Rightarrow> string" where
  "header_hash h = sha1_double (dec_int (sint (bh_version h)) @ bh_previousBlockHash h @ bh_merkleRootHash h @
     dec_u64 (bh_timestamp h) @ dec_u64 (bh_difficultyTarget h) @ dec_u64 (bh_nonce h))"

definition header_serialize :: "block_header \<Rightarrow> string" where
  "header_serialize h = join CHR ''|'' [dec_int (sint (bh_version h)), bh_previousBlockHash h, bh_merkleRootHash h,
     dec_u64 (bh_timestamp h), dec_u64 (bh_difficultyTarget h), dec_u64 (bh_nonce h)]"

definition header_deserialize :: "string \<Rightarrow> block_header cpp" where
  "header_deserialize text =
     (let (verStr, ss) = getline CHR ''|'' (Some text)
      in cpp_then (stoi verStr) (\<lambda>version.
         let (previousBlockHash, ss) = getline CHR ''|'' ss;
             (merkleRootHash, ss) = getline CHR ''|'' ss;
             (tsStr, ss) = getline CHR ''|'' ss
         in cpp_then (stoull tsStr) (\<lambda>timestamp.
            let (diffStr, ss) = getline CHR ''|'' ss
            in cpp_then (stoull diffStr) (\<lambda>difficultyTarget.
               let (nonceStr, ss) = getline CHR ''|'' ss
               in cpp_then (stoull nonceStr) (\<lambda>nonce.
                  Inr \<lparr>bh_version = of_int version, bh_previousBlockHash = previousBlockHash,
                       bh_merkleRootHash = merkleRootHash, bh_timestamp = timestamp,
                       bh_difficultyTarget = difficultyTarget, bh_nonce = nonce\<rparr>)))))"

section \<open>Round trips\<close>

lemma dec_u64_simps [simp]: "CHR ''|'' \<notin> set (dec_u64 x)" "stoull (dec_u64 x) = Inr x"
  by (simp_all add: dec_u64_def)

lemma stoi_dec_sint [simp]: "stoi (dec_int (sint (x :: u32))) = Inr (sint x)"
  using sint_lt [of x] sint_ge [of x] by simp

definition tx_plain :: "tx \<Rightarrow> bool" where
  "tx_plain t \<longleftrightarrow> (\<forall>f\<in>{tx_txId t, tx_from t, tx_to t, tx_sig t, tx_hash t, tx_meta t}. CHR ''|'' \<notin> set f)"

definition block_plain :: "block \<Rightarrow> bool" where
  "block_plain b \<longleftrightarrow> (\<forall>f\<in>{b_previousHash b, b_merkleRoot b, b_hash b, b_validator b, b_version b}. CHR ''|'' \<notin> set f)"

definition header_plain :: "block_header \<Rightarrow> bool" where
  "header_plain h \<longleftrightarrow> CHR ''|'' \<notin> set (bh_previousBlockHash h) \<and> CHR ''|'' \<notin> set (bh_merkleRootHash h)"

lemma tx_codec:
  assumes "tx_plain t"
  shows "tx_deserialize (tx_serialize t) = cpp_then (stod (dec_g (tx_value t))) (\<lambda>a. Inr (t\<lparr>tx_value := a\<rparr>))"
proof -
  have u: "t\<lparr>tx_value := a\<rparr> = \<lparr>tx_txId = tx_txId t, tx_from = tx_from t, tx_to = tx_to t, tx_value = a, tx_time = tx_time t,
      tx_rand = tx_rand t, tx_sig = tx_sig t, tx_hash = tx_hash t, tx_meta = tx_meta t\<rparr>" for a
    by (cases t) simp
  show ?thesis unfolding u using assms by (auto simp: tx_plain_def tx_serialize_def tx_deserialize_def)
qed

lemma tx_deserialize_field: "CHR ''|'' \<notin> set s \<Longrightarrow> tx_deserialize s = Inl Invalid_Argument"
  by (simp add: tx_deserialize_def)

lemma read_transactions_field:
  "\<forall>f\<in>set fs. CHR ''|'' \<notin> set f \<Longrightarrow> \<exists>f\<in>set fs. f \<noteq> [] \<Longrightarrow> read_transactions fs = Inl Invalid_Argument"
  by (induction fs) (auto simp: tx_deserialize_field)

lemma tx_serialize_char: "\<exists>c\<in>set (tx_serialize t). c \<noteq> CHR ''|''"
proof -
  have "hd (dec_g (tx_value t)) \<in> set (dec_g (tx_value t))" by simp
  moreover from this have "hd (dec_g (tx_value t)) \<noteq> CHR ''|''" using no_separator(1) by metis
  ultimately show ?thesis by (force simp: tx_serialize_def)
qed

lemma block_deserialize_rest:
  assumes "block_plain b"
  shows "block_deserialize (block_serialize b) =
    cpp_then (read_transactions (split_fields CHR ''|'' (drop 1 (concat (map (\<lambda>t. ''|'' @ tx_serialize t) (b_transactions b))))))
      (\<lambda>ts. Inr (b\<lparr>b_transactions := ts\<rparr>))"
proof (cases "b_transactions b")
  case Nil
  then show ?thesis using assms
    by (auto simp: block_plain_def block_serialize_def block_deserialize_def rest_fields_def split_fields.simps [of _ "[]"])
next
  case (Cons t ts)
  have u: "b\<lparr>b_transactions := l\<rparr> = \<lparr>b_index = b_index b, b_previousHash = b_previousHash b, b_timestamp = b_timestamp b,
      b_transactions = l, b_merkleRoot = b_merkleRoot b, b_hash = b_hash b, b_nonce = b_nonce b,
      b_validator = b_validator b, b_difficulty = b_difficulty b, b_version = b_version b\<rparr>" for l
    by (cases b) simp
  show ?thesis unfolding u using assms Cons
    by (auto simp: block_plain_def block_serialize_def block_deserialize_def rest_fields_def)
qed

text \<open>
  C22: The text of a transaction with no bar in its fields gives back the same transaction
  with the amount that std::stod reads from the six digits that were printed: a whole amount
  below a million is given back, 1234567 comes back as 1234570. A block header without bars,
  and a block without transactions whose fields have no bar, are given back exactly; but the
  text of such a block with a transaction, whatever the transaction, cannot be read: the
  transactions are split at their inner bars and the amount of the first piece is missing, so
  std::stod throws.
\<close>

theorem chain_text_codec:
  "(tx_plain t \<longrightarrow>
      tx_deserialize (tx_serialize t) = cpp_then (stod (dec_g (tx_value t))) (\<lambda>a. Inr (t\<lparr>tx_value := a\<rparr>)) \<and>
      (\<forall>m. \<bar>m\<bar> < 1000000 \<longrightarrow> tx_value t = Fin (of_int m) \<longrightarrow> tx_deserialize (tx_serialize t) = Inr t) \<and>
      (tx_value t = Fin 1234567 \<longrightarrow> tx_deserialize (tx_serialize t) = Inr (t\<lparr>tx_value := Fin 1234570\<rparr>))) \<and>
   (header_plain h \<longrightarrow> header_deserialize (header_serialize h) = Inr h) \<and>
   (block_plain b \<longrightarrow> block_deserialize (block_serialize b) = (if b_transactions b = [] then Inr b else Inl Invalid_Argument))"
proof (intro conjI impI allI)
  assume t: "tx_plain t"
  show "tx_deserialize (tx_serialize t) = cpp_then (stod (dec_g (tx_value t))) (\<lambda>a. Inr (t\<lparr>tx_value := a\<rparr>))"
    using t by (rule tx_codec)
  show "tx_deserialize (tx_serialize t) = Inr t" if "\<bar>m\<bar> < 1000000" "tx_value t = Fin (of_int m)" for m
  proof -
    have "t\<lparr>tx_value := Fin (of_int m)\<rparr> = t" using that(2) by (cases t) simp
    then show ?thesis using that stod_dec_g [of m] by (simp add: tx_codec [OF t])
  qed
  show "tx_value t = Fin 1234567 \<Longrightarrow> tx_deserialize (tx_serialize t) = Inr (t\<lparr>tx_value := Fin 1234570\<rparr>)"
    by (simp add: tx_codec [OF t] dec_g_loses stod_loses)
next
  show "header_plain h \<Longrightarrow> header_deserialize (header_serialize h) = Inr h"
    by (simp add: header_plain_def header_serialize_def header_deserialize_def)
  assume b: "block_plain b"
  show "block_deserialize (block_serialize b) = (if b_transactions b = [] then Inr b else Inl Invalid_Argument)"
  proof (cases "b_transactions b")
    case Nil
    then show ?thesis unfolding block_deserialize_rest [OF b] by (simp add: split_fields.simps [of _ "[]"])
  next
    case (Cons t ts)
    let ?r = "drop 1 (concat (map (\<lambda>t. ''|'' @ tx_serialize t) (b_transactions b)))"
    have "\<exists>c\<in>set ?r. c \<noteq> CHR ''|''" using tx_serialize_char [of t] by (auto simp: Cons)
    then have "read_transactions (split_fields CHR ''|'' ?r) = Inl Invalid_Argument"
      using split_fields_props by (intro read_transactions_field) blast+
    then show ?thesis unfolding block_deserialize_rest [OF b] using Cons by simp
  qed
qed

lemma chain_text_codec_witness:
  "block_deserialize (block_serialize (empty_block\<lparr>b_transactions := [createTransaction ''a'' ''b'' (Fin 5) ''k'' 1 2]\<rparr>)) =
     Inl Invalid_Argument"
  using chain_text_codec [where b = "empty_block\<lparr>b_transactions := [createTransaction ''a'' ''b'' (Fin 5) ''k'' 1 2]\<rparr>"]
  by (simp add: block_plain_def empty_block_def)

end
