(* ===== verification/P2p_Owned.thy ===== *)
theory P2p_Owned
  imports P2p_Text
begin

text \<open>
  Items kept under their identifiers, with a second map from each owner to the identifiers of
  his items: the data structure of the account manager and of the contract engine. The
  locale states the discipline their operations follow, and concludes that queries by owner
  neither throw nor miss an item.
\<close>

text \<open>\<open>items.at(id)\<close> for every id\<close>

fun all_at :: "(string, 'v) std_map \<Rightarrow> string list \<Rightarrow> 'v list cpp" where
  "all_at m [] = Inr []"
| "all_at m (k # ks) =
     (case map_of m k of
        None \<Rightarrow> Inl Out_Of_Range
      | Some v \<Rightarrow> cpp_then (all_at m ks) (\<lambda>vs. Inr (v # vs)))"

definition items_of_owner :: "(string, 'v) std_map \<Rightarrow> (string, string list) std_map \<Rightarrow> string \<Rightarrow> 'v list cpp" where
  "items_of_owner m ix owner = (case map_of ix owner of None \<Rightarrow> Inr [] | Some ks \<Rightarrow> all_at m ks)"

lemma all_at_present: "\<forall>k\<in>set ks. map_of m k \<noteq> None \<Longrightarrow> all_at m ks = Inr (map (\<lambda>k. the (map_of m k)) ks)"
  by (induction ks) auto

lemma items_of_owner_present:
  "\<forall>k\<in>set (map_at [] ix owner). map_of m k \<noteq> None \<Longrightarrow>
    items_of_owner m ix owner = Inr (map (\<lambda>k. the (map_of m k)) (map_at [] ix owner))"
  by (simp add: items_of_owner_def map_at_def all_at_present split: option.splits)

text \<open>the changes the operations make: none, a new item, an item less, an item in place\<close>

type_synonym 'v owned = "(string, 'v) std_map \<times> (string, string list) std_map"

inductive owned_change :: "('v \<Rightarrow> string) \<Rightarrow> ('v \<Rightarrow> string) \<Rightarrow> 'v owned \<Rightarrow> 'v owned \<Rightarrow> bool" for key owner where
  oc_same: "owned_change key owner s s"
| oc_add: "map_of m (key v) = None \<Longrightarrow>
    owned_change key owner (m, ix) (map_put (key v) v m, map_change [] (owner v) (\<lambda>ids. ids @ [key v]) ix)"
| oc_remove: "map_of m k = Some v \<Longrightarrow>
    owned_change key owner (m, ix) (map_erase k m, map_change [] (owner v) (filter (\<lambda>x. x \<noteq> k)) ix)"
| oc_replace: "map_of m k = Some v \<Longrightarrow> key v' = key v \<Longrightarrow> owner v' = owner v \<Longrightarrow>
    owned_change key owner (m, ix) (map_put k v' m, ix)"

definition owned_ok :: "('v \<Rightarrow> string) \<Rightarrow> ('v \<Rightarrow> string) \<Rightarrow> 'v owned \<Rightarrow> bool" where
  "owned_ok key owner s \<longleftrightarrow> (case s of (m, ix) \<Rightarrow>
     map_ok m \<and> map_ok ix \<and> (\<forall>k v. map_of m k = Some v \<longrightarrow> key v = k) \<and>
     (\<forall>p. distinct (map_at [] ix p) \<and> set (map_at [] ix p) = {k. \<exists>v. map_of m k = Some v \<and> owner v = p}))"

lemma owned_change_ok: "owned_change key owner s s' \<Longrightarrow> owned_ok key owner s \<Longrightarrow> owned_ok key owner s'"
proof (induction rule: owned_change.induct)
  case (oc_add m v ix)
  then show ?case by (auto simp: owned_ok_def)
next
  case (oc_remove m k v ix)
  then show ?case by (auto simp: owned_ok_def)
next
  case (oc_replace m k v v' ix)
  then show ?case by (auto simp: owned_ok_def)
qed simp

locale owned_items =
  fixes items :: "'s \<Rightarrow> (string, 'v) std_map" and index :: "'s \<Rightarrow> (string, string list) std_map"
    and key :: "'v \<Rightarrow> string" and owner :: "'v \<Rightarrow> string" and init :: 's and step :: "'s \<Rightarrow> 's \<Rightarrow> bool"
  assumes init: "items init = [] \<and> index init = []"
    and step: "step s s' \<Longrightarrow> owned_ok key owner (items s, index s) \<Longrightarrow>
      owned_change key owner (items s, index s) (items s', index s')"
begin

lemma reach_ok: "step\<^sup>*\<^sup>* init s \<Longrightarrow> owned_ok key owner (items s, index s)"
proof (induction rule: rtranclp_induct)
  case base
  then show ?case using init by (simp add: owned_ok_def map_at_def)
next
  case (step s s')
  from owned_change_ok [OF owned_items.step [OF owned_items_axioms step(2,3)] step(3)] show ?case .
qed

lemma by_owner:
  assumes "step\<^sup>*\<^sup>* init s"
  shows "\<exists>vs. items_of_owner (items s) (index s) p = Inr vs \<and> distinct (map key vs) \<and>
    set vs = {v. owner v = p \<and> map_of (items s) (key v) = Some v}"
proof -
  let ?m = "items s" and ?ks = "map_at [] (index s) p"
  have ok: "\<forall>k v. map_of ?m k = Some v \<longrightarrow> key v = k" "distinct ?ks"
    "set ?ks = {k. \<exists>v. map_of ?m k = Some v \<and> owner v = p}"
    using reach_ok [OF assms] by (simp_all add: owned_ok_def)
  let ?vs = "map (\<lambda>k. the (map_of ?m k)) ?ks"
  have "items_of_owner ?m (index s) p = Inr ?vs" using ok(3) by (intro items_of_owner_present) auto
  moreover have "map key ?vs = ?ks" using ok(1,3) by (auto intro!: map_idI)
  moreover have "set ?vs = {v. owner v = p \<and> map_of ?m (key v) = Some v}"
  proof (rule set_eqI)
    fix v
    have "v \<in> set ?vs \<longleftrightarrow> (\<exists>k. map_of ?m k = Some v \<and> owner v = p)" unfolding set_map ok(3) by force
    also have "\<dots> \<longleftrightarrow> v \<in> {v. owner v = p \<and> map_of ?m (key v) = Some v}" using ok(1) by blast
    finally show "v \<in> set ?vs \<longleftrightarrow> v \<in> {v. owner v = p \<and> map_of ?m (key v) = Some v}" .
  qed
  ultimately show ?thesis using ok(2) by metis
qed

end

end
