(* ===== verification/P2p_Account.thy ===== *)
theory P2p_Account
  imports P2p_Owned
begin

text \<open>
  Bank accounts and the account manager: \<open>banking/account.cpp\<close>. The times at which an
  operation reads the clock are arguments; the mutex of the manager is locked once in every
  operation and left out.
\<close>

section \<open>Accounts\<close>

record account =
  ac_accountId :: string
  ac_ownerId :: string
  ac_balance :: double
  ac_frozenBalance :: double
  ac_accountType :: string
  ac_isFrozen :: bool
  ac_createdAt :: u64
  ac_lastTransactionAt :: u64
  ac_transactionHistory :: "string list"
  ac_publicKey :: string
  ac_encryptedPrivateKey :: string

definition empty_account :: account where
  "empty_account = \<lparr>ac_accountId = [], ac_ownerId = [], ac_balance = Fin 0, ac_frozenBalance = Fin 0,
     ac_accountType = [], ac_isFrozen = False, ac_createdAt = 0, ac_lastTransactionAt = 0,
     ac_transactionHistory = [], ac_publicKey = [], ac_encryptedPrivateKey = []\<rparr>"

definition new_account :: "string \<Rightarrow> string \<Rightarrow> string \<Rightarrow> u64 \<Rightarrow> u64 \<Rightarrow> account" where
  "new_account accId owner pubKey t1 t2 = empty_account\<lparr>ac_accountId := accId, ac_ownerId := owner,
     ac_accountType := ''standard'', ac_createdAt := t1, ac_lastTransactionAt := t2, ac_publicKey := pubKey\<rparr>"

definition getAvailableBalance :: "account \<Rightarrow> double" where
  "getAvailableBalance a = (if ac_isFrozen a then ac_frozenBalance a else ac_balance a)"

definition acc_deposit :: "double \<Rightarrow> u64 \<Rightarrow> account \<Rightarrow> bool \<times> account" where
  "acc_deposit amount now a =
     (if dbl_le amount (Fin 0) then (False, a)
      else (True, a\<lparr>ac_balance := dbl_add (ac_balance a) amount, ac_lastTransactionAt := now\<rparr>))"

definition acc_withdraw :: "double \<Rightarrow> u64 \<Rightarrow> account \<Rightarrow> bool \<times> account" where
  "acc_withdraw amount now a =
     (if dbl_le amount (Fin 0) then (False, a)
      else if ac_isFrozen a \<and> dbl_less (ac_frozenBalance a) amount then (False, a)
      else if \<not> ac_isFrozen a \<and> dbl_less (ac_balance a) amount then (False, a)
      else (True, a\<lparr>ac_balance := dbl_sub (ac_balance a) amount, ac_lastTransactionAt := now\<rparr>))"

definition acc_freeze :: "account \<Rightarrow> bool \<times> account" where
  "acc_freeze a =
     (if ac_isFrozen a then (False, a) else (True, a\<lparr>ac_isFrozen := True, ac_frozenBalance := ac_balance a\<rparr>))"

definition acc_unfreeze :: "account \<Rightarrow> bool \<times> account" where
  "acc_unfreeze a =
     (if \<not> ac_isFrozen a then (False, a) else (True, a\<lparr>ac_isFrozen := False, ac_frozenBalance := Fin 0\<rparr>))"

definition setAccountType :: "string \<Rightarrow> account \<Rightarrow> bool \<times> account" where
  "setAccountType type a = (True, a\<lparr>ac_accountType := type\<rparr>)"

definition acc_addTransaction :: "string \<Rightarrow> u64 \<Rightarrow> account \<Rightarrow> account" where
  "acc_addTransaction txId now a =
     a\<lparr>ac_transactionHistory := ac_transactionHistory a @ [txId], ac_lastTransactionAt := now\<rparr>"

definition setEncryptedPrivateKey :: "string \<Rightarrow> account \<Rightarrow> account" where
  "setEncryptedPrivateKey encrypted a = a\<lparr>ac_encryptedPrivateKey := encrypted\<rparr>"

definition bool_text :: "bool \<Rightarrow> string" where
  "bool_text b = (if b then ''1'' else ''0'')"

definition acc_serialize :: "account \<Rightarrow> string" where
  "acc_serialize a =
     join CHR ''|'' ([ac_accountId a, ac_ownerId a, dec_g (ac_balance a), dec_g (ac_frozenBalance a), ac_accountType a,
       bool_text (ac_isFrozen a), dec_nat (unat (ac_createdAt a)), dec_nat (unat (ac_lastTransactionAt a)),
       ac_publicKey a, ac_encryptedPrivateKey a] @ ac_transactionHistory a)"

definition acc_deserialize :: "string \<Rightarrow> account cpp" where
  "acc_deserialize text =
     (let (accountId, ss) = getline CHR ''|'' (Some text);
          (ownerId, ss) = getline CHR ''|'' ss;
          (balStr, ss) = getline CHR ''|'' ss
      in cpp_then (stod balStr) (\<lambda>balance.
         let (fbalStr, ss) = getline CHR ''|'' ss
         in cpp_then (stod fbalStr) (\<lambda>frozenBalance.
            let (accountType, ss) = getline CHR ''|'' ss;
                (frozenStr, ss) = getline CHR ''|'' ss;
                (createdStr, ss) = getline CHR ''|'' ss
            in cpp_then (stoull createdStr) (\<lambda>createdAt.
               let (lastStr, ss) = getline CHR ''|'' ss
               in cpp_then (stoull lastStr) (\<lambda>lastTransactionAt.
                  let (publicKey, ss) = getline CHR ''|'' ss;
                      (encryptedPrivateKey, ss) = getline CHR ''|'' ss
                  in Inr \<lparr>ac_accountId = accountId, ac_ownerId = ownerId, ac_balance = balance,
                          ac_frozenBalance = frozenBalance, ac_accountType = accountType,
                          ac_isFrozen = (frozenStr = ''1''), ac_createdAt = createdAt,
                          ac_lastTransactionAt = lastTransactionAt,
                          ac_transactionHistory = filter (\<lambda>tx. tx \<noteq> []) (rest_fields CHR ''|'' ss),
                          ac_publicKey = publicKey, ac_encryptedPrivateKey = encryptedPrivateKey\<rparr>)))))"

section \<open>The account manager\<close>

record account_manager =
  am_accounts :: "(string, account) std_map"
  am_ownerToAccounts :: "(string, string list) std_map"

definition am_empty :: account_manager where
  "am_empty = \<lparr>am_accounts = [], am_ownerToAccounts = []\<rparr>"

definition createAccount :: "string \<Rightarrow> string \<Rightarrow> string \<Rightarrow> u64 \<Rightarrow> u64 \<Rightarrow> account_manager \<Rightarrow> bool \<times> account_manager" where
  "createAccount accountId ownerId publicKey t1 t2 m =
     (if map_of (am_accounts m) accountId \<noteq> None then (False, m)
      else (True, m\<lparr>am_accounts := map_put accountId (new_account accountId ownerId publicKey t1 t2) (am_accounts m),
                    am_ownerToAccounts := map_change [] ownerId (\<lambda>ids. ids @ [accountId]) (am_ownerToAccounts m)\<rparr>))"

definition deleteAccount :: "string \<Rightarrow> account_manager \<Rightarrow> bool \<times> account_manager" where
  "deleteAccount accountId m =
     (case map_of (am_accounts m) accountId of
        None \<Rightarrow> (False, m)
      | Some a \<Rightarrow>
          (True, m\<lparr>am_accounts := map_erase accountId (am_accounts m),
                   am_ownerToAccounts :=
                     map_change [] (ac_ownerId a) (filter (\<lambda>x. x \<noteq> accountId)) (am_ownerToAccounts m)\<rparr>))"

definition getAccount :: "string \<Rightarrow> account_manager \<Rightarrow> account" where
  "getAccount accountId m = (case map_of (am_accounts m) accountId of Some a \<Rightarrow> a | None \<Rightarrow> empty_account)"

definition getAccountsByOwner :: "string \<Rightarrow> account_manager \<Rightarrow> account list cpp" where
  "getAccountsByOwner ownerId m = items_of_owner (am_accounts m) (am_ownerToAccounts m) ownerId"

text \<open>an operation on the account in place\<close>

definition on_account :: "string \<Rightarrow> (account \<Rightarrow> bool \<times> account) \<Rightarrow> account_manager \<Rightarrow> bool \<times> account_manager" where
  "on_account accountId f m =
     (case map_of (am_accounts m) accountId of
        None \<Rightarrow> (False, m)
      | Some a \<Rightarrow> let (ok, a) = f a in (ok, m\<lparr>am_accounts := map_put accountId a (am_accounts m)\<rparr>))"

definition updateBalance :: "string \<Rightarrow> double \<Rightarrow> u64 \<Rightarrow> account_manager \<Rightarrow> bool \<times> account_manager" where
  "updateBalance accountId amount now m =
     on_account accountId (\<lambda>a.
       if dbl_less (Fin 0) amount then acc_deposit amount now a
       else if dbl_less amount (Fin 0) then acc_withdraw (dbl_neg amount) now a
       else (True, a)) m"

definition freezeAccount :: "string \<Rightarrow> account_manager \<Rightarrow> bool \<times> account_manager" where
  "freezeAccount accountId m = on_account accountId acc_freeze m"

definition unfreezeAccount :: "string \<Rightarrow> account_manager \<Rightarrow> bool \<times> account_manager" where
  "unfreezeAccount accountId m = on_account accountId acc_unfreeze m"

definition getAccountCount :: "account_manager \<Rightarrow> nat" where
  "getAccountCount m = length (am_accounts m)"

definition accountExists :: "string \<Rightarrow> account_manager \<Rightarrow> bool" where
  "accountExists accountId m = (map_of (am_accounts m) accountId \<noteq> None)"

section \<open>Text form\<close>

definition account_plain :: "account \<Rightarrow> bool" where
  "account_plain a \<longleftrightarrow>
     (\<forall>f\<in>{ac_accountId a, ac_ownerId a, ac_accountType a, ac_publicKey a, ac_encryptedPrivateKey a}. CHR ''|'' \<notin> set f) \<and>
     (\<forall>h\<in>set (ac_transactionHistory a). h \<noteq> [] \<and> CHR ''|'' \<notin> set h)"

lemma bool_text_simps [simp]: "CHR ''|'' \<notin> set (bool_text b)" "bool_text b = ''1'' \<longleftrightarrow> b"
  by (simp_all add: bool_text_def)

text \<open>both balances are read back as the six digits that were printed\<close>

lemma acc_codec:
  assumes "account_plain a"
  shows "acc_deserialize (acc_serialize a) =
    cpp_then (stod (dec_g (ac_balance a))) (\<lambda>x. cpp_then (stod (dec_g (ac_frozenBalance a))) (\<lambda>y.
      Inr (a\<lparr>ac_balance := x, ac_frozenBalance := y\<rparr>)))"
proof -
  have h: "split_fields CHR ''|'' (join CHR ''|'' (ac_transactionHistory a)) = ac_transactionHistory a"
    "filter (\<lambda>tx. tx \<noteq> []) (ac_transactionHistory a) = ac_transactionHistory a"
    using assms by (auto intro!: split_fields_join simp: account_plain_def filter_id_conv)
  have u: "a\<lparr>ac_balance := x, ac_frozenBalance := y\<rparr> =
      \<lparr>ac_accountId = ac_accountId a, ac_ownerId = ac_ownerId a, ac_balance = x, ac_frozenBalance = y,
       ac_accountType = ac_accountType a, ac_isFrozen = ac_isFrozen a, ac_createdAt = ac_createdAt a,
       ac_lastTransactionAt = ac_lastTransactionAt a, ac_transactionHistory = ac_transactionHistory a,
       ac_publicKey = ac_publicKey a, ac_encryptedPrivateKey = ac_encryptedPrivateKey a\<rparr>" for x y
    by (cases a) simp
  show ?thesis
  proof (cases "ac_transactionHistory a")
    case Nil
    then show ?thesis unfolding u using assms
      by (simp add: account_plain_def acc_serialize_def acc_deserialize_def rest_fields_def split_fields.simps [of _ "[]"])
  next
    case (Cons t ts)
    then show ?thesis unfolding u using assms h
      by (simp add: account_plain_def acc_serialize_def acc_deserialize_def rest_fields_def)
  qed
qed

text \<open>
  An account is read back from its text when the strings in it have no bar and its
  balances are integers of at most six digits; of a larger balance only the first six
  digits are kept: 1234567 comes back as 1234570.
\<close>

theorem account_codec:
  assumes "account_plain a"
  shows "(\<bar>x\<bar> < 1000000 \<longrightarrow> \<bar>y\<bar> < 1000000 \<longrightarrow> ac_balance a = Fin (of_int x) \<longrightarrow> ac_frozenBalance a = Fin (of_int y) \<longrightarrow>
      acc_deserialize (acc_serialize a) = Inr a) \<and>
    acc_deserialize (acc_serialize (a\<lparr>ac_balance := Fin 1234567, ac_frozenBalance := Fin 0\<rparr>)) =
      Inr (a\<lparr>ac_balance := Fin 1234570, ac_frozenBalance := Fin 0\<rparr>)"
proof -
  have "account_plain (a\<lparr>ac_balance := Fin 1234567, ac_frozenBalance := Fin 0\<rparr>)"
    using assms by (simp add: account_plain_def)
  moreover have "stod (dec_g (Fin 0)) = Inr (Fin 0)" using stod_dec_g [of 0] by simp
  ultimately show ?thesis using assms by (auto simp: acc_codec stod_dec_g dec_g_loses stod_loses)
qed

lemma account_codec_witness:
  "acc_deserialize (acc_serialize ((new_account ''1'' ''ann'' ''key'' 5 6)\<lparr>ac_balance := Fin 1234567, ac_frozenBalance := Fin 0\<rparr>)) =
     Inr ((new_account ''1'' ''ann'' ''key'' 5 6)\<lparr>ac_balance := Fin 1234570, ac_frozenBalance := Fin 0\<rparr>)"
proof -
  have "account_plain (new_account ''1'' ''ann'' ''key'' 5 6)"
    by (simp add: account_plain_def new_account_def empty_account_def)
  then show ?thesis using account_codec by blast
qed

section \<open>What an account lets through\<close>

datatype acc_op = Deposit double | Withdraw double

fun acc_step :: "u64 \<Rightarrow> account \<Rightarrow> acc_op \<Rightarrow> account" where
  "acc_step now a (Deposit x) = snd (acc_deposit x now a)"
| "acc_step now a (Withdraw x) = snd (acc_withdraw x now a)"

fun op_amount :: "acc_op \<Rightarrow> double" where
  "op_amount (Deposit x) = x"
| "op_amount (Withdraw x) = x"

definition finite_amount :: "double \<Rightarrow> bool" where
  "finite_amount x \<longleftrightarrow> x \<notin> {PInf, MInf, NaN}"

lemma acc_step_open [simp]: "ac_isFrozen (acc_step now a x) = ac_isFrozen a"
  by (cases x) (simp_all add: acc_deposit_def acc_withdraw_def)

lemma acc_step_nonneg:
  assumes "\<not> ac_isFrozen a" "dbl_le (Fin 0) (ac_balance a)" "finite_amount (op_amount x)"
  shows "dbl_le (Fin 0) (ac_balance (acc_step now a x))"
proof -
  obtain r where r: "op_amount x = Fin r" using assms(3) by (cases "op_amount x") (auto simp: finite_amount_def)
  have b: "(\<exists>b. ac_balance a = Fin b \<and> 0 \<le> b) \<or> ac_balance a = PInf"
    using assms(2) by (cases "ac_balance a") (auto simp: dbl_le_def dbl_eq_def)
  have p: "dbl_le (Fin 0) PInf" by (simp add: dbl_le_def)
  show ?thesis
  proof (cases x)
    case (Deposit y)
    then show ?thesis using r b p assms(2) by (auto simp: acc_deposit_def intro!: fl_nonneg)
  next
    case (Withdraw y)
    then show ?thesis using r b p assms(1,2) by (auto simp: acc_withdraw_def dbl_sub_def intro!: fl_nonneg)
  qed
qed

definition withdraw_all :: "double \<Rightarrow> u64 list \<Rightarrow> account \<Rightarrow> bool \<times> account" where
  "withdraw_all x ts a = foldl (\<lambda>(ok, a) now. let (ok', a) = acc_withdraw x now a in (ok \<and> ok', a)) (True, a) ts"

lemma withdraw_all_snoc:
  "withdraw_all x (ts @ [now]) a =
    (fst (withdraw_all x ts a) \<and> fst (acc_withdraw x now (snd (withdraw_all x ts a))),
     snd (acc_withdraw x now (snd (withdraw_all x ts a))))"
  by (simp add: withdraw_all_def split_def Let_def)

lemma withdraw_frozen:
  assumes "ac_isFrozen a" "ac_frozenBalance a = Fin (of_int y)" "ac_balance a = Fin (of_int y)" "0 < x" "x \<le> y"
    "y < 2 ^ 53" "int (length ts) * x < 2 ^ 53"
  shows "fst (withdraw_all (Fin (of_int x)) ts a) \<and>
    ac_balance (snd (withdraw_all (Fin (of_int x)) ts a)) = Fin (of_int (y - int (length ts) * x)) \<and>
    ac_isFrozen (snd (withdraw_all (Fin (of_int x)) ts a)) \<and>
    ac_frozenBalance (snd (withdraw_all (Fin (of_int x)) ts a)) = Fin (of_int y)"
  using assms(7)
proof (induction ts rule: rev_induct)
  case Nil
  then show ?case using assms by (simp add: withdraw_all_def)
next
  case (snoc now ts)
  have l: "int (length ts) * x + x < 2 ^ 53" using snoc.prems by (simp add: algebra_simps)
  then have "int (length ts) * x < 2 ^ 53" using assms(4) by simp
  note IH = snoc.IH [OF this]
  have "0 \<le> int (length ts) * x" using assms(4) by simp
  then have "\<bar>y - int (length ts) * x - x\<bar> < 2 ^ 53" using l assms(4,5,6) unfolding abs_less_iff by (intro conjI) linarith+
  then have "fl (of_int (y - int (length ts) * x) - of_int x) = Fin (of_int (y - int (length ts) * x - x))"
    using fl_int by (simp only: flip: of_int_diff)
  then show ?case using IH assms(4,5) by (simp add: withdraw_all_snoc acc_withdraw_def algebra_simps)
qed

text \<open>
  Deposits and withdrawals of finite amounts never make the balance of an account that is
  not frozen negative. A frozen account is checked against the balance at the time of the
  freeze, which withdrawals do not reduce: any number of withdrawals of x up to that balance
  succeed, far below zero. And a deposit that is not a number is accepted, after which every
  positive withdrawal is.
\<close>

theorem account_balance_guard:
  "(\<not> ac_isFrozen a \<longrightarrow> dbl_le (Fin 0) (ac_balance a) \<longrightarrow> (\<forall>x\<in>set xs. finite_amount (op_amount x)) \<longrightarrow>
      dbl_le (Fin 0) (ac_balance (foldl (acc_step now) a xs))) \<and>
   (\<not> ac_isFrozen a \<longrightarrow> ac_balance a = Fin (of_int y) \<longrightarrow> 0 < x \<longrightarrow> x \<le> y \<longrightarrow> y < 2 ^ 53 \<longrightarrow> int (length ts) * x < 2 ^ 53 \<longrightarrow>
      fst (withdraw_all (Fin (of_int x)) ts (snd (acc_freeze a))) \<and>
      ac_balance (snd (withdraw_all (Fin (of_int x)) ts (snd (acc_freeze a)))) = Fin (of_int (y - int (length ts) * x))) \<and>
   (\<not> ac_isFrozen a \<longrightarrow> 0 < w \<longrightarrow> fst (acc_deposit NaN now a) \<and> fst (acc_withdraw (Fin w) now (snd (acc_deposit NaN now a))))"
proof (intro conjI impI)
  assume "\<not> ac_isFrozen a" "dbl_le (Fin 0) (ac_balance a)" "\<forall>x\<in>set xs. finite_amount (op_amount x)"
  then show "dbl_le (Fin 0) (ac_balance (foldl (acc_step now) a xs))"
    by (induction xs arbitrary: a) (simp_all add: acc_step_nonneg)
next
  assume "\<not> ac_isFrozen a" "ac_balance a = Fin (of_int y)" "0 < x" "x \<le> y" "y < 2 ^ 53" "int (length ts) * x < 2 ^ 53"
  then show "fst (withdraw_all (Fin (of_int x)) ts (snd (acc_freeze a)))"
    "ac_balance (snd (withdraw_all (Fin (of_int x)) ts (snd (acc_freeze a)))) = Fin (of_int (y - int (length ts) * x))"
    using withdraw_frozen [of "snd (acc_freeze a)" y x ts] by (simp_all add: acc_freeze_def)
qed (simp_all add: acc_deposit_def acc_withdraw_def)

lemma account_balance_guard_witness:
  "let a = snd (acc_freeze (new_account ''1'' ''ann'' ''key'' 5 6\<lparr>ac_balance := Fin (of_int 100)\<rparr>))
   in fst (withdraw_all (Fin (of_int 90)) [7, 8, 9] a) \<and>
      ac_balance (snd (withdraw_all (Fin (of_int 90)) [7, 8, 9] a)) = Fin (of_int (- 170))"
  using account_balance_guard [where a = "new_account ''1'' ''ann'' ''key'' 5 6\<lparr>ac_balance := Fin (of_int 100)\<rparr>"
      and y = 100 and x = 90 and ts = "[7, 8, 9]"]
  by (simp add: new_account_def empty_account_def Let_def)

section \<open>The index by owner\<close>

inductive am_step :: "account_manager \<Rightarrow> account_manager \<Rightarrow> bool" where
  am_create: "createAccount accId owner key t1 t2 m = (ok, m') \<Longrightarrow> am_step m m'"
| am_delete: "deleteAccount accId m = (ok, m') \<Longrightarrow> am_step m m'"
| am_update: "updateBalance accId x now m = (ok, m') \<Longrightarrow> am_step m m'"
| am_freeze: "freezeAccount accId m = (ok, m') \<Longrightarrow> am_step m m'"
| am_unfreeze: "unfreezeAccount accId m = (ok, m') \<Longrightarrow> am_step m m'"

lemma on_account_change:
  assumes "owned_ok ac_accountId ac_ownerId (am_accounts m, am_ownerToAccounts m)"
    and "\<And>a. ac_accountId (snd (f a)) = ac_accountId a \<and> ac_ownerId (snd (f a)) = ac_ownerId a"
  shows "owned_change ac_accountId ac_ownerId (am_accounts m, am_ownerToAccounts m)
    (am_accounts (snd (on_account accId f m)), am_ownerToAccounts (snd (on_account accId f m)))"
proof (cases "map_of (am_accounts m) accId")
  case (Some a)
  then show ?thesis using assms(2) by (auto simp: on_account_def split_def Let_def intro: oc_replace)
qed (simp add: on_account_def oc_same)

lemma am_step_change:
  assumes "am_step m m'" "owned_ok ac_accountId ac_ownerId (am_accounts m, am_ownerToAccounts m)"
  shows "owned_change ac_accountId ac_ownerId (am_accounts m, am_ownerToAccounts m) (am_accounts m', am_ownerToAccounts m')"
  using assms
proof (induction rule: am_step.induct)
  case (am_create accId owner key t1 t2 m ok m')
  then show ?case
    using oc_add [of "am_accounts m" ac_accountId "new_account accId owner key t1 t2" ac_ownerId "am_ownerToAccounts m"]
    by (auto simp: createAccount_def new_account_def empty_account_def oc_same split: if_splits)
next
  case (am_delete accId m ok m')
  then show ?case by (auto simp: deleteAccount_def oc_same oc_remove split: option.splits)
next
  case (am_update accId x now m ok m')
  then show ?case
    using on_account_change [of m "\<lambda>a. if dbl_less (Fin 0) x then acc_deposit x now a
      else if dbl_less x (Fin 0) then acc_withdraw (dbl_neg x) now a else (True, a)" accId]
    by (simp add: updateBalance_def acc_deposit_def acc_withdraw_def)
next
  case (am_freeze accId m ok m')
  then show ?case using on_account_change [of m acc_freeze accId] by (simp add: freezeAccount_def acc_freeze_def)
next
  case (am_unfreeze accId m ok m')
  then show ?case using on_account_change [of m acc_unfreeze accId] by (simp add: unfreezeAccount_def acc_unfreeze_def)
qed

interpretation accounts: owned_items am_accounts am_ownerToAccounts ac_accountId ac_ownerId am_empty am_step
  by unfold_locales (simp_all add: am_empty_def am_step_change)

text \<open>
  C23: In every state that creating, deleting, updating, freezing and unfreezing accounts can
  reach, a query by owner returns, without an exception, every account of the owner exactly
  once and no other.
\<close>

theorem owner_index:
  assumes "am_step\<^sup>*\<^sup>* am_empty m"
  shows "\<exists>as. getAccountsByOwner owner m = Inr as \<and> distinct (map ac_accountId as) \<and>
    set as = {a. ac_ownerId a = owner \<and> accountExists (ac_accountId a) m \<and> getAccount (ac_accountId a) m = a}"
proof -
  have "accountExists (ac_accountId a) m \<and> getAccount (ac_accountId a) m = a \<longleftrightarrow> map_of (am_accounts m) (ac_accountId a) = Some a" for a
    by (auto simp: accountExists_def getAccount_def)
  then show ?thesis using accounts.by_owner [OF assms, of owner] by (simp only: getAccountsByOwner_def)
qed

lemma owner_index_witness:
  "\<exists>as. getAccountsByOwner ''ann'' (snd (createAccount ''1'' ''ann'' ''key'' 5 6 am_empty)) = Inr as \<and>
     getAccount ''1'' (snd (createAccount ''1'' ''ann'' ''key'' 5 6 am_empty)) \<in> set as"
proof -
  let ?m = "snd (createAccount ''1'' ''ann'' ''key'' 5 6 am_empty)"
  have "am_step\<^sup>*\<^sup>* am_empty ?m"
    by (rule r_into_rtranclp, rule am_create [of "''1''" "''ann''" "''key''" 5 6 _ "fst (createAccount ''1'' ''ann'' ''key'' 5 6 am_empty)"]) simp
  from owner_index [OF this, of "''ann''"] show ?thesis
    by (auto simp: createAccount_def am_empty_def getAccount_def accountExists_def new_account_def empty_account_def)
qed

end
