(* ===== verification/P2p_Ledger.thy ===== *)
theory P2p_Ledger
  imports P2p_Sha1 P2p_Text
begin

text \<open>
  The ledger of \<open>banking/ledger.cpp\<close> and the audit log of \<open>banking/audit.cpp\<close>: two bounded logs
  with an index of entry identifiers. The clock and the 16 random bytes of an identifier are
  arguments.
\<close>

section \<open>Bounded logs\<close>

text \<open>the first entry with an identifier, for every identifier in turn; identifiers without an entry are skipped\<close>

definition find_entries :: "('e \<Rightarrow> string) \<Rightarrow> 'e list \<Rightarrow> string list \<Rightarrow> 'e list" where
  "find_entries entry_id entries ids =
     concat (map (\<lambda>i. case find (\<lambda>e. entry_id e = i) entries of None \<Rightarrow> [] | Some e \<Rightarrow> [e]) ids)"

section \<open>Ledger entries\<close>

record ledger_entry =
  le_entryId :: string
  le_accountId :: string
  le_amount :: double
  le_transactionId :: string
  le_timestamp :: u64
  le_entryType :: string
  le_balanceAfter :: double

definition new_ledger_entry :: "string \<Rightarrow> double \<Rightarrow> string \<Rightarrow> string \<Rightarrow> u64 \<Rightarrow> string \<Rightarrow> ledger_entry" where
  "new_ledger_entry accId amt txId type now rnd =
     \<lparr>le_entryId = sha1 (accId @ dec_nat (unat now) @ rnd), le_accountId = accId, le_amount = amt,
      le_transactionId = txId, le_timestamp = now, le_entryType = type, le_balanceAfter = Fin 0\<rparr>"

definition le_serialize :: "ledger_entry \<Rightarrow> string" where
  "le_serialize e = join CHR ''|'' [le_entryId e, le_accountId e, dec_g (le_amount e), le_transactionId e,
     dec_nat (unat (le_timestamp e)), le_entryType e, dec_g (le_balanceAfter e)]"

definition le_deserialize :: "string \<Rightarrow> ledger_entry cpp" where
  "le_deserialize text =
     (let (entryId, ss) = getline CHR ''|'' (Some text);
          (accountId, ss) = getline CHR ''|'' ss;
          (amtStr, ss) = getline CHR ''|'' ss
      in cpp_then (stod amtStr) (\<lambda>amount.
         let (transactionId, ss) = getline CHR ''|'' ss;
             (tsStr, ss) = getline CHR ''|'' ss
         in cpp_then (stoull tsStr) (\<lambda>timestamp.
            let (entryType, ss) = getline CHR ''|'' ss;
                (balStr, ss) = getline CHR ''|'' ss
            in cpp_then (stod balStr) (\<lambda>balanceAfter.
               Inr \<lparr>le_entryId = entryId, le_accountId = accountId, le_amount = amount,
                    le_transactionId = transactionId, le_timestamp = timestamp, le_entryType = entryType,
                    le_balanceAfter = balanceAfter\<rparr>))))"

section \<open>The ledger\<close>

record ledger =
  lg_entries :: "ledger_entry list"
  lg_balances :: "(string, double) std_map"
  lg_accountEntries :: "(string, string list) std_map"
  lg_maxEntries :: nat

definition lg_new :: "nat \<Rightarrow> ledger" where
  "lg_new limit = \<lparr>lg_entries = [], lg_balances = [], lg_accountEntries = [], lg_maxEntries = limit\<rparr>"

text \<open>erasing the first of no entries is undefined\<close>

definition lg_addEntry :: "ledger_entry \<Rightarrow> ledger \<Rightarrow> (bool \<times> ledger) cpp" where
  "lg_addEntry e l =
     (if lg_maxEntries l \<le> length (lg_entries l) \<and> lg_entries l = [] then Inl Bad_Index
      else let es = (if lg_maxEntries l \<le> length (lg_entries l) then tl (lg_entries l) else lg_entries l)
           in Inr (True, l\<lparr>lg_entries := es @ [e],
                 lg_balances := map_put (le_accountId e) (le_balanceAfter e) (lg_balances l),
                 lg_accountEntries := map_change [] (le_accountId e) (\<lambda>ids. ids @ [le_entryId e]) (lg_accountEntries l)\<rparr>))"

definition lg_addTransaction :: "string \<Rightarrow> double \<Rightarrow> string \<Rightarrow> string \<Rightarrow> u64 \<Rightarrow> string \<Rightarrow> ledger \<Rightarrow> bool \<times> ledger" where
  "lg_addTransaction accountId amount transactionId type now rnd l =
     (let (currentBalance, balances) = map_index (Fin 0) accountId (lg_balances l);
          newBalance = (if type = ''credit'' then dbl_add currentBalance amount else dbl_sub currentBalance amount);
          e = (new_ledger_entry accountId amount transactionId type now rnd)\<lparr>le_balanceAfter := newBalance\<rparr>;
          es = lg_entries l @ [e]
      in (True, l\<lparr>lg_entries := (if lg_maxEntries l < length es then tl es else es),
                  lg_balances := map_put accountId newBalance balances,
                  lg_accountEntries := map_change [] accountId (\<lambda>ids. ids @ [le_entryId e]) (lg_accountEntries l)\<rparr>))"

definition lg_getBalance :: "string \<Rightarrow> ledger \<Rightarrow> double" where
  "lg_getBalance accountId l = (case map_of (lg_balances l) accountId of Some x \<Rightarrow> x | None \<Rightarrow> Fin 0)"

definition lg_getEntriesForAccount :: "string \<Rightarrow> nat \<Rightarrow> ledger \<Rightarrow> ledger_entry list" where
  "lg_getEntriesForAccount accountId limit l =
     (case map_of (lg_accountEntries l) accountId of
        None \<Rightarrow> []
      | Some ids \<Rightarrow> take limit (find_entries le_entryId (lg_entries l) ids))"

definition lg_getEntriesSince :: "u64 \<Rightarrow> ledger \<Rightarrow> ledger_entry list" where
  "lg_getEntriesSince timestamp l = filter (\<lambda>e. timestamp \<le> le_timestamp e) (lg_entries l)"

fun verify_entries :: "(string, double) std_map \<Rightarrow> ledger_entry list \<Rightarrow> bool" where
  "verify_entries computed [] = True"
| "verify_entries computed (e # es) =
     (let computed = map_change (Fin 0) (le_accountId e)
            (\<lambda>x. if le_entryType e = ''credit'' then dbl_add x (le_amount e) else dbl_sub x (le_amount e)) computed
      in if \<not> dbl_eq (the (map_of computed (le_accountId e))) (le_balanceAfter e) then False
         else verify_entries computed es)"

definition verifyConsistency :: "ledger \<Rightarrow> bool" where
  "verifyConsistency l = verify_entries [] (lg_entries l)"

definition lg_getEntryCount :: "ledger \<Rightarrow> nat" where
  "lg_getEntryCount l = length (lg_entries l)"

text \<open>\<open>held\<close>: the calling thread holds the mutex already\<close>

definition lg_clear :: "bool \<Rightarrow> ledger \<Rightarrow> ledger cpp" where
  "lg_clear held l = (if held then Inl Deadlock else Inr (l\<lparr>lg_entries := [], lg_balances := [], lg_accountEntries := []\<rparr>))"

definition lg_serialize :: "ledger \<Rightarrow> string" where
  "lg_serialize l = concat (map (\<lambda>e. le_serialize e @ '';'') (lg_entries l))"

fun read_entries :: "ledger \<Rightarrow> string list \<Rightarrow> ledger cpp" where
  "read_entries l [] = Inr l"
| "read_entries l (entryStr # rest) =
     (if entryStr = [] then read_entries l rest
      else cpp_then (le_deserialize entryStr) (\<lambda>e. read_entries
        (l\<lparr>lg_entries := lg_entries l @ [e],
           lg_balances := map_put (le_accountId e) (le_balanceAfter e) (lg_balances l),
           lg_accountEntries := map_change [] (le_accountId e) (\<lambda>ids. ids @ [le_entryId e]) (lg_accountEntries l)\<rparr>) rest))"

definition lg_deserialize :: "string \<Rightarrow> ledger \<Rightarrow> ledger cpp" where
  "lg_deserialize text l = cpp_then (lg_clear True l) (\<lambda>l. read_entries l (split_fields CHR '';'' text))"

section \<open>The audit log\<close>

record audit_entry =
  au_entryId :: string
  au_userId :: string
  au_action :: string
  au_details :: string
  au_timestamp :: u64
  au_ipAddress :: string
  au_signature :: string

record audit_log =
  al_entries :: "audit_entry list"
  al_userEntries :: "(string, string list) std_map"
  al_maxEntries :: nat
  al_auditKey :: string

definition au_serialize :: "audit_entry \<Rightarrow> string" where
  "au_serialize e = join CHR ''|'' [au_entryId e, au_userId e, au_action e, au_details e,
     dec_nat (unat (au_timestamp e)), au_ipAddress e, au_signature e]"

definition au_deserialize :: "string \<Rightarrow> audit_entry cpp" where
  "au_deserialize text =
     (let (entryId, ss) = getline CHR ''|'' (Some text);
          (userId, ss) = getline CHR ''|'' ss;
          (action, ss) = getline CHR ''|'' ss;
          (details, ss) = getline CHR ''|'' ss;
          (tsStr, ss) = getline CHR ''|'' ss
      in cpp_then (stoull tsStr) (\<lambda>timestamp.
         let (ipAddress, ss) = getline CHR ''|'' ss;
             (sig, ss) = getline CHR ''|'' ss
         in Inr \<lparr>au_entryId = entryId, au_userId = userId, au_action = action, au_details = details,
                 au_timestamp = timestamp, au_ipAddress = ipAddress, au_signature = sig\<rparr>))"

definition signEntry :: "string \<Rightarrow> audit_entry \<Rightarrow> string" where
  "signEntry auditKey e = sha1_hmac auditKey
     (au_entryId e @ au_userId e @ au_action e @ au_details e @ dec_nat (unat (au_timestamp e)) @ au_ipAddress e)"

definition verifyEntry :: "string \<Rightarrow> audit_entry \<Rightarrow> bool" where
  "verifyEntry auditKey e = (signEntry auditKey e = au_signature e)"

definition al_new :: "nat \<Rightarrow> string \<Rightarrow> audit_log" where
  "al_new limit key = \<lparr>al_entries = [], al_userEntries = [], al_maxEntries = limit, al_auditKey = key\<rparr>"

text \<open>the clock is read twice, for the identifier and for the entry\<close>

definition al_log :: "string \<Rightarrow> string \<Rightarrow> string \<Rightarrow> string \<Rightarrow> u64 \<Rightarrow> u64 \<Rightarrow> string \<Rightarrow> audit_log \<Rightarrow> audit_log cpp" where
  "al_log userId action details ipAddress t1 t2 rnd l =
     (let e = \<lparr>au_entryId = sha1 (userId @ action @ dec_nat (unat t1) @ rnd), au_userId = userId, au_action = action,
               au_details = details, au_timestamp = t2, au_ipAddress = ipAddress, au_signature = []\<rparr>;
          e = e\<lparr>au_signature := signEntry (al_auditKey l) e\<rparr>
      in if al_maxEntries l \<le> length (al_entries l) \<and> al_entries l = [] then Inl Bad_Index
         else let es = (if al_maxEntries l \<le> length (al_entries l) then tl (al_entries l) else al_entries l)
              in Inr (l\<lparr>al_entries := es @ [e],
                    al_userEntries := map_change [] userId (\<lambda>ids. ids @ [au_entryId e]) (al_userEntries l)\<rparr>))"

definition al_getEntriesForUser :: "string \<Rightarrow> nat \<Rightarrow> audit_log \<Rightarrow> audit_entry list" where
  "al_getEntriesForUser userId limit l =
     (case map_of (al_userEntries l) userId of
        None \<Rightarrow> []
      | Some ids \<Rightarrow> take limit (find_entries au_entryId (al_entries l) ids))"

definition al_getEntriesByAction :: "string \<Rightarrow> nat \<Rightarrow> audit_log \<Rightarrow> audit_entry list" where
  "al_getEntriesByAction action limit l = take limit (filter (\<lambda>e. au_action e = action) (al_entries l))"

definition al_getEntriesSince :: "u64 \<Rightarrow> audit_log \<Rightarrow> audit_entry list" where
  "al_getEntriesSince timestamp l = filter (\<lambda>e. timestamp \<le> au_timestamp e) (al_entries l)"

definition al_verifyIntegrity :: "audit_log \<Rightarrow> bool" where
  "al_verifyIntegrity l = list_all (verifyEntry (al_auditKey l)) (al_entries l)"

definition al_getEntryCount :: "audit_log \<Rightarrow> nat" where
  "al_getEntryCount l = length (al_entries l)"

definition al_exportToFile :: "audit_log \<Rightarrow> string" where
  "al_exportToFile l = concat (map (\<lambda>e. au_serialize e @ [CHR 0x0A]) (al_entries l))"

text \<open>the compliance checker: no rule is ever evaluated\<close>

type_synonym rules = "(string \<times> (audit_entry \<Rightarrow> bool)) list"

definition addRule :: "string \<Rightarrow> (audit_entry \<Rightarrow> bool) \<Rightarrow> rules \<Rightarrow> rules" where
  "addRule ruleName checker rules = rules @ [(ruleName, checker)]"

fun removeRule :: "string \<Rightarrow> rules \<Rightarrow> rules" where
  "removeRule ruleName [] = []"
| "removeRule ruleName (r # rules) = (if fst r = ruleName then rules else r # removeRule ruleName rules)"

definition checkCompliance :: "rules \<Rightarrow> audit_log \<Rightarrow> string list" where
  "checkCompliance rules l = []"

section \<open>Text forms\<close>

definition ledger_entry_plain :: "ledger_entry \<Rightarrow> bool" where
  "ledger_entry_plain e \<longleftrightarrow> (\<forall>f\<in>{le_entryId e, le_accountId e, le_transactionId e, le_entryType e}. CHR ''|'' \<notin> set f) \<and>
     (\<exists>m n. \<bar>m\<bar> < 1000000 \<and> \<bar>n\<bar> < 1000000 \<and> le_amount e = Fin (of_int m) \<and> le_balanceAfter e = Fin (of_int n))"

lemma ledger_entry_codec: "ledger_entry_plain e \<Longrightarrow> le_deserialize (le_serialize e) = Inr e"
  by (auto simp: ledger_entry_plain_def le_serialize_def le_deserialize_def dec_g_int)

lemma audit_entry_codec:
  "\<forall>f\<in>{au_entryId e, au_userId e, au_action e, au_details e, au_ipAddress e, au_signature e}. CHR ''|'' \<notin> set f \<Longrightarrow>
    au_deserialize (au_serialize e) = Inr e"
  by (simp add: au_serialize_def au_deserialize_def)

text \<open>a ledger is never read back: deserialize locks the mutex and calls clear, which locks it again\<close>

lemma ledger_deserialize_locks: "lg_deserialize text l = Inl Deadlock"
  by (simp add: lg_deserialize_def lg_clear_def)

section \<open>Balances and the entries they come from\<close>

definition balance_in :: "(string, double) std_map \<Rightarrow> string \<Rightarrow> double" where
  "balance_in m a = (case map_of m a of Some x \<Rightarrow> x | None \<Rightarrow> Fin 0)"

definition posting :: "string \<Rightarrow> double \<Rightarrow> double \<Rightarrow> double" where
  "posting type amount x = (if type = ''credit'' then dbl_add x amount else dbl_sub x amount)"

definition computed_step :: "(string, double) std_map \<Rightarrow> ledger_entry \<Rightarrow> (string, double) std_map" where
  "computed_step m e = map_change (Fin 0) (le_accountId e) (posting (le_entryType e) (le_amount e)) m"

lemma balance_computed_step:
  "map_ok m \<Longrightarrow> map_ok (computed_step m e) \<and> balance_in (computed_step m e) a =
    (if a = le_accountId e then posting (le_entryType e) (le_amount e) (balance_in m a) else balance_in m a)"
  by (simp add: computed_step_def balance_in_def map_change_def split: option.split)

lemma computed_steps_ok: "map_ok m \<Longrightarrow> map_ok (foldl computed_step m es)"
  by (induction es arbitrary: m) (simp_all add: balance_computed_step)

lemma verify_cons:
  assumes "map_ok m"
  shows "verify_entries m (e # es) \<longleftrightarrow>
    dbl_eq (balance_in (computed_step m e) (le_accountId e)) (le_balanceAfter e) \<and> verify_entries (computed_step m e) es"
proof -
  have "map_change (Fin 0) (le_accountId e)
      (\<lambda>x. if le_entryType e = ''credit'' then dbl_add x (le_amount e) else dbl_sub x (le_amount e)) m = computed_step m e"
    unfolding computed_step_def posting_def [abs_def] ..
  moreover have "map_of (computed_step m e) (le_accountId e) \<noteq> None"
    using assms by (simp add: computed_step_def map_change_def)
  ultimately show ?thesis by (auto simp: Let_def balance_in_def)
qed

declare verify_entries.simps(2) [simp del]

lemma verify_snoc:
  "map_ok m \<Longrightarrow> verify_entries m (es @ [e]) \<longleftrightarrow> verify_entries m es \<and>
    dbl_eq (balance_in (computed_step (foldl computed_step m es) e) (le_accountId e)) (le_balanceAfter e)"
  by (induction es arbitrary: m) (simp_all add: verify_cons balance_computed_step)

type_synonym posting_args = "string \<times> double \<times> string \<times> string \<times> u64 \<times> string"

fun post :: "ledger \<Rightarrow> posting_args \<Rightarrow> ledger" where
  "post l (accountId, amount, txId, type, now, rnd) = snd (lg_addTransaction accountId amount txId type now rnd l)"

lemma map_index_changed:
  assumes "map_ok m"
  shows "fst (map_index (Fin 0) a m) = balance_in m a \<and> map_ok (snd (map_index (Fin 0) a m)) \<and>
    map_of (map_put a v (snd (map_index (Fin 0) a m))) = (map_of m)(a \<mapsto> v)"
  using assms by (auto simp: map_index_def balance_in_def fun_eq_iff split: option.split)

lemma post_balances:
  assumes "map_ok (lg_balances l)"
  shows "map_ok (lg_balances (post l (a, x, t, type, now, rnd))) \<and>
    balance_in (lg_balances (post l (a, x, t, type, now, rnd))) b =
      (if b = a then posting type x (balance_in (lg_balances l) a) else balance_in (lg_balances l) b)"
  using map_index_changed [OF assms, of a] map_index_changed [OF assms, of a "posting type x (balance_in (lg_balances l) a)"]
  by (auto simp: lg_addTransaction_def split_def Let_def balance_in_def posting_def)

lemma post_entries:
  assumes "map_ok (lg_balances l)"
  shows "\<exists>e. lg_entries (post l (a, x, t, type, now, rnd)) =
      (if length (lg_entries l) < lg_maxEntries l then lg_entries l @ [e] else tl (lg_entries l @ [e])) \<and>
    le_accountId e = a \<and> le_amount e = x \<and> le_entryType e = type \<and> le_balanceAfter e = posting type x (balance_in (lg_balances l) a)"
  using map_index_changed [OF assms, of a]
  by (auto simp: lg_addTransaction_def new_ledger_entry_def split_def Let_def posting_def)

lemma post_max [simp]: "lg_maxEntries (post l q) = lg_maxEntries l"
  by (cases q) (simp add: lg_addTransaction_def split_def Let_def)

definition ledger_inv :: "ledger \<Rightarrow> bool" where
  "ledger_inv l \<longleftrightarrow> map_ok (lg_balances l) \<and>
     (\<forall>a. balance_in (lg_balances l) a = balance_in (foldl computed_step [] (lg_entries l)) a) \<and>
     (verifyConsistency l \<longleftrightarrow> (\<forall>e\<in>set (lg_entries l). le_balanceAfter e \<noteq> NaN))"

lemma ledger_inv_post:
  assumes "ledger_inv l" "length (lg_entries l) < lg_maxEntries l"
  shows "ledger_inv (post l q) \<and> length (lg_entries (post l q)) = Suc (length (lg_entries l))"
proof -
  obtain a x t type now rnd where q: "q = (a, x, t, type, now, rnd)" by (cases q) auto
  have ok: "map_ok (lg_balances l)" using assms(1) by (simp add: ledger_inv_def)
  obtain e where e: "lg_entries (post l q) = lg_entries l @ [e]" "le_accountId e = a" "le_amount e = x"
    "le_entryType e = type" "le_balanceAfter e = posting type x (balance_in (lg_balances l) a)"
    using post_entries [OF ok, of a x t type now rnd] assms(2) unfolding q by (auto simp del: post.simps)
  let ?m = "foldl computed_step [] (lg_entries l)"
  have m: "map_ok ?m" by (intro computed_steps_ok) simp
  have b: "balance_in (lg_balances l) c = balance_in ?m c" for c using assms(1) by (simp add: ledger_inv_def)
  have "dbl_eq (balance_in (computed_step ?m e) a) (le_balanceAfter e) \<longleftrightarrow> le_balanceAfter e \<noteq> NaN"
    using balance_computed_step [OF m, of e a] e(2-5) b by (simp add: dbl_eq_def)
  then have "verifyConsistency (post l q) \<longleftrightarrow> (\<forall>e\<in>set (lg_entries (post l q)). le_balanceAfter e \<noteq> NaN)"
    using assms(1) e(1,2) by (auto simp: verifyConsistency_def verify_snoc ledger_inv_def)
  moreover have "balance_in (lg_balances (post l q)) c = balance_in (foldl computed_step [] (lg_entries (post l q))) c" for c
    using post_balances [OF ok, of a x t type now rnd c] balance_computed_step [OF m, of e c] e(1-4) b unfolding q by simp
  ultimately show ?thesis using post_balances [OF ok] e(1) unfolding ledger_inv_def q by simp
qed

lemma ledger_inv_posts:
  "length qs \<le> limit \<Longrightarrow> ledger_inv (foldl post (lg_new limit) qs) \<and> length (lg_entries (foldl post (lg_new limit) qs)) = length qs \<and>
    lg_maxEntries (foldl post (lg_new limit) qs) = limit"
proof (induction qs rule: rev_induct)
  case Nil
  then show ?case by (simp add: ledger_inv_def lg_new_def verifyConsistency_def)
next
  case (snoc q qs)
  then show ?case using ledger_inv_post [of "foldl post (lg_new limit) qs" q] by simp
qed

text \<open>credits of x to one account\<close>

definition credits :: "string \<Rightarrow> int \<Rightarrow> (string \<times> u64 \<times> string) list \<Rightarrow> posting_args list" where
  "credits a x qs = map (\<lambda>(t, now, rnd). (a, dbl_int x, t, ''credit'', now, rnd)) qs"

definition credit_entry :: "string \<Rightarrow> int \<Rightarrow> int \<Rightarrow> ledger_entry \<Rightarrow> bool" where
  "credit_entry a x b e \<longleftrightarrow> le_accountId e = a \<and> le_amount e = dbl_int x \<and> le_entryType e = ''credit'' \<and> le_balanceAfter e = dbl_int b"

lemma posting_credit:
  assumes "0 < x" "int (Suc n) * x < 2 ^ 53"
  shows "posting ''credit'' (dbl_int x) (dbl_int (int n * x)) = dbl_int (int (Suc n) * x)"
proof -
  have s: "int n * x + x = int (Suc n) * x" by (simp add: algebra_simps)
  have "0 \<le> int n * x + x" using assms(1) by simp
  then have "\<bar>int n * x + x\<bar> < 2 ^ 53" unfolding s using assms(2) by simp
  from dbl_add_int [OF this] show ?thesis unfolding s by (simp add: posting_def)
qed

lemma credits_snoc: "credits a x (qs @ [(t, now, rnd)]) = credits a x qs @ [(a, dbl_int x, t, ''credit'', now, rnd)]"
  by (simp add: credits_def)

lemma length_credits [simp]: "length (credits a x qs) = length qs"
  by (simp add: credits_def)

lemma credits_balance:
  assumes "0 < x"
  shows "length qs \<le> Suc limit \<Longrightarrow> int (length qs) * x < 2 ^ 53 \<Longrightarrow>
    balance_in (lg_balances (foldl post (lg_new limit) (credits a x qs))) a = dbl_int (int (length qs) * x)"
proof (induction qs rule: rev_induct)
  case Nil
  then show ?case by (simp add: credits_def lg_new_def balance_in_def dbl_int_0)
next
  case (snoc q qs)
  obtain t now rnd where q: "q = (t, now, rnd)" by (cases q) auto
  have "int (length qs) * x \<le> int (length (qs @ [q])) * x" using assms by simp
  then have i: "length qs \<le> limit" "int (length qs) * x < 2 ^ 53" using snoc.prems by simp_all
  have ok: "map_ok (lg_balances (foldl post (lg_new limit) (credits a x qs)))"
    using ledger_inv_posts [of "credits a x qs" limit] i(1) by (simp add: ledger_inv_def)
  have "posting ''credit'' (dbl_int x) (dbl_int (int (length qs) * x)) = dbl_int (int (Suc (length qs)) * x)"
    using snoc.prems(2) assms by (intro posting_credit) simp_all
  then show ?case
    using post_balances [OF ok, of a "dbl_int x" t "''credit''" now rnd a] snoc.IH i
    by (simp add: q credits_snoc del: post.simps of_nat_Suc)
qed

lemma credits_step:
  fixes a :: string
  assumes "0 < x" "length qs \<le> limit" "int (Suc (length qs)) * x < 2 ^ 53"
  defines "l \<equiv> foldl post (lg_new limit) (credits a x qs)"
  shows "\<exists>e. lg_entries (post l (a, dbl_int x, t, ''credit'', now, rnd)) =
      (if length qs < limit then lg_entries l @ [e] else tl (lg_entries l @ [e])) \<and> credit_entry a x (int (Suc (length qs)) * x) e"
proof -
  have inv: "map_ok (lg_balances l)" "length (lg_entries l) = length qs" "lg_maxEntries l = limit"
    using ledger_inv_posts [of "credits a x qs" limit] assms(2) by (simp_all add: l_def ledger_inv_def)
  have "int (length qs) * x \<le> int (Suc (length qs)) * x" using assms(1) by simp
  then have "balance_in (lg_balances l) a = dbl_int (int (length qs) * x)"
    using credits_balance [OF assms(1), of qs limit a] assms(2,3) by (simp add: l_def)
  then show ?thesis
    using post_entries [OF inv(1), of a "dbl_int x" t "''credit''" now rnd] posting_credit [OF assms(1,3)] inv
    by (simp add: credit_entry_def del: post.simps of_nat_Suc)
qed

lemma credits_entries:
  assumes "0 < x"
  shows "length qs \<le> limit \<Longrightarrow> int (length qs) * x < 2 ^ 53 \<Longrightarrow> i < length qs \<Longrightarrow>
    credit_entry a x (int (Suc i) * x) (lg_entries (foldl post (lg_new limit) (credits a x qs)) ! i)"
proof (induction qs arbitrary: i rule: rev_induct)
  case (snoc q qs)
  obtain t now rnd where q: "q = (t, now, rnd)" by (cases q) auto
  let ?l = "foldl post (lg_new limit) (credits a x qs)"
  have "int (length qs) * x \<le> int (length (qs @ [q])) * x" using assms by simp
  then have n: "length qs < limit" "int (length qs) * x < 2 ^ 53" "int (Suc (length qs)) * x < 2 ^ 53" using snoc.prems by simp_all
  have len: "length (lg_entries ?l) = length qs" using ledger_inv_posts [of "credits a x qs" limit] n(1) by simp
  obtain e where e: "lg_entries (post ?l (a, dbl_int x, t, ''credit'', now, rnd)) = lg_entries ?l @ [e]"
    "credit_entry a x (int (Suc (length qs)) * x) e"
    using credits_step [OF assms less_imp_le [OF n(1)] n(3), of a t now rnd] n(1) by auto
  show ?case
  proof (cases "i < length qs")
    case True
    then show ?thesis using snoc.IH [of i] n e(1) len by (simp add: q credits_snoc nth_append del: post.simps of_nat_Suc)
  next
    case False
    then have "i = length qs" using snoc.prems(3) by simp
    then show ?thesis using e len by (simp add: q credits_snoc nth_append del: post.simps of_nat_Suc)
  qed
qed simp

text \<open>
  As long as a ledger has not dropped an entry, its consistency check succeeds exactly when
  no balance it recorded is not a number. As soon as it has dropped one, the check fails on
  correct books: one credit more than the ledger keeps leaves the right balance and a check
  that fails, because it recomputes balances from zero.
\<close>

theorem ledger_consistency:
  "(length qs \<le> limit \<longrightarrow>
      (verifyConsistency (foldl post (lg_new limit) qs) \<longleftrightarrow>
         (\<forall>e\<in>set (lg_entries (foldl post (lg_new limit) qs)). le_balanceAfter e \<noteq> NaN))) \<and>
   (0 < x \<longrightarrow> 0 < limit \<longrightarrow> length cs = Suc limit \<longrightarrow> int (Suc limit) * x < 2 ^ 53 \<longrightarrow>
      \<not> verifyConsistency (foldl post (lg_new limit) (credits a x cs)) \<and>
      lg_getBalance a (foldl post (lg_new limit) (credits a x cs)) = dbl_int (int (Suc limit) * x))"
proof (intro conjI impI)
  assume "length qs \<le> limit"
  then show "verifyConsistency (foldl post (lg_new limit) qs) \<longleftrightarrow>
      (\<forall>e\<in>set (lg_entries (foldl post (lg_new limit) qs)). le_balanceAfter e \<noteq> NaN)"
    using ledger_inv_posts [of qs limit] by (simp add: ledger_inv_def)
next
  assume h: "0 < x" "0 < limit" "length cs = Suc limit" "int (Suc limit) * x < 2 ^ 53"
  then show "lg_getBalance a (foldl post (lg_new limit) (credits a x cs)) = dbl_int (int (Suc limit) * x)"
    using credits_balance [OF h(1), of cs limit a] by (simp add: lg_getBalance_def balance_in_def)
  obtain ds t now rnd where c: "cs = ds @ [(t, now, rnd)]" "length ds = limit"
    using h(3) by (cases cs rule: rev_cases) auto
  let ?l = "foldl post (lg_new limit) (credits a x ds)"
  have len: "length (lg_entries ?l) = limit" using ledger_inv_posts [of "credits a x ds" limit] c(2) by simp
  have "int limit * x \<le> int (Suc limit) * x" using h(1) by simp
  then have lt: "int (length ds) * x < 2 ^ 53" using h(4) c(2) by simp
  obtain e where e: "lg_entries (foldl post (lg_new limit) (credits a x cs)) = tl (lg_entries ?l @ [e])"
    "credit_entry a x (int (Suc limit) * x) e"
    using credits_step [OF h(1), of ds limit a t now rnd] c h(4) by (auto simp: credits_snoc simp del: post.simps)
  have "credit_entry a x (2 * x) ((lg_entries ?l @ [e]) ! 1)"
    using credits_entries [OF h(1) _ lt, of limit 1 a] e(2) c(2) len h(2) by (cases "limit = 1") (auto simp: nth_append)
  moreover have "lg_entries ?l @ [e] \<noteq> []" "tl (lg_entries ?l @ [e]) \<noteq> []" using len h(2) by (cases "lg_entries ?l"; simp)+
  ultimately obtain e2 es where es: "tl (lg_entries ?l @ [e]) = e2 # es" "credit_entry a x (2 * x) e2"
    by (metis One_nat_def hd_Cons_tl nth_Cons_0 nth_Cons_Suc)
  have "1 * x \<le> int (Suc limit) * x" using h(1) by (intro mult_right_mono) simp_all
  then have "\<bar>0 + x\<bar> < 2 ^ 53" using h(1,4) by linarith
  then have "dbl_add (dbl_int 0) (dbl_int x) = dbl_int x" using dbl_add_int [of 0 x] by simp
  then have "balance_in (computed_step [] e2) a = dbl_int x"
    using es(2) balance_computed_step [of "[]" e2 a] by (simp add: credit_entry_def balance_in_def posting_def dbl_int_0)
  then have "\<not> verify_entries [] (e2 # es)" using es(2) h(1) by (simp add: verify_cons credit_entry_def)
  then show "\<not> verifyConsistency (foldl post (lg_new limit) (credits a x cs))"
    using e(1) es(1) by (simp add: verifyConsistency_def)
qed

lemma ledger_consistency_witness:
  "\<not> verifyConsistency (foldl post (lg_new 1) (credits ''a'' 5 [(''t1'', 1, []), (''t2'', 2, [])]))"
  using ledger_consistency [where x = 5 and limit = 1 and cs = "[(''t1'', 1, []), (''t2'', 2, [])]" and a = "''a''"] by simp

section \<open>The audit log keeps its signatures\<close>

type_synonym audit_args = "string \<times> string \<times> string \<times> string \<times> u64 \<times> u64 \<times> string"

fun al_run :: "audit_log \<Rightarrow> audit_args list \<Rightarrow> audit_log cpp" where
  "al_run l [] = Inr l"
| "al_run l ((user, action, details, ip, t1, t2, rnd) # qs) =
     cpp_then (al_log user action details ip t1 t2 rnd l) (\<lambda>l. al_run l qs)"

lemma al_log_sound:
  assumes "0 < al_maxEntries l" "length (al_entries l) \<le> al_maxEntries l" "al_verifyIntegrity l"
  shows "\<exists>l'. al_log user action details ip t1 t2 rnd l = Inr l' \<and> al_verifyIntegrity l' \<and> al_maxEntries l' = al_maxEntries l \<and>
    length (al_entries l') = min (Suc (length (al_entries l))) (al_maxEntries l)"
proof -
  have "list_all (verifyEntry (al_auditKey l)) (tl (al_entries l))"
    using assms(3) by (cases "al_entries l") (simp_all add: al_verifyIntegrity_def)
  then show ?thesis using assms
    by (auto simp: al_log_def Let_def al_verifyIntegrity_def verifyEntry_def signEntry_def min_def)
qed

lemma al_run_sound:
  assumes "0 < al_maxEntries l" "length (al_entries l) \<le> al_maxEntries l" "al_verifyIntegrity l"
  shows "\<exists>l'. al_run l qs = Inr l' \<and> al_verifyIntegrity l' \<and>
    length (al_entries l') = min (length (al_entries l) + length qs) (al_maxEntries l)"
  using assms
proof (induction qs arbitrary: l)
  case (Cons q qs)
  obtain user action details ip t1 t2 rnd where q: "q = (user, action, details, ip, t1, t2, rnd)" by (cases q) auto
  obtain l' where l': "al_log user action details ip t1 t2 rnd l = Inr l'" "al_verifyIntegrity l'" "al_maxEntries l' = al_maxEntries l"
    "length (al_entries l') = min (Suc (length (al_entries l))) (al_maxEntries l)"
    using al_log_sound [OF Cons.prems] by blast
  then show ?case using Cons.IH [of l'] Cons.prems by (auto simp: q)
qed (simp add: min_def)

text \<open>
  A log with room for an entry accepts every sequence of records, keeps the latest ones up
  to its limit, and its integrity check succeeds; a log with no room erases from an empty
  vector at its first record. The check does not notice text moved between the user, the
  action and the details of an entry, since the signed string joins them without separators.
\<close>

theorem audit_log_integrity:
  "(0 < limit \<longrightarrow> (\<exists>l. al_run (al_new limit key) qs = Inr l \<and> al_verifyIntegrity l \<and>
      al_getEntryCount l = min (length qs) limit)) \<and>
   al_log user action details ip t1 t2 rnd (al_new 0 key) = Inl Bad_Index \<and>
   (u @ v @ w = au_userId e @ au_action e @ au_details e \<longrightarrow>
      verifyEntry key (e\<lparr>au_userId := u, au_action := v, au_details := w\<rparr>) = verifyEntry key e)"
proof (intro conjI impI)
  assume "0 < limit"
  then show "\<exists>l. al_run (al_new limit key) qs = Inr l \<and> al_verifyIntegrity l \<and> al_getEntryCount l = min (length qs) limit"
    using al_run_sound [of "al_new limit key" qs] by (simp add: al_new_def al_verifyIntegrity_def al_getEntryCount_def)
next
  assume "u @ v @ w = au_userId e @ au_action e @ au_details e"
  then have uvw: "u @ v @ w @ r = au_userId e @ au_action e @ au_details e @ r" for r by (metis append_assoc)
  show "verifyEntry key (e\<lparr>au_userId := u, au_action := v, au_details := w\<rparr>) = verifyEntry key e"
    by (simp add: verifyEntry_def signEntry_def uvw)
qed (simp add: al_log_def al_new_def Let_def)

lemma audit_log_integrity_witness:
  "\<exists>l. al_run (al_new 1 ''key'') [(''u'', ''login'', [], [], 1, 2, ''r''), (''u'', ''pay'', [], [], 3, 4, ''s'')] = Inr l \<and>
     al_verifyIntegrity l \<and> al_getEntryCount l = 1"
  using audit_log_integrity [where limit = 1 and key = "''key''"
      and qs = "[(''u'', ''login'', [], [], 1, 2, ''r''), (''u'', ''pay'', [], [], 3, 4, ''s'')]"] by simp

end
