(* ===== verification/P2p_Consensus.thy ===== *)
theory P2p_Consensus
  imports P2p_Chain
begin

text \<open>
  Validators and their selection: \<open>blockchain/consensus.cpp\<close>. Every selection draws at most one
  random number, which is an argument, as is the counter of the round robin, a static
  variable that all engines share.
\<close>

section \<open>The engine\<close>

datatype consensus_type = PROOF_OF_WORK | PROOF_OF_STAKE | PROOF_OF_AUTHORITY | PROOF_OF_ELAPSED_TIME
  | DELEGATED_PROOF_OF_STAKE | PRACTICAL_BYZANTINE_FAULT_TOLERANCE

record engine =
  ce_type :: consensus_type
  ce_validators :: "string list"
  ce_stakes :: "(string, double) std_map"
  ce_scores :: "(string, u64) std_map"
  ce_round :: u64

definition ce_new :: "consensus_type \<Rightarrow> engine" where
  "ce_new ct = \<lparr>ce_type = ct, ce_validators = [], ce_stakes = [], ce_scores = [], ce_round = 0\<rparr>"

definition setType :: "consensus_type \<Rightarrow> engine \<Rightarrow> engine" where
  "setType ct e = e\<lparr>ce_type := ct\<rparr>"

definition addValidator :: "string \<Rightarrow> double \<Rightarrow> engine \<Rightarrow> engine" where
  "addValidator v stake e = e\<lparr>ce_validators := ce_validators e @ [v], ce_stakes := map_put v stake (ce_stakes e),
     ce_scores := map_put v 0 (ce_scores e)\<rparr>"

text \<open>\<open>remove1\<close> removes the first occurrence, as the loop does\<close>

definition removeValidator :: "string \<Rightarrow> engine \<Rightarrow> engine" where
  "removeValidator v e = e\<lparr>ce_validators := remove1 v (ce_validators e), ce_stakes := map_erase v (ce_stakes e),
     ce_scores := map_erase v (ce_scores e)\<rparr>"

definition updateStake :: "string \<Rightarrow> double \<Rightarrow> engine \<Rightarrow> engine" where
  "updateStake v stake e = e\<lparr>ce_stakes := map_put v stake (ce_stakes e)\<rparr>"

definition selectPoWValidator :: "u64 \<Rightarrow> engine \<Rightarrow> string" where
  "selectPoWValidator r e =
     (if ce_validators e = [] then [] else ce_validators e ! (unat r mod length (ce_validators e)))"

text \<open>a random number divided by the double next to the largest one, which is two to the 64\<close>

definition uniform :: "u64 \<Rightarrow> double" where
  "uniform r = dbl_mul (fl (of_nat (unat r))) (Fin (1 / 2 ^ 64))"

fun pos_loop :: "double \<Rightarrow> double \<Rightarrow> (string, double) std_map \<Rightarrow> string option" where
  "pos_loop target cumulative [] = None"
| "pos_loop target cumulative ((v, stake) # stakes) =
     (let cumulative = dbl_add cumulative stake
      in if dbl_le target cumulative then Some v else pos_loop target cumulative stakes)"

definition selectPoSValidator :: "u64 \<Rightarrow> engine \<Rightarrow> string" where
  "selectPoSValidator r e =
     (let totalStake = foldl (\<lambda>total (v, stake). dbl_add total stake) (Fin 0) (ce_stakes e)
      in if dbl_eq totalStake (Fin 0) then selectPoWValidator r e
         else case pos_loop (dbl_mul (uniform r) totalStake) (Fin 0) (ce_stakes e) of
           Some v \<Rightarrow> v
         | None \<Rightarrow> if ce_validators e = [] then [] else ce_validators e ! 0)"

definition selectPoAValidator :: "u64 \<Rightarrow> engine \<Rightarrow> string \<times> u64" where
  "selectPoAValidator roundRobinIndex e =
     (if ce_validators e = [] then ([], roundRobinIndex)
      else (ce_validators e ! (unat roundRobinIndex mod length (ce_validators e)), roundRobinIndex + 1))"

definition selectDPoSValidator :: "u64 \<Rightarrow> engine \<Rightarrow> string" where
  "selectDPoSValidator r e = selectPoSValidator r e"

definition selectPBFTValidator :: "u64 \<Rightarrow> engine \<Rightarrow> string" where
  "selectPBFTValidator r e =
     (if length (ce_validators e) < 4 then selectPoWValidator r e
      else ce_validators e ! (unat (ce_round e) mod length (ce_validators e)))"

definition selectValidator :: "u64 \<Rightarrow> engine \<times> u64 \<Rightarrow> string \<times> engine \<times> u64" where
  "selectValidator r s =
     (let (e, roundRobinIndex) = s;
          e = e\<lparr>ce_round := ce_round e + 1\<rparr>
      in case ce_type e of
           PROOF_OF_WORK \<Rightarrow> (selectPoWValidator r e, e, roundRobinIndex)
         | PROOF_OF_STAKE \<Rightarrow> (selectPoSValidator r e, e, roundRobinIndex)
         | PROOF_OF_AUTHORITY \<Rightarrow> (let (v, roundRobinIndex) = selectPoAValidator roundRobinIndex e in (v, e, roundRobinIndex))
         | DELEGATED_PROOF_OF_STAKE \<Rightarrow> (selectDPoSValidator r e, e, roundRobinIndex)
         | PRACTICAL_BYZANTINE_FAULT_TOLERANCE \<Rightarrow> (selectPBFTValidator r e, e, roundRobinIndex)
         | _ \<Rightarrow> (selectPoWValidator r e, e, roundRobinIndex))"

definition ce_validateBlock :: "block \<Rightarrow> block list \<Rightarrow> engine \<Rightarrow> bool" where
  "ce_validateBlock b chain e =
     (if b_validator b = [] then False
      else if b_validator b \<notin> set (ce_validators e) then False
      else if b_index b \<noteq> of_nat (length chain) then False
      else True)"

definition proposeBlock :: "tx list \<Rightarrow> block \<Rightarrow> string \<Rightarrow> u64 \<Rightarrow> block cpp" where
  "proposeBlock txs latestBlock validatorId now =
     (if sint (b_index latestBlock) = 2 ^ 31 - 1 then Inl Overflow
      else Inr (empty_block\<lparr>b_index := b_index latestBlock + 1, b_previousHash := b_hash latestBlock, b_timestamp := now,
             b_transactions := txs, b_merkleRoot := calculateMerkleRoot txs, b_validator := validatorId,
             b_difficulty := 4, b_version := ''1.0''\<rparr>))"

section \<open>Who is selected\<close>

definition engine_ok :: "engine \<Rightarrow> bool" where
  "engine_ok e \<longleftrightarrow> map_ok (ce_stakes e) \<and> (\<forall>v. map_of (ce_stakes e) v \<noteq> None \<longrightarrow> v \<in> set (ce_validators e))"

text \<open>the operations on an engine; the stake of a validator is changed\<close>

inductive engine_step :: "engine \<Rightarrow> engine \<Rightarrow> bool" where
  es_type: "engine_step e (setType ct e)"
| es_add: "engine_step e (addValidator v stake e)"
| es_remove: "engine_step e (removeValidator v e)"
| es_stake: "v \<in> set (ce_validators e) \<Longrightarrow> engine_step e (updateStake v stake e)"
| es_select: "selectValidator r (e, i) = (v, e', i') \<Longrightarrow> engine_step e e'"

lemma selectValidator_engine: "fst (snd (selectValidator r (e, i))) = e\<lparr>ce_round := ce_round e + 1\<rparr>"
  by (simp add: selectValidator_def Let_def split_def split: consensus_type.split)

lemma engine_step_ok: "engine_step e e' \<Longrightarrow> engine_ok e \<Longrightarrow> engine_ok e'"
proof (induction rule: engine_step.induct)
  case (es_remove e v)
  have "x \<in> set (remove1 v l)" if "x \<in> set l" "x \<noteq> v" for x l using that by simp
  then show ?case using es_remove by (auto simp: engine_ok_def removeValidator_def)
next
  case (es_select r e i v e' i')
  then show ?case using selectValidator_engine [of r e i] by (simp add: engine_ok_def)
qed (auto simp: engine_ok_def setType_def addValidator_def updateStake_def)

lemma engine_reach_ok: "engine_step\<^sup>*\<^sup>* (ce_new ct) e \<Longrightarrow> engine_ok e"
  by (induction rule: rtranclp_induct) (auto simp: engine_ok_def ce_new_def dest: engine_step_ok [unfolded engine_ok_def])

lemma pow_member: "ce_validators e \<noteq> [] \<Longrightarrow> selectPoWValidator r e \<in> set (ce_validators e)"
  by (simp add: selectPoWValidator_def)

lemma pos_loop_member: "pos_loop target c stakes = Some v \<Longrightarrow> v \<in> fst ` set stakes"
  by (induction target c stakes rule: pos_loop.induct) (auto simp: Let_def split: if_splits)

lemma pos_member:
  assumes "engine_ok e" "ce_validators e \<noteq> []"
  shows "selectPoSValidator r e \<in> set (ce_validators e)"
proof -
  have "v \<in> set (ce_validators e)" if "pos_loop target c (ce_stakes e) = Some v" for target c v
    using pos_loop_member [OF that] assms(1) by (auto simp: engine_ok_def map_of_eq_None_iff)
  then show ?thesis using assms(2) pow_member by (simp add: selectPoSValidator_def Let_def split: option.split)
qed

lemma select_member:
  assumes "engine_ok e" "ce_validators e \<noteq> []"
  shows "fst (selectValidator r (e, i)) \<in> set (ce_validators e)"
proof -
  let ?e = "e\<lparr>ce_round := ce_round e + 1\<rparr>"
  have "engine_ok ?e" "ce_validators ?e \<noteq> []" using assms by (simp_all add: engine_ok_def)
  then show ?thesis using pos_member [of ?e] pow_member [of ?e] assms(2)
    by (simp add: selectValidator_def Let_def split_def selectDPoSValidator_def selectPBFTValidator_def selectPoAValidator_def
        split: consensus_type.split)
qed

text \<open>
  As long as only stakes of validators are changed, whoever is selected is a validator, and
  a block with this validator and the next index passes the check of the engine. Changing the
  stake of a stranger makes him a candidate under proof of stake, and the check rejects
  every block of his.
\<close>

theorem selected_validator:
  "(engine_step\<^sup>*\<^sup>* (ce_new ct) e \<longrightarrow> ce_validators e \<noteq> [] \<longrightarrow>
     (let v = fst (selectValidator r (e, i))
      in v \<in> set (ce_validators e) \<and>
         (v \<noteq> [] \<longrightarrow> b_validator b = v \<longrightarrow> b_index b = of_nat (length chain) \<longrightarrow> ce_validateBlock b chain e))) \<and>
   (0 < y \<longrightarrow> y < 2 ^ 53 \<longrightarrow>
     (let e = updateStake ''mallory'' (dbl_int y) (addValidator ''node1'' (dbl_int 0) (ce_new PROOF_OF_STAKE))
      in fst (selectValidator 0 (e, i)) = ''mallory'' \<and> (b_validator b = ''mallory'' \<longrightarrow> \<not> ce_validateBlock b chain e)))"
proof (intro conjI impI)
  assume "engine_step\<^sup>*\<^sup>* (ce_new ct) e" "ce_validators e \<noteq> []"
  then show "let v = fst (selectValidator r (e, i))
      in v \<in> set (ce_validators e) \<and>
         (v \<noteq> [] \<longrightarrow> b_validator b = v \<longrightarrow> b_index b = of_nat (length chain) \<longrightarrow> ce_validateBlock b chain e)"
    using select_member [OF engine_reach_ok] by (simp add: Let_def ce_validateBlock_def)
next
  assume y: "0 < y" "y < 2 ^ 53"
  let ?e = "updateStake ''mallory'' (dbl_int y) (addValidator ''node1'' (dbl_int 0) (ce_new PROOF_OF_STAKE))"
  have s: "ce_stakes ?e = [(''mallory'', dbl_int y), (''node1'', dbl_int 0)]" "ce_validators ?e = [''node1'']" "ce_type ?e = PROOF_OF_STAKE"
    by (simp_all add: updateStake_def addValidator_def ce_new_def less_char_def)
  have d: "dbl_add (dbl_int 0) (dbl_int y) = dbl_int y" "dbl_add (dbl_int y) (dbl_int 0) = dbl_int y"
    using y dbl_add_int [of 0 y] dbl_add_int [of y 0] by simp_all
  have "dbl_mul (uniform 0) (dbl_int y) = dbl_int 0" by (simp add: uniform_def dbl_mul_def dbl_int_def)
  then have "selectPoSValidator 0 (?e\<lparr>ce_round := ce_round ?e + 1\<rparr>) = ''mallory''"
    using y by (simp add: selectPoSValidator_def s d dbl_int_0 Let_def)
  then show "let e = ?e in fst (selectValidator 0 (e, i)) = ''mallory'' \<and> (b_validator b = ''mallory'' \<longrightarrow> \<not> ce_validateBlock b chain e)"
    by (simp add: Let_def selectValidator_def s ce_validateBlock_def)
qed

lemma selected_validator_witness:
  "fst (selectValidator 5 (addValidator ''n'' (Fin 3) (ce_new PROOF_OF_STAKE), 0)) \<in> {''n''}"
proof -
  have "engine_step\<^sup>*\<^sup>* (ce_new PROOF_OF_STAKE) (addValidator ''n'' (Fin 3) (ce_new PROOF_OF_STAKE))"
    by (rule r_into_rtranclp) (rule es_add)
  moreover have "ce_validators (addValidator ''n'' (Fin 3) (ce_new PROOF_OF_STAKE)) = [''n'']"
    by (simp add: addValidator_def ce_new_def)
  ultimately show ?thesis
    using selected_validator [where e = "addValidator ''n'' (Fin 3) (ce_new PROOF_OF_STAKE)" and ct = PROOF_OF_STAKE and r = 5 and i = 0]
    by (simp add: Let_def)
qed

section \<open>Taking turns\<close>

text \<open>
  Draws of several engines of one program, which share the counter of the round robin: the
  engine that draws and its random number, then who it selects.
\<close>

fun select_all :: "(nat \<times> u64) list \<Rightarrow> engine list \<times> u64 \<Rightarrow> (nat \<times> string) list" where
  "select_all [] s = []"
| "select_all ((k, r) # draws) (es, roundRobinIndex) =
     (let (v, e, roundRobinIndex) = selectValidator r (es ! k, roundRobinIndex)
      in (k, v) # select_all draws (es[k := e], roundRobinIndex))"

text \<open>what engine k selects\<close>

definition selections_of :: "nat \<Rightarrow> (nat \<times> string) list \<Rightarrow> string list" where
  "selections_of k vs = map snd (filter (\<lambda>(j, v). j = k) vs)"

lemma turns: "map (\<lambda>k. vs ! ((a + k) mod length vs)) [0..<length vs] = rotate a vs"
  by (intro nth_equalityI) (simp_all add: nth_rotate)

lemma unat_suc: "unat (i :: u64) + 1 < 2 ^ 64 \<Longrightarrow> unat (i + 1) = unat i + 1"
  by (simp add: unat_word_ariths)

lemma nth_updated_field: "f e = f (es ! k) \<Longrightarrow> f (es[k := e] ! j) = f (es ! j)"
  by (cases "j = k \<and> k < length es") (auto simp: list_update_beyond nth_list_update)

definition authority :: "engine \<Rightarrow> bool" where
  "authority e \<longleftrightarrow> ce_type e = PROOF_OF_AUTHORITY \<and> ce_validators e \<noteq> []"

lemma authority_turns:
  "\<forall>(k, r)\<in>set draws. authority (es ! k) \<Longrightarrow> unat i + length draws < 2 ^ 64 \<Longrightarrow>
    select_all draws (es, i) = map (\<lambda>j. let k = fst (draws ! j); vs = ce_validators (es ! k)
      in (k, vs ! ((unat i + j) mod length vs))) [0..<length draws]"
proof (induction draws arbitrary: es i)
  case (Cons d draws)
  obtain k r where d: "d = (k, r)" by (cases d)
  define e where "e = (es ! k)\<lparr>ce_round := ce_round (es ! k) + 1\<rparr>"
  have f: "ce_validators (es[k := e] ! j) = ce_validators (es ! j)" "authority (es[k := e] ! j) = authority (es ! j)" for j
    by (rule nth_updated_field, simp add: e_def authority_def)+
  have u: "unat (i + 1) = unat i + 1" using Cons.prems(2) by (intro unat_suc) simp
  have "selectValidator r (es ! k, i) = (ce_validators (es ! k) ! (unat i mod length (ce_validators (es ! k))), e, i + 1)"
    using Cons.prems(1) by (simp add: d e_def authority_def selectValidator_def selectPoAValidator_def Let_def)
  moreover have "select_all draws (es[k := e], i + 1) = map (\<lambda>j. let k = fst (draws ! j); vs = ce_validators (es ! k)
      in (k, vs ! ((unat i + 1 + j) mod length vs))) [0..<length draws]"
    using Cons.IH [of "es[k := e]" "i + 1"] Cons.prems unfolding u f by simp
  ultimately show ?case unfolding d
    by (simp add: upt_conv_Cons map_Suc_upt [symmetric] Let_def del: upt_Suc)
qed simp

lemma pbft_turns:
  "ce_type (es ! k) = PRACTICAL_BYZANTINE_FAULT_TOLERANCE \<Longrightarrow> 4 \<le> length (ce_validators (es ! k)) \<Longrightarrow> k < length es \<Longrightarrow>
    unat (ce_round (es ! k)) + length (filter (\<lambda>(j, r). j = k) draws) < 2 ^ 64 \<Longrightarrow>
    selections_of k (select_all draws (es, i)) =
      map (\<lambda>j. ce_validators (es ! k) ! ((unat (ce_round (es ! k)) + 1 + j) mod length (ce_validators (es ! k))))
        [0..<length (filter (\<lambda>(j, r). j = k) draws)]"
proof (induction draws arbitrary: es i)
  case (Cons d draws)
  obtain l r where d: "d = (l, r)" by (cases d)
  obtain v e i' where s: "selectValidator r (es ! l, i) = (v, e, i')" by (metis surj_pair)
  have e: "e = (es ! l)\<lparr>ce_round := ce_round (es ! l) + 1\<rparr>" using selectValidator_engine [of r "es ! l" i] s by simp
  show ?case
  proof (cases "l = k")
    case False
    then have "es[l := e] ! k = es ! k" by simp
    then show ?thesis using Cons.IH [of "es[l := e]" i'] Cons.prems False s
      by (simp add: d selections_of_def)
  next
    case True
    let ?vs = "ce_validators (es ! k)" and ?a = "unat (ce_round (es ! k))"
    have u: "unat (ce_round (es ! k) + 1) = ?a + 1" using Cons.prems(4) by (intro unat_suc) (simp add: d True)
    have k: "es[k := e] ! k = e" using Cons.prems(3) by simp
    have v: "v = ?vs ! ((?a + 1) mod length ?vs)"
      using s Cons.prems(1,2) u by (auto simp: True selectValidator_def selectPBFTValidator_def Let_def)
    have "selections_of k (select_all draws (es[k := e], i')) =
        map (\<lambda>j. ?vs ! ((?a + 2 + j) mod length ?vs)) [0..<length (filter (\<lambda>(j, r). j = k) draws)]"
      using Cons.IH [of "es[k := e]" i'] Cons.prems u k by (simp add: e True d)
    then show ?thesis using s v
      by (simp add: d True selections_of_def upt_conv_Cons map_Suc_upt [symmetric] del: upt_Suc)
  qed
qed (simp add: selections_of_def)

text \<open>
  C24: Under PROOF_OF_AUTHORITY, an engine that draws without any other such engine drawing
  in between selects every validator once in as many draws as there are validators, in their
  order (a rotation of the list). The counter is one for all engines of the program: when
  several of them draw in turn, each draw takes the next number, and two engines with two
  validators each that draw alternately select one validator each for ever, the other never.
  Under PRACTICAL_BYZANTINE_FAULT_TOLERANCE with four validators or more the counter is the
  engine's own, and it takes turns whatever the others do. All this as long as the 64-bit
  counter does not wrap around; the default, PROOF_OF_WORK, and the modes by stake draw at
  random and promise no turns.
\<close>

theorem round_robin_fair:
  "(\<forall>draws. length draws = length (ce_validators e) \<longrightarrow> (\<forall>(j, r)\<in>set draws. j = k) \<longrightarrow> es ! k = e \<longrightarrow> k < length es \<longrightarrow>
      authority e \<longrightarrow> unat i + length draws < 2 ^ 64 \<longrightarrow>
      selections_of k (select_all draws (es, i)) = rotate (unat i) (ce_validators e)) \<and>
   (\<forall>draws a b c d. unat i + length draws < 2 ^ 64 \<longrightarrow> authority (es ! 0) \<longrightarrow> authority (es ! 1) \<longrightarrow>
      ce_validators (es ! 0) = [a, b] \<longrightarrow> ce_validators (es ! 1) = [c, d] \<longrightarrow>
      (\<forall>j<length draws. fst (draws ! j) = j mod 2) \<longrightarrow>
      set (selections_of 0 (select_all draws (es, i))) \<subseteq> {[a, b] ! (unat i mod 2)} \<and>
      set (selections_of 1 (select_all draws (es, i))) \<subseteq> {[c, d] ! ((unat i + 1) mod 2)}) \<and>
   (\<forall>draws. length (filter (\<lambda>(j, r). j = k) draws) = length (ce_validators e) \<longrightarrow> es ! k = e \<longrightarrow> k < length es \<longrightarrow>
      ce_type e = PRACTICAL_BYZANTINE_FAULT_TOLERANCE \<longrightarrow> 4 \<le> length (ce_validators e) \<longrightarrow>
      unat (ce_round e) + length (ce_validators e) < 2 ^ 64 \<longrightarrow>
      selections_of k (select_all draws (es, i)) = rotate (unat (ce_round e) + 1) (ce_validators e))"
proof (intro conjI allI impI)
  fix draws :: "(nat \<times> u64) list"
  assume a: "length draws = length (ce_validators e)" "\<forall>(j, r)\<in>set draws. j = k" "es ! k = e" "authority e"
    "unat i + length draws < 2 ^ 64"
  have k: "fst (draws ! j) = k" if "j < length draws" for j using a(2) nth_mem [OF that] by (auto simp: case_prod_unfold)
  have "\<forall>(j, r)\<in>set draws. authority (es ! j)" using a(2-4) by auto
  from authority_turns [OF this a(5)] have "select_all draws (es, i) =
      map (\<lambda>j. (k, ce_validators e ! ((unat i + j) mod length (ce_validators e)))) [0..<length draws]"
    using a(3) k by (simp add: Let_def)
  then show "selections_of k (select_all draws (es, i)) = rotate (unat i) (ce_validators e)"
    using turns [of "ce_validators e" "unat i"] a(1) by (simp add: selections_of_def filter_map o_def)
next
  fix draws :: "(nat \<times> u64) list" and a b c d
  assume a: "unat i + length draws < 2 ^ 64" "authority (es ! 0)" "authority (es ! 1)"
    "ce_validators (es ! 0) = [a, b]" "ce_validators (es ! 1) = [c, d]" "\<forall>j<length draws. fst (draws ! j) = j mod 2"
  have "authority (es ! fst (draws ! j))" if "j < length draws" for j
    using a(2,3,6) that by (cases "j mod 2 = 0") auto
  then have "\<forall>(k, r)\<in>set draws. authority (es ! k)" by (fastforce simp: in_set_conv_nth)
  from authority_turns [OF this a(1)] have s: "select_all draws (es, i) =
      map (\<lambda>j. (j mod 2, ce_validators (es ! (j mod 2)) ! ((unat i + j) mod length (ce_validators (es ! (j mod 2)))))) [0..<length draws]"
    using a(6) by (simp add: Let_def)
  have mem: "\<exists>j. j mod 2 = k \<and> v = ce_validators (es ! k) ! ((unat i + j) mod length (ce_validators (es ! k)))"
    if "v \<in> set (selections_of k (select_all draws (es, i)))" for v k
    using that by (auto simp: s selections_of_def)
  have one: "v = [x, y] ! ((unat i + k) mod 2)"
    if v: "v \<in> set (selections_of k (select_all draws (es, i)))" and k: "ce_validators (es ! k) = [x, y]" for v k x y
  proof -
    obtain j where j: "j mod 2 = k" "v = [x, y] ! ((unat i + j) mod length [x, y])" using mem [OF v] k by metis
    have "(unat i + j) mod 2 = (unat i + k) mod 2" using j(1) by (metis mod_add_right_eq)
    moreover have "length [x, y] = 2" by simp
    ultimately show ?thesis using j(2) by (simp only:)
  qed
  show "set (selections_of 0 (select_all draws (es, i))) \<subseteq> {[a, b] ! (unat i mod 2)}"
    using one [OF _ a(4)] by auto
  show "set (selections_of 1 (select_all draws (es, i))) \<subseteq> {[c, d] ! ((unat i + 1) mod 2)}"
    using one [OF _ a(5)] by auto
next
  fix draws :: "(nat \<times> u64) list"
  assume "length (filter (\<lambda>(j, r). j = k) draws) = length (ce_validators e)" "es ! k = e" "k < length es"
    "ce_type e = PRACTICAL_BYZANTINE_FAULT_TOLERANCE" "4 \<le> length (ce_validators e)"
    "unat (ce_round e) + length (ce_validators e) < 2 ^ 64"
  then show "selections_of k (select_all draws (es, i)) = rotate (unat (ce_round e) + 1) (ce_validators e)"
    using pbft_turns [of es k draws i] turns [of "ce_validators e" "unat (ce_round e) + 1"] by simp
qed

text \<open>two engines alternate: the first selects its second validator only, the second its first\<close>

lemma round_robin_fair_witness:
  "let e = addValidator ''b'' (Fin 0) (addValidator ''a'' (Fin 0) (ce_new PROOF_OF_AUTHORITY))
   in selections_of 0 (select_all [(0, 0), (0, 0)] ([e], 3)) = [''b'', ''a''] \<and>
      set (selections_of 0 (select_all [(0, 0), (1, 0), (0, 0), (1, 0)] ([e, e], 3))) \<subseteq> {''b''}"
proof -
  define e where "e = addValidator ''b'' (Fin 0) (addValidator ''a'' (Fin 0) (ce_new PROOF_OF_AUTHORITY))"
  have e: "ce_validators e = [''a'', ''b'']" "authority e" by (simp_all add: e_def addValidator_def ce_new_def authority_def)
  have "rotate 3 [''a'', ''b''] = [''b'', ''a'']" by (simp add: rotate_def numeral_3_eq_3)
  moreover have "selections_of 0 (select_all [(0, 0), (0, 0)] ([e], 3)) = rotate (unat (3 :: u64)) (ce_validators e)"
    by (rule round_robin_fair [THEN conjunct1, rule_format]) (simp_all add: e)
  ultimately have one: "selections_of 0 (select_all [(0, 0), (0, 0)] ([e], 3)) = [''b'', ''a'']" by (simp add: e)
  have "\<forall>j<4. fst ([(0, 0), (1, 0), (0, 0), (1, 0 :: u64)] ! j) = j mod (2 :: nat)"
    by (simp add: numeral_eq_Suc less_Suc_eq mod_Suc)
  then have "set (selections_of 0 (select_all [(0, 0), (1, 0), (0, 0), (1, 0)] ([e, e], 3))) \<subseteq> {[''a'', ''b''] ! (unat (3 :: u64) mod 2)} \<and>
      set (selections_of 1 (select_all [(0, 0), (1, 0), (0, 0), (1, 0)] ([e, e], 3))) \<subseteq> {[''a'', ''b''] ! ((unat (3 :: u64) + 1) mod 2)}"
    by (intro round_robin_fair [THEN conjunct2, THEN conjunct1, rule_format]) (simp_all add: e)
  with one have "selections_of 0 (select_all [(0, 0), (0, 0)] ([e], 3)) = [''b'', ''a''] \<and>
      set (selections_of 0 (select_all [(0, 0), (1, 0), (0, 0), (1, 0)] ([e, e], 3))) \<subseteq> {''b''}" by simp
  then show ?thesis unfolding e_def Let_def by blast
qed

end
