(* ===== verification/P2p_Security.thy ===== *)
theory P2p_Security
  imports P2p_Sha1
begin

text \<open>
  Roles and permissions (\<open>security/access_control.cpp\<close>) and the detection of intrusions
  (\<open>security/intrusion_detection.cpp\<close>). The clock and the random bytes of an alert are arguments;
  a mutex that an operation locks once is left out.
\<close>

section \<open>Roles\<close>

datatype permission = READ | WRITE | DELETE | ADMIN | AUDIT | TRANSFER | CREATE_ACCOUNT | FREEZE_ACCOUNT
  | VIEW_LOGS | MANAGE_USERS | MANAGE_CONTRACTS

record role =
  ro_name :: string
  ro_permissions :: "permission set"

definition new_role :: "string \<Rightarrow> role" where
  "new_role name = \<lparr>ro_name = name, ro_permissions = {}\<rparr>"

definition addPermission :: "permission \<Rightarrow> role \<Rightarrow> role" where
  "addPermission p r = r\<lparr>ro_permissions := insert p (ro_permissions r)\<rparr>"

definition removePermission :: "permission \<Rightarrow> role \<Rightarrow> role" where
  "removePermission p r = r\<lparr>ro_permissions := ro_permissions r - {p}\<rparr>"

definition role_hasPermission :: "permission \<Rightarrow> role \<Rightarrow> bool" where
  "role_hasPermission p r \<longleftrightarrow> p \<in> ro_permissions r"

text \<open>in the order of the enumeration\<close>

definition getPermissions :: "role \<Rightarrow> permission list" where
  "getPermissions r = filter (\<lambda>p. p \<in> ro_permissions r)
     [READ, WRITE, DELETE, ADMIN, AUDIT, TRANSFER, CREATE_ACCOUNT, FREEZE_ACCOUNT, VIEW_LOGS, MANAGE_USERS, MANAGE_CONTRACTS]"

section \<open>The access controller\<close>

record controller =
  ctl_userRoles :: "(string, string) std_map"
  ctl_roles :: "(string, role) std_map"
  ctl_roleMembers :: "(string, string set) std_map"

definition defineRole :: "string \<Rightarrow> permission list \<Rightarrow> controller \<Rightarrow> controller" where
  "defineRole roleName permissions c =
     c\<lparr>ctl_roles := map_put roleName (foldl (\<lambda>r p. addPermission p r) (new_role roleName) permissions) (ctl_roles c)\<rparr>"

definition new_controller :: controller where
  "new_controller =
     (let c = \<lparr>ctl_userRoles = [], ctl_roles = [], ctl_roleMembers = []\<rparr>;
          c = defineRole ''admin'' [READ, WRITE, DELETE, ADMIN, AUDIT, MANAGE_USERS, MANAGE_CONTRACTS] c;
          c = defineRole ''user'' [READ, TRANSFER] c;
          c = defineRole ''auditor'' [READ, AUDIT, VIEW_LOGS] c
      in defineRole ''operator'' [READ, WRITE, FREEZE_ACCOUNT, VIEW_LOGS] c)"

definition assignRole :: "string \<Rightarrow> string \<Rightarrow> controller \<Rightarrow> controller" where
  "assignRole userId roleName c =
     (if map_of (ctl_roles c) roleName \<noteq> None
      then c\<lparr>ctl_userRoles := map_put userId roleName (ctl_userRoles c),
             ctl_roleMembers := map_change {} roleName (insert userId) (ctl_roleMembers c)\<rparr>
      else c)"

definition revokeRole :: "string \<Rightarrow> string \<Rightarrow> controller \<Rightarrow> controller" where
  "revokeRole userId roleName c =
     (if map_of (ctl_userRoles c) userId = Some roleName
      then c\<lparr>ctl_userRoles := map_erase userId (ctl_userRoles c),
             ctl_roleMembers := map_change {} roleName (\<lambda>s. s - {userId}) (ctl_roleMembers c)\<rparr>
      else c)"

definition ctl_hasPermission :: "string \<Rightarrow> permission \<Rightarrow> controller \<Rightarrow> bool" where
  "ctl_hasPermission userId p c =
     (case map_of (ctl_userRoles c) userId of
        None \<Rightarrow> False
      | Some roleName \<Rightarrow>
          (case map_of (ctl_roles c) roleName of None \<Rightarrow> False | Some r \<Rightarrow> role_hasPermission p r))"

definition getUserRoles :: "string \<Rightarrow> controller \<Rightarrow> string list" where
  "getUserRoles userId c = (case map_of (ctl_userRoles c) userId of Some r \<Rightarrow> [r] | None \<Rightarrow> [])"

definition getUsersWithRole :: "string \<Rightarrow> controller \<Rightarrow> string set" where
  "getUsersWithRole roleName c = (case map_of (ctl_roleMembers c) roleName of Some s \<Rightarrow> s | None \<Rightarrow> {})"

definition removeUser :: "string \<Rightarrow> controller \<Rightarrow> controller" where
  "removeUser userId c =
     (case map_of (ctl_userRoles c) userId of
        None \<Rightarrow> c
      | Some roleName \<Rightarrow>
          c\<lparr>ctl_roleMembers := map_change {} roleName (\<lambda>s. s - {userId}) (ctl_roleMembers c),
            ctl_userRoles := map_erase userId (ctl_userRoles c)\<rparr>)"

section \<open>Alerts, rate limits, bans\<close>

record alert =
  al_alertId :: string
  al_severity :: string
  al_type :: string
  al_source :: string
  al_details :: string
  al_timestamp :: u64
  al_acknowledged :: bool

record rate_limit =
  rl_count :: nat
  rl_windowStart :: u64

record ids =
  ids_rateLimits :: "(string, rate_limit) std_map"
  ids_alerts :: "alert list"
  ids_failedAttempts :: "(string, nat) std_map"
  ids_banExpiry :: "(string, u64) std_map"

definition ids_new :: ids where
  "ids_new = \<lparr>ids_rateLimits = [], ids_alerts = [], ids_failedAttempts = [], ids_banExpiry = []\<rparr>"

text \<open>a tick: the time an operation reads, the same for its calls, and random bytes\<close>

type_synonym tick = "u64 \<times> string"

definition addAlert :: "string \<Rightarrow> string \<Rightarrow> string \<Rightarrow> string \<Rightarrow> tick \<Rightarrow> ids \<Rightarrow> ids" where
  "addAlert severity type source details t s =
     (let (now, rnd) = t;
          a = \<lparr>al_alertId = sha1 (severity @ type @ source @ dec_nat (unat now) @ rnd), al_severity = severity,
               al_type = type, al_source = source, al_details = details, al_timestamp = now, al_acknowledged = False\<rparr>;
          alerts = ids_alerts s @ [a]
      in s\<lparr>ids_alerts := (if 10000 < length alerts then tl alerts else alerts)\<rparr>)"

definition isRateLimited :: "string \<Rightarrow> nat \<Rightarrow> u64 \<Rightarrow> u64 \<Rightarrow> ids \<Rightarrow> bool \<times> ids" where
  "isRateLimited key maxAttempts windowMs now s =
     (case map_of (ids_rateLimits s) key of
        None \<Rightarrow> (False, s\<lparr>ids_rateLimits := map_put key \<lparr>rl_count = 1, rl_windowStart = now\<rparr> (ids_rateLimits s)\<rparr>)
      | Some r \<Rightarrow>
          if windowMs < now - rl_windowStart r
          then (False, s\<lparr>ids_rateLimits := map_put key \<lparr>rl_count = 1, rl_windowStart = now\<rparr> (ids_rateLimits s)\<rparr>)
          else (maxAttempts < rl_count r + 1,
                s\<lparr>ids_rateLimits := map_put key (r\<lparr>rl_count := rl_count r + 1\<rparr>) (ids_rateLimits s)\<rparr>))"

definition banIp :: "string \<Rightarrow> u64 \<Rightarrow> tick \<Rightarrow> ids \<Rightarrow> ids" where
  "banIp ip durationMs t s =
     addAlert ''HIGH'' ''IP_BANNED'' ip (''IP address banned for '' @ dec_nat (unat durationMs) @ ''ms'') t
       (s\<lparr>ids_banExpiry := map_put ip (fst t + durationMs) (ids_banExpiry s)\<rparr>)"

definition login_key :: "string \<Rightarrow> string \<Rightarrow> string" where
  "login_key userId ip = ''login:'' @ userId @ '':'' @ ip"

definition checkLoginAttempt :: "string \<Rightarrow> string \<Rightarrow> bool \<Rightarrow> tick \<Rightarrow> ids \<Rightarrow> bool \<times> ids" where
  "checkLoginAttempt userId ip success t s =
     (let key = login_key userId ip
      in if \<not> success then
           let (limited, s) = isRateLimited key 5 60000 (fst t) s
           in if limited then
                (False, banIp ip 300000 t
                   (addAlert ''HIGH'' ''BRUTE_FORCE'' ip (''Multiple failed login attempts for user '' @ userId) t s))
              else let (n, m) = map_index 0 key (ids_failedAttempts s);
                       s = s\<lparr>ids_failedAttempts := map_put key (n + 1) m\<rparr>
                   in (True, if 10 < n + 1 then banIp ip 3600000 t s else s)
         else (True, s\<lparr>ids_failedAttempts := map_erase key (ids_failedAttempts s)\<rparr>))"

definition checkRequestRate :: "string \<Rightarrow> nat \<Rightarrow> u64 \<Rightarrow> tick \<Rightarrow> ids \<Rightarrow> bool \<times> ids" where
  "checkRequestRate ip maxRequests windowMs t s =
     (let (limited, s) = isRateLimited (''rate:'' @ ip) maxRequests windowMs (fst t) s
      in if limited then (False, addAlert ''MEDIUM'' ''RATE_LIMIT'' ip ''Exceeded request rate limit'' t s) else (True, s))"

definition checkPacketAnomaly :: "string \<Rightarrow> tick \<Rightarrow> ids \<Rightarrow> bool \<times> ids" where
  "checkPacketAnomaly text t s =
     (if 1000000 < length text
      then (False, addAlert ''HIGH'' ''PACKET_SIZE'' [] (''Oversized packet detected: '' @ dec_nat (length text) @ '' bytes'') t s)
      else if length text div 2 < length (filter (\<lambda>c. of_char c = (0::nat)) text)
      then (False, addAlert ''MEDIUM'' ''NULL_FLOOD'' [] ''Excessive null bytes in packet'' t s)
      else (True, s))"

definition isIpBanned :: "string \<Rightarrow> u64 \<Rightarrow> ids \<Rightarrow> bool" where
  "isIpBanned ip now s = (case map_of (ids_banExpiry s) ip of None \<Rightarrow> False | Some t \<Rightarrow> now < t)"

definition unbanIp :: "string \<Rightarrow> ids \<Rightarrow> ids" where
  "unbanIp ip s = s\<lparr>ids_banExpiry := map_erase ip (ids_banExpiry s)\<rparr>"

definition getRecentAlerts :: "nat \<Rightarrow> ids \<Rightarrow> alert list" where
  "getRecentAlerts n s =
     (if n < length (ids_alerts s) then drop (length (ids_alerts s) - n) (ids_alerts s) else ids_alerts s)"

definition getUnacknowledgedAlerts :: "ids \<Rightarrow> alert list" where
  "getUnacknowledgedAlerts s = filter (\<lambda>a. \<not> al_acknowledged a) (ids_alerts s)"

fun acknowledge_first :: "string \<Rightarrow> alert list \<Rightarrow> alert list" where
  "acknowledge_first i [] = []"
| "acknowledge_first i (a # as) =
     (if al_alertId a = i then a\<lparr>al_acknowledged := True\<rparr> # as else a # acknowledge_first i as)"

definition acknowledgeAlert :: "string \<Rightarrow> ids \<Rightarrow> ids" where
  "acknowledgeAlert i s = s\<lparr>ids_alerts := acknowledge_first i (ids_alerts s)\<rparr>"

definition clearOldAlerts :: "u64 \<Rightarrow> u64 \<Rightarrow> ids \<Rightarrow> ids" where
  "clearOldAlerts maxAgeMs now s =
     s\<lparr>ids_alerts := dropWhile (\<lambda>a. maxAgeMs < now - al_timestamp a) (ids_alerts s)\<rparr>"

section \<open>Roles and their members\<close>

inductive ctl_step :: "controller \<Rightarrow> controller \<Rightarrow> bool" where
  cs_define: "ctl_step c (defineRole r ps c)"
| cs_assign: "ctl_step c (assignRole u r c)"
| cs_revoke: "ctl_step c (revokeRole u r c)"
| cs_remove: "ctl_step c (removeUser u c)"

definition ctl_inv :: "controller \<Rightarrow> bool" where
  "ctl_inv c \<longleftrightarrow> map_ok (ctl_userRoles c) \<and> map_ok (ctl_roles c) \<and> map_ok (ctl_roleMembers c) \<and>
     (\<forall>u r. map_of (ctl_userRoles c) u = Some r \<longrightarrow> map_of (ctl_roles c) r \<noteq> None \<and> u \<in> getUsersWithRole r c)"

lemma members_change:
  "map_ok m \<Longrightarrow> (case map_of (map_change {} r f m) r' of Some s \<Rightarrow> s | None \<Rightarrow> {}) =
    (if r' = r then f (case map_of m r of Some s \<Rightarrow> s | None \<Rightarrow> {}) else case map_of m r' of Some s \<Rightarrow> s | None \<Rightarrow> {})"
  by (simp add: map_change_def)

lemmas controller_defs = ctl_inv_def getUsersWithRole_def members_change

lemma ctl_step_inv: "ctl_step c c' \<Longrightarrow> ctl_inv c \<Longrightarrow> ctl_inv c'"
proof (induction rule: ctl_step.induct)
  case (cs_define c r ps)
  then show ?case by (auto simp: controller_defs defineRole_def)
next
  case (cs_assign c u r)
  then show ?case by (auto simp: controller_defs assignRole_def)
next
  case (cs_revoke c u r)
  then show ?case by (auto simp: controller_defs revokeRole_def)
next
  case (cs_remove c u)
  then show ?case by (auto simp: controller_defs removeUser_def split: option.splits)
qed

lemma ctl_inv_new: "ctl_inv new_controller"
  by (simp add: ctl_inv_def new_controller_def defineRole_def Let_def)

lemma ctl_reach_inv: "ctl_step\<^sup>*\<^sup>* c c' \<Longrightarrow> ctl_inv c \<Longrightarrow> ctl_inv c'"
  by (induction rule: rtranclp_induct) (auto intro: ctl_step_inv)

lemma has_permission_role:
  "ctl_inv c \<Longrightarrow> ctl_hasPermission u p c \<longleftrightarrow>
    (\<exists>r role. getUserRoles u c = [r] \<and> map_of (ctl_roles c) r = Some role \<and> p \<in> ro_permissions role)"
  by (auto simp: ctl_hasPermission_def getUserRoles_def role_hasPermission_def split: option.splits)

text \<open>
  C21: In every reachable state of the access controller a user's role is defined, the user is
  listed among its members, and the user has a permission exactly when that role has it. The
  converse fails once a user is given a second role: the list of the first role's members
  keeps the user, also after the user has been removed or the first role revoked.
\<close>

theorem role_membership:
  assumes "ctl_step\<^sup>*\<^sup>* new_controller c"
  shows "(getUserRoles u c = [r] \<longrightarrow> map_of (ctl_roles c) r \<noteq> None \<and> u \<in> getUsersWithRole r c) \<and>
    (ctl_hasPermission u p c \<longleftrightarrow>
      (\<exists>r role. getUserRoles u c = [r] \<and> map_of (ctl_roles c) r = Some role \<and> p \<in> ro_permissions role)) \<and>
    (map_of (ctl_roles c) r1 \<noteq> None \<longrightarrow> map_of (ctl_roles c) r2 \<noteq> None \<longrightarrow> r1 \<noteq> r2 \<longrightarrow>
      (let c' = assignRole u r2 (assignRole u r1 c)
       in getUserRoles u c' = [r2] \<and> u \<in> getUsersWithRole r1 c' \<and>
          u \<in> getUsersWithRole r1 (removeUser u c') \<and> u \<in> getUsersWithRole r1 (revokeRole u r1 c')))"
proof -
  have inv: "ctl_inv c" using ctl_reach_inv [OF assms ctl_inv_new] .
  moreover have "let c' = assignRole u r2 (assignRole u r1 c)
       in getUserRoles u c' = [r2] \<and> u \<in> getUsersWithRole r1 c' \<and>
          u \<in> getUsersWithRole r1 (removeUser u c') \<and> u \<in> getUsersWithRole r1 (revokeRole u r1 c')"
    if "map_of (ctl_roles c) r1 \<noteq> None" "map_of (ctl_roles c) r2 \<noteq> None" "r1 \<noteq> r2"
    using inv that by (simp add: Let_def controller_defs assignRole_def removeUser_def revokeRole_def getUserRoles_def)
  moreover have "map_of (ctl_roles c) r \<noteq> None \<and> u \<in> getUsersWithRole r c" if "getUserRoles u c = [r]"
    using inv that by (auto simp: ctl_inv_def getUserRoles_def split: option.splits)
  ultimately show ?thesis using has_permission_role [OF inv] by blast
qed

lemma role_membership_witness:
  "let c' = assignRole ''ann'' ''user'' (assignRole ''ann'' ''admin'' new_controller)
   in \<not> ctl_hasPermission ''ann'' ADMIN c' \<and> ''ann'' \<in> getUsersWithRole ''admin'' c'"
proof -
  let ?c = "assignRole ''ann'' ''user'' (assignRole ''ann'' ''admin'' new_controller)"
  have r: "map_of (ctl_roles new_controller) ''admin'' \<noteq> None" "map_of (ctl_roles new_controller) ''user'' \<noteq> None"
    by (simp_all add: new_controller_def defineRole_def Let_def)
  have "ctl_step\<^sup>*\<^sup>* new_controller new_controller" by simp
  from role_membership [OF this, of "''ann''" "[]" ADMIN "''admin''" "''user''"] r
  have m: "''ann'' \<in> getUsersWithRole ''admin'' ?c" by (simp add: Let_def)
  have "\<not> ctl_hasPermission ''ann'' ADMIN ?c"
    by (simp add: ctl_hasPermission_def assignRole_def new_controller_def defineRole_def Let_def role_hasPermission_def
        new_role_def addPermission_def less_char_def)
  then show ?thesis using m by (simp add: Let_def)
qed

section \<open>Rate limits\<close>

fun rate_run :: "string \<Rightarrow> nat \<Rightarrow> u64 \<Rightarrow> u64 list \<Rightarrow> ids \<Rightarrow> bool list \<times> ids" where
  "rate_run key limit window [] s = ([], s)"
| "rate_run key limit window (t # ts) s =
     (let (b, s) = isRateLimited key limit window t s; (bs, s) = rate_run key limit window ts s in (b # bs, s))"

definition ids_ok :: "ids \<Rightarrow> bool" where
  "ids_ok s \<longleftrightarrow> map_ok (ids_rateLimits s) \<and> map_ok (ids_failedAttempts s) \<and> map_ok (ids_banExpiry s)"

lemma rate_run_inside:
  assumes "\<forall>t\<in>set ts. t - t0 \<le> window"
  shows "ids_ok s \<Longrightarrow> map_of (ids_rateLimits s) key = Some \<lparr>rl_count = n, rl_windowStart = t0\<rparr> \<Longrightarrow>
    fst (rate_run key limit window ts s) = map (\<lambda>k. limit < n + k) [1..<Suc (length ts)]"
  using assms
proof (induction ts arbitrary: s n)
  case (Cons t ts)
  let ?s = "s\<lparr>ids_rateLimits := map_put key \<lparr>rl_count = n + 1, rl_windowStart = t0\<rparr> (ids_rateLimits s)\<rparr>"
  have "\<not> window < t - t0" using Cons.prems(3) by (simp add: not_less)
  then have "isRateLimited key limit window t s = (limit < n + 1, ?s)" using Cons.prems(2) by (simp add: isRateLimited_def)
  moreover have "fst (rate_run key limit window ts ?s) = map (\<lambda>k. limit < (n + 1) + k) [1..<Suc (length ts)]"
    using Cons.prems by (intro Cons.IH) (simp_all add: ids_ok_def)
  moreover have "map (\<lambda>k. limit < n + k) [1..<Suc (Suc (length ts))] =
      (limit < n + 1) # map (\<lambda>k. limit < (n + 1) + k) [1..<Suc (length ts)]"
    by (simp add: upt_conv_Cons map_Suc_upt [symmetric] del: upt_Suc)
  ultimately show ?case by (simp add: split_def Let_def del: upt_Suc)
qed simp

lemma addAlert_simps [simp]:
  "ids_rateLimits (addAlert a b c d t s) = ids_rateLimits s" "ids_failedAttempts (addAlert a b c d t s) = ids_failedAttempts s"
  "ids_banExpiry (addAlert a b c d t s) = ids_banExpiry s"
  by (simp_all add: addAlert_def split_def Let_def)

lemma banIp_simps [simp]:
  "ids_rateLimits (banIp ip d t s) = ids_rateLimits s" "ids_failedAttempts (banIp ip d t s) = ids_failedAttempts s"
  "ids_banExpiry (banIp ip d t s) = map_put ip (fst t + d) (ids_banExpiry s)"
  by (simp_all add: banIp_def)

fun login_run :: "string \<Rightarrow> string \<Rightarrow> tick list \<Rightarrow> ids \<Rightarrow> bool list \<times> ids" where
  "login_run user ip [] s = ([], s)"
| "login_run user ip (t # ts) s =
     (let (b, s) = checkLoginAttempt user ip False t s; (bs, s) = login_run user ip ts s in (b # bs, s))"

definition window_state :: "string \<Rightarrow> nat \<Rightarrow> u64 \<Rightarrow> ids \<Rightarrow> bool" where
  "window_state key n t0 s \<longleftrightarrow> ids_ok s \<and> map_of (ids_rateLimits s) key = Some \<lparr>rl_count = n, rl_windowStart = t0\<rparr>"

lemmas window_defs = checkLoginAttempt_def window_state_def ids_ok_def split_def Let_def

lemma first_failure:
  assumes "ids_ok s" "map_of (ids_rateLimits s) (login_key user ip) = None"
  shows "fst (checkLoginAttempt user ip False t s) \<and> window_state (login_key user ip) 1 (fst t) (snd (checkLoginAttempt user ip False t s))"
  using assms by (auto simp: window_defs isRateLimited_def)

lemma next_failure:
  assumes "window_state (login_key user ip) n t0 s" "fst t - t0 \<le> 60000"
  shows "fst (checkLoginAttempt user ip False t s) = (n < 5) \<and>
    window_state (login_key user ip) (n + 1) t0 (snd (checkLoginAttempt user ip False t s)) \<and>
    (5 \<le> n \<longrightarrow> isIpBanned ip now (snd (checkLoginAttempt user ip False t s)) = (now < fst t + 300000))"
proof -
  let ?k = "login_key user ip"
  let ?s = "s\<lparr>ids_rateLimits := map_put ?k \<lparr>rl_count = n + 1, rl_windowStart = t0\<rparr> (ids_rateLimits s)\<rparr>"
  have ok: "ids_ok ?s" "map_of (ids_rateLimits ?s) ?k = Some \<lparr>rl_count = n + 1, rl_windowStart = t0\<rparr>"
    using assms(1) by (simp_all add: window_state_def ids_ok_def)
  have nw: "\<not> 60000 < fst t - t0" using assms(2) by (simp only: not_less)
  have r: "isRateLimited ?k 5 60000 (fst t) s = (5 < n + 1, ?s)"
    using assms(1) nw by (simp add: isRateLimited_def window_state_def)
  show ?thesis
  proof (cases "5 < n + 1")
    case True
    then show ?thesis using ok by (auto simp: window_defs r isIpBanned_def)
  next
    case False
    then show ?thesis using ok by (auto simp: window_defs r)
  qed
qed

text \<open>
  Within one window, however its times are spread, the rate limiter lets exactly the first
  limit calls of a key pass, and always the first. So after five failed logins within a
  minute the sixth is refused and bans the address for five minutes. A login with the right
  password is accepted all the same: the check of logins looks at no ban.
\<close>

theorem login_rate_limit:
  "(ids_ok s \<longrightarrow> map_of (ids_rateLimits s) key = None \<longrightarrow> (\<forall>t\<in>set ts. t - t0 \<le> window) \<longrightarrow>
      fst (rate_run key limit window (t0 # ts) s) = False # map (\<lambda>k. limit < k) [2..<length ts + 2]) \<and>
   (ids_ok s \<longrightarrow> map_of (ids_rateLimits s) (login_key user ip) = None \<longrightarrow>
      (\<forall>t\<in>{t2, t3, t4, t5, t6}. fst t - fst t1 \<le> 60000) \<longrightarrow>
      (let (answers, s') = login_run user ip [t1, t2, t3, t4, t5, t6] s
       in answers = [True, True, True, True, True, False] \<and> isIpBanned ip now s' = (now < fst t6 + 300000) \<and>
          fst (checkLoginAttempt user ip True t6 s')))"
proof (intro conjI impI)
  assume h: "ids_ok s" "map_of (ids_rateLimits s) key = None" "\<forall>t\<in>set ts. t - t0 \<le> window"
  let ?s = "s\<lparr>ids_rateLimits := map_put key \<lparr>rl_count = 1, rl_windowStart = t0\<rparr> (ids_rateLimits s)\<rparr>"
  have "fst (rate_run key limit window ts ?s) = map (\<lambda>k. limit < 1 + k) [1..<Suc (length ts)]"
    using h by (intro rate_run_inside) (simp_all add: ids_ok_def)
  also have "\<dots> = map (\<lambda>k. limit < k) [2..<length ts + 2]"
    by (simp add: map_Suc_upt [symmetric] numeral_2_eq_2 del: upt_Suc)
  finally show "fst (rate_run key limit window (t0 # ts) s) = False # map (\<lambda>k. limit < k) [2..<length ts + 2]"
    using h(2) by (simp add: isRateLimited_def split_def Let_def)
next
  assume h: "ids_ok s" "map_of (ids_rateLimits s) (login_key user ip) = None" "\<forall>t\<in>{t2, t3, t4, t5, t6}. fst t - fst t1 \<le> 60000"
  let ?c = "\<lambda>t s. snd (checkLoginAttempt user ip False t s)" and ?w = "\<lambda>n. window_state (login_key user ip) n (fst t1)"
  have w1: "?w 1 (?c t1 s)" using first_failure [OF h(1,2)] by blast
  have w2: "?w 2 (?c t2 (?c t1 s))" using next_failure [OF w1, of t2] h(3) by (simp add: numeral_2_eq_2)
  have w3: "?w 3 (?c t3 (?c t2 (?c t1 s)))" using next_failure [OF w2, of t3] h(3) by simp
  have w4: "?w 4 (?c t4 (?c t3 (?c t2 (?c t1 s))))" using next_failure [OF w3, of t4] h(3) by simp
  have w5: "?w 5 (?c t5 (?c t4 (?c t3 (?c t2 (?c t1 s)))))" using next_failure [OF w4, of t5] h(3) by simp
  show "let (answers, s') = login_run user ip [t1, t2, t3, t4, t5, t6] s
       in answers = [True, True, True, True, True, False] \<and> isIpBanned ip now s' = (now < fst t6 + 300000) \<and>
          fst (checkLoginAttempt user ip True t6 s')"
    using first_failure [OF h(1,2), of t1] next_failure [OF w1, of t2] next_failure [OF w2, of t3] next_failure [OF w3, of t4]
      next_failure [OF w4, of t5] next_failure [OF w5, of t6 now] h(3)
    by (simp add: split_def Let_def) (simp add: checkLoginAttempt_def)
qed

lemma login_rate_limit_witness:
  "let (answers, s') = login_run ''ann'' ''ip'' [(1, []), (2, []), (3, []), (4, []), (5, []), (6, [])] ids_new
   in answers = [True, True, True, True, True, False] \<and> isIpBanned ''ip'' 7 s' \<and> fst (checkLoginAttempt ''ann'' ''ip'' True (6, []) s')"
  using login_rate_limit [where s = ids_new and user = "''ann''" and ip = "''ip''" and ?t1.0 = "(1, [])" and ?t2.0 = "(2, [])"
      and ?t3.0 = "(3, [])" and ?t4.0 = "(4, [])" and ?t5.0 = "(5, [])" and ?t6.0 = "(6, [])" and now = 7]
  by (simp add: ids_new_def ids_ok_def)

end
