(* ===== verification/P2p_Ecc.thy ===== *)
theory P2p_Ecc
  imports P2p_Codec
begin

text \<open>
  The public-key functions of \<open>core/ecc.cpp\<close>, which compute powers of 5 in 64-bit words and
  no elliptic curve, and the key exchange of \<open>crypto/key_exchange.cpp\<close>. Random numbers and
  the clock are arguments.
\<close>

section \<open>Hexadecimal text\<close>

fun hex_nat :: "nat \<Rightarrow> string" where
  "hex_nat n = (if n < 16 then [hex_digit n] else hex_nat (n div 16) @ [hex_digit (n mod 16)])"

declare hex_nat.simps [simp del]

text \<open>\<open>ss << std::hex << x\<close>\<close>

definition hex_u64 :: "u64 \<Rightarrow> string" where
  "hex_u64 x = hex_nat (unat x)"

text \<open>\<open>std::stoull(s, nullptr, 16)\<close>: a prefix 0x is read over when a digit follows it\<close>

definition strto_hex :: "string \<Rightarrow> (bool \<times> nat) option" where
  "strto_hex s =
     (let (neg, s) = take_sign (skip_space s);
          s = (if map lower (take 2 s) = ''0x'' \<and> fst (take_digits 16 (drop 2 s)) \<noteq> [] then drop 2 s else s);
          (ds, _) = take_digits 16 s
      in if ds = [] then None else Some (neg, digits_value 16 ds))"

definition stoull16 :: "string \<Rightarrow> u64 cpp" where
  "stoull16 s =
     (case strto_hex s of
        None \<Rightarrow> Inl Invalid_Argument
      | Some (neg, n) \<Rightarrow> if 2 ^ 64 \<le> n then Inl Out_Of_Range else Inr (if neg then - of_nat n else of_nat n))"

section \<open>Powers and inverses\<close>

definition ecc_PRIME :: u64 where "ecc_PRIME = 0xFFFFFFFFFFFFFFC5"
definition ecc_BASE :: u64 where "ecc_BASE = 5"
definition ecc_ORDER :: u64 where "ecc_ORDER = 0xFFFFFFFFFFFFFFC4"

lemma unat_half: "unat (drop_bit (Suc 0) e) = unat (e :: u64) div 2"
  using unat_div [of e 2] by (simp add: drop_bit_Suc)

lemma half_less: "e \<noteq> 0 \<Longrightarrow> unat (drop_bit (Suc 0) e) < unat (e :: u64)"
  by (simp add: unat_half unat_gt_0)

function modPow_loop :: "u64 \<Rightarrow> u64 \<Rightarrow> u64 \<Rightarrow> u64 \<Rightarrow> u64" where
  "modPow_loop r a e m =
     (if e \<noteq> 0 then modPow_loop (if e AND 1 \<noteq> 0 then (r * a) mod m else r) ((a * a) mod m) (drop_bit 1 e) m else r)"
  by pat_completeness auto
termination by (relation "measure (\<lambda>(r, a, e, m). unat e)") (simp_all add: half_less)

declare modPow_loop.simps [simp del]

text \<open>every call has a modulus other than 0\<close>

definition modPow :: "u64 \<Rightarrow> u64 \<Rightarrow> u64 \<Rightarrow> u64" where
  "modPow a e m = modPow_loop 1 (a mod m) e m"

text \<open>a division by 0 is a fault\<close>

function modInverse_loop :: "u64 \<Rightarrow> u64 \<Rightarrow> u64 \<Rightarrow> u64 \<Rightarrow> u64 cpp" where
  "modInverse_loop a m x0 x1 =
     (if 1 < a then if m = 0 then Inl Div_Zero else modInverse_loop m (a mod m) (x1 - (a div m) * x0) x0 else Inr x1)"
  by pat_completeness auto
termination
proof (relation "measure (\<lambda>(a, m, x0, x1). unat m)")
  fix a m x0 x1 :: u64
  assume "m \<noteq> 0"
  then show "((m, a mod m, x1 - (a div m) * x0, x0), a, m, x0, x1) \<in> measure (\<lambda>(a, m, x0, x1). unat m)"
    by (simp add: unat_mod unat_gt_0)
qed simp

declare modInverse_loop.simps [simp del]

text \<open>the test x1 < 0 of an unsigned number is false\<close>

definition modInverse :: "u64 \<Rightarrow> u64 \<Rightarrow> u64 cpp" where
  "modInverse a m = (if m = 1 then Inr 0 else modInverse_loop a m 0 1)"

section \<open>Keys and signatures\<close>

record ecc =
  ecc_privateKey :: u64
  ecc_publicKey :: u64

definition ecc_of_key :: "u64 \<Rightarrow> ecc" where
  "ecc_of_key privKey = \<lparr>ecc_privateKey = privKey, ecc_publicKey = modPow ecc_BASE privKey ecc_PRIME\<rparr>"

definition generateNewKey :: "u64 \<Rightarrow> ecc" where
  "generateNewKey rnd = (let k = rnd mod ecc_ORDER in \<lparr>ecc_privateKey = k, ecc_publicKey = modPow ecc_BASE k ecc_PRIME\<rparr>)"

definition computeSharedSecret :: "ecc \<Rightarrow> u64 \<Rightarrow> u64" where
  "computeSharedSecret c otherPublic = modPow otherPublic (ecc_privateKey c) ecc_PRIME"

definition deriveSessionKey :: "u64 \<Rightarrow> string" where
  "deriveSessionKey shared = sha1_double (hex_u64 shared @ dec_u64 shared)"

definition ecc_sign :: "string \<Rightarrow> u64 \<Rightarrow> ecc \<Rightarrow> (u64 \<times> u64) cpp" where
  "ecc_sign msg rnd c =
     (let k = rnd mod ecc_ORDER;
          r1 = modPow ecc_BASE k ecc_PRIME;
          hash = sha1 (msg @ dec_u64 (ecc_privateKey c))
      in cpp_then (stoull16 (take 16 hash)) (\<lambda>h.
         let s = (h + ecc_privateKey c * r1) mod ecc_ORDER
         in cpp_then (modInverse k ecc_ORDER) (\<lambda>i. Inr (r1, (s * i) mod ecc_ORDER))))"

definition ecc_verify :: "string \<Rightarrow> u64 \<Rightarrow> u64 \<Rightarrow> u64 \<Rightarrow> bool cpp" where
  "ecc_verify msg r1 s pubKey =
     (if ecc_PRIME \<le> r1 \<or> ecc_ORDER \<le> s then Inr False
      else let hash = sha1 (msg @ dec_u64 pubKey)
           in cpp_then (modInverse s ecc_ORDER) (\<lambda>w.
              cpp_then (stoull16 (take 16 hash)) (\<lambda>h.
                let u1 = (h * w) mod ecc_ORDER;
                    u2 = (r1 * w) mod ecc_ORDER;
                    v = (modPow ecc_BASE u1 ecc_PRIME * modPow pubKey u2 ecc_PRIME) mod ecc_PRIME
                in Inr (v = r1))))"

section \<open>Key exchange\<close>

record key_exchange =
  kx_peerId :: string
  kx_publicKey :: u64
  kx_ephemeralKey :: u64
  kx_sessionId :: string
  kx_completed :: bool
  kx_timestamp :: u64

record exchanger =
  kp_activeExchanges :: "(string, key_exchange) std_map"
  kp_nodeId :: string
  kp_myPublicKey :: u64
  kp_myPrivateKey :: u64

definition kp_new :: "string \<Rightarrow> u64 \<Rightarrow> u64 \<Rightarrow> exchanger" where
  "kp_new nodeId pubKey privKey = \<lparr>kp_activeExchanges = [], kp_nodeId = nodeId, kp_myPublicKey = pubKey, kp_myPrivateKey = privKey\<rparr>"

definition serializeKeyMessage :: "u64 \<Rightarrow> u64 \<Rightarrow> string" where
  "serializeKeyMessage publicKey nonce = hex_u64 publicKey @ '':'' @ hex_u64 nonce"

definition deserializeKeyMessage :: "string \<Rightarrow> (u64 \<times> u64) cpp" where
  "deserializeKeyMessage msg =
     (if CHR '':'' \<notin> set msg then Inr (0, 0)
      else cpp_then (stoull16 (takeWhile (\<lambda>c. c \<noteq> CHR '':'') msg)) (\<lambda>pubKey.
           cpp_then (stoull16 (tl (dropWhile (\<lambda>c. c \<noteq> CHR '':'') msg))) (\<lambda>nonce. Inr (pubKey, nonce))))"

text \<open>the clock is read twice\<close>

definition initiateKeyExchange :: "string \<Rightarrow> u64 \<Rightarrow> u64 \<Rightarrow> u64 \<Rightarrow> exchanger \<Rightarrow> string \<times> exchanger" where
  "initiateKeyExchange peerId rnd t1 t2 x =
     (serializeKeyMessage (kp_myPublicKey x) rnd,
      x\<lparr>kp_activeExchanges := map_put peerId \<lparr>kx_peerId = peerId, kx_publicKey = 0, kx_ephemeralKey = rnd,
          kx_sessionId = sha1 (peerId @ dec_u64 rnd @ dec_u64 t1), kx_completed = False, kx_timestamp = t2\<rparr> (kp_activeExchanges x)\<rparr>)"

definition respondToKeyExchange :: "string \<Rightarrow> string \<Rightarrow> u64 \<Rightarrow> u64 \<Rightarrow> exchanger \<Rightarrow> (string \<times> exchanger) cpp" where
  "respondToKeyExchange peerId message rnd now x =
     cpp_then (deserializeKeyMessage message) (\<lambda>(pubKey, nonce).
       Inr (serializeKeyMessage (kp_myPublicKey x) rnd,
            x\<lparr>kp_activeExchanges := map_put peerId \<lparr>kx_peerId = peerId, kx_publicKey = pubKey, kx_ephemeralKey = rnd,
                kx_sessionId = sha1 (peerId @ dec_u64 rnd @ dec_u64 nonce), kx_completed = False, kx_timestamp = now\<rparr>
                (kp_activeExchanges x)\<rparr>))"

definition finalizeKeyExchange :: "string \<Rightarrow> string \<Rightarrow> exchanger \<Rightarrow> (bool \<times> exchanger) cpp" where
  "finalizeKeyExchange peerId response x =
     (case map_of (kp_activeExchanges x) peerId of
        None \<Rightarrow> Inr (False, x)
      | Some e \<Rightarrow> cpp_then (deserializeKeyMessage response) (\<lambda>(pubKey, _).
          Inr (True, x\<lparr>kp_activeExchanges := map_put peerId (e\<lparr>kx_publicKey := pubKey, kx_completed := True\<rparr>) (kp_activeExchanges x)\<rparr>)))"

definition getSharedSecret :: "string \<Rightarrow> exchanger \<Rightarrow> string" where
  "getSharedSecret peerId x =
     (case map_of (kp_activeExchanges x) peerId of
        None \<Rightarrow> []
      | Some e \<Rightarrow> if \<not> kx_completed e then [] else sha1_double (hex_u64 1))"

definition cleanupOldExchanges :: "u64 \<Rightarrow> u64 \<Rightarrow> exchanger \<Rightarrow> exchanger" where
  "cleanupOldExchanges maxAgeMs now x =
     x\<lparr>kp_activeExchanges := filter (\<lambda>(_, e). \<not> maxAgeMs < now - kx_timestamp e) (kp_activeExchanges x)\<rparr>"

section \<open>The inverse\<close>

text \<open>what Euclid's algorithm keeps, with integers for the unsigned coefficients\<close>

definition euclid_inv :: "int \<Rightarrow> int \<Rightarrow> int \<Rightarrow> int \<Rightarrow> int \<Rightarrow> int \<Rightarrow> bool" where
  "euclid_inv a0 m0 a m X0 X1 \<longleftrightarrow> gcd a m = gcd a0 m0 \<and> m0 dvd X1 * a0 - a \<and> m0 dvd X0 * a0 - m \<and>
     X0 * X1 \<le> 0 \<and> \<bar>X0\<bar> * a + \<bar>X1\<bar> * m = m0 \<and> \<bar>X1\<bar> < m0"

lemma euclid_step:
  assumes "euclid_inv a0 m0 a m X0 X1" "1 < a" "0 < m"
  shows "euclid_inv a0 m0 m (a mod m) (X1 - (a div m) * X0) X0"
proof -
  define q where "q = a div m"
  have q: "0 \<le> q" "a mod m = a - q * m" using assms by (simp_all add: q_def pos_imp_zdiv_nonneg_iff minus_div_mult_eq_mod [symmetric])
  have s: "X0 * X1 \<le> 0" "\<bar>X0\<bar> * a + \<bar>X1\<bar> * m = m0" using assms by (simp_all add: euclid_inv_def)
  have abs: "\<bar>X1 - q * X0\<bar> = \<bar>X1\<bar> + q * \<bar>X0\<bar>"
  proof (cases "0 \<le> X0")
    case True
    then have "X0 = 0 \<or> X1 \<le> 0" using s(1) by (auto simp: mult_le_0_iff)
    moreover have "0 \<le> q * X0" using True q(1) by simp
    ultimately show ?thesis using True by auto
  next
    case False
    then have "0 \<le> X1" using s(1) by (auto simp: mult_le_0_iff)
    moreover have "q * X0 \<le> 0" using False q(1) by (simp add: mult_nonneg_nonpos)
    ultimately show ?thesis using False by simp
  qed
  have "\<bar>X0\<bar> < m0"
  proof (cases "X0 = 0")
    case True
    then show ?thesis using assms s(2) by (auto simp: euclid_inv_def)
  next
    case False
    then have "\<bar>X0\<bar> * 1 < \<bar>X0\<bar> * a" using assms(2) by (intro mult_strict_left_mono) simp_all
    moreover have "0 \<le> \<bar>X1\<bar> * m" using assms(3) by simp
    ultimately show ?thesis using s(2) by linarith
  qed
  moreover have "gcd m (a mod m) = gcd a0 m0" using assms by (simp add: euclid_inv_def gcd.commute gcd_red_int [symmetric])
  moreover have "m0 dvd (X1 * a0 - a) - q * (X0 * a0 - m)" using assms by (simp add: euclid_inv_def)
  then have "m0 dvd (X1 - q * X0) * a0 - a mod m" unfolding q(2) by (simp add: algebra_simps)
  moreover have "(X1 - q * X0) * X0 \<le> 0"
  proof -
    have "0 \<le> q * (X0 * X0)" using q(1) by simp
    then show ?thesis using s(1) by (simp add: algebra_simps)
  qed
  moreover have "\<bar>X1 - q * X0\<bar> * m + \<bar>X0\<bar> * (a mod m) = m0" unfolding abs q(2) using s(2) by (simp add: algebra_simps)
  moreover have "m0 dvd X0 * a0 - m" using assms(1) by (simp add: euclid_inv_def)
  ultimately show ?thesis unfolding euclid_inv_def q_def [symmetric] by simp
qed

lemma modInverse_loop_euclid:
  assumes "euclid_inv a0 m0 (uint a) (uint m) X0 X1" "x0 = of_int X0" "x1 = of_int X1" "0 < a"
  shows "if gcd a0 m0 = 1 \<or> a = 1
     then \<exists>X. modInverse_loop a m x0 x1 = Inr (of_int X) \<and> \<bar>X\<bar> < m0 \<and> m0 dvd X * a0 - 1
     else modInverse_loop a m x0 x1 = Inl Div_Zero"
  using assms
proof (induction a m x0 x1 arbitrary: X0 X1 rule: modInverse_loop.induct)
  case (1 a m x0 x1)
  have inv: "euclid_inv a0 m0 (uint a) (uint m) X0 X1" by (rule 1(2))
  show ?case
  proof (cases "1 < a")
    case False
    then have "a = 1" using 1(5) by (simp add: word_less_nat_alt word_unat_eq_iff)
    then show ?thesis using inv 1(4) False
      by (subst modInverse_loop.simps) (auto simp: euclid_inv_def)
  next
    case True
    then have a: "1 < uint a" "a \<noteq> 1" by (auto simp: word_less_def)
    show ?thesis
    proof (cases "m = 0")
      case m: True
      have "gcd a0 m0 = uint a" using inv m by (simp add: euclid_inv_def)
      then show ?thesis using True m a by (subst modInverse_loop.simps) simp
    next
      case m: False
      then have m0: "0 < uint m" using m word_less_def [of 0 m] by (simp add: word_gt_0)
      have step: "euclid_inv a0 m0 (uint m) (uint (a mod m)) (X1 - (uint a div uint m) * X0) X0"
        using euclid_step [OF inv a(1) m0] by (simp add: uint_mod)
      have x0: "x1 - (a div m) * x0 = of_int (X1 - (uint a div uint m) * X0)"
        using 1(3,4) by (simp add: uint_div [symmetric])
      have IH: "if gcd a0 m0 = 1 \<or> m = 1
          then \<exists>X. modInverse_loop m (a mod m) (x1 - (a div m) * x0) x0 = Inr (of_int X) \<and> \<bar>X\<bar> < m0 \<and> m0 dvd X * a0 - 1
          else modInverse_loop m (a mod m) (x1 - (a div m) * x0) x0 = Inl Div_Zero"
        using m by (intro 1(1) [OF True m step x0 1(3)]) (simp add: word_gt_0)
      have "m = 1 \<Longrightarrow> gcd a0 m0 = 1" using inv by (simp add: euclid_inv_def)
      moreover have "modInverse_loop a m x0 x1 = modInverse_loop m (a mod m) (x1 - (a div m) * x0) x0"
        using True m by (subst modInverse_loop.simps) simp
      ultimately show ?thesis using IH a(2) by (auto split: if_splits)
    qed
  qed
qed

lemma modInverse_cases:
  assumes "1 < m" "0 < a"
  shows "if gcd (uint a) (uint m) = 1 \<or> a = 1
     then \<exists>X. modInverse a m = Inr (of_int X) \<and> \<bar>X\<bar> < uint m \<and> uint m dvd X * uint a - 1
     else modInverse a m = Inl Div_Zero"
proof -
  have "euclid_inv (uint a) (uint m) (uint a) (uint m) 0 1" using assms by (simp add: euclid_inv_def word_less_def)
  from modInverse_loop_euclid [OF this, of 0 1] show ?thesis
    using assms by (auto simp: modInverse_def)
qed

lemma ORDER_gt_1: "1 < ecc_ORDER"
  by (simp add: ecc_ORDER_def)

lemma even_not_coprime: "even k \<Longrightarrow> gcd (uint k) (uint ecc_ORDER) \<noteq> 1" for k :: u64
proof
  assume "even k" "gcd (uint k) (uint ecc_ORDER) = 1"
  moreover have "even (uint ecc_ORDER)" by (simp add: ecc_ORDER_def)
  moreover have "even (uint k)" using \<open>even k\<close> bit_uint_iff [of k 0] by (simp add: bit_0)
  ultimately have "2 dvd gcd (uint k) (uint ecc_ORDER)" by (intro gcd_greatest)
  then show False using \<open>gcd _ _ = 1\<close> by simp
qed

text \<open>sixteen digits of a hash always give a number\<close>

lemma hex_digit_char:
  assumes "c \<in> hex_digit ` {..<16}"
  shows "digit_value 16 c \<noteq> None" "33 \<le> (of_char c :: nat)" "lower c \<noteq> CHR ''x''" "c \<noteq> CHR ''-''" "c \<noteq> CHR ''+''"
proof -
  obtain d where d: "d < 16" "c = hex_digit d" using assms by auto
  have "(of_char c :: nat) = (if d < 10 then 48 + d else 87 + d)" using d by (simp add: hex_digit_def)
  moreover from this show "33 \<le> (of_char c :: nat)" by simp
  ultimately show "digit_value 16 c \<noteq> None" "lower c \<noteq> CHR ''x''" "c \<noteq> CHR ''-''" "c \<noteq> CHR ''+''"
    using d(1) by (auto simp: digit_value_def lower_def split: if_splits)
qed

lemma digit_value_less: "digit_value b c = Some v \<Longrightarrow> v < b"
  by (auto simp: digit_value_def Let_def split: if_splits)

lemma take_digits_hex:
  "set s \<subseteq> hex_digit ` {..<16} \<Longrightarrow> take_digits 16 s = (map (\<lambda>c. the (digit_value 16 c)) s, [])"
proof -
  assume "set s \<subseteq> hex_digit ` {..<16}"
  then have "\<forall>c\<in>set s. digit_value 16 c \<noteq> None" using hex_digit_char(1) by blast
  from take_digits_append [OF this, of "[]"] show ?thesis by simp
qed

lemma digits_value_bound: "\<forall>d\<in>set ds. d < b \<Longrightarrow> digits_value b ds < b ^ length ds" for b :: nat
proof (induction ds rule: rev_induct)
  case (snoc d ds)
  then have "digits_value b ds + 1 \<le> b ^ length ds" "d < b" by auto
  then have "(digits_value b ds + 1) * b \<le> b ^ length ds * b" by (intro mult_le_mono1)
  then show ?case using \<open>d < b\<close> by (simp add: digits_value_snoc algebra_simps)
qed (simp add: digits_value_def)

lemma strto_hex_digits:
  assumes "set s \<subseteq> hex_digit ` {..<16}" "s \<noteq> []"
  shows "strto_hex s = Some (False, digits_value 16 (map (\<lambda>c. the (digit_value 16 c)) s))"
proof -
  obtain c t where s: "s = c # t" using assms(2) by (cases s) auto
  have c: "c \<in> hex_digit ` {..<16}" using assms(1) s by simp
  have "skip_space s = s" using hex_digit_char(2) [OF c] by (intro skip_space_keeps) (simp add: s)
  moreover have "take_sign s = (False, s)" using hex_digit_char(4,5) [OF c] by (simp add: take_sign_def s)
  moreover have "map lower (take 2 s) \<noteq> ''0x''"
    using hex_digit_char(3) assms(1) by (cases t) (auto simp: s)
  ultimately show ?thesis using take_digits_hex [OF assms(1)] assms(2) by (simp add: strto_hex_def)
qed

lemma stoull16_digits:
  assumes "set s \<subseteq> hex_digit ` {..<16}" "s \<noteq> []" "length s \<le> 16"
  shows "stoull16 s = Inr (of_nat (digits_value 16 (map (\<lambda>c. the (digit_value 16 c)) s)))"
proof -
  let ?ds = "map (\<lambda>c. the (digit_value 16 c)) s"
  have "\<forall>d\<in>set ?ds. d < 16" using hex_digit_char(1) assms(1) digit_value_less by fastforce
  then have "digits_value 16 ?ds < 16 ^ length ?ds" by (rule digits_value_bound)
  also have "\<dots> \<le> 16 ^ 16" using assms(3) by (intro power_increasing) simp_all
  finally show ?thesis using strto_hex_digits [OF assms(1,2)] by (simp add: stoull16_def)
qed

lemma stoull16_hash: "\<exists>h. stoull16 (take 16 (sha1 s)) = Inr h"
proof -
  have "set (take 16 (sha1 s)) \<subseteq> hex_digit ` {..<16}" using set_sha1 set_take_subset by fast
  moreover have "length (take 16 (sha1 s)) = 16" by simp
  then have "take 16 (sha1 s) \<noteq> []" by force
  ultimately show ?thesis using stoull16_digits by simp
qed

lemma even_inverse_crashes:
  assumes "even k" "k \<noteq> 0" shows "modInverse k ecc_ORDER = Inl Div_Zero"
proof -
  have "k \<noteq> 1" using assms(1) by auto
  then show ?thesis
    using modInverse_cases [OF ORDER_gt_1, of k] even_not_coprime [OF assms(1)] assms(2) by (simp add: word_gt_0)
qed

lemma even_signature_crashes:
  "even s \<Longrightarrow> s \<noteq> 0 \<Longrightarrow> s < ecc_ORDER \<Longrightarrow> r1 < ecc_PRIME \<Longrightarrow> ecc_verify msg r1 s pubKey = Inl Div_Zero"
  by (simp add: ecc_verify_def Let_def not_le even_inverse_crashes)

text \<open>
  C20: The inverse of a modulo m, both above 1, is found, up to a multiple of the word size when it is
  negative, if a and m have no common factor; otherwise the loop divides by zero. The order
  used is even, so signing crashes with every even random number other than 0, and verifying
  crashes on every signature in range whose second half is even and not 0, whoever sent it.
\<close>

theorem inverse_or_crash:
  "(1 < m \<and> 1 < a \<longrightarrow>
      (if gcd (uint a) (uint m) = 1
       then \<exists>X. modInverse a m = Inr (of_int X) \<and> \<bar>X\<bar> < uint m \<and> uint m dvd X * uint a - 1
       else modInverse a m = Inl Div_Zero)) \<and>
   (even (rnd mod ecc_ORDER) \<and> rnd mod ecc_ORDER \<noteq> 0 \<longrightarrow> ecc_sign msg rnd c = Inl Div_Zero) \<and>
   (even s \<and> s \<noteq> 0 \<and> s < ecc_ORDER \<and> r1 < ecc_PRIME \<longrightarrow> ecc_verify msg r1 s pubKey = Inl Div_Zero)"
proof (intro conjI impI)
  assume "1 < m \<and> 1 < a"
  then show "if gcd (uint a) (uint m) = 1
       then \<exists>X. modInverse a m = Inr (of_int X) \<and> \<bar>X\<bar> < uint m \<and> uint m dvd X * uint a - 1
       else modInverse a m = Inl Div_Zero"
    using modInverse_cases [of m a] by (auto simp: word_less_nat_alt split: if_splits)
next
  show "ecc_sign msg rnd c = Inl Div_Zero" if "even (rnd mod ecc_ORDER) \<and> rnd mod ecc_ORDER \<noteq> 0"
    using even_inverse_crashes [of "rnd mod ecc_ORDER"] that stoull16_hash [of "msg @ dec_u64 (ecc_privateKey c)"]
    by (auto simp: ecc_sign_def Let_def)
  show "ecc_verify msg r1 s pubKey = Inl Div_Zero" if "even s \<and> s \<noteq> 0 \<and> s < ecc_ORDER \<and> r1 < ecc_PRIME"
    using even_signature_crashes that by blast
qed

lemma inverse_or_crash_witness:
  "ecc_verify ''pay'' 5 2 7 = Inl Div_Zero \<and> modInverse 2 ecc_ORDER = Inl Div_Zero \<and>
   ecc_sign ''pay'' 4 (ecc_of_key 3) = Inl Div_Zero"
  using inverse_or_crash [of ecc_ORDER 2 4 "''pay''" "ecc_of_key 3" 2 5 7]
  by (simp add: ecc_ORDER_def ecc_PRIME_def)

section \<open>Powers of five\<close>

text \<open>the products that modPow reduces\<close>

function modPow_products :: "u64 \<Rightarrow> u64 \<Rightarrow> u64 \<Rightarrow> u64 \<Rightarrow> u64 list" where
  "modPow_products r a e m =
     (if e \<noteq> 0
      then (if e AND 1 \<noteq> 0 then [r * a] else []) @ a * a #
           modPow_products (if e AND 1 \<noteq> 0 then (r * a) mod m else r) ((a * a) mod m) (drop_bit 1 e) m
      else [])"
  by pat_completeness auto
termination by (relation "measure (\<lambda>(r, a, e, m). unat e)") (simp_all add: half_less)

declare modPow_products.simps [simp del]

lemma modPow_loop_power:
  "\<forall>x\<in>set (modPow_products r a e m). x < m \<Longrightarrow> modPow_loop r a e m = r * a ^ unat e"
proof (induction r a e m rule: modPow_loop.induct)
  case (1 r a e m)
  show ?case
  proof (cases "e = 0")
    case True
    then show ?thesis by (simp add: modPow_loop.simps)
  next
    case False
    have small: "x mod m = x" if "x < m" for x using that by (rule mod_word_less)
    have odd: "e AND 1 \<noteq> 0 \<longleftrightarrow> odd (unat e)"
      using bit_unsigned_iff [where 'a = nat, of e 0] by (simp add: and_one_eq bit_0 mod2_eq_if)
    have e: "unat e = 2 * unat (drop_bit 1 e) + (if odd (unat e) then 1 else 0)"
      using unat_half [of e] by (cases "odd (unat e)") auto
    have p: "\<forall>x\<in>set (modPow_products (if e AND 1 \<noteq> 0 then (r * a) mod m else r) ((a * a) mod m) (drop_bit 1 e) m). x < m"
      "a * a < m" "e AND 1 \<noteq> 0 \<longrightarrow> r * a < m"
      using 1(2) False by (subst (asm) modPow_products.simps, simp)+
    have IH: "modPow_loop (if e AND 1 \<noteq> 0 then (r * a) mod m else r) ((a * a) mod m) (drop_bit 1 e) m =
        (if e AND 1 \<noteq> 0 then (r * a) mod m else r) * ((a * a) mod m) ^ unat (drop_bit 1 e)"
      by (rule 1(1) [OF False p(1)])
    have "modPow_loop r a e m = (if odd (unat e) then r * a else r) * (a * a) ^ unat (drop_bit 1 e)"
      using False IH p(2,3) small by (subst modPow_loop.simps) (simp add: odd)
    also have "\<dots> = r * a ^ unat e"
      by (subst (2) e) (simp add: power_add power_mult power2_eq_square)
    finally show ?thesis .
  qed
qed

definition unreduced :: "u64 \<Rightarrow> u64 \<Rightarrow> bool" where
  "unreduced a e \<longleftrightarrow> (\<forall>x\<in>set (modPow_products 1 (a mod ecc_PRIME) e ecc_PRIME). x < ecc_PRIME)"

lemma modPow_power: "unreduced a e \<Longrightarrow> a < ecc_PRIME \<Longrightarrow> modPow a e ecc_PRIME = a ^ unat e"
  by (simp add: modPow_def unreduced_def modPow_loop_power mod_word_less)

text \<open>the exponent of a power of 5 modulo a power of 2, digit by digit\<close>

fun recover :: "nat \<Rightarrow> nat \<Rightarrow> nat" where
  "recover y 0 = 0"
| "recover y (Suc k) = (let e = recover y k in if 5 ^ e mod 2 ^ (k + 3) = y mod 2 ^ (k + 3) then e else e + 2 ^ k)"

lemma five_power: "\<exists>q::nat. odd q \<and> 5 ^ (2 ^ k) = 1 + 2 ^ (k + 2) * q"
proof (induction k)
  case 0
  show ?case by (rule exI [of _ 1]) simp
next
  case (Suc k)
  then obtain q :: nat where q: "odd q" "5 ^ (2 ^ k) = 1 + 2 ^ (k + 2) * q" by blast
  have "(5::nat) ^ (2 ^ Suc k) = (5 ^ (2 ^ k))\<^sup>2" by (simp add: power_mult [symmetric] mult.commute)
  also have "\<dots> = 1 + 2 ^ (Suc k + 2) * (q + 2 ^ (k + 1) * q\<^sup>2)"
    unfolding q(2) by (simp add: power2_eq_square algebra_simps power_add)
  finally show ?case using q(1) by (intro exI [of _ "q + 2 ^ (k + 1) * q\<^sup>2"]) simp
qed

lemma five_period: "5 ^ (a + 2 ^ k * c) mod 2 ^ (k + 2) = (5::nat) ^ a mod 2 ^ (k + 2)"
proof -
  obtain q :: nat where q: "5 ^ (2 ^ k) = 1 + 2 ^ (k + 2) * q" using five_power by blast
  have "(1 + 2 ^ (k + 2) * q) ^ c mod 2 ^ (k + 2) = 1 ^ c mod 2 ^ (k + 2)"
    by (metis mod_mult_self2 power_mod)
  then show ?thesis
    unfolding power_add [of _ a] power_mult q by (metis mod_mult_right_eq mult.right_neutral power_one)
qed

lemma five_half: "5 ^ (a + 2 ^ k) mod 2 ^ (k + 3) \<noteq> (5::nat) ^ a mod 2 ^ (k + 3)"
proof
  assume "(5::nat) ^ (a + 2 ^ k) mod 2 ^ (k + 3) = 5 ^ a mod 2 ^ (k + 3)"
  moreover obtain q :: nat where q: "odd q" "5 ^ (2 ^ k) = 1 + 2 ^ (k + 2) * q" using five_power by blast
  moreover have "(5::nat) ^ (a + 2 ^ k) = 5 ^ a + 2 ^ (k + 2) * (5 ^ a * q)"
    unfolding power_add [of _ a] q(2) by (simp add: algebra_simps)
  ultimately have "2 ^ (k + 3) dvd 2 ^ (k + 2) * (5 ^ a * q)"
    by (metis add_diff_cancel_left' le_add1 mod_eq_dvd_iff_nat)
  moreover have "(2::nat) ^ (k + 3) = 2 ^ (k + 2) * 2" by (simp add: power_add)
  ultimately have "2 dvd 5 ^ a * q" by (simp only: nat_mult_dvd_cancel_disj) auto
  then show False using q(1) by simp
qed

lemma recover_exponent: "k \<le> 62 \<Longrightarrow> y mod 2 ^ 64 = 5 ^ e mod 2 ^ 64 \<Longrightarrow> recover y k = e mod 2 ^ k"
proof (induction k)
  case (Suc k)
  have k3: "Suc k + 2 = k + 3" by simp
  define a b c where "a = e mod 2 ^ k" and "b = e div 2 ^ k mod 2" and "c = e div 2 ^ Suc k"
  have "c = e div 2 ^ k div 2" unfolding c_def by (simp only: power_Suc2 div_mult2_eq)
  then have "e div 2 ^ k = b + 2 * c" by (simp add: b_def)
  then have e: "e = a + 2 ^ k * b + 2 ^ Suc k * c"
    using div_mult_mod_eq [of e "2 ^ k"] by (simp add: a_def algebra_simps)
  have b: "b = 0 \<or> b = 1" by (auto simp: b_def)
  have "a < 2 ^ k" by (simp add: a_def)
  then have "a + 2 ^ k * b < 2 ^ Suc k" using b by auto
  then have m: "e mod 2 ^ Suc k = a + 2 ^ k * b" unfolding e by simp
  have "y mod 2 ^ (k + 3) = y mod 2 ^ 64 mod 2 ^ (k + 3)"
    using Suc.prems(1) by (intro mod_mod_cancel [symmetric] le_imp_power_dvd) simp
  also have "\<dots> = 5 ^ e mod 2 ^ (k + 3)"
    using Suc.prems(1) unfolding Suc.prems(2) by (intro mod_mod_cancel le_imp_power_dvd) simp
  also have "\<dots> = 5 ^ (a + 2 ^ k * b) mod 2 ^ (k + 3)"
    unfolding e using five_period [of "a + 2 ^ k * b" "Suc k" c] unfolding k3 .
  finally have "5 ^ a mod 2 ^ (k + 3) = y mod 2 ^ (k + 3) \<longleftrightarrow> b = 0"
    using b five_half [of a k] by auto
  moreover have "recover y k = a" using Suc by (simp add: a_def)
  ultimately show ?case using b unfolding m by (auto simp: Let_def)
qed simp

lemma unat_power_five: "unat ((5::u64) ^ n) = 5 ^ n mod 2 ^ 64"
proof -
  have "(5::u64) ^ n = of_nat (5 ^ n)" by simp
  then show ?thesis by (simp only: unat_of_nat) simp
qed

text \<open>
  As long as no product on the way falls among the last 59 numbers of 64 bits, the
  reductions do nothing and the keys are powers of 5 modulo 2 to the 64. Then two parties
  agree on their secret, and whoever sees the two public keys computes it: 62 steps, one for
  each digit, recover the private key up to multiples of the order of 5.
\<close>

theorem eavesdropper:
  assumes "unreduced ecc_BASE a" "unreduced ecc_BASE b"
    and "ecc_publicKey (ecc_of_key a) < ecc_PRIME" "ecc_publicKey (ecc_of_key b) < ecc_PRIME"
    and "unreduced (ecc_publicKey (ecc_of_key b)) a" "unreduced (ecc_publicKey (ecc_of_key a)) b"
  shows "computeSharedSecret (ecc_of_key a) (ecc_publicKey (ecc_of_key b)) =
      computeSharedSecret (ecc_of_key b) (ecc_publicKey (ecc_of_key a)) \<and>
    computeSharedSecret (ecc_of_key a) (ecc_publicKey (ecc_of_key b)) =
      ecc_publicKey (ecc_of_key b) ^ recover (unat (ecc_publicKey (ecc_of_key a))) 62"
proof -
  have pub: "ecc_publicKey (ecc_of_key x) = 5 ^ unat x" if "unreduced ecc_BASE x" for x
    using modPow_power [OF that] by (simp add: ecc_of_key_def ecc_BASE_def ecc_PRIME_def)
  have sec: "computeSharedSecret (ecc_of_key x) p = p ^ unat x" if "unreduced p x" "p < ecc_PRIME" for x p
    using modPow_power [OF that] by (simp add: computeSharedSecret_def ecc_of_key_def)
  have "recover (unat ((5::u64) ^ unat a)) 62 = unat a mod 2 ^ 62"
    by (rule recover_exponent) (simp_all add: unat_power_five)
  moreover have "(5::u64) ^ (n + 2 ^ 62 * m) = 5 ^ n" for n m
  proof -
    have "unat ((5::u64) ^ (n + 2 ^ 62 * m)) = unat ((5::u64) ^ n)"
      using five_period [of n 62 m] by (simp only: unat_power_five) simp
    then show ?thesis by (simp only: word_unat_eq_iff)
  qed
  then have "(5::u64) ^ (unat b * (unat a mod 2 ^ 62) + 2 ^ 62 * (unat b * (unat a div 2 ^ 62))) = 5 ^ (unat b * (unat a mod 2 ^ 62))" .
  moreover have "unat b * (unat a mod 2 ^ 62) + 2 ^ 62 * (unat b * (unat a div 2 ^ 62)) = unat b * (unat a mod 2 ^ 62 + 2 ^ 62 * (unat a div 2 ^ 62))"
    by (simp only: distrib_left mult.left_commute [of "2 ^ 62" "unat b"])
  then have "unat b * (unat a mod 2 ^ 62) + 2 ^ 62 * (unat b * (unat a div 2 ^ 62)) = unat b * unat a"
    by (simp only: mod_mult_div_eq)
  ultimately have "(5::u64) ^ (unat b * unat a) = (5 ^ unat b) ^ recover (unat (ecc_publicKey (ecc_of_key a))) 62"
    unfolding pub [OF assms(1)] power_mult [symmetric] by (simp only:)
  moreover have "computeSharedSecret (ecc_of_key a) (ecc_publicKey (ecc_of_key b)) = 5 ^ (unat b * unat a)"
    unfolding sec [OF assms(5,4)] unfolding pub [OF assms(2)] power_mult ..
  moreover have "computeSharedSecret (ecc_of_key b) (ecc_publicKey (ecc_of_key a)) = 5 ^ (unat b * unat a)"
    unfolding sec [OF assms(6,3)] unfolding pub [OF assms(1)] mult.commute [of "unat b"] power_mult ..
  ultimately show ?thesis unfolding pub [OF assms(2)] by simp
qed

lemmas unreduced_eval = unreduced_def modPow_products.simps modPow_loop.simps modPow_def ecc_of_key_def ecc_BASE_def ecc_PRIME_def

lemma eavesdropper_witness:
  "computeSharedSecret (ecc_of_key 6) (ecc_publicKey (ecc_of_key 5)) =
     ecc_publicKey (ecc_of_key 5) ^ recover (unat (ecc_publicKey (ecc_of_key 6))) 62"
  by (rule eavesdropper [THEN conjunct2]) (simp_all add: unreduced_eval)

section \<open>The exchange\<close>

lemma hex_nat_small: "n < 16 \<Longrightarrow> hex_nat n = [hex_digit n]"
  by (simp add: hex_nat.simps)

lemma hex_nat_more: "16 \<le> n \<Longrightarrow> hex_nat n = hex_nat (n div 16) @ [hex_digit (n mod 16)]"
  by (simp add: hex_nat.simps [of n])

lemma digit_value_hex: "d < 16 \<Longrightarrow> digit_value 16 (hex_digit d) = Some d"
  by (simp add: digit_value_def hex_digit_def)

lemma hex_nat_digits:
  "set (hex_nat n) \<subseteq> hex_digit ` {..<16} \<and> hex_nat n \<noteq> [] \<and>
   digits_value 16 (map (\<lambda>c. the (digit_value 16 c)) (hex_nat n)) = n"
proof (induction n rule: hex_nat.induct)
  case (1 n)
  show ?case
  proof (cases "n < 16")
    case True
    then show ?thesis by (simp add: hex_nat_small digit_value_hex digits_value_def)
  next
    case False
    then show ?thesis using 1 by (simp add: hex_nat_more digit_value_hex digits_value_snoc)
  qed
qed

lemma stoull16_hex [simp]: "stoull16 (hex_u64 x) = Inr x"
proof -
  have "strto_hex (hex_u64 x) = Some (False, unat x)"
    using hex_nat_digits [of "unat x"] by (simp add: hex_u64_def strto_hex_digits)
  moreover have "unat x < 2 ^ 64" using unsigned_less [of x] by simp
  ultimately show ?thesis by (simp add: stoull16_def)
qed

lemma hex_u64_chars: "CHR '':'' \<notin> set (hex_u64 x)"
proof
  assume "CHR '':'' \<in> set (hex_u64 x)"
  then have "CHR '':'' \<in> hex_digit ` {..<16}" using hex_nat_digits [of "unat x"] by (auto simp: hex_u64_def)
  from hex_digit_char(1) [OF this] show False by (simp add: digit_value_def)
qed

text \<open>
  A key message is read back. But the keys in it play no part: the secret of an exchange is
  empty until the exchange is completed and then the same for all peers, all nodes and all
  exchanges, the hash of the digit 1.
\<close>

theorem key_exchange_secret:
  "deserializeKeyMessage (serializeKeyMessage p n) = Inr (p, n) \<and>
   (finalizeKeyExchange peer response x = Inr (True, x') \<longrightarrow> map_ok (kp_activeExchanges x) \<longrightarrow>
      getSharedSecret peer x' = sha1_double ''1'') \<and>
   (getSharedSecret peer x = [] \<or> getSharedSecret peer x = sha1_double ''1'')"
proof -
  have one: "hex_u64 1 = ''1''" by (simp add: hex_u64_def hex_nat_small hex_digit_def char_of_eq_iff)
  have "deserializeKeyMessage (serializeKeyMessage p n) = Inr (p, n)"
    by (simp add: deserializeKeyMessage_def serializeKeyMessage_def takeWhile_field dropWhile_field hex_u64_chars)
  then show ?thesis
    by (auto simp: getSharedSecret_def finalizeKeyExchange_def one cpp_then_def split: option.splits sum.splits)
qed

lemma key_exchange_secret_witness:
  "getSharedSecret ''bob'' (snd (projr (finalizeKeyExchange ''bob'' (serializeKeyMessage 25 7)
     (snd (initiateKeyExchange ''bob'' 1 2 3 (kp_new ''ann'' 5 1)))))) = sha1_double ''1''"
proof -
  let ?x = "snd (initiateKeyExchange ''bob'' 1 2 3 (kp_new ''ann'' 5 1))"
  have m: "deserializeKeyMessage (serializeKeyMessage 25 7) = Inr (25, 7)" by (rule key_exchange_secret [THEN conjunct1])
  obtain x' where x': "finalizeKeyExchange ''bob'' (serializeKeyMessage 25 7) ?x = Inr (True, x')"
    unfolding finalizeKeyExchange_def m by (simp add: initiateKeyExchange_def kp_new_def)
  have "map_ok (kp_activeExchanges ?x)" by (simp add: initiateKeyExchange_def kp_new_def)
  with key_exchange_secret [of 25 7 "''bob''" "serializeKeyMessage 25 7" ?x x'] x' show ?thesis by simp
qed

end
