(* ===== verification/P2p_Quantum.thy ===== *)
theory P2p_Quantum
  imports P2p_Sha1
begin

text \<open>
  The one-time signatures over a hash tree of \<open>core/quantum_signature.cpp\<close>. The random bytes
  of the leaves are an argument: the tree is filled from left to right, so the bytes drawn
  for a leaf are given by its index. The children and the counter of a node are written and
  never read; they are left out.
\<close>

section \<open>The tree\<close>

text \<open>the hash of the node idx with r levels below it\<close>

fun buildTree :: "(nat \<Rightarrow> string) \<Rightarrow> nat \<Rightarrow> nat \<Rightarrow> string" where
  "buildTree leaf 0 idx = leaf idx"
| "buildTree leaf (Suc r) idx = sha1 (buildTree leaf r (idx * 2 + 1) @ buildTree leaf r (idx * 2 + 2))"

definition level_of :: "nat \<Rightarrow> nat" where
  "level_of idx = floorlog 2 (idx + 1) - 1"

record quantum =
  qs_tree :: "string list"
  qs_height :: nat
  qs_rootHash :: string
  qs_usedLeaves :: "(int, bool) std_map"

definition qs_new :: "nat \<Rightarrow> (nat \<Rightarrow> string) \<Rightarrow> quantum" where
  "qs_new h leaf =
     (let tree = map (\<lambda>idx. buildTree leaf (h - level_of idx) idx) [0..<2 ^ (h + 1) - 1]
      in \<lparr>qs_tree = tree, qs_height = h, qs_rootHash = tree ! 0, qs_usedLeaves = []\<rparr>)"

section \<open>Signing\<close>

function auth_path :: "string list \<Rightarrow> nat \<Rightarrow> string" where
  "auth_path tree nodeIdx =
     (if 0 < nodeIdx
      then let sibling = (if nodeIdx mod 2 = 0 then nodeIdx - 1 else nodeIdx + 1)
           in (if sibling < length tree then tree ! sibling else []) @ auth_path tree ((nodeIdx - 1) div 2)
      else [])"
  by pat_completeness auto
termination by (relation "measure (\<lambda>(tree, nodeIdx). nodeIdx)") auto

declare auth_path.simps [simp del]

text \<open>
  \<open>usedLeaves[leafIdx]\<close> enters the index before its range is tested; a negative index is not
  caught, and reaches an inner node or lies before the vector.
\<close>

definition qs_sign :: "string \<Rightarrow> int \<Rightarrow> quantum \<Rightarrow> (string \<times> quantum) cpp" where
  "qs_sign msg leafIdx q =
     (let (used, m) = map_index False leafIdx (qs_usedLeaves q);
          q = q\<lparr>qs_usedLeaves := m\<rparr>
      in if used then Inr ([], q)
         else if 2 ^ qs_height q \<le> leafIdx then Inr ([], q)
         else let q = q\<lparr>qs_usedLeaves := map_put leafIdx True (qs_usedLeaves q)\<rparr>;
                  nodeIdx = 2 ^ qs_height q - 1 + leafIdx
              in if nodeIdx < 0 then Inl Bad_Index
                 else Inr (sha1 (msg @ qs_tree q ! nat nodeIdx) @ auth_path (qs_tree q) (nat nodeIdx), q))"

section \<open>Verification\<close>

text \<open>the loop: 40 characters of the signature for every level\<close>

function qs_climb :: "nat \<Rightarrow> string \<Rightarrow> string \<Rightarrow> string" where
  "qs_climb pos current rest =
     (if 0 < pos \<and> rest \<noteq> []
      then let sibling = take 40 rest
           in qs_climb ((pos - 1) div 2) (if pos mod 2 = 0 then sha1 (sibling @ current) else sha1 (current @ sibling)) (drop 40 rest)
      else current)"
  by pat_completeness auto
termination by (relation "measure (\<lambda>(pos, current, rest). pos)") auto

declare qs_climb.simps [simp del]

definition qs_verify :: "string \<Rightarrow> string \<Rightarrow> int \<Rightarrow> quantum \<Rightarrow> bool cpp" where
  "qs_verify msg sig leafIdx q =
     (if length sig < 40 then Inr False
      else let pos = 2 ^ qs_height q - 1 + leafIdx
           in if pos < 0 \<or> int (length (qs_tree q)) \<le> pos then Inl Bad_Index
              else let leafHash = sha1 (msg @ qs_tree q ! nat pos)
                   in if take 40 sig \<noteq> leafHash then Inr False
                      else Inr (qs_climb (nat pos) leafHash (drop 40 sig) = qs_rootHash q))"

definition qs_getAvailableLeaves :: "quantum \<Rightarrow> int" where
  "qs_getAvailableLeaves q = 2 ^ qs_height q - int (length (qs_usedLeaves q))"

definition qs_getTotalLeaves :: "quantum \<Rightarrow> int" where
  "qs_getTotalLeaves q = 2 ^ qs_height q"

definition qs_setLeafUsed :: "int \<Rightarrow> bool \<Rightarrow> quantum \<Rightarrow> quantum" where
  "qs_setLeafUsed leafIdx used q = q\<lparr>qs_usedLeaves := map_put leafIdx used (qs_usedLeaves q)\<rparr>"

definition qs_isLeafUsed :: "int \<Rightarrow> quantum \<Rightarrow> bool" where
  "qs_isLeafUsed leafIdx q = (map_of (qs_usedLeaves q) leafIdx = Some True)"

definition qs_getLeafHash :: "int \<Rightarrow> quantum \<Rightarrow> string cpp" where
  "qs_getLeafHash leafIdx q =
     (if 2 ^ qs_height q \<le> leafIdx then Inr []
      else if 2 ^ qs_height q - 1 + leafIdx < 0 then Inl Bad_Index
      else Inr (qs_tree q ! nat (2 ^ qs_height q - 1 + leafIdx)))"

section \<open>Positions in the tree\<close>

definition at_level :: "nat \<Rightarrow> nat \<Rightarrow> bool" where
  "at_level d idx \<longleftrightarrow> 2 ^ d \<le> idx + 1 \<and> idx + 1 < 2 ^ Suc d"

lemma at_level_level_of: "at_level d idx \<Longrightarrow> level_of idx = d"
proof -
  assume "at_level d idx"
  then have "floorlog 2 (idx + 1) = Suc d"
    by (intro antisym floorlog_leI floorlog_geI) (simp_all add: at_level_def)
  then show ?thesis by (simp add: level_of_def)
qed

lemma at_level_Suc: "at_level (Suc d) idx \<Longrightarrow> 0 < idx"
proof -
  assume "at_level (Suc d) idx"
  then have "2 * 2 ^ d \<le> idx + 1" by (simp add: at_level_def)
  moreover have "(1::nat) \<le> 2 ^ d" by simp
  ultimately show "0 < idx" by linarith
qed

lemma at_level_parent: "at_level (Suc d) idx \<Longrightarrow> at_level d ((idx - 1) div 2)"
proof -
  assume a: "at_level (Suc d) idx"
  define p where "p = (2::nat) ^ d"
  have "1 \<le> p" "2 * p \<le> idx + 1" "idx + 1 < 4 * p" using a by (simp_all add: at_level_def p_def)
  then have "p \<le> (idx - 1) div 2 + 1" "(idx - 1) div 2 + 1 < 2 * p" by presburger+
  then show ?thesis by (simp add: at_level_def p_def)
qed

lemma at_level_sibling:
  "at_level (Suc d) idx \<Longrightarrow> at_level (Suc d) (if idx mod 2 = 0 then idx - 1 else idx + 1)"
proof -
  assume a: "at_level (Suc d) idx"
  define p where "p = (2::nat) ^ d"
  define s where "s = (if idx mod 2 = 0 then idx - 1 else idx + 1)"
  have "1 \<le> p" "2 * p \<le> idx + 1" "idx + 1 < 4 * p" using a by (simp_all add: at_level_def p_def)
  then have "2 * p \<le> s + 1" "s + 1 < 4 * p" unfolding s_def by presburger+
  then show ?thesis by (simp add: at_level_def p_def s_def)
qed

lemma tree_node:
  assumes "at_level d idx" "d \<le> h"
  shows "idx < length (qs_tree (qs_new h leaf))" "qs_tree (qs_new h leaf) ! idx = buildTree leaf (h - d) idx"
proof -
  have "idx + 1 < 2 ^ Suc d" using assms(1) by (simp add: at_level_def)
  also have "(2::nat) ^ Suc d \<le> 2 ^ (h + 1)" using assms(2) by (intro power_increasing) simp_all
  finally have "idx < 2 ^ (h + 1) - 1" by simp
  then show "idx < length (qs_tree (qs_new h leaf))" "qs_tree (qs_new h leaf) ! idx = buildTree leaf (h - d) idx"
    using at_level_level_of [OF assms(1)] by (simp_all add: qs_new_def Let_def del: power_Suc)
qed

lemma length_buildTree: "(\<And>i. length (leaf i) = 32) \<Longrightarrow> length (buildTree leaf r idx) = (if r = 0 then 32 else 40)"
  by (cases r) simp_all

text \<open>the path of a node is a hash for every level above it, 40 characters each but at the leaves\<close>

lemma length_auth_path:
  assumes "\<And>i. length (leaf i) = 32"
  shows "at_level d idx \<Longrightarrow> d \<le> h \<Longrightarrow>
    length (auth_path (qs_tree (qs_new h leaf)) idx) = (if d = h \<and> 0 < d then 40 * d - 8 else 40 * d)"
proof (induction d arbitrary: idx)
  case 0
  then show ?case by (simp add: at_level_def auth_path.simps)
next
  case (Suc d)
  let ?s = "if idx mod 2 = 0 then idx - 1 else idx + 1" and ?t = "qs_tree (qs_new h leaf)"
  have pos: "0 < idx" using Suc.prems(1) by (rule at_level_Suc)
  have s: "?s < length ?t" "?t ! ?s = buildTree leaf (h - Suc d) ?s"
    using tree_node [OF at_level_sibling [OF Suc.prems(1)] Suc.prems(2)] by simp_all
  have "length (auth_path ?t idx) = length (?t ! ?s) + length (auth_path ?t ((idx - 1) div 2))"
    using pos s(1) by (subst auth_path.simps) (simp add: Let_def)
  moreover have "length (?t ! ?s) = (if h = Suc d then 32 else 40)"
    unfolding s(2) length_buildTree [OF assms] using Suc.prems(2) by auto
  moreover have "length (auth_path ?t ((idx - 1) div 2)) = 40 * d"
    using Suc.IH [OF at_level_parent [OF Suc.prems(1)]] Suc.prems(2) by simp
  ultimately show ?case using Suc.prems(2) by auto
qed

text \<open>the string hashed last, which has 72 characters\<close>

function climb_input :: "nat \<Rightarrow> string \<Rightarrow> string \<Rightarrow> string" where
  "climb_input pos current rest =
     (let x = (if pos mod 2 = 0 then take 40 rest @ current else current @ take 40 rest)
      in if 0 < (pos - 1) div 2 \<and> drop 40 rest \<noteq> [] then climb_input ((pos - 1) div 2) (sha1 x) (drop 40 rest) else x)"
  by pat_completeness auto
termination by (relation "measure (\<lambda>(pos, current, rest). pos)") auto

declare climb_input.simps [simp del]

lemma climb_step:
  assumes "0 < pos" "rest \<noteq> []"
  shows "qs_climb pos current rest = qs_climb ((pos - 1) div 2)
    (sha1 (if pos mod 2 = 0 then take 40 rest @ current else current @ take 40 rest)) (drop 40 rest)"
  using assms by (subst qs_climb.simps) (simp add: Let_def)

lemma climb_hash:
  "at_level (Suc d) pos \<Longrightarrow> length current = 40 \<Longrightarrow> length rest = 40 * Suc d - 8 \<Longrightarrow>
    length (climb_input pos current rest) = 72 \<and> qs_climb pos current rest = sha1 (climb_input pos current rest)"
proof (induction d arbitrary: pos current rest)
  case 0
  then have "(pos - 1) div 2 = 0" "0 < pos" by (auto simp: at_level_def)
  moreover have "rest \<noteq> []" "length rest = 32" using 0 by auto
  ultimately show ?case using 0(2)
    by (simp add: climb_step climb_input.simps [of pos] qs_climb.simps [of 0] Let_def)
next
  case (Suc d)
  let ?x = "if pos mod 2 = 0 then take 40 rest @ current else current @ take 40 rest"
  have pos: "0 < pos" using Suc.prems(1) by (rule at_level_Suc)
  have l: "at_level (Suc d) ((pos - 1) div 2)" by (rule at_level_parent [OF Suc.prems(1)])
  have rest: "rest \<noteq> []" "length (drop 40 rest) = 40 * Suc d - 8" using Suc.prems(3) by auto
  then have "drop 40 rest \<noteq> []" by force
  then have "climb_input pos current rest = climb_input ((pos - 1) div 2) (sha1 ?x) (drop 40 rest)"
    using at_level_Suc [OF l] by (subst climb_input.simps) (simp add: Let_def)
  then show ?case using Suc.IH [OF l _ rest(2), of "sha1 ?x"] climb_step [OF pos rest(1)] by simp
qed

lemma root_of_tree:
  assumes "0 < h"
  shows "qs_rootHash (qs_new h leaf) = sha1 (buildTree leaf (h - 1) 1 @ buildTree leaf (h - 1) 2)"
proof -
  have "qs_rootHash (qs_new h leaf) = qs_tree (qs_new h leaf) ! 0" by (simp add: qs_new_def Let_def)
  also have "\<dots> = buildTree leaf h 0" using tree_node [of 0 0 h leaf] by (simp add: at_level_def)
  finally show ?thesis using assms by (cases h) (simp_all add: numeral_2_eq_2)
qed

text \<open>the string hashed last when a signature with a leaf is verified\<close>

definition last_input :: "string \<Rightarrow> nat \<Rightarrow> nat \<Rightarrow> string" where
  "last_input sig h i = climb_input (2 ^ h - 1 + i) (take 40 sig) (drop 40 sig)"

lemma own_signature:
  assumes h: "0 < h" and leaf: "\<And>i. length (leaf i) = 32" and i: "i < 2 ^ h"
    and q: "qs_tree q = qs_tree (qs_new h leaf)" "qs_height q = h" "qs_rootHash q = qs_rootHash (qs_new h leaf)"
      "map_of (qs_usedLeaves q) (int i) \<noteq> Some True"
    and sig: "qs_sign msg (int i) q = Inr (sig, q')"
  shows "length (last_input sig h i) = 72 \<and> qs_verify msg sig (int i) q' = Inr (sha1 (last_input sig h i) = qs_rootHash q)"
    "qs_tree q' = qs_tree q \<and> qs_height q' = h \<and> qs_rootHash q' = qs_rootHash q"
proof -
  define pos where "pos = 2 ^ h - 1 + i"
  have n: "2 ^ h - 1 + int i = int pos" unfolding pos_def by (simp only: of_nat_add of_nat_diff one_le_power) simp
  have l: "at_level h pos" using i by (simp add: at_level_def pos_def)
  let ?t = "qs_tree q"
  let ?hash = "sha1 (msg @ ?t ! pos)"
  have t: "pos < length ?t" "length (auth_path ?t pos) = 40 * h - 8"
    using tree_node(1) [OF l order_refl] length_auth_path [OF leaf l order_refl] h by (simp_all add: q)
  have "fst (map_index False (int i) (qs_usedLeaves q)) = False"
    using q(4) by (auto simp: map_at_def split: option.split)
  then have s: "sig = ?hash @ auth_path ?t pos" "qs_tree q' = ?t" "qs_height q' = h" "qs_rootHash q' = qs_rootHash q"
    using sig i by (auto simp: qs_sign_def q(2) n split_def Let_def split: if_splits)
  obtain d where d: "h = Suc d" using h by (cases h) auto
  have "length (climb_input pos ?hash (auth_path ?t pos)) = 72 \<and>
      qs_climb pos ?hash (auth_path ?t pos) = sha1 (climb_input pos ?hash (auth_path ?t pos))"
    using l t(2) unfolding d by (intro climb_hash) simp_all
  moreover have "last_input sig h i = climb_input pos ?hash (auth_path ?t pos)" by (simp add: last_input_def s pos_def)
  ultimately show "length (last_input sig h i) = 72 \<and> qs_verify msg sig (int i) q' = Inr (sha1 (last_input sig h i) = qs_rootHash q)"
    using t(1) by (simp add: qs_verify_def s n)
  show "qs_tree q' = qs_tree q \<and> qs_height q' = h \<and> qs_rootHash q' = qs_rootHash q" using s by simp
qed

text \<open>
  A leaf signs once: a second signature with it is empty. The verification of a signature
  just made climbs from the hash of the message instead of the leaf, and reads 40 characters
  for a leaf of 32 bytes, so it rejects the signature, unless the string it hashes last
  and the string whose hash is the root are a collision.
\<close>

theorem quantum_signatures:
  assumes "0 < h" "\<And>i. length (leaf i) = 32" "i < 2 ^ h"
    and "qs_sign msg (int i) (qs_new h leaf) = Inr (sig, q)"
  shows "qs_sign msg' (int i) q = Inr ([], q) \<and>
    (qs_verify msg sig (int i) q = Inr False \<or>
     collision (last_input sig h i) (buildTree leaf (h - 1) 1 @ buildTree leaf (h - 1) 2))"
proof (intro conjI)
  have u: "map_of (qs_usedLeaves (qs_new h leaf)) (int i) \<noteq> Some True" by (simp add: qs_new_def Let_def)
  have "qs_usedLeaves (qs_new h leaf) = []" "qs_height (qs_new h leaf) = h" by (simp_all add: qs_new_def Let_def)
  then have "map_of (qs_usedLeaves q) (int i) = Some True"
    using assms(3,4) by (auto simp: qs_sign_def map_index_def Let_def split: if_splits)
  then show "qs_sign msg' (int i) q = Inr ([], q)" by (simp add: qs_sign_def map_index_def)
  have x: "length (last_input sig h i) = 72"
      "qs_verify msg sig (int i) q = Inr (sha1 (last_input sig h i) = qs_rootHash (qs_new h leaf))"
    using own_signature(1) [OF assms(1,2,3) refl _ refl u assms(4)] by (simp_all add: qs_new_def Let_def)
  let ?y = "buildTree leaf (h - 1) 1 @ buildTree leaf (h - 1) 2"
  have "length ?y \<noteq> 72" by (simp add: length_buildTree [OF assms(2)])
  then show "qs_verify msg sig (int i) q = Inr False \<or> collision (last_input sig h i) ?y"
    using x unfolding root_of_tree [OF assms(1)] by (auto simp: collision_def)
qed

lemma quantum_signatures_witness:
  "let q = snd (projr (qs_sign ''pay'' (int 1) (qs_new 2 (\<lambda>i. replicate 32 CHR ''x'')))) in qs_sign ''more'' (int 1) q = Inr ([], q)"
proof -
  let ?s = "qs_sign ''pay'' (int 1) (qs_new 2 (\<lambda>i. replicate 32 CHR ''x''))"
  have "\<exists>sig q. ?s = Inr (sig, q)" by (simp add: qs_sign_def map_index_def qs_new_def Let_def)
  then obtain sig q where s: "?s = Inr (sig, q)" by blast
  from quantum_signatures [of 2 "\<lambda>i. replicate 32 CHR ''x''" 1, OF _ _ _ s] s show ?thesis by simp
qed

end
