(* ===== verification/P2p_Cipher.thy ===== *)
theory P2p_Cipher
  imports P2p_Ecc P2p_Quantum P2p_Ternary Bank_Aes_Tables
begin

text \<open>
  The block cipher of \<open>core/aes256.cpp\<close> and what is built on it: the messages of the network
  (\<open>network/p2p_network.cpp\<close>), the crypto manager (\<open>crypto/crypto_manager.cpp\<close>) and the
  encryption layer with its key rotation (\<open>security/encryption_layer.cpp\<close>). The length of the
  hash the keys are made of decides what any of it can do. Random bytes and the clock are
  arguments.
\<close>

section \<open>Tables\<close>

definition p2p_sbox :: "u8 list" where
  "p2p_sbox =
    [0x63, 0x7c, 0x77, 0x7b, 0xf2, 0x6b, 0x6f, 0xc5, 0x30, 0x01, 0x67, 0x2b, 0xfe, 0xd7, 0xab, 0x76,
     0xca, 0x82, 0xc9, 0x7d, 0xfa, 0x59, 0x47, 0xf0, 0xad, 0xd4, 0xa2, 0xaf, 0x9c, 0xa4, 0x72, 0xc0,
     0xb7, 0xfd, 0x93, 0x26, 0x36, 0x3f, 0xf7, 0xcc, 0x34, 0xa5, 0xe5, 0xf1, 0x71, 0xd8, 0x31, 0x15,
     0x04, 0xc7, 0x23, 0xc3, 0x18, 0x96, 0x05, 0x9a, 0x07, 0x12, 0x80, 0xe2, 0xeb, 0x27, 0xb2, 0x75,
     0x09, 0x83, 0x2c, 0x1a, 0x1b, 0x6e, 0x5a, 0xa0, 0x52, 0x3b, 0xd6, 0xb3, 0x29, 0xe3, 0x2f, 0x84,
     0x53, 0xd1, 0x00, 0xed, 0x20, 0xfc, 0xb1, 0x5b, 0x6a, 0xcb, 0xbe, 0x39, 0x4a, 0x4c, 0x58, 0xcf,
     0xd0, 0xef, 0xaa, 0xfb, 0x43, 0x4d, 0x33, 0x85, 0x45, 0xf9, 0x02, 0x7f, 0x50, 0x3c, 0x9f, 0xa8,
     0x51, 0xa3, 0x40, 0x8f, 0x92, 0x9d, 0x38, 0xf5, 0xbc, 0xb6, 0xda, 0x21, 0x10, 0xff, 0xf3, 0xd2,
     0xcd, 0x0c, 0x13, 0xec, 0x5f, 0x97, 0x44, 0x17, 0xc4, 0xa7, 0x7e, 0x3d, 0x64, 0x5d, 0x19, 0x73,
     0x60, 0x81, 0x4f, 0xdc, 0x22, 0x2a, 0x90, 0x88, 0x46, 0xee, 0xb8, 0x14, 0xde, 0x5e, 0x0b, 0xdb,
     0xe0, 0x32, 0x3a, 0x0a, 0x49, 0x06, 0x24, 0x5c, 0xc2, 0xd3, 0xac, 0x62, 0x91, 0x95, 0xe4, 0x79,
     0xe7, 0xc8, 0x37, 0x6d, 0x8d, 0xd5, 0x4e, 0xa9, 0x6c, 0x56, 0xf4, 0xea, 0x65, 0x7a, 0xae, 0x08,
     0xba, 0x78, 0x25, 0x2e, 0x1c, 0xa6, 0xb4, 0xc6, 0xe8, 0xdd, 0x74, 0x1f, 0x4b, 0xbd, 0x8b, 0x8a,
     0x70, 0x3e, 0xb5, 0x66, 0x48, 0x03, 0xf6, 0x0e, 0x61, 0x35, 0x57, 0xb9, 0x86, 0xc1, 0x1d, 0x9e,
     0xe1, 0xf8, 0x98, 0x11, 0x69, 0xd9, 0x8e, 0x94, 0x9b, 0x1e, 0x87, 0xe9, 0xce, 0x55, 0x28, 0xdf,
     0x8c, 0xa1, 0x89, 0x0d, 0xbf, 0xe6, 0x42, 0x68, 0x41, 0x99, 0x2d, 0x0f, 0xb0, 0x54, 0xbb, 0x16]"

definition p2p_invSbox :: "u8 list" where
  "p2p_invSbox =
    [0x52, 0x09, 0x6a, 0xd5, 0x30, 0x36, 0xa5, 0x38, 0xbf, 0x40, 0xa3, 0x9e, 0x81, 0xf3, 0xd7, 0xfb,
     0x7c, 0xe3, 0x39, 0x82, 0x9b, 0x2f, 0xff, 0x87, 0x34, 0x8e, 0x43, 0x44, 0xc4, 0xde, 0xe9, 0xcb,
     0x54, 0x7b, 0x94, 0x32, 0xa6, 0xc2, 0x23, 0x3d, 0xee, 0x4c, 0x95, 0x0b, 0x42, 0xfa, 0xc3, 0x4e,
     0x08, 0x2e, 0xa1, 0x66, 0x28, 0xd9, 0x24, 0xb2, 0x76, 0x5b, 0xa2, 0x49, 0x6d, 0x8b, 0xd1, 0x25,
     0x72, 0xf8, 0xf6, 0x64, 0x86, 0x68, 0x98, 0x16, 0xd4, 0xa4, 0x5c, 0xcc, 0x5d, 0x65, 0xb6, 0x92,
     0x6c, 0x70, 0x48, 0x50, 0xfd, 0xed, 0xb9, 0xda, 0x5e, 0x15, 0x46, 0x57, 0xa7, 0x8d, 0x9d, 0x84,
     0x90, 0xd8, 0xab, 0x00, 0x8c, 0xbc, 0xd3, 0x0a, 0xf7, 0xe4, 0x58, 0x05, 0xb8, 0xb3, 0x45, 0x06,
     0xd0, 0x2c, 0x1e, 0x8f, 0xca, 0x3f, 0x0f, 0x02, 0xc1, 0xaf, 0xbd, 0x03, 0x01, 0x13, 0x8a, 0x6b,
     0x3a, 0x91, 0x11, 0x41, 0x4f, 0x67, 0xdc, 0xea, 0x97, 0xf2, 0xcf, 0xce, 0xf0, 0xb4, 0xe6, 0x73,
     0x96, 0xac, 0x74, 0x22, 0xe7, 0xad, 0x35, 0x85, 0xe2, 0xf9, 0x37, 0xe8, 0x1c, 0x75, 0xdf, 0x6e,
     0x47, 0xf1, 0x1a, 0x71, 0x1d, 0x29, 0xc5, 0x89, 0x6f, 0xb7, 0x62, 0x0e, 0xaa, 0x18, 0xbe, 0x1b,
     0xfc, 0x56, 0x3e, 0x4b, 0xc6, 0xd2, 0x79, 0x20, 0x9a, 0xdb, 0xc0, 0xfe, 0x78, 0xcd, 0x5a, 0xf4,
     0x1f, 0xdd, 0xa8, 0x33, 0x88, 0x07, 0xc7, 0x31, 0xb1, 0x12, 0x10, 0x59, 0x27, 0x80, 0xec, 0x5f,
     0x60, 0x51, 0x7f, 0xa9, 0x19, 0xb5, 0x4a, 0x0d, 0x2d, 0xe5, 0x7a, 0x9f, 0x93, 0xc9, 0x9c, 0xef,
     0xa0, 0xe0, 0x3b, 0x4d, 0xae, 0x2a, 0xf5, 0xb0, 0xc8, 0xeb, 0xbb, 0x3c, 0x83, 0x53, 0x99, 0x61,
     0x17, 0x2b, 0x04, 0x7e, 0xba, 0x77, 0xd6, 0x26, 0xe1, 0x69, 0x14, 0x63, 0x55, 0x21, 0x0c, 0x7d]"

definition p2p_rcon :: "u8 list" where
  "p2p_rcon = [0x00, 0x01, 0x02, 0x04, 0x08, 0x10, 0x20, 0x40, 0x80, 0x1b, 0x36]"

section \<open>Keys\<close>

record aes256 =
  aes_key :: bytes
  aes_initialized :: bool

definition aes_new :: aes256 where
  "aes_new = \<lparr>aes_key = replicate 32 0, aes_initialized = False\<rparr>"

definition substr :: "string \<Rightarrow> nat \<Rightarrow> nat \<Rightarrow> string cpp" where
  "substr s pos n = (if length s < pos then Inl Out_Of_Range else Inr (take n (drop pos s)))"

text \<open>\<open>std::stoi(s, nullptr, 16)\<close>\<close>

definition stoi16 :: "string \<Rightarrow> int cpp" where
  "stoi16 s =
     (case strto_hex s of
        None \<Rightarrow> Inl Invalid_Argument
      | Some (neg, n) \<Rightarrow>
          let x = (if neg then - int n else int n)
          in if x < - (2 ^ 31) \<or> 2 ^ 31 \<le> x then Inl Out_Of_Range else Inr x)"

text \<open>the loop; an exception leaves the bytes written so far\<close>

fun key_loop :: "string \<Rightarrow> nat list \<Rightarrow> bytes \<Rightarrow> unit cpp \<times> bytes" where
  "key_loop h [] key = (Inr (), key)"
| "key_loop h (i # is) key =
     (case cpp_then (substr h (i * 2) 2) stoi16 of
        Inl e \<Rightarrow> (Inl e, key)
      | Inr x \<Rightarrow> key_loop h is (key[i := of_int x]))"

definition aes_setKey :: "string \<Rightarrow> aes256 \<Rightarrow> unit cpp \<times> aes256" where
  "aes_setKey keyMaterial a =
     (let h = sha1_double keyMaterial
      in case key_loop h [0..<32] (aes_key a) of
           (Inl e, key) \<Rightarrow> (Inl e, a\<lparr>aes_key := key\<rparr>)
         | (Inr _, key) \<Rightarrow> (Inr (), a\<lparr>aes_key := key, aes_initialized := True\<rparr>))"

text \<open>the constructor from a key: when setKey throws there is no object\<close>

definition aes_of_key :: "string \<Rightarrow> aes256 cpp" where
  "aes_of_key keyMaterial =
     (case aes_setKey keyMaterial \<lparr>aes_key = replicate 32 0, aes_initialized = True\<rparr> of
        (Inl e, _) \<Rightarrow> Inl e
      | (Inr _, a) \<Rightarrow> Inr a)"

section \<open>Rounds\<close>

definition p2p_subBytes :: "bytes \<Rightarrow> bytes" where
  "p2p_subBytes st = map (\<lambda>b. p2p_sbox ! unat b) st"

definition p2p_invSubBytes :: "bytes \<Rightarrow> bytes" where
  "p2p_invSubBytes st = map (\<lambda>b. p2p_invSbox ! unat b) st"

definition p2p_shiftRows :: "bytes \<Rightarrow> bytes" where
  "p2p_shiftRows st = map (\<lambda>i. st ! i) [0, 5, 10, 15, 4, 9, 14, 3, 8, 13, 2, 7, 12, 1, 6, 11]"

definition p2p_invShiftRows :: "bytes \<Rightarrow> bytes" where
  "p2p_invShiftRows st = map (\<lambda>i. st ! i) [0, 13, 10, 7, 4, 1, 14, 11, 8, 5, 2, 15, 12, 9, 6, 3]"

text \<open>shifted without the reduction of the field\<close>

definition mix_column :: "u8 \<Rightarrow> u8 \<Rightarrow> u8 \<Rightarrow> u8 \<Rightarrow> bytes" where
  "mix_column a b c d =
     [push_bit 1 a XOR push_bit 1 b XOR b XOR c XOR d,
      a XOR push_bit 1 b XOR push_bit 1 c XOR c XOR d,
      a XOR b XOR push_bit 1 c XOR push_bit 1 d XOR d,
      push_bit 1 a XOR a XOR b XOR c XOR push_bit 1 d]"

definition inv_mix_column :: "u8 \<Rightarrow> u8 \<Rightarrow> u8 \<Rightarrow> u8 \<Rightarrow> bytes" where
  "inv_mix_column a b c d =
     [push_bit 1 a XOR push_bit 2 a XOR push_bit 3 a XOR b XOR push_bit 3 b XOR c XOR push_bit 1 c XOR d XOR push_bit 2 d,
      a XOR push_bit 3 a XOR b XOR push_bit 1 b XOR push_bit 2 b XOR c XOR push_bit 3 c XOR d XOR push_bit 1 d,
      a XOR push_bit 1 a XOR b XOR push_bit 3 b XOR c XOR push_bit 1 c XOR push_bit 2 c XOR d XOR push_bit 3 d,
      a XOR push_bit 2 a XOR b XOR push_bit 1 b XOR c XOR push_bit 2 c XOR push_bit 3 c XOR d XOR push_bit 1 d XOR push_bit 3 d]"

definition on_columns :: "(u8 \<Rightarrow> u8 \<Rightarrow> u8 \<Rightarrow> u8 \<Rightarrow> bytes) \<Rightarrow> bytes \<Rightarrow> bytes" where
  "on_columns f st = concat (map (\<lambda>i. f (st ! (i * 4)) (st ! (i * 4 + 1)) (st ! (i * 4 + 2)) (st ! (i * 4 + 3))) [0..<4])"

definition p2p_mixColumns :: "bytes \<Rightarrow> bytes" where
  "p2p_mixColumns st = on_columns mix_column st"

definition p2p_invMixColumns :: "bytes \<Rightarrow> bytes" where
  "p2p_invMixColumns st = on_columns inv_mix_column st"

text \<open>
  The array of round keys has 176 bytes; a round key behind its end is a fault.
\<close>

definition p2p_addRoundKey :: "bytes \<Rightarrow> nat \<Rightarrow> bytes \<Rightarrow> bytes cpp" where
  "p2p_addRoundKey expandedKey r st =
     (if length expandedKey < r * 16 + 16 then Inl Bad_Index
      else Inr (map (\<lambda>(a, b). a XOR b) (zip st (take 16 (drop (r * 16) expandedKey)))))"

text \<open>the bytes generated so far\<close>

function p2p_expand_loop :: "bytes \<Rightarrow> nat \<Rightarrow> bytes" where
  "p2p_expand_loop ek rconIter =
     (if length ek < 176
      then let n = length ek;
               temp = drop (n - 4) ek;
               (temp, rconIter) =
                 (if n mod 32 = 0
                  then let t = map (\<lambda>i. p2p_sbox ! unat (temp ! i)) [1, 2, 3, 0]
                       in (t[0 := t ! 0 XOR p2p_rcon ! rconIter], rconIter + 1)
                  else if n mod 32 = 16 then (map (\<lambda>b. p2p_sbox ! unat b) temp, rconIter)
                  else (temp, rconIter))
           in p2p_expand_loop (ek @ map (\<lambda>i. ek ! (n - 32 + i) XOR temp ! i) [0..<4]) rconIter
      else ek)"
  by pat_completeness auto
termination by (relation "measure (\<lambda>(ek, rconIter). 176 - length ek)") auto

declare p2p_expand_loop.simps [simp del]

definition p2p_expandKey :: "aes256 \<Rightarrow> bytes" where
  "p2p_expandKey a = p2p_expand_loop (aes_key a) 1"

fun enc_rounds :: "bytes \<Rightarrow> nat list \<Rightarrow> bytes \<Rightarrow> bytes cpp" where
  "enc_rounds ek [] st = Inr st"
| "enc_rounds ek (r # rs) st =
     cpp_then (p2p_addRoundKey ek r (p2p_mixColumns (p2p_shiftRows (p2p_subBytes st)))) (enc_rounds ek rs)"

definition p2p_encrypt_block :: "bytes \<Rightarrow> bytes \<Rightarrow> bytes cpp" where
  "p2p_encrypt_block ek st =
     cpp_then (p2p_addRoundKey ek 0 st) (\<lambda>st.
     cpp_then (enc_rounds ek [1..<14] st) (\<lambda>st.
     p2p_addRoundKey ek 14 (p2p_shiftRows (p2p_subBytes st))))"

fun dec_rounds :: "bytes \<Rightarrow> nat list \<Rightarrow> bytes \<Rightarrow> bytes cpp" where
  "dec_rounds ek [] st = Inr st"
| "dec_rounds ek (r # rs) st =
     cpp_then (p2p_addRoundKey ek r st) (\<lambda>st. dec_rounds ek rs (p2p_invSubBytes (p2p_invShiftRows (p2p_invMixColumns st))))"

definition p2p_decrypt_block :: "bytes \<Rightarrow> bytes \<Rightarrow> bytes cpp" where
  "p2p_decrypt_block ek st =
     cpp_then (p2p_addRoundKey ek 14 st) (\<lambda>st.
     cpp_then (dec_rounds ek (rev [1..<14]) (p2p_invSubBytes (p2p_invShiftRows st))) (\<lambda>st.
     p2p_addRoundKey ek 0 st))"

section \<open>Messages\<close>

text \<open>blocks of 16 bytes, the last filled up with zeros and cut off again\<close>

function on_blocks :: "(bytes \<Rightarrow> bytes cpp) \<Rightarrow> bytes \<Rightarrow> bytes cpp" where
  "on_blocks f data =
     (if data = [] then Inr []
      else let block = take 16 data
           in cpp_then (f (block @ replicate (16 - length block) 0)) (\<lambda>out.
              cpp_then (on_blocks f (drop 16 data)) (\<lambda>rest. Inr (take (length block) out @ rest))))"
  by pat_completeness auto
termination by (relation "measure (\<lambda>(f, data). length data)") auto

declare on_blocks.simps [simp del]

definition bytes_str :: "bytes \<Rightarrow> string" where
  "bytes_str b = map (\<lambda>x. char_of (unat x)) b"

definition encryptECB :: "string \<Rightarrow> aes256 \<Rightarrow> string cpp" where
  "encryptECB plain a =
     (if \<not> aes_initialized a then Inr []
      else cpp_then (on_blocks (p2p_encrypt_block (p2p_expandKey a)) (str_bytes plain)) (\<lambda>c. Inr (bytes_str c)))"

definition decryptECB :: "string \<Rightarrow> aes256 \<Rightarrow> string cpp" where
  "decryptECB cipher a =
     (if \<not> aes_initialized a then Inr []
      else cpp_then (on_blocks (p2p_decrypt_block (p2p_expandKey a)) (str_bytes cipher)) (\<lambda>p. Inr (bytes_str p)))"

text \<open>iv: the twelve random bytes\<close>

definition encryptGCM :: "string \<Rightarrow> string \<Rightarrow> aes256 \<Rightarrow> string cpp" where
  "encryptGCM plain iv a =
     (if \<not> aes_initialized a then Inr []
      else cpp_then (encryptECB plain a) (\<lambda>cipher. Inr (iv @ cipher @ take 16 (sha1 (iv @ cipher)))))"

definition decryptGCM :: "string \<Rightarrow> aes256 \<Rightarrow> string cpp" where
  "decryptGCM cipher a =
     (if \<not> aes_initialized a \<or> length cipher < 28 then Inr []
      else let iv = take 12 cipher;
               ct = take (length cipher - 28) (drop 12 cipher);
               expectedTag = drop (length cipher - 16) cipher;
               computedTag = take 16 (sha1 (iv @ ct))
           in if expectedTag \<noteq> computedTag then Inr [] else decryptECB ct a)"

section \<open>No key can be set\<close>

lemma stoi16_digits:
  assumes "set s \<subseteq> hex_digit ` {..<16}" "length s = 2"
  shows "\<exists>x. stoi16 s = Inr x"
proof -
  have "s \<noteq> []" using assms(2) by auto
  let ?ds = "map (\<lambda>c. the (digit_value 16 c)) s"
  have "\<forall>d\<in>set ?ds. d < 16" using hex_digit_char(1) assms(1) digit_value_less by fastforce
  then have "digits_value 16 ?ds < 16 ^ length ?ds" by (rule digits_value_bound)
  then have "digits_value 16 ?ds < 2 ^ 31" using assms(2) by simp
  then show ?thesis using strto_hex_digits [OF assms(1) \<open>s \<noteq> []\<close>] by (simp add: stoi16_def)
qed

lemma key_loop_append:
  "\<forall>i\<in>set is. \<exists>x. cpp_then (substr h (i * 2) 2) stoi16 = Inr x \<Longrightarrow> \<exists>key'. key_loop h (is @ js) key = key_loop h js key'"
  by (induction "is" arbitrary: key) auto

lemma key_loop_throws:
  assumes "set h \<subseteq> hex_digit ` {..<16}" "length h = 40"
  shows "\<exists>key'. key_loop h [0..<32] key = (Inl Invalid_Argument, key')"
proof -
  have "\<exists>x. cpp_then (substr h (i * 2) 2) stoi16 = Inr x" if "i \<in> set [0..<20]" for i
  proof -
    have "set (take 2 (drop (i * 2) h)) \<subseteq> hex_digit ` {..<16}" using assms(1) by (meson set_drop_subset set_take_subset subset_trans)
    moreover have "length (take 2 (drop (i * 2) h)) = 2" using that assms(2) by simp
    ultimately show ?thesis using that assms(2) stoi16_digits by (simp add: substr_def)
  qed
  then obtain key' where "key_loop h ([0..<20] @ [20..<32]) key = key_loop h [20..<32] key'"
    using key_loop_append [of "[0..<20]" h] by blast
  moreover have "[0..<20] @ [20..<32] = [0..<32::nat]" "[20..<32] = 20 # [21..<32::nat]"
    using upt_add_eq_append [of 0 20 12] by (simp_all add: upt_conv_Cons)
  moreover have "cpp_then (substr h (20 * 2) 2) stoi16 = Inl Invalid_Argument"
    using assms(2) by (simp add: substr_def stoi16_def strto_hex_def skip_space_def take_sign_def)
  ultimately show ?thesis by (auto simp del: upt_Suc)
qed

lemma set_sha1_double: "set (sha1_double s) \<subseteq> hex_digit ` {..<16}"
  unfolding sha1_double_def by (rule set_sha1)

lemma aes_setKey_throws: "\<exists>key. aes_setKey k a = (Inl Invalid_Argument, a\<lparr>aes_key := key\<rparr>)"
proof -
  obtain key where "key_loop (sha1_double k) [0..<32] (aes_key a) = (Inl Invalid_Argument, key)"
    using key_loop_throws [OF set_sha1_double] by fastforce
  then show ?thesis by (intro exI [of _ key]) (simp add: aes_setKey_def del: upt_Suc)
qed

lemma aes_of_key_throws: "aes_of_key k = Inl Invalid_Argument"
  using aes_setKey_throws [of k "\<lparr>aes_key = replicate 32 0, aes_initialized = True\<rparr>"] by (auto simp: aes_of_key_def)

inductive aes_made :: "aes256 \<Rightarrow> bool" where
  "aes_made aes_new"
| "aes_of_key k = Inr a \<Longrightarrow> aes_made a"
| "aes_made a \<Longrightarrow> aes_setKey k a = (r, a') \<Longrightarrow> aes_made a'"

lemma aes_made_uninitialized: "aes_made a \<Longrightarrow> \<not> aes_initialized a"
proof (induction rule: aes_made.induct)
  case (3 a k r a')
  then show ?case using aes_setKey_throws [of k a] by auto
qed (simp_all add: aes_new_def aes_of_key_throws)

lemma length_expand_loop:
  "4 dvd length ek \<Longrightarrow> length ek \<le> 176 \<Longrightarrow> length (p2p_expand_loop ek c) = 176"
proof (induction ek c rule: p2p_expand_loop.induct)
  case (1 ek c)
  show ?case
  proof (cases "length ek < 176")
    case True
    moreover obtain j where "length ek = 4 * j" using 1(2) by (auto elim: dvdE)
    ultimately have "length ek + 4 \<le> 176" "4 dvd length ek + 4" by auto
    then show ?thesis using 1(1) [OF True] True
      by (subst p2p_expand_loop.simps) (auto simp: Let_def split_def)
  next
    case False
    then show ?thesis using 1(3) by (subst p2p_expand_loop.simps) simp
  qed
qed

lemma aes_block_faults:
  assumes "length ek = 176"
  shows "p2p_encrypt_block ek st = Inl Bad_Index" "p2p_decrypt_block ek st = Inl Bad_Index"
proof -
  have "[1..<14] = [1..<11] @ 11 # [12..<14::nat]" by (simp add: upt_rec)
  moreover have "enc_rounds ek (rs @ 11 # rs') st = Inl Bad_Index" if "\<forall>r\<in>set rs. r < 11" for rs rs' st
    using that by (induction rs arbitrary: st) (auto simp: assms p2p_addRoundKey_def)
  ultimately show "p2p_encrypt_block ek st = Inl Bad_Index"
    using assms by (simp add: p2p_encrypt_block_def p2p_addRoundKey_def)
  show "p2p_decrypt_block ek st = Inl Bad_Index" using assms by (simp add: p2p_decrypt_block_def p2p_addRoundKey_def)
qed

lemma on_blocks_faults: "data \<noteq> [] \<Longrightarrow> (\<And>b. f b = Inl e) \<Longrightarrow> on_blocks f data = Inl e"
  by (simp add: on_blocks.simps [of f data] Let_def)

text \<open>
  No key can be set: the hash it is made of has 40 digits, enough for 20 of the 32 bytes,
  and parsing the next throws. So no object of the class is ever initialized, none is made
  from a key, and encryption and decryption return the empty string. Were an object
  initialized, every block would read round keys behind the end of their array.
\<close>

theorem aes_never_encrypts:
  "fst (aes_setKey k a) = Inl Invalid_Argument \<and> aes_of_key k = Inl Invalid_Argument \<and>
   (aes_made a \<longrightarrow> encryptGCM plain iv a = Inr [] \<and> decryptGCM cipher a = Inr []) \<and>
   (aes_initialized a \<longrightarrow> length (aes_key a) = 32 \<longrightarrow> plain \<noteq> [] \<longrightarrow>
      encryptECB plain a = Inl Bad_Index \<and> decryptECB plain a = Inl Bad_Index)"
proof (intro conjI impI)
  show "fst (aes_setKey k a) = Inl Invalid_Argument" using aes_setKey_throws [of k a] by auto
  show "aes_of_key k = Inl Invalid_Argument" by (rule aes_of_key_throws)
  show "encryptGCM plain iv a = Inr []" "decryptGCM cipher a = Inr []" if "aes_made a"
    using aes_made_uninitialized [OF that] by (simp_all add: encryptGCM_def decryptGCM_def)
  assume a: "aes_initialized a" "length (aes_key a) = 32" "plain \<noteq> []"
  then have "length (p2p_expandKey a) = 176" by (simp add: p2p_expandKey_def length_expand_loop)
  then show "encryptECB plain a = Inl Bad_Index" "decryptECB plain a = Inl Bad_Index"
    using a by (simp_all add: encryptECB_def decryptECB_def on_blocks_faults aes_block_faults str_bytes_def)
qed

lemma aes_never_encrypts_witness:
  "encryptGCM ''pay'' ''iv'' aes_new = Inr [] \<and>
   encryptECB ''pay'' (aes_new\<lparr>aes_initialized := True\<rparr>) = Inl Bad_Index"
  using aes_never_encrypts [of "''k''" aes_new "''pay''" "''iv''" "''x''"]
    aes_never_encrypts [of "''k''" "aes_new\<lparr>aes_initialized := True\<rparr>" "''pay''" "''iv''" "''x''"] aes_made.intros(1)
  by (simp add: aes_new_def)

section \<open>The round functions\<close>

lemma zeros: "replicate 15 (0::u8) = [0, 0, 0, 0, 0, 0, 0, 0, 0, 0, 0, 0, 0, 0, 0]"
  "replicate 12 (0::u8) = [0, 0, 0, 0, 0, 0, 0, 0, 0, 0, 0, 0]"
  by (simp_all add: numeral_nat)

text \<open>
  The tables are those of the library, hence of FIPS 197, and the row shifts are inverse
  to each other; the column mixing shifts without the reduction of the field, and its inverse
  does not undo it.
\<close>

theorem p2p_round_functions:
  "p2p_sbox = bank_sbox \<and> p2p_invSbox = bank_inv_sbox \<and>
   (length st = 16 \<longrightarrow> p2p_invShiftRows (p2p_shiftRows st) = st \<and> p2p_invSubBytes (p2p_subBytes st) = st) \<and>
   p2p_mixColumns (0x80 # replicate 15 0) = 0 # 0x80 # 0x80 # 0x80 # replicate 12 0 \<and>
   p2p_invMixColumns (p2p_mixColumns (1 # replicate 15 0)) \<noteq> 1 # replicate 15 0"
proof (intro conjI impI)
  show b: "p2p_sbox = bank_sbox" by (simp add: p2p_sbox_def bank_sbox_def)
  show i: "p2p_invSbox = bank_inv_sbox" by (simp add: p2p_invSbox_def bank_inv_sbox_def)
  show "p2p_invShiftRows (p2p_shiftRows st) = st" if "length st = 16"
    using that by (intro nth_equalityI) (auto simp: p2p_invShiftRows_def p2p_shiftRows_def nth_Cons' less_Suc_eq numeral_nat)
  show "p2p_invSubBytes (p2p_subBytes st) = st"
    by (simp add: p2p_invSubBytes_def p2p_subBytes_def b i inv_sbox_sbox comp_def)
qed (simp_all add: p2p_mixColumns_def p2p_invMixColumns_def on_columns_def mix_column_def inv_mix_column_def upt_rec zeros)

lemma p2p_round_functions_witness:
  "p2p_invShiftRows (p2p_shiftRows (replicate 15 7 @ [9])) = replicate 15 7 @ [9]"
  using p2p_round_functions [of "replicate 15 7 @ [9]"] by simp

section \<open>The network\<close>

text \<open>\<open>sendTo\<close>: the bytes given to send\<close>

definition net_sendTo :: "string \<Rightarrow> string \<Rightarrow> string \<Rightarrow> string cpp" where
  "net_sendTo cryptoKey msg iv =
     cpp_then (aes_of_key cryptoKey) (\<lambda>aes.
     cpp_then (encryptGCM msg iv aes) (\<lambda>encrypted. Inr (encodeBinary encrypted)))"

text \<open>
  One round of \<open>handlePeer\<close> on the bytes received: the buffer ends at the first zero byte, and
  the message goes to the handler unless it is empty. An exception leaves the thread.
\<close>

definition net_receive :: "string \<Rightarrow> string \<Rightarrow> string option cpp" where
  "net_receive cryptoKey buffer =
     cpp_then (aes_of_key cryptoKey) (\<lambda>aes.
     cpp_then (decryptGCM (decodeTernary (takeWhile (\<lambda>c. of_char c \<noteq> (0::nat)) buffer)) aes) (\<lambda>decrypted.
     Inr (if decrypted = [] then None else Some decrypted)))"

section \<open>The crypto manager and the encryption layer\<close>

record crypto_manager =
  cm_aes :: aes256
  cm_ecc :: ecc
  cm_qrs :: quantum
  cm_sessionKeys :: "(string, string) std_map"
  cm_peerPublicKeys :: "(string, u64) std_map"
  cm_nodeId :: string

definition cm_new :: "string \<Rightarrow> u64 \<Rightarrow> (nat \<Rightarrow> string) \<Rightarrow> crypto_manager" where
  "cm_new nodeId rnd leaf = \<lparr>cm_aes = aes_new, cm_ecc = generateNewKey rnd, cm_qrs = qs_new 12 leaf,
     cm_sessionKeys = [], cm_peerPublicKeys = [], cm_nodeId = nodeId\<rparr>"

definition cm_initialize :: "crypto_manager \<Rightarrow> bool cpp \<times> crypto_manager" where
  "cm_initialize c =
     (let masterKey = sha1_double (cm_nodeId c @ ''MASTER_KEY'')
      in case aes_setKey masterKey (cm_aes c) of
           (Inl e, a) \<Rightarrow> (Inl e, c\<lparr>cm_aes := a\<rparr>)
         | (Inr _, a) \<Rightarrow> (Inr (aes_initialized a), c\<lparr>cm_aes := a\<rparr>))"

definition encryptMessage :: "string \<Rightarrow> string \<Rightarrow> string \<Rightarrow> crypto_manager \<Rightarrow> string cpp" where
  "encryptMessage message peerId iv c =
     (case map_of (cm_sessionKeys c) peerId of
        None \<Rightarrow> Inr []
      | Some key \<Rightarrow> cpp_then (aes_of_key key) (encryptGCM message iv))"

definition decryptMessage :: "string \<Rightarrow> string \<Rightarrow> crypto_manager \<Rightarrow> string cpp" where
  "decryptMessage ciphertext peerId c =
     (case map_of (cm_sessionKeys c) peerId of
        None \<Rightarrow> Inr []
      | Some key \<Rightarrow> cpp_then (aes_of_key key) (decryptGCM ciphertext))"

text \<open>two numbers in hexadecimal, a colon between them\<close>

definition write_signature :: "u64 \<times> u64 \<Rightarrow> string" where
  "write_signature sig = hex_u64 (fst sig) @ '':'' @ hex_u64 (snd sig)"

definition check_signature :: "string \<Rightarrow> string \<Rightarrow> u64 \<Rightarrow> bool cpp" where
  "check_signature message signature publicKey =
     (if CHR '':'' \<notin> set signature then Inr False
      else cpp_then (stoull16 (takeWhile (\<lambda>c. c \<noteq> CHR '':'') signature)) (\<lambda>r1.
           cpp_then (stoull16 (tl (dropWhile (\<lambda>c. c \<noteq> CHR '':'') signature))) (\<lambda>s.
           ecc_verify message r1 s publicKey)))"

definition signMessage :: "string \<Rightarrow> u64 \<Rightarrow> crypto_manager \<Rightarrow> string cpp" where
  "signMessage message rnd c = cpp_then (ecc_sign message rnd (cm_ecc c)) (\<lambda>sig. Inr (write_signature sig))"

definition cm_verifySignature :: "string \<Rightarrow> string \<Rightarrow> string \<Rightarrow> crypto_manager \<Rightarrow> bool cpp" where
  "cm_verifySignature message signature peerId c =
     (case map_of (cm_peerPublicKeys c) peerId of
        None \<Rightarrow> Inr False
      | Some publicKey \<Rightarrow> check_signature message signature publicKey)"

definition establishSessionKey :: "string \<Rightarrow> u64 \<Rightarrow> crypto_manager \<Rightarrow> crypto_manager" where
  "establishSessionKey peerId peerPublicKey c =
     c\<lparr>cm_peerPublicKeys := map_put peerId peerPublicKey (cm_peerPublicKeys c),
       cm_sessionKeys := map_put peerId (deriveSessionKey (computeSharedSecret (cm_ecc c) peerPublicKey)) (cm_sessionKeys c)\<rparr>"

definition quantumSign :: "string \<Rightarrow> int \<Rightarrow> crypto_manager \<Rightarrow> (string \<times> crypto_manager) cpp" where
  "quantumSign msg leafIdx c = cpp_then (qs_sign msg leafIdx (cm_qrs c)) (\<lambda>(sig, q). Inr (sig, c\<lparr>cm_qrs := q\<rparr>))"

definition quantumVerify :: "string \<Rightarrow> string \<Rightarrow> int \<Rightarrow> crypto_manager \<Rightarrow> bool cpp" where
  "quantumVerify msg sig leafIdx c = qs_verify msg sig leafIdx (cm_qrs c)"

record encryption_layer =
  el_aes :: aes256
  el_ecc :: ecc
  el_sessionKeys :: "(string, string) std_map"
  el_nodeId :: string

definition el_new :: "string \<Rightarrow> u64 \<Rightarrow> encryption_layer" where
  "el_new nodeId rnd = \<lparr>el_aes = aes_new, el_ecc = generateNewKey rnd, el_sessionKeys = [], el_nodeId = nodeId\<rparr>"

text \<open>a new key pair replaces the first, when setting the key has not thrown before\<close>

definition el_initialize :: "string \<Rightarrow> u64 \<Rightarrow> encryption_layer \<Rightarrow> bool cpp \<times> encryption_layer" where
  "el_initialize masterKey rnd l =
     (case aes_setKey masterKey (el_aes l) of
        (Inl e, a) \<Rightarrow> (Inl e, l\<lparr>el_aes := a\<rparr>)
      | (Inr _, a) \<Rightarrow> (Inr (aes_initialized a), l\<lparr>el_aes := a, el_ecc := generateNewKey rnd\<rparr>))"

definition encryptForPeer :: "string \<Rightarrow> string \<Rightarrow> string \<Rightarrow> encryption_layer \<Rightarrow> string cpp" where
  "encryptForPeer peerId plaintext iv l =
     (case map_of (el_sessionKeys l) peerId of
        None \<Rightarrow> Inr []
      | Some key \<Rightarrow> cpp_then (aes_of_key key) (encryptGCM plaintext iv))"

definition decryptFromPeer :: "string \<Rightarrow> string \<Rightarrow> encryption_layer \<Rightarrow> string cpp" where
  "decryptFromPeer peerId ciphertext l =
     (case map_of (el_sessionKeys l) peerId of
        None \<Rightarrow> Inr []
      | Some key \<Rightarrow> cpp_then (aes_of_key key) (decryptGCM ciphertext))"

definition establishPeerSession :: "string \<Rightarrow> u64 \<Rightarrow> encryption_layer \<Rightarrow> encryption_layer" where
  "establishPeerSession peerId peerPublicKey l =
     l\<lparr>el_sessionKeys := map_put peerId (deriveSessionKey (computeSharedSecret (el_ecc l) peerPublicKey)) (el_sessionKeys l)\<rparr>"

definition signData :: "string \<Rightarrow> u64 \<Rightarrow> encryption_layer \<Rightarrow> string cpp" where
  "signData data rnd l = cpp_then (ecc_sign data rnd (el_ecc l)) (\<lambda>sig. Inr (write_signature sig))"

definition el_verifySignature :: "string \<Rightarrow> string \<Rightarrow> u64 \<Rightarrow> bool cpp" where
  "el_verifySignature data signature publicKey = check_signature data signature publicKey"

section \<open>Key rotation\<close>

record key_rotator =
  kr_currentKey :: string
  kr_previousKey :: string
  kr_lastRotation :: u64
  kr_rotationInterval :: u64

definition kr_new :: "u64 \<Rightarrow> u64 \<Rightarrow> u64 \<Rightarrow> key_rotator" where
  "kr_new intervalMs t1 t2 = \<lparr>kr_currentKey = sha1_double (dec_u64 t2), kr_previousKey = [], kr_lastRotation = t1,
     kr_rotationInterval = intervalMs\<rparr>"

definition rotateKey :: "u64 \<Rightarrow> u64 \<Rightarrow> key_rotator \<Rightarrow> key_rotator" where
  "rotateKey t1 t2 k = k\<lparr>kr_previousKey := kr_currentKey k, kr_currentKey := sha1_double (kr_currentKey k @ dec_u64 t1),
     kr_lastRotation := t2\<rparr>"

definition shouldRotate :: "u64 \<Rightarrow> key_rotator \<Rightarrow> bool" where
  "shouldRotate now k \<longleftrightarrow> kr_rotationInterval k \<le> now - kr_lastRotation k"

definition timeUntilRotation :: "u64 \<Rightarrow> key_rotator \<Rightarrow> u64" where
  "timeUntilRotation now k =
     (let elapsed = now - kr_lastRotation k
      in if kr_rotationInterval k \<le> elapsed then 0 else kr_rotationInterval k - elapsed)"

text \<open>
  C28: Nothing built on the cipher gets a message through: sending and receiving throw for every
  key and every message, so the first bytes of any peer end the receiving thread, and with
  it the process; the initialization of the crypto manager and of the encryption layer
  throws; and a message for a peer is empty without a session and throws with one. A peer
  with a known public key ends the process with a signature in range of even second half.
\<close>

theorem nothing_is_sent:
  "net_sendTo key msg iv = Inl Invalid_Argument \<and> net_receive key buffer = Inl Invalid_Argument \<and>
   fst (cm_initialize c) = Inl Invalid_Argument \<and> fst (el_initialize key rnd l) = Inl Invalid_Argument \<and>
   encryptMessage msg peer iv c = (if map_of (cm_sessionKeys c) peer = None then Inr [] else Inl Invalid_Argument) \<and>
   decryptMessage msg peer c = (if map_of (cm_sessionKeys c) peer = None then Inr [] else Inl Invalid_Argument) \<and>
   encryptForPeer peer msg iv l = (if map_of (el_sessionKeys l) peer = None then Inr [] else Inl Invalid_Argument) \<and>
   decryptFromPeer peer msg l = (if map_of (el_sessionKeys l) peer = None then Inr [] else Inl Invalid_Argument) \<and>
   (even s \<longrightarrow> s \<noteq> 0 \<longrightarrow> s < ecc_ORDER \<longrightarrow> r1 < ecc_PRIME \<longrightarrow> map_of (cm_peerPublicKeys c) peer \<noteq> None \<longrightarrow>
      cm_verifySignature msg (write_signature (r1, s)) peer c = Inl Div_Zero)"
proof (intro conjI impI)
  show "fst (cm_initialize c) = Inl Invalid_Argument"
    using aes_setKey_throws [of "sha1_double (cm_nodeId c @ ''MASTER_KEY'')" "cm_aes c"] by (auto simp: cm_initialize_def)
  show "fst (el_initialize key rnd l) = Inl Invalid_Argument"
    using aes_setKey_throws [of key "el_aes l"] by (auto simp: el_initialize_def)
  assume s: "even s" "s \<noteq> 0" "s < ecc_ORDER" "r1 < ecc_PRIME" "map_of (cm_peerPublicKeys c) peer \<noteq> None"
  then show "cm_verifySignature msg (write_signature (r1, s)) peer c = Inl Div_Zero"
    by (auto simp: cm_verifySignature_def check_signature_def write_signature_def takeWhile_field dropWhile_field
        hex_u64_chars even_signature_crashes)
qed (auto simp: net_sendTo_def net_receive_def encryptMessage_def decryptMessage_def encryptForPeer_def decryptFromPeer_def
    aes_of_key_throws split: option.split)

lemma nothing_is_sent_witness:
  "cm_verifySignature ''pay'' (write_signature (5, 2)) ''bob'' (establishSessionKey ''bob'' 25 (cm_new ''ann'' 7 (\<lambda>_. ''x''))) = Inl Div_Zero"
  using nothing_is_sent [of "''k''" "''pay''" "''iv''" "''b''" "establishSessionKey ''bob'' 25 (cm_new ''ann'' 7 (\<lambda>_. ''x''))" 3 "el_new ''ann'' 7" "''bob''" 2 5]
  by (simp add: establishSessionKey_def cm_new_def ecc_ORDER_def ecc_PRIME_def)

end
