(* ===== verification/P2p_Node.thy ===== *)
theory P2p_Node
  imports P2p_Codec P2p_Cipher
begin

text \<open>
  The bank node, \<open>banking/bank_node.cpp\<close>: the balances it keeps itself, beside the chain to
  which it adds a block for every transfer, and the broadcast of the transfer over the cipher of
  \<open>network/p2p_network.cpp\<close>. Both the constructor and a broadcast to a peer build a cipher from
  the key, which throws for every key: no node is ever made, and the lemmas on the operations
  speak of arbitrary states of a node. The log, the background threads and the sockets are left
  out; clock readings and random numbers are arguments.
\<close>

section \<open>The node\<close>

record node =
  nd_nodeId :: string
  nd_blockchain :: blockchain
  nd_hotBalances :: "(string, double) std_map"
  nd_userKeys :: "(string, string) std_map"
  nd_userHistory :: "(string, string list) std_map"
  nd_userCreditLimits :: "(string, double) std_map"
  nd_cryptoKey :: string
  nd_connectedPeers :: "(int, string) std_map"
  nd_running :: bool

text \<open>
  The constructor: the logger and the cipher of the node are both made from the key. What the
  remaining members start with is \<open>node_fields\<close>.
\<close>

definition node_fields :: "string \<Rightarrow> string \<Rightarrow> u64 \<Rightarrow> node" where
  "node_fields nodeId masterKey now = \<lparr>nd_nodeId = nodeId, nd_blockchain = bc_new now, nd_hotBalances = [], nd_userKeys = [],
     nd_userHistory = [], nd_userCreditLimits = [], nd_cryptoKey = masterKey, nd_connectedPeers = [], nd_running = True\<rparr>"

definition node_new :: "string \<Rightarrow> string \<Rightarrow> u64 \<Rightarrow> node cpp" where
  "node_new nodeId masterKey now =
     cpp_then (aes_of_key masterKey) (\<lambda>logger_aes.
     cpp_then (aes_of_key masterKey) (\<lambda>masterCrypto.
     Inr (node_fields nodeId masterKey now)))"

lemma node_never_made: "node_new nodeId masterKey now = Inl Invalid_Argument"
  by (simp add: node_new_def aes_of_key_throws)

text \<open>the socket is None when it cannot be opened or connected\<close>

definition connectToBank :: "string \<Rightarrow> int option \<Rightarrow> node \<Rightarrow> bool \<times> node" where
  "connectToBank peerId sock n =
     (case sock of None \<Rightarrow> (False, n)
      | Some s \<Rightarrow> (True, n\<lparr>nd_connectedPeers := map_put s peerId (nd_connectedPeers n)\<rparr>))"

definition node_initialize :: "node \<Rightarrow> bool \<times> node" where
  "node_initialize n =
     (let h = map_put ''CentralBank'' (Fin 10000000) (nd_hotBalances n);
          h = map_put ''Reserve'' (Fin 50000000) h;
          h = map_put ''Treasury'' (Fin 25000000) h
      in (True, n\<lparr>nd_hotBalances := h\<rparr>))"

definition registerUser :: "string \<Rightarrow> string \<Rightarrow> double \<Rightarrow> node \<Rightarrow> bool \<times> node" where
  "registerUser userId publicKey initialCredit n =
     (True, n\<lparr>nd_userKeys := map_put userId publicKey (nd_userKeys n),
              nd_hotBalances := map_put userId initialCredit (nd_hotBalances n),
              nd_userCreditLimits := map_put userId initialCredit (nd_userCreditLimits n)\<rparr>)"

text \<open>\<open>hot[a] -= x; hot[b] += x\<close>\<close>

definition move :: "string \<Rightarrow> string \<Rightarrow> double \<Rightarrow> (string, double) std_map \<Rightarrow> (string, double) std_map" where
  "move a b x hot = map_change (Fin 0) b (\<lambda>y. dbl_add y x) (map_change (Fin 0) a (\<lambda>y. dbl_sub y x) hot)"

definition depositToUser :: "string \<Rightarrow> double \<Rightarrow> node \<Rightarrow> bool \<times> node" where
  "depositToUser userId amount n =
     (let (have, hot) = map_index (Fin 0) ''CentralBank'' (nd_hotBalances n)
      in if dbl_le amount have then (True, n\<lparr>nd_hotBalances := move ''CentralBank'' userId amount hot\<rparr>)
         else (False, n\<lparr>nd_hotBalances := hot\<rparr>))"

text \<open>the signature covers the time at which the node checks it\<close>

definition node_validateTransaction :: "string \<Rightarrow> string \<Rightarrow> double \<Rightarrow> string \<Rightarrow> u64 \<Rightarrow> node \<Rightarrow> bool \<times> node" where
  "node_validateTransaction from to amount signature now n =
     (if from = [] \<or> to = [] then (False, n)
      else if dbl_le amount (Fin 0) then (False, n)
      else let (have, hot) = map_index (Fin 0) from (nd_hotBalances n);
               (credit, limits) = map_index (Fin 0) from (nd_userCreditLimits n);
               n = n\<lparr>nd_hotBalances := hot, nd_userCreditLimits := limits\<rparr>
           in if dbl_less (dbl_add have credit) amount then (False, n)
              else let txData = from @ to @ dec_double amount @ dec_u64 now;
                       (key, keys) = map_index [] from (nd_userKeys n);
                       n = n\<lparr>nd_userKeys := keys\<rparr>
                   in (sha1_hmac key txData = signature, n))"

text \<open>the bytes given to each peer\<close>

fun net_broadcast :: "string \<Rightarrow> (int, string) std_map \<Rightarrow> string \<Rightarrow> (int \<Rightarrow> string) \<Rightarrow> (int \<times> string) list cpp" where
  "net_broadcast cryptoKey [] message iv = Inr []"
| "net_broadcast cryptoKey ((sock, peer) # peers) message iv =
     cpp_then (net_sendTo cryptoKey message (iv sock)) (\<lambda>sent.
     cpp_then (net_broadcast cryptoKey peers message iv) (\<lambda>rest. Inr ((sock, sent) # rest)))"

record draws =
  dr_check :: u64
  dr_txTime :: u64
  dr_txRand :: u64
  dr_blockTime :: u64
  dr_mining :: "nat \<Rightarrow> u64"
  dr_iv :: "int \<Rightarrow> string"

text \<open>
  The result of addBlock is not looked at. An exception of the broadcast leaves the operation
  after balances, history and chain have been changed.
\<close>

definition processTransfer :: "string \<Rightarrow> string \<Rightarrow> double \<Rightarrow> string \<Rightarrow> draws \<Rightarrow> node \<Rightarrow> bool cpp \<times> node" where
  "processTransfer from to amount signature d n =
     (let (valid, n) = node_validateTransaction from to amount signature (dr_check d) n
      in if \<not> valid then (Inr False, n)
         else let n = n\<lparr>nd_hotBalances := move from to amount (nd_hotBalances n)\<rparr>;
                  n = n\<lparr>nd_userHistory := map_change [] from (\<lambda>l. l @ [''TX:'' @ to @ '':$'' @ dec_double amount]) (nd_userHistory n)\<rparr>;
                  n = n\<lparr>nd_userHistory := map_change [] to (\<lambda>l. l @ [''TX:'' @ from @ '':$'' @ dec_double amount]) (nd_userHistory n)\<rparr>;
                  (key, keys) = map_index [] from (nd_userKeys n);
                  t = createTransaction from to amount key (dr_txTime d) (dr_txRand d);
                  (added, chain) = addBlock (dr_mining d) (dr_blockTime d) [t] (nd_nodeId n) (nd_blockchain n);
                  n = n\<lparr>nd_userKeys := keys, nd_blockchain := chain\<rparr>
              in (cpp_then (net_broadcast (nd_cryptoKey n) (nd_connectedPeers n) (tx_serialize t) (dr_iv d)) (\<lambda>_. Inr True), n))"

definition withdrawFromUser :: "string \<Rightarrow> double \<Rightarrow> node \<Rightarrow> bool \<times> node" where
  "withdrawFromUser userId amount n =
     (let (have, hot) = map_index (Fin 0) userId (nd_hotBalances n)
      in if dbl_le amount have then (True, n\<lparr>nd_hotBalances := move userId ''CentralBank'' amount hot\<rparr>)
         else (False, n\<lparr>nd_hotBalances := hot\<rparr>))"

definition getUserBalance :: "string \<Rightarrow> node \<Rightarrow> double \<times> node" where
  "getUserBalance userId n = (let (x, m) = map_index (Fin 0) userId (nd_hotBalances n) in (x, n\<lparr>nd_hotBalances := m\<rparr>))"

definition getUserHistory :: "string \<Rightarrow> node \<Rightarrow> string list \<times> node" where
  "getUserHistory userId n = (let (x, m) = map_index [] userId (nd_userHistory n) in (x, n\<lparr>nd_userHistory := m\<rparr>))"

definition getUserCreditLimit :: "string \<Rightarrow> node \<Rightarrow> double \<times> node" where
  "getUserCreditLimit userId n =
     (let (x, m) = map_index (Fin 0) userId (nd_userCreditLimits n) in (x, n\<lparr>nd_userCreditLimits := m\<rparr>))"

definition setUserCreditLimit :: "string \<Rightarrow> double \<Rightarrow> node \<Rightarrow> bool \<times> node" where
  "setUserCreditLimit userId limit n = (True, n\<lparr>nd_userCreditLimits := map_put userId limit (nd_userCreditLimits n)\<rparr>)"

definition node_shutdown :: "node \<Rightarrow> node" where
  "node_shutdown n = n\<lparr>nd_running := False\<rparr>"

section \<open>Transfers\<close>

abbreviation hot :: "string \<Rightarrow> node \<Rightarrow> double" where
  "hot u n \<equiv> map_at (Fin 0) (nd_hotBalances n) u"

text \<open>a transfer is what its check allows, and the chain refuses every positive payment\<close>

lemma chain_refuses:
  assumes "dbl_less (Fin 0) x"
  shows "addBlock rng now [createTransaction f t x k i j] v (bc_new t0) = (False, bc_new t0)"
proof -
  have "\<not> validateTransactions (bc_balances (bc_new t0)) [createTransaction f t x k i j]"
    using assms by (intro positive_rejected) (simp_all add: bc_new_def)
  then show ?thesis by (simp add: addBlock_def)
qed

lemma validate_state:
  "nd_blockchain (snd (node_validateTransaction f t x sig now n)) = nd_blockchain n"
  "map_ok (nd_hotBalances n) \<Longrightarrow> map_ok (nd_hotBalances (snd (node_validateTransaction f t x sig now n)))"
  "map_ok (nd_userKeys n) \<Longrightarrow> map_ok (nd_userKeys (snd (node_validateTransaction f t x sig now n)))"
  "map_ok (nd_userCreditLimits n) \<Longrightarrow> map_ok (nd_userCreditLimits (snd (node_validateTransaction f t x sig now n)))"
  "map_ok (nd_hotBalances n) \<Longrightarrow> hot u (snd (node_validateTransaction f t x sig now n)) = hot u n"
  "fst (node_validateTransaction f t x sig now n) \<Longrightarrow> \<not> dbl_le x (Fin 0)"
  by (auto simp: node_validateTransaction_def split_def Let_def split: if_splits)

lemma sendTo_throws: "net_sendTo key msg iv = Inl Invalid_Argument"
  by (simp add: net_sendTo_def aes_of_key_throws)

lemma broadcast_throws: "net_broadcast key peers msg iv = (if peers = [] then Inr [] else Inl Invalid_Argument)"
  by (cases "(key, peers, msg, iv)" rule: net_broadcast.cases) (simp_all add: sendTo_throws)

lemma validate_peers: "nd_connectedPeers (snd (node_validateTransaction f t x sig now n)) = nd_connectedPeers n"
  by (auto simp: node_validateTransaction_def split_def Let_def)

lemma transfer_state:
  "fst (processTransfer f t x sig d n) =
     (if fst (node_validateTransaction f t x sig (dr_check d) n)
      then if nd_connectedPeers n = [] then Inr True else Inl Invalid_Argument else Inr False)"
  "fst (node_validateTransaction f t x sig (dr_check d) n) \<Longrightarrow> nd_hotBalances (snd (processTransfer f t x sig d n)) =
     move f t x (nd_hotBalances (snd (node_validateTransaction f t x sig (dr_check d) n)))"
  "\<not> fst (node_validateTransaction f t x sig (dr_check d) n) \<Longrightarrow>
     snd (processTransfer f t x sig d n) = snd (node_validateTransaction f t x sig (dr_check d) n)"
  by (cases "fst (node_validateTransaction f t x sig (dr_check d) n)";
      simp add: processTransfer_def split_def Let_def broadcast_throws validate_peers)+

lemma not_le_zero: "\<not> dbl_le x (Fin 0) \<Longrightarrow> x \<noteq> NaN \<Longrightarrow> dbl_less (Fin 0) x"
  by (cases x) (auto simp: dbl_le_def dbl_eq_def)

lemma transfer_chain:
  assumes "x \<noteq> NaN" "nd_blockchain n = bc_new t0"
  shows "nd_blockchain (snd (processTransfer f t x sig d n)) = bc_new t0"
proof (cases "fst (node_validateTransaction f t x sig (dr_check d) n)")
  case True
  then have "dbl_less (Fin 0) x" using validate_state(6) assms(1) not_le_zero by blast
  then show ?thesis using True assms(2) by (simp add: processTransfer_def split_def Let_def validate_state chain_refuses)
next
  case False
  then show ?thesis using assms(2) by (simp add: processTransfer_def split_def Let_def validate_state)
qed

lemma move_ok: "map_ok h \<Longrightarrow> map_ok (move a b x h)"
  by (simp add: move_def)

lemma hot_move:
  "map_ok h \<Longrightarrow> a \<noteq> b \<Longrightarrow> map_at (Fin 0) (move a b x h) u =
    (if u = a then dbl_sub (map_at (Fin 0) h a) x else if u = b then dbl_add (map_at (Fin 0) h b) x else map_at (Fin 0) h u)"
  by (simp add: move_def)

text \<open>
  A transfer of a node whose chain holds only the genesis block: when the check accepts, the
  balances are moved, with a peer connected or not, but the chain stays as it is; the caller
  sees an exception when a peer is connected.
\<close>

lemma transfer_not_recorded:
  assumes "map_ok (nd_hotBalances n)" "nd_blockchain n = bc_new t0" "x \<noteq> NaN" "f \<noteq> t"
    "fst (node_validateTransaction f t x sig (dr_check d) n)"
  shows "let n' = snd (processTransfer f t x sig d n)
    in hot f n' = dbl_sub (hot f n) x \<and> hot t n' = dbl_add (hot t n) x \<and> nd_blockchain n' = bc_new t0 \<and>
      fst (processTransfer f t x sig d n) = (if nd_connectedPeers n = [] then Inr True else Inl Invalid_Argument)"
proof -
  let ?v = "snd (node_validateTransaction f t x sig (dr_check d) n)"
  have "map_ok (nd_hotBalances ?v)" "hot u ?v = hot u n" for u
    using assms(1) by (simp_all add: validate_state)
  then show ?thesis using assms transfer_state [of f t x sig d n] transfer_chain [of x n t0 f t sig d]
    by (auto simp: Let_def hot_move)
qed

lemma registered_transfer:
  assumes "map_ok (nd_hotBalances n)" "map_ok (nd_userKeys n)" "map_ok (nd_userCreditLimits n)"
    "u \<noteq> []" "t \<noteq> []" "0 < a" "a \<le> 2 * c" "2 * c < 2 ^ 53"
  shows "fst (node_validateTransaction u t (dbl_int a) (sha1_hmac k (u @ t @ dec_double (dbl_int a) @ dec_u64 now)) now
    (snd (registerUser u k (dbl_int c) n)))"
proof -
  have "dbl_add (dbl_int c) (dbl_int c) = dbl_int (2 * c)" using assms(6-8) by (simp add: dbl_add_int)
  then show ?thesis using assms
    by (simp add: node_validateTransaction_def registerUser_def split_def Let_def dbl_int_0)
qed

section \<open>Where the money goes\<close>

definition int_map :: "(string, int) std_map \<Rightarrow> (string, double) std_map" where
  "int_map h = map (\<lambda>(k, i). (k, dbl_int i)) h"

definition total :: "(string, int) std_map \<Rightarrow> int" where
  "total h = sum_list (map snd h)"

lemma int_map_simps [simp]:
  "map_of (int_map h) k = map_option dbl_int (map_of h k)" "map_ok (int_map h) \<longleftrightarrow> map_ok h"
  "map_put k (dbl_int i) (int_map h) = int_map (map_put k i h)" "map_at (Fin 0) (int_map h) k = dbl_int (map_at 0 h k)"
proof -
  show m: "map_of (int_map h) k = map_option dbl_int (map_of h k)" by (induction h) (auto simp: int_map_def)
  then show "map_at (Fin 0) (int_map h) k = dbl_int (map_at 0 h k)"
    by (simp add: map_at_def dbl_int_0 split: option.split)
  have "map fst (int_map h) = map fst h" by (simp add: int_map_def split_def comp_def)
  then show "map_ok (int_map h) \<longleftrightarrow> map_ok h" by (simp add: map_ok_def)
  show "map_put k (dbl_int i) (int_map h) = int_map (map_put k i h)"
    by (induction k i h rule: map_put.induct) (auto simp: int_map_def)
qed

lemma total_put: "map_ok h \<Longrightarrow> total (map_put k i h) = total h - map_at 0 h k + i"
proof (induction k i h rule: map_put.induct)
  case (2 k v k' v' m)
  have "map_of m k = None" if "k < k'" using 2(2) that by (auto simp: map_of_eq_None_iff)
  moreover have "map_of m k = None" if "k = k'" using 2(2) that by (auto simp: map_of_eq_None_iff)
  ultimately show ?case using 2 by (auto simp: total_def map_at_def)
qed (simp add: total_def map_at_def)

lemma index_int:
  "map_index (Fin 0) k (int_map h) = (dbl_int (map_at 0 h k), int_map (snd (map_index 0 k h)))"
  by (simp add: map_index_def map_at_def dbl_int_0 split: option.split)

lemma total_index: "map_ok h \<Longrightarrow> total (snd (map_index 0 k h)) = total h"
  by (simp add: map_index_def total_put map_at_def split: option.split)

definition small :: "int \<Rightarrow> (string, int) std_map \<Rightarrow> bool" where
  "small x h \<longleftrightarrow> (\<forall>k. \<bar>map_at 0 h k\<bar> + \<bar>x\<bar> < 2 ^ 53)"

lemma move_int:
  assumes "map_ok h" "small x h"
  shows "\<exists>h'. move a b (dbl_int x) (int_map h) = int_map h' \<and> map_ok h' \<and> total h' = total h \<and>
    (\<forall>u. map_at 0 h' u = map_at 0 h u - (if u = a then x else 0) + (if u = b then x else 0))"
proof -
  let ?h = "map_put a (map_at 0 h a - x) h"
  have s: "\<bar>map_at 0 h k\<bar> + \<bar>x\<bar> < 2 ^ 53" for k using assms(2) by (simp add: small_def)
  have "\<bar>map_at 0 h a - x\<bar> < 2 ^ 53" using s [of a] by linarith
  then have 1: "map_change (Fin 0) a (\<lambda>y. dbl_sub y (dbl_int x)) (int_map h) = int_map ?h"
    by (simp add: map_change_def map_at_def [symmetric] dbl_sub_int flip: int_map_simps(1))
  have "\<bar>map_at 0 ?h b + x\<bar> < 2 ^ 53" using assms(1) s [of b] by (auto simp: abs_if split: if_splits)
  then have 2: "map_change (Fin 0) b (\<lambda>y. dbl_add y (dbl_int x)) (int_map ?h) = int_map (map_put b (map_at 0 ?h b + x) ?h)"
    by (simp only: map_change_def map_at_def [symmetric] int_map_simps(3,4) dbl_add_int)
  show ?thesis
    using assms(1) by (intro exI [of _ "map_put b (map_at 0 ?h b + x) ?h"]) (auto simp: move_def 1 2 total_put)
qed

datatype money_op = Money_Deposit string | Money_Withdraw string | Money_Transfer string string string draws

fun money_step :: "double \<Rightarrow> money_op \<Rightarrow> node \<Rightarrow> node" where
  "money_step x (Money_Deposit u) n = snd (depositToUser u x n)"
| "money_step x (Money_Withdraw u) n = snd (withdrawFromUser u x n)"
| "money_step x (Money_Transfer f t sig d) n = snd (processTransfer f t x sig d n)"

definition same_money :: "(string, int) std_map \<Rightarrow> (string, int) std_map \<Rightarrow> bool" where
  "same_money h h' \<longleftrightarrow> map_ok h' \<and> total h' = total h \<and> (\<forall>u. map_at 0 h' u = map_at 0 h u)"

lemma index_same: "map_ok h \<Longrightarrow> same_money h (snd (map_index 0 k h))"
  by (simp add: same_money_def total_index)

lemma small_same: "same_money h h' \<Longrightarrow> small x h' = small x h"
  by (simp add: same_money_def small_def)

lemma validate_same:
  assumes "nd_hotBalances n = int_map h" "map_ok h"
  shows "\<exists>h'. nd_hotBalances (snd (node_validateTransaction f t x sig now n)) = int_map h' \<and> same_money h h'"
proof -
  have "same_money h h" using assms(2) by (simp add: same_money_def)
  moreover have "same_money h (snd (map_index 0 f h))" using assms(2) by (rule index_same)
  ultimately show ?thesis using assms(1)
    by (auto simp: node_validateTransaction_def index_int split_def Let_def)
qed

lemma move_same:
  assumes "same_money h h'" "small x h"
  shows "\<exists>h''. move a b (dbl_int x) (int_map h') = int_map h'' \<and> total h'' = total h \<and>
    (\<forall>u. map_at 0 h'' u = map_at 0 h u - (if u = a then x else 0) + (if u = b then x else 0))"
  using move_int [of h' x a b] assms small_same [OF assms(1), of x] by (auto simp: same_money_def)

lemma money_step_total:
  assumes "nd_hotBalances n = int_map h" "map_ok h" "small x h"
  shows "\<exists>h'. nd_hotBalances (money_step (dbl_int x) op n) = int_map h' \<and> total h' = total h"
proof (cases op)
  case (Money_Deposit u)
  then show ?thesis using assms(1) move_same [OF index_same [OF assms(2), of "''CentralBank''"] assms(3), of "''CentralBank''" u]
      total_index [OF assms(2), of "''CentralBank''"] by (auto simp: depositToUser_def index_int split: if_splits)
next
  case (Money_Withdraw u)
  then show ?thesis using assms(1) move_same [OF index_same [OF assms(2), of u] assms(3), of u "''CentralBank''"] total_index [OF assms(2), of u]
    by (auto simp: withdrawFromUser_def index_int split: if_splits)
next
  case (Money_Transfer f t sig d)
  obtain h' where h': "nd_hotBalances (snd (node_validateTransaction f t (dbl_int x) sig (dr_check d) n)) = int_map h'" "same_money h h'"
    using validate_same [OF assms(1,2)] by blast
  then show ?thesis using Money_Transfer move_same [OF h'(2) assms(3), of f t] transfer_state(2,3) [of f t "dbl_int x" sig d n]
    by (cases "fst (node_validateTransaction f t (dbl_int x) sig (dr_check d) n)") (auto simp: same_money_def)
qed

text \<open>a deposit of a negative amount takes the money from the user, whatever the user has\<close>

lemma negative_deposit:
  assumes "nd_hotBalances n = int_map h" "map_ok h" "small x h" "x < 0" "0 \<le> map_at 0 h ''CentralBank''" "u \<noteq> ''CentralBank''"
  shows "fst (depositToUser u (dbl_int x) n)" "hot u (snd (depositToUser u (dbl_int x) n)) = dbl_int (map_at 0 h u + x)"
proof -
  have le: "dbl_le (dbl_int x) (dbl_int (map_at 0 h ''CentralBank''))" using assms(4,5) by simp
  then show "fst (depositToUser u (dbl_int x) n)" using assms(1) by (simp add: depositToUser_def index_int)
  show "hot u (snd (depositToUser u (dbl_int x) n)) = dbl_int (map_at 0 h u + x)"
    using move_same [OF index_same [OF assms(2), of "''CentralBank''"] assms(3), of "''CentralBank''" u] assms(6) le assms(1)
    by (auto simp: depositToUser_def index_int)
qed

end
