(* ===== verification/P2p_Contract.thy ===== *)
theory P2p_Contract
  imports P2p_Codec P2p_Account P2p_Store
begin

text \<open>
  Smart contracts and the engine that runs them (\<open>banking/smart_contract.cpp\<close>). A contract
  has a state of typed values and a bounded list of events; executing it only records an
  event. The clock is an argument, and the mutex, locked once per operation, is left out.
\<close>

section \<open>Values\<close>

text \<open>\<open>std::variant<int64_t, double, std::string, bool>\<close>\<close>

datatype contract_value = VInt u64 | VDouble double | VString string | VBool bool

definition write_value :: "contract_value \<Rightarrow> string" where
  "write_value v =
     (case v of
        VInt i \<Rightarrow> ''i:'' @ dec_int (sint i)
      | VDouble d \<Rightarrow> ''d:'' @ dec_g d
      | VString s \<Rightarrow> ''s:'' @ s
      | VBool b \<Rightarrow> ''b:'' @ bool_text b)"

text \<open>None: none of the four prefixes, and the entry is passed over\<close>

definition read_value :: "string \<Rightarrow> contract_value option cpp" where
  "read_value s =
     (if take 2 s = ''i:'' then cpp_then (stoll (drop 2 s)) (\<lambda>i. Inr (Some (VInt (of_int i))))
      else if take 2 s = ''d:'' then cpp_then (stod (drop 2 s)) (\<lambda>d. Inr (Some (VDouble d)))
      else if take 2 s = ''s:'' then Inr (Some (VString (drop 2 s)))
      else if take 2 s = ''b:'' then Inr (Some (VBool (drop 2 s = ''1'')))
      else Inr None)"

section \<open>Contracts\<close>

record contract =
  ct_contractId :: string
  ct_creator :: string
  ct_code :: string
  ct_state :: "(string, contract_value) std_map"
  ct_events :: "string list"
  ct_isActive :: bool
  ct_createdAt :: u64

definition empty_contract :: contract where
  "empty_contract = \<lparr>ct_contractId = [], ct_creator = [], ct_code = [], ct_state = [], ct_events = [],
     ct_isActive = False, ct_createdAt = 0\<rparr>"

definition new_contract :: "string \<Rightarrow> string \<Rightarrow> string \<Rightarrow> u64 \<Rightarrow> contract" where
  "new_contract contractId creatorId contractCode now =
     empty_contract\<lparr>ct_contractId := contractId, ct_creator := creatorId, ct_code := contractCode,
       ct_isActive := True, ct_createdAt := now\<rparr>"

definition ct_activate :: "contract \<Rightarrow> contract" where
  "ct_activate c = c\<lparr>ct_isActive := True\<rparr>"

definition ct_deactivate :: "contract \<Rightarrow> contract" where
  "ct_deactivate c = c\<lparr>ct_isActive := False\<rparr>"

definition emitEvent :: "string \<Rightarrow> contract \<Rightarrow> contract" where
  "emitEvent event c =
     (let events = ct_events c @ [event]
      in c\<lparr>ct_events := (if 1000 < length events then tl events else events)\<rparr>)"

text \<open>the arguments of the call are not used\<close>

definition ct_execute :: "string \<Rightarrow> contract_value list \<Rightarrow> contract \<Rightarrow> bool \<times> contract" where
  "ct_execute function args c =
     (if \<not> ct_isActive c then (False, c) else (True, emitEvent (''execute:'' @ function) c))"

definition ct_getState :: "string \<Rightarrow> contract \<Rightarrow> contract_value" where
  "ct_getState key c = (case map_of (ct_state c) key of Some v \<Rightarrow> v | None \<Rightarrow> VString [])"

definition ct_setState :: "string \<Rightarrow> contract_value \<Rightarrow> contract \<Rightarrow> contract" where
  "ct_setState key v c = emitEvent (''state_change:'' @ key) (c\<lparr>ct_state := map_put key v (ct_state c)\<rparr>)"

definition ct_serialize :: "contract \<Rightarrow> string" where
  "ct_serialize c =
     join CHR ''|'' [ct_contractId c, ct_creator c, ct_code c, bool_text (ct_isActive c), dec_u64 (ct_createdAt c)] @
     concat (map (\<lambda>(key, v). ''|'' @ key @ '':'' @ write_value v) (ct_state c))"

fun read_state :: "string list \<Rightarrow> (string, contract_value) std_map \<Rightarrow> (string, contract_value) std_map cpp" where
  "read_state [] m = Inr m"
| "read_state (kv # rest) m =
     (if kv = [] then read_state rest m
      else case split_colon kv of
        None \<Rightarrow> read_state rest m
      | Some (key, text) \<Rightarrow>
          cpp_then (read_value text) (\<lambda>v.
            read_state rest (case v of None \<Rightarrow> m | Some v \<Rightarrow> map_put key v m)))"

definition ct_deserialize :: "string \<Rightarrow> contract cpp" where
  "ct_deserialize text =
     (let (contractId, ss) = getline CHR ''|'' (Some text);
          (creator, ss) = getline CHR ''|'' ss;
          (code, ss) = getline CHR ''|'' ss;
          (activeStr, ss) = getline CHR ''|'' ss;
          (createdStr, ss) = getline CHR ''|'' ss
      in cpp_then (stoull createdStr) (\<lambda>createdAt.
         cpp_then (read_state (rest_fields CHR ''|'' ss) []) (\<lambda>state.
           Inr (empty_contract\<lparr>ct_contractId := contractId, ct_creator := creator, ct_code := code,
             ct_isActive := (activeStr = ''1''), ct_createdAt := createdAt, ct_state := state\<rparr>))))"

section \<open>The engine\<close>

record contract_engine =
  ce_contracts :: "(string, contract) std_map"
  ce_creatorContracts :: "(string, string list) std_map"

definition ce_empty :: contract_engine where
  "ce_empty = \<lparr>ce_contracts = [], ce_creatorContracts = []\<rparr>"

definition deployContract :: "contract \<Rightarrow> contract_engine \<Rightarrow> bool \<times> contract_engine" where
  "deployContract c e =
     (if map_of (ce_contracts e) (ct_contractId c) \<noteq> None then (False, e)
      else (True, e\<lparr>ce_contracts := map_put (ct_contractId c) c (ce_contracts e),
                    ce_creatorContracts := map_change [] (ct_creator c) (\<lambda>l. l @ [ct_contractId c]) (ce_creatorContracts e)\<rparr>))"

text \<open>the operations that change the contract with an identifier in place\<close>

definition on_contract :: "string \<Rightarrow> (contract \<Rightarrow> bool \<times> contract) \<Rightarrow> contract_engine \<Rightarrow> bool \<times> contract_engine" where
  "on_contract contractId f e =
     (case map_of (ce_contracts e) contractId of
        None \<Rightarrow> (False, e)
      | Some c \<Rightarrow> let (ok, c) = f c in (ok, e\<lparr>ce_contracts := map_put contractId c (ce_contracts e)\<rparr>))"

definition executeContract :: "string \<Rightarrow> string \<Rightarrow> contract_value list \<Rightarrow> contract_engine \<Rightarrow> bool \<times> contract_engine" where
  "executeContract contractId function args e = on_contract contractId (ct_execute function args) e"

definition suspendContract :: "string \<Rightarrow> contract_engine \<Rightarrow> bool \<times> contract_engine" where
  "suspendContract contractId e = on_contract contractId (\<lambda>c. (True, ct_deactivate c)) e"

definition activateContract :: "string \<Rightarrow> contract_engine \<Rightarrow> bool \<times> contract_engine" where
  "activateContract contractId e = on_contract contractId (\<lambda>c. (True, ct_activate c)) e"

definition ce_getContract :: "string \<Rightarrow> contract_engine \<Rightarrow> contract" where
  "ce_getContract contractId e = (case map_of (ce_contracts e) contractId of Some c \<Rightarrow> c | None \<Rightarrow> empty_contract)"

definition getContractsByCreator :: "string \<Rightarrow> contract_engine \<Rightarrow> contract list cpp" where
  "getContractsByCreator creatorId e = items_of_owner (ce_contracts e) (ce_creatorContracts e) creatorId"

definition getContractCount :: "contract_engine \<Rightarrow> nat" where
  "getContractCount e = length (ce_contracts e)"

section \<open>The text form\<close>

lemma stoll_dec_sint [simp]: "stoll (dec_int (sint (i :: u64))) = Inr (sint i)"
  using sint_lt [of i] sint_ge [of i] strto_int_dec_int [of "sint i"]
  by (simp add: stoll_def sto_signed_def)

definition value_plain :: "contract_value \<Rightarrow> bool" where
  "value_plain v =
     (case v of
        VDouble d \<Rightarrow> \<exists>m. \<bar>m\<bar> < 1000000 \<and> d = Fin (of_int m)
      | VString s \<Rightarrow> CHR ''|'' \<notin> set s
      | _ \<Rightarrow> True)"

definition contract_plain :: "contract \<Rightarrow> bool" where
  "contract_plain c \<longleftrightarrow> (\<forall>f\<in>{ct_contractId c, ct_creator c, ct_code c}. CHR ''|'' \<notin> set f) \<and> map_ok (ct_state c) \<and>
     (\<forall>(key, v)\<in>set (ct_state c). CHR ''|'' \<notin> set key \<and> CHR '':'' \<notin> set key \<and> value_plain v)"

lemma read_write_value: "value_plain v \<Longrightarrow> read_value (write_value v) = Inr (Some v)"
  by (auto simp: value_plain_def read_value_def write_value_def bool_text_def stod_dec_g split: contract_value.splits)

lemma write_value_field: "value_plain v \<Longrightarrow> CHR ''|'' \<notin> set (write_value v)"
  by (auto simp: value_plain_def write_value_def bool_text_def split: contract_value.splits)

definition state_field :: "string \<times> contract_value \<Rightarrow> string" where
  "state_field kv = fst kv @ CHR '':'' # write_value (snd kv)"

lemma concat_fields: "fs \<noteq> [] \<Longrightarrow> concat (map (\<lambda>f. CHR ''|'' # f) fs) = CHR ''|'' # join CHR ''|'' fs"
proof (induction fs)
  case (Cons f fs)
  then show ?case by (cases fs) simp_all
qed simp

lemma read_state_field:
  "CHR '':'' \<notin> set key \<Longrightarrow> value_plain v \<Longrightarrow> read_state (state_field (key, v) # rest) m = read_state rest (map_put key v m)"
  by (simp add: state_field_def split_colon_key read_write_value)

lemma read_state_fields:
  "\<forall>(key, v)\<in>set l. CHR '':'' \<notin> set key \<and> value_plain v \<Longrightarrow>
    read_state (map state_field l) m = Inr (foldl (\<lambda>m (key, v). map_put key v m) m l)"
proof (induction l arbitrary: m)
  case (Cons kv l)
  obtain key v where "kv = (key, v)" by (cases kv)
  then show ?case using Cons by (simp add: read_state_field del: read_state.simps(2))
qed simp

lemma rest_state_fields:
  assumes "\<forall>(key, v)\<in>set l. CHR ''|'' \<notin> set key \<and> value_plain v"
  shows "rest_fields CHR ''|'' (if l = [] then None else Some (join CHR ''|'' (map state_field l))) = map state_field l"
proof (cases "l = []")
  case False
  have "\<forall>f\<in>set (map state_field l). CHR ''|'' \<notin> set f"
    using assms write_value_field by (fastforce simp: state_field_def)
  moreover have "last (map state_field l) \<noteq> []" using False by (simp add: last_map state_field_def)
  ultimately show ?thesis using False by (simp add: rest_fields_def split_fields_join)
qed (simp add: rest_fields_def)

text \<open>the text behind the time of creation, and what getline leaves of it\<close>

definition state_text :: "(string, contract_value) std_map \<Rightarrow> string" where
  "state_text l = concat (map (\<lambda>(key, v). ''|'' @ key @ '':'' @ write_value v) l)"

lemma state_text_join: "state_text (kv # l) = CHR ''|'' # join CHR ''|'' (map state_field (kv # l))"
proof -
  have "(\<lambda>(key, v). ''|'' @ key @ '':'' @ write_value v) = (\<lambda>kv. CHR ''|'' # state_field kv)"
    by (simp add: fun_eq_iff state_field_def)
  then have "state_text (kv # l) = concat (map (\<lambda>f. CHR ''|'' # f) (map state_field (kv # l)))"
    by (simp add: state_text_def comp_def)
  also have "\<dots> = CHR ''|'' # join CHR ''|'' (map state_field (kv # l))" by (rule concat_fields) simp
  finally show ?thesis .
qed

lemma getline_created:
  assumes "CHR ''|'' \<notin> set f"
  shows "getline CHR ''|'' (Some (f @ state_text l)) =
    (f, if l = [] then None else Some (join CHR ''|'' (map state_field l)))"
proof (cases l)
  case (Cons kv l')
  then show ?thesis using assms by (simp only: state_text_join getline_field) simp
qed (use assms in \<open>simp add: state_text_def\<close>)

text \<open>what is read from the text of any contract without bars in the first three fields\<close>

lemma ct_deserialize_serialize:
  assumes "\<forall>f\<in>{ct_contractId c, ct_creator c, ct_code c}. CHR ''|'' \<notin> set f"
  shows "ct_deserialize (ct_serialize c) =
    cpp_then (read_state (rest_fields CHR ''|'' (if ct_state c = [] then None else Some (join CHR ''|'' (map state_field (ct_state c))))) [])
      (\<lambda>state. Inr (c\<lparr>ct_events := [], ct_state := state\<rparr>))"
proof -
  have u: "c\<lparr>ct_events := [], ct_state := state\<rparr> = empty_contract\<lparr>ct_contractId := ct_contractId c, ct_creator := ct_creator c,
      ct_code := ct_code c, ct_isActive := ct_isActive c, ct_createdAt := ct_createdAt c, ct_state := state\<rparr>" for state
    by (cases c) (simp add: empty_contract_def)
  show ?thesis using assms
    unfolding u ct_serialize_def ct_deserialize_def state_text_def [symmetric]
    by (simp add: getline_created)
qed

text \<open>
  A contract is read back from its text, without its events, when no bar is in its
  identifier, creator, code, keys and strings, no colon in a key, and its doubles are integers
  of at most six digits. A bar in a string value lets the writer of the value set any other
  entry of the state: the value \<open>x|key:b:1\<close> makes the entry \<open>key\<close> true in the contract read back.
\<close>

theorem contract_codec:
  "(contract_plain c \<longrightarrow> ct_deserialize (ct_serialize c) = Inr (c\<lparr>ct_events := []\<rparr>)) \<and>
   (contract_plain c \<and> CHR ''|'' \<notin> set k \<and> CHR '':'' \<notin> set k \<and> CHR ''|'' \<notin> set key \<and> CHR '':'' \<notin> set key \<longrightarrow>
      ct_deserialize (ct_serialize (c\<lparr>ct_state := [(k, VString (''x|'' @ key @ '':b:1''))]\<rparr>)) =
        Inr (c\<lparr>ct_events := [], ct_state := map_put key (VBool True) [(k, VString ''x'')]\<rparr>))"
proof (intro conjI impI)
  assume c: "contract_plain c"
  then have "read_state (map state_field (ct_state c)) [] = Inr (ct_state c)"
    using map_puts_sorted [of "[]" "ct_state c"] by (subst read_state_fields) (auto simp: contract_plain_def)
  moreover have "rest_fields CHR ''|'' (if ct_state c = [] then None else Some (join CHR ''|'' (map state_field (ct_state c)))) =
      map state_field (ct_state c)"
    using c by (intro rest_state_fields) (auto simp: contract_plain_def)
  ultimately show "ct_deserialize (ct_serialize c) = Inr (c\<lparr>ct_events := []\<rparr>)"
    using c by (subst ct_deserialize_serialize) (simp_all add: contract_plain_def)
next
  assume k: "contract_plain c \<and> CHR ''|'' \<notin> set k \<and> CHR '':'' \<notin> set k \<and> CHR ''|'' \<notin> set key \<and> CHR '':'' \<notin> set key"
  let ?l = "[(k, VString ''x''), (key, VBool True)]"
  let ?c = "c\<lparr>ct_state := [(k, VString (''x|'' @ key @ '':b:1''))]\<rparr>"
  have e: "(if ct_state ?c = [] then None else Some (join CHR ''|'' (map state_field (ct_state ?c)))) =
      (if ?l = [] then None else Some (join CHR ''|'' (map state_field ?l)))"
    by (simp add: state_field_def write_value_def bool_text_def)
  have f: "rest_fields CHR ''|'' (if ?l = [] then None else Some (join CHR ''|'' (map state_field ?l))) = map state_field ?l"
    using k by (intro rest_state_fields) (simp add: value_plain_def)
  have r: "read_state (map state_field ?l) [] = Inr (map_put key (VBool True) [(k, VString ''x'')])"
    using k by (subst read_state_fields) (simp_all add: value_plain_def)
  have "\<forall>f\<in>{ct_contractId ?c, ct_creator ?c, ct_code ?c}. CHR ''|'' \<notin> set f" using k by (simp add: contract_plain_def)
  from ct_deserialize_serialize [OF this] show "ct_deserialize (ct_serialize ?c) =
      Inr (c\<lparr>ct_events := [], ct_state := map_put key (VBool True) [(k, VString ''x'')]\<rparr>)"
    unfolding e f r by simp
qed

lemma contract_codec_witness:
  "ct_deserialize (ct_serialize (new_contract ''c'' ''ann'' ''code'' 5\<lparr>ct_state := [(''note'', VString ''x|admin:b:1'')]\<rparr>)) =
     Inr (new_contract ''c'' ''ann'' ''code'' 5\<lparr>ct_state := [(''admin'', VBool True), (''note'', VString ''x'')]\<rparr>)"
  using contract_codec [of "new_contract ''c'' ''ann'' ''code'' 5" "''note''" "''admin''"]
  by (simp add: contract_plain_def new_contract_def empty_contract_def)

section \<open>The engine in every reachable state\<close>

inductive contract_made :: "contract \<Rightarrow> bool" where
  "contract_made empty_contract"
| "contract_made (new_contract contractId creatorId contractCode now)"
| "ct_deserialize text = Inr c \<Longrightarrow> contract_made c"
| "contract_made c \<Longrightarrow> contract_made (ct_setState key v c)"
| "contract_made c \<Longrightarrow> ct_execute function args c = (ok, c') \<Longrightarrow> contract_made c'"
| "contract_made c \<Longrightarrow> contract_made (ct_activate c)"
| "contract_made c \<Longrightarrow> contract_made (ct_deactivate c)"

inductive ce_step :: "contract_engine \<Rightarrow> contract_engine \<Rightarrow> bool" where
  ce_deploy: "contract_made c \<Longrightarrow> deployContract c e = (ok, e') \<Longrightarrow> ce_step e e'"
| ce_execute: "executeContract contractId function args e = (ok, e') \<Longrightarrow> ce_step e e'"
| ce_suspend: "suspendContract contractId e = (ok, e') \<Longrightarrow> ce_step e e'"
| ce_activate: "activateContract contractId e = (ok, e') \<Longrightarrow> ce_step e e'"

lemma emitEvent_simps [simp]:
  "ct_contractId (emitEvent x c) = ct_contractId c" "ct_creator (emitEvent x c) = ct_creator c"
  "ct_isActive (emitEvent x c) = ct_isActive c" "ct_state (emitEvent x c) = ct_state c"
  by (simp_all add: emitEvent_def Let_def)

lemma emitEvent_bound: "length (ct_events c) \<le> 1000 \<Longrightarrow> length (ct_events (emitEvent x c)) \<le> 1000"
  by (simp add: emitEvent_def Let_def)

lemma deserialize_events: "ct_deserialize text = Inr c \<Longrightarrow> ct_events c = []"
  by (auto simp: ct_deserialize_def cpp_then_def empty_contract_def Let_def split: prod.splits sum.splits)

lemma contract_made_events: "contract_made c \<Longrightarrow> length (ct_events c) \<le> 1000"
proof (induction rule: contract_made.induct)
  case (3 source c)
  then show ?case by (simp add: deserialize_events)
next
  case (4 c key v)
  then show ?case unfolding ct_setState_def by (intro emitEvent_bound) simp
next
  case (5 c fn args ok c')
  then show ?case by (auto simp: ct_execute_def emitEvent_bound split: if_splits)
qed (simp_all add: empty_contract_def new_contract_def ct_activate_def ct_deactivate_def)

lemma on_contract_change:
  assumes "owned_ok ct_contractId ct_creator (ce_contracts e, ce_creatorContracts e)"
    and "\<And>c. ct_contractId (snd (f c)) = ct_contractId c \<and> ct_creator (snd (f c)) = ct_creator c"
  shows "owned_change ct_contractId ct_creator (ce_contracts e, ce_creatorContracts e)
    (ce_contracts (snd (on_contract i f e)), ce_creatorContracts (snd (on_contract i f e)))"
proof (cases "map_of (ce_contracts e) i")
  case (Some c)
  then show ?thesis using assms(2) by (auto simp: on_contract_def split_def Let_def intro: oc_replace)
qed (simp add: on_contract_def oc_same)

lemma ct_execute_keeps:
  "ct_contractId (snd (ct_execute f args c)) = ct_contractId c" "ct_creator (snd (ct_execute f args c)) = ct_creator c"
  by (simp_all add: ct_execute_def)

lemma ce_step_change:
  assumes "ce_step e e'" "owned_ok ct_contractId ct_creator (ce_contracts e, ce_creatorContracts e)"
  shows "owned_change ct_contractId ct_creator (ce_contracts e, ce_creatorContracts e) (ce_contracts e', ce_creatorContracts e')"
  using assms
proof (induction rule: ce_step.induct)
  case (ce_deploy c e ok e')
  then show ?case using oc_add [of "ce_contracts e" ct_contractId c ct_creator "ce_creatorContracts e"]
    by (auto simp: deployContract_def oc_same split: if_splits)
next
  case (ce_execute i fn args e ok e')
  then show ?case using on_contract_change [of e "ct_execute fn args" i]
    by (simp add: executeContract_def ct_execute_keeps)
next
  case (ce_suspend i e ok e')
  then show ?case using on_contract_change [of e "\<lambda>c. (True, ct_deactivate c)" i]
    by (simp add: suspendContract_def ct_deactivate_def)
next
  case (ce_activate i e ok e')
  then show ?case using on_contract_change [of e "\<lambda>c. (True, ct_activate c)" i]
    by (simp add: activateContract_def ct_activate_def)
qed

interpretation contracts: owned_items ce_contracts ce_creatorContracts ct_contractId ct_creator ce_empty ce_step
  by unfold_locales (simp_all add: ce_empty_def ce_step_change)

lemma on_contract_events:
  assumes "map_ok (ce_contracts e)" "\<forall>i c. map_of (ce_contracts e) i = Some c \<longrightarrow> length (ct_events c) \<le> 1000"
    and "\<And>c. length (ct_events c) \<le> 1000 \<Longrightarrow> length (ct_events (snd (f c))) \<le> 1000"
  shows "\<forall>i c. map_of (ce_contracts (snd (on_contract k f e))) i = Some c \<longrightarrow> length (ct_events c) \<le> 1000"
  using assms by (auto simp: on_contract_def split_def Let_def split: option.splits)

lemma ce_step_events:
  assumes "ce_step e e'" "map_ok (ce_contracts e)" "\<forall>i c. map_of (ce_contracts e) i = Some c \<longrightarrow> length (ct_events c) \<le> 1000"
  shows "\<forall>i c. map_of (ce_contracts e') i = Some c \<longrightarrow> length (ct_events c) \<le> 1000"
  using assms
proof (induction rule: ce_step.induct)
  case (ce_deploy c e ok e')
  then show ?case using contract_made_events [of c] by (auto simp: deployContract_def split: if_splits)
next
  case (ce_execute k fn args e ok e')
  have "length (ct_events (snd (ct_execute fn args c))) \<le> 1000" if "length (ct_events c) \<le> 1000" for c
    using that by (simp add: ct_execute_def emitEvent_bound)
  with on_contract_events [OF ce_execute(2,3), of "ct_execute fn args" k] ce_execute(1) show ?case
    by (simp add: executeContract_def)
next
  case (ce_suspend k e ok e')
  with on_contract_events [OF ce_suspend(2,3), of "\<lambda>c. (True, ct_deactivate c)" k] show ?case
    by (simp add: suspendContract_def ct_deactivate_def)
next
  case (ce_activate k e ok e')
  with on_contract_events [OF ce_activate(2,3), of "\<lambda>c. (True, ct_activate c)" k] show ?case
    by (simp add: activateContract_def ct_activate_def)
qed

lemma ce_reach_events:
  "ce_step\<^sup>*\<^sup>* ce_empty e \<Longrightarrow> \<forall>i c. map_of (ce_contracts e) i = Some c \<longrightarrow> length (ct_events c) \<le> 1000"
proof (induction rule: rtranclp_induct)
  case (step e e')
  have "map_ok (ce_contracts e)" using contracts.reach_ok [OF step(1)] by (simp add: owned_ok_def)
  from ce_step_events [OF step(2) this step(3)] show ?case .
qed (simp add: ce_empty_def)

text \<open>
  C25: In every state the engine can reach, a query by creator returns without an exception
  each deployed contract of the creator exactly once; no contract holds more than a thousand
  events; and a call of a contract succeeds exactly when it is deployed and not suspended,
  and then records the event in that contract and changes nothing else.
\<close>

theorem contract_engine_sound:
  assumes "ce_step\<^sup>*\<^sup>* ce_empty e"
  shows "(\<exists>cs. getContractsByCreator creator e = Inr cs \<and> distinct (map ct_contractId cs) \<and>
      set cs = {c. ct_creator c = creator \<and> map_of (ce_contracts e) (ct_contractId c) = Some c}) \<and>
    length (ct_events (ce_getContract i e)) \<le> 1000 \<and>
    fst (executeContract i function args e) = ct_isActive (ce_getContract i e) \<and>
    ce_getContract j (snd (executeContract i function args e)) =
      (if j = i \<and> ct_isActive (ce_getContract i e) then emitEvent (''execute:'' @ function) (ce_getContract i e)
       else ce_getContract j e)"
proof (intro conjI)
  show "\<exists>cs. getContractsByCreator creator e = Inr cs \<and> distinct (map ct_contractId cs) \<and>
      set cs = {c. ct_creator c = creator \<and> map_of (ce_contracts e) (ct_contractId c) = Some c}"
    using contracts.by_owner [OF assms, of creator] by (simp only: getContractsByCreator_def)
  have ok: "map_ok (ce_contracts e)" using contracts.reach_ok [OF assms] by (simp add: owned_ok_def)
  show "length (ct_events (ce_getContract i e)) \<le> 1000"
    using ce_reach_events [OF assms] by (simp add: ce_getContract_def empty_contract_def split: option.splits)
  show "fst (executeContract i function args e) = ct_isActive (ce_getContract i e)"
    by (simp add: executeContract_def on_contract_def ce_getContract_def ct_execute_def empty_contract_def split: option.splits)
  show "ce_getContract j (snd (executeContract i function args e)) =
      (if j = i \<and> ct_isActive (ce_getContract i e) then emitEvent (''execute:'' @ function) (ce_getContract i e)
       else ce_getContract j e)"
    using ok by (auto simp: executeContract_def on_contract_def ce_getContract_def ct_execute_def empty_contract_def split: option.splits)
qed

lemma contract_engine_sound_witness:
  "\<exists>cs. getContractsByCreator ''ann'' (snd (deployContract (new_contract ''c'' ''ann'' ''code'' 5) ce_empty)) = Inr cs \<and>
     set cs = {new_contract ''c'' ''ann'' ''code'' 5}"
proof -
  let ?e = "snd (deployContract (new_contract ''c'' ''ann'' ''code'' 5) ce_empty)"
  have "ce_step\<^sup>*\<^sup>* ce_empty ?e"
    by (rule r_into_rtranclp, rule ce_deploy [OF contract_made.intros(2), of "''c''" "''ann''" "''code''" 5 _
        "fst (deployContract (new_contract ''c'' ''ann'' ''code'' 5) ce_empty)"]) simp
  from contract_engine_sound [OF this, THEN conjunct1, of "''ann''"]
  obtain cs where cs: "getContractsByCreator ''ann'' ?e = Inr cs"
    "set cs = {c. ct_creator c = ''ann'' \<and> map_of (ce_contracts ?e) (ct_contractId c) = Some c}"
    by blast
  have "map_of (ce_contracts ?e) = [''c'' \<mapsto> new_contract ''c'' ''ann'' ''code'' 5]"
    by (simp add: deployContract_def ce_empty_def new_contract_def empty_contract_def)
  then have "set cs = {new_contract ''c'' ''ann'' ''code'' 5}"
    unfolding cs(2) by (auto simp: new_contract_def empty_contract_def split: if_splits)
  with cs(1) show ?thesis by blast
qed

end
