(* ===== verification/P2p_Auth.thy ===== *)
theory P2p_Auth
  imports P2p_Codec
begin

text \<open>
  Authentication with several factors and the sessions of users (\<open>crypto/multi_factor.cpp\<close>).
  The clock and the random bytes of a session identifier are arguments; a mutex that an
  operation locks once is left out.
\<close>

section \<open>Factors\<close>

record factor =
  fa_type :: string
  fa_data :: string
  fa_timestamp :: u64
  fa_verified :: bool

record mfa =
  mfa_userFactors :: "(string, factor list) std_map"
  mfa_userSecrets :: "(string, string) std_map"

definition mfa_empty :: mfa where
  "mfa_empty = \<lparr>mfa_userFactors = [], mfa_userSecrets = []\<rparr>"

definition add_factor :: "string \<Rightarrow> string \<Rightarrow> string \<Rightarrow> u64 \<Rightarrow> mfa \<Rightarrow> mfa" where
  "add_factor userId type data now s =
     s\<lparr>mfa_userFactors := map_change [] userId
         (\<lambda>l. l @ [\<lparr>fa_type = type, fa_data = data, fa_timestamp = now, fa_verified = False\<rparr>]) (mfa_userFactors s)\<rparr>"

text \<open>the first factor of a type; reading \<open>userFactors[userId]\<close> enters an unknown user\<close>

definition first_factor :: "string \<Rightarrow> string \<Rightarrow> mfa \<Rightarrow> factor option" where
  "first_factor userId type s = List.find (\<lambda>f. fa_type f = type) (map_at [] (mfa_userFactors s) userId)"

definition touch_user :: "string \<Rightarrow> mfa \<Rightarrow> mfa" where
  "touch_user userId s = s\<lparr>mfa_userFactors := snd (map_index [] userId (mfa_userFactors s))\<rparr>"

definition registerPassword :: "string \<Rightarrow> string \<Rightarrow> u64 \<Rightarrow> mfa \<Rightarrow> mfa" where
  "registerPassword userId password now s =
     (let s = s\<lparr>mfa_userSecrets := map_put userId (sha1_double password) (mfa_userSecrets s)\<rparr>
      in add_factor userId ''password'' (map_at [] (mfa_userSecrets s) userId) now s)"

definition verifyPassword :: "string \<Rightarrow> string \<Rightarrow> mfa \<Rightarrow> bool" where
  "verifyPassword userId password s =
     (case map_of (mfa_userSecrets s) userId of None \<Rightarrow> False | Some h \<Rightarrow> h = sha1_double password)"

definition registerTOTP :: "string \<Rightarrow> string \<Rightarrow> u64 \<Rightarrow> mfa \<Rightarrow> mfa" where
  "registerTOTP userId secret now s = add_factor userId ''totp'' secret now s"

definition char_byte :: "char \<Rightarrow> u32" where
  "char_byte c = of_nat (of_char c)"

text \<open>the digits of the hash, not its bytes, are the input of the truncation\<close>

definition generateTOTPToken :: "string \<Rightarrow> u64 \<Rightarrow> string" where
  "generateTOTPToken secret timeStep =
     (let hash = sha1 (secret @ dec_u64 timeStep);
          offset = unat (char_byte (hash ! (length hash - 1)) AND 0xF);
          code = push_bit 24 (char_byte (hash ! offset) AND 0x7F) OR
                 push_bit 16 (char_byte (hash ! (offset + 1)) AND 0xFF) OR
                 push_bit 8 (char_byte (hash ! (offset + 2)) AND 0xFF) OR
                 (char_byte (hash ! (offset + 3)) AND 0xFF);
          digits = dec_nat (unat (code mod 1000000))
      in replicate (6 - length digits) CHR ''0'' @ digits)"

text \<open>the time in seconds\<close>

definition generateTOTP :: "string \<Rightarrow> nat \<Rightarrow> mfa \<Rightarrow> string \<times> mfa" where
  "generateTOTP userId secs s =
     (case first_factor userId ''totp'' s of
        Some f \<Rightarrow> (generateTOTPToken (fa_data f) (of_nat (secs div 30)), touch_user userId s)
      | None \<Rightarrow> ([], touch_user userId s))"

definition verifyTOTP :: "string \<Rightarrow> string \<Rightarrow> nat \<Rightarrow> mfa \<Rightarrow> bool \<times> mfa" where
  "verifyTOTP userId code secs s = (let (expected, s) = generateTOTP userId secs s in (expected = code, s))"

definition registerBackupCode :: "string \<Rightarrow> string list \<Rightarrow> u64 \<Rightarrow> mfa \<Rightarrow> mfa" where
  "registerBackupCode userId codes now s =
     (let codesHash = concat (map sha1 codes) in add_factor userId ''backup'' (sha1 codesHash) now s)"

definition verifyBackupCode :: "string \<Rightarrow> string \<Rightarrow> mfa \<Rightarrow> bool \<times> mfa" where
  "verifyBackupCode userId code s =
     (case first_factor userId ''backup'' s of
        Some f \<Rightarrow> (str_contains (sha1 code) (fa_data f), touch_user userId s)
      | None \<Rightarrow> (False, touch_user userId s))"

definition registerBiometric :: "string \<Rightarrow> string \<Rightarrow> u64 \<Rightarrow> mfa \<Rightarrow> mfa" where
  "registerBiometric userId biometricHash now s = add_factor userId ''biometric'' biometricHash now s"

definition verifyBiometric :: "string \<Rightarrow> string \<Rightarrow> mfa \<Rightarrow> bool \<times> mfa" where
  "verifyBiometric userId biometricData s =
     (case first_factor userId ''biometric'' s of
        Some f \<Rightarrow> (fa_data f = sha1 biometricData, touch_user userId s)
      | None \<Rightarrow> (False, touch_user userId s))"

definition registerHardwareToken :: "string \<Rightarrow> string \<Rightarrow> u64 \<Rightarrow> mfa \<Rightarrow> mfa" where
  "registerHardwareToken userId tokenId now s = add_factor userId ''hardware'' (sha1 tokenId) now s"

definition verifyHardwareToken :: "string \<Rightarrow> string \<Rightarrow> mfa \<Rightarrow> bool \<times> mfa" where
  "verifyHardwareToken userId challenge s =
     (case first_factor userId ''hardware'' s of
        Some f \<Rightarrow> (take 16 (sha1 (challenge @ fa_data f)) = take 16 challenge, touch_user userId s)
      | None \<Rightarrow> (False, touch_user userId s))"

definition getRequiredFactors :: "string \<Rightarrow> nat" where
  "getRequiredFactors userId = 2"

text \<open>one pair of a type and a value: at most one of the five tests applies\<close>

definition verify_factor :: "string \<Rightarrow> nat \<Rightarrow> string \<Rightarrow> string \<Rightarrow> mfa \<Rightarrow> bool \<times> mfa" where
  "verify_factor userId secs type v s =
     (if type = ''password'' then (verifyPassword userId v s, s)
      else if type = ''totp'' then verifyTOTP userId v secs s
      else if type = ''backup'' then verifyBackupCode userId v s
      else if type = ''biometric'' then verifyBiometric userId v s
      else if type = ''hardware'' then verifyHardwareToken userId v s
      else (False, s))"

fun count_factors :: "string \<Rightarrow> nat \<Rightarrow> (string \<times> string) list \<Rightarrow> mfa \<Rightarrow> nat \<times> mfa" where
  "count_factors userId secs [] s = (0, s)"
| "count_factors userId secs ((type, v) # rest) s =
     (let (ok, s) = verify_factor userId secs type v s;
          (n, s) = count_factors userId secs rest s
      in ((if ok then 1 else 0) + n, s))"

definition mfa_authenticate :: "string \<Rightarrow> nat \<Rightarrow> (string \<times> string) list \<Rightarrow> mfa \<Rightarrow> bool \<times> mfa" where
  "mfa_authenticate userId secs factors s =
     (let (verifiedCount, s) = count_factors userId secs factors s
      in (getRequiredFactors userId \<le> verifiedCount, s))"

section \<open>Sessions\<close>

record web_session =
  ws_sessionId :: string
  ws_userId :: string
  ws_createdAt :: u64
  ws_expiresAt :: u64
  ws_ipAddress :: string
  ws_userAgent :: string

type_synonym web_sessions = "(string, web_session) std_map"

text \<open>the clock is read twice: t1 for the identifier, t2 for the time of creation\<close>

definition createSession :: "string \<Rightarrow> string \<Rightarrow> string \<Rightarrow> u64 \<Rightarrow> u64 \<Rightarrow> u64 \<Rightarrow> string \<Rightarrow> web_sessions \<Rightarrow> string \<times> web_sessions" where
  "createSession userId ip userAgent lifetimeMs t1 t2 rnd s =
     (let sessionId = sha1 (userId @ ip @ dec_u64 t1 @ rnd)
      in (sessionId, map_put sessionId \<lparr>ws_sessionId = sessionId, ws_userId = userId, ws_createdAt = t2,
            ws_expiresAt = t2 + lifetimeMs, ws_ipAddress = ip, ws_userAgent = userAgent\<rparr> s))"

definition validateSession :: "string \<Rightarrow> u64 \<Rightarrow> web_sessions \<Rightarrow> bool \<times> web_sessions" where
  "validateSession sessionId now s =
     (case map_of s sessionId of
        None \<Rightarrow> (False, s)
      | Some x \<Rightarrow> if ws_expiresAt x < now then (False, map_erase sessionId s) else (True, s))"

definition invalidateSession :: "string \<Rightarrow> web_sessions \<Rightarrow> bool \<times> web_sessions" where
  "invalidateSession sessionId s = (map_of s sessionId \<noteq> None, map_erase sessionId s)"

definition ws_getUserId :: "string \<Rightarrow> web_sessions \<Rightarrow> string" where
  "ws_getUserId sessionId s = (case map_of s sessionId of None \<Rightarrow> [] | Some x \<Rightarrow> ws_userId x)"

definition cleanupExpiredSessions :: "u64 \<Rightarrow> web_sessions \<Rightarrow> web_sessions" where
  "cleanupExpiredSessions now s = filter (\<lambda>(_, x). \<not> ws_expiresAt x < now) s"

definition getActiveSessionCount :: "web_sessions \<Rightarrow> nat" where
  "getActiveSessionCount s = length s"

section \<open>What authentication counts\<close>

lemma map_of_put_new: "map_of m k = None \<Longrightarrow> map_of (map_put k v m) = (map_of m)(k \<mapsto> v)"
  by (induction k v m rule: map_put.induct) (auto simp: fun_eq_iff split: if_splits)

lemma touch_user_simps [simp]:
  "first_factor u ty (touch_user v s) = first_factor u ty s" "mfa_userSecrets (touch_user v s) = mfa_userSecrets s"
  by (simp_all add: first_factor_def touch_user_def map_at_def map_index_def map_of_put_new split: option.split)

lemma verify_factor_state: "snd (verify_factor u secs ty v s) \<in> {s, touch_user u s}"
  by (simp add: verify_factor_def verifyTOTP_def generateTOTP_def verifyBackupCode_def verifyBiometric_def
      verifyHardwareToken_def split: option.split)

lemma verify_factor_touch: "fst (verify_factor u secs ty v (touch_user u s)) = fst (verify_factor u secs ty v s)"
  by (simp add: verify_factor_def verifyPassword_def verifyTOTP_def generateTOTP_def verifyBackupCode_def verifyBiometric_def
      verifyHardwareToken_def split: option.split)

lemma verify_factor_same:
  "s' \<in> {s, touch_user u s} \<Longrightarrow> fst (verify_factor u secs ty v s') = fst (verify_factor u secs ty v s)"
  using verify_factor_touch by auto

lemma touch_user_again: "touch_user u (touch_user u s) = touch_user u s"
  by (simp add: touch_user_def map_index_def map_of_put_new split: option.split)

lemma count_factors_eq:
  "s' \<in> {s, touch_user u s} \<Longrightarrow>
    fst (count_factors u secs fs s') = length (filter (\<lambda>(ty, v). fst (verify_factor u secs ty v s)) fs)"
proof (induction fs arbitrary: s')
  case (Cons f fs)
  obtain ty v where f: "f = (ty, v)" by (cases f)
  obtain ok s2 where v: "verify_factor u secs ty v s' = (ok, s2)" by (cases "verify_factor u secs ty v s'")
  have "s2 \<in> {s, touch_user u s}"
    using verify_factor_state [of u secs ty v s'] Cons.prems v touch_user_again [of u s] by auto
  from Cons.IH [OF this] show ?case
    using verify_factor_same [OF Cons.prems, of secs ty v] v by (simp add: f split_def Let_def)
qed simp

text \<open>
  C26: Authentication succeeds exactly when at least two of the pairs given are accepted, each
  by itself. The same pair counts as often as it is given, so the password alone, given
  twice, is enough; and for a user without a registered time-based secret, even for one who
  does not exist, two empty codes are accepted.
\<close>

theorem authenticate_weak:
  "fst (mfa_authenticate u secs fs s) = (2 \<le> length (filter (\<lambda>(ty, v). fst (verify_factor u secs ty v s)) fs)) \<and>
   (verifyPassword u p s \<longrightarrow> fst (mfa_authenticate u secs [(''password'', p), (''password'', p)] s)) \<and>
   (first_factor u ''totp'' s = None \<longrightarrow> fst (mfa_authenticate u secs [(''totp'', []), (''totp'', [])] s))"
proof -
  have c: "fst (mfa_authenticate u secs fs s) = (2 \<le> length (filter (\<lambda>(ty, v). fst (verify_factor u secs ty v s)) fs))" for fs
    using count_factors_eq [of s s u secs fs] by (simp add: mfa_authenticate_def getRequiredFactors_def split_def Let_def)
  show ?thesis unfolding c by (simp add: verify_factor_def verifyTOTP_def generateTOTP_def)
qed

lemma authenticate_weak_witness:
  "fst (mfa_authenticate ''nobody'' 0 [(''totp'', []), (''totp'', [])] mfa_empty) \<and>
   fst (mfa_authenticate ''ann'' 0 [(''password'', ''x''), (''password'', ''x'')] (registerPassword ''ann'' ''x'' 5 mfa_empty))"
  using authenticate_weak [of "''nobody''" 0 "[]" mfa_empty] authenticate_weak [of "''ann''" 0 "[]" "registerPassword ''ann'' ''x'' 5 mfa_empty" "''x''"]
  by (simp add: first_factor_def mfa_empty_def map_at_def registerPassword_def verifyPassword_def add_factor_def Let_def)

section \<open>Backup codes\<close>

lemma str_contains_length: "str_contains p s \<Longrightarrow> length p \<le> length s"
  by (induction p s rule: str_contains.induct) (auto dest: arg_cong [of _ _ length])

lemma str_contains_same_length: "length p = length s \<Longrightarrow> str_contains p s \<longleftrightarrow> p = s"
  using str_contains_length by (cases s) fastforce+

lemma first_factor_add:
  "map_ok (mfa_userFactors s) \<Longrightarrow> first_factor u ty s = None \<Longrightarrow> ty' = ty \<Longrightarrow>
    first_factor u ty (add_factor u ty' d now s) = Some \<lparr>fa_type = ty, fa_data = d, fa_timestamp = now, fa_verified = False\<rparr>"
  by (simp add: first_factor_def add_factor_def) (auto simp: find_None_iff find_Some_iff nth_append)

lemma backup_accepts:
  assumes "map_ok (mfa_userFactors s)" "first_factor u ''backup'' s = None"
  shows "fst (verifyBackupCode u code (registerBackupCode u codes now s)) \<longleftrightarrow> sha1 code = sha1 (concat (map sha1 codes))"
  using first_factor_add [OF assms refl]
  by (simp add: verifyBackupCode_def registerBackupCode_def Let_def str_contains_same_length)

lemma length_codes_hash: "length (concat (map sha1 codes)) = 40 * length codes"
  by (induction codes) simp_all

text \<open>
  Backup codes are stored as one hash of the hashes of all codes. What is accepted
  afterwards is the string of the hashes of all codes, and a code of fewer than 40
  characters that was registered is accepted only if the hash collides.
\<close>

theorem backup_codes_unusable:
  assumes "map_ok (mfa_userFactors s)" "first_factor u ''backup'' s = None"
  shows "(fst (verifyBackupCode u code (registerBackupCode u codes now s)) \<longleftrightarrow>
      code = concat (map sha1 codes) \<or> collision code (concat (map sha1 codes))) \<and>
    (code \<in> set codes \<and> length code < 40 \<and> fst (verifyBackupCode u code (registerBackupCode u codes now s)) \<longrightarrow>
      collision code (concat (map sha1 codes)))"
proof -
  have "code \<in> set codes \<Longrightarrow> length code < 40 \<Longrightarrow> code \<noteq> concat (map sha1 codes)"
    using length_codes_hash [of codes] by (cases codes) force+
  then show ?thesis unfolding backup_accepts [OF assms] by (auto simp: collision_def)
qed

lemma backup_codes_unusable_witness:
  "fst (verifyBackupCode ''ann'' (sha1 ''1234'' @ sha1 ''5678'') (registerBackupCode ''ann'' [''1234'', ''5678''] 5 mfa_empty))"
  using backup_codes_unusable [of mfa_empty "''ann''" "sha1 ''1234'' @ sha1 ''5678''" "[''1234'', ''5678'']" 5]
  by (simp add: mfa_empty_def first_factor_def map_at_def)

section \<open>Tokens\<close>

lemma finite_hex [simp]: "finite (hex_digit ` {..<16})"
  by simp

lemma card_hex: "card (hex_digit ` {..<16}) \<le> 16"
  using card_image_le [of "{..<16::nat}" hex_digit] by simp

definition token_of :: "char \<times> char \<times> char \<times> char \<Rightarrow> string" where
  "token_of = (\<lambda>(a, b, c, d).
     let code = push_bit 24 (char_byte a AND 0x7F) OR push_bit 16 (char_byte b AND 0xFF) OR
                push_bit 8 (char_byte c AND 0xFF) OR (char_byte d AND 0xFF);
         digits = dec_nat (unat (code mod 1000000))
     in replicate (6 - length digits) CHR ''0'' @ digits)"

lemma and_15: "unat (x AND 0xF :: u32) < 16"
proof -
  have "x AND 0xF = take_bit 4 x" using take_bit_eq_mask [of 4 x] by (simp add: mask_eq_exp_minus_1)
  then have "unat (x AND 0xF) = take_bit 4 (unat x)" by (simp add: unsigned_take_bit_eq)
  then show ?thesis by (simp add: take_bit_eq_mod)
qed

lemma token_chars:
  obtains q where "generateTOTPToken secret t = token_of q"
    "q \<in> hex_digit ` {..<16} \<times> hex_digit ` {..<16} \<times> hex_digit ` {..<16} \<times> hex_digit ` {..<16}"
proof -
  let ?h = "sha1 (secret @ dec_u64 t)"
  let ?i = "unat (char_byte (?h ! (length ?h - 1)) AND 0xF)"
  have "?i < 16" by (rule and_15)
  then have "?h ! (?i + k) \<in> hex_digit ` {..<16}" if "k < 4" for k
    using that by (intro subsetD [OF set_sha1 [of "secret @ dec_u64 t"]] nth_mem) simp
  from this [of 0] this [of 1] this [of 2] this [of 3] that [of "(?h ! ?i, ?h ! (?i + 1), ?h ! (?i + 2), ?h ! (?i + 3))"]
  show thesis by (simp add: generateTOTPToken_def token_of_def Let_def)
qed

lemma unat_million: "unat (x mod 1000000 :: u32) < 1000000"
  by (simp add: unat_mod)

lemma length_dec_nat_le: "n < 10 ^ k \<Longrightarrow> 0 < k \<Longrightarrow> length (dec_nat n) \<le> k"
  by (cases "n = 0") (simp_all add: dec_nat_digit length_dec_nat floorlog_leI)

lemma dec_nat_digits_set: "set (dec_nat n) \<subseteq> set ''0123456789''"
proof (induction n rule: dec_nat.induct)
  case (1 n)
  have d: "char_of (48 + d) \<in> set ''0123456789''" if "d < 10" for d :: nat
  proof -
    have "d \<in> {0, 1, 2, 3, 4, 5, 6, 7, 8, 9}" using that by auto
    then show ?thesis by (auto simp: char_of_eq_iff)
  qed
  show ?case
  proof (cases "n < 10")
    case True
    then show ?thesis using d [of n] by (simp add: dec_nat_digit)
  next
    case False
    then show ?thesis using 1 d [of "n mod 10"] by (simp add: dec_nat_more)
  qed
qed

text \<open>
  A token has six decimal digits, and the four characters it is computed from exist; they
  are digits of the hexadecimal hash and not its bytes, so of the million tokens at most
  65536 ever occur.
\<close>

theorem totp_tokens:
  "length (generateTOTPToken secret t) = 6 \<and> set (generateTOTPToken secret t) \<subseteq> set ''0123456789'' \<and>
   card (range (\<lambda>(secret, t). generateTOTPToken secret t)) \<le> 65536"
proof (intro conjI)
  obtain n where n: "generateTOTPToken secret t = replicate (6 - length (dec_nat n)) CHR ''0'' @ dec_nat n" "n < 1000000"
    using that unat_million unfolding generateTOTPToken_def Let_def by blast
  show "length (generateTOTPToken secret t) = 6" using n length_dec_nat_le [of n 6] by simp
  have "set (dec_nat n) \<subseteq> set ''0123456789''"
    using dec_nat_digits_set by simp
  then show "set (generateTOTPToken secret t) \<subseteq> set ''0123456789''" unfolding n by auto
  let ?H = "hex_digit ` {..<16::nat}"
  have "range (\<lambda>(secret, t). generateTOTPToken secret t) \<subseteq> token_of ` (?H \<times> ?H \<times> ?H \<times> ?H)"
  proof (clarify, goal_cases)
    case (1 _ secret t)
    show ?case using token_chars [of secret t] by blast
  qed
  then have "card (range (\<lambda>(secret, t). generateTOTPToken secret t)) \<le> card (token_of ` (?H \<times> ?H \<times> ?H \<times> ?H))"
    by (intro card_mono) auto
  also have "\<dots> \<le> card (?H \<times> ?H \<times> ?H \<times> ?H)" by (intro card_image_le) auto
  also have "\<dots> \<le> 16 * (16 * (16 * 16))" unfolding card_cartesian_product by (intro mult_le_mono card_hex)
  finally show "card (range (\<lambda>(secret, t). generateTOTPToken secret t)) \<le> 65536" by simp
qed

section \<open>Sessions that count\<close>

text \<open>
  The sessions not expired at a time, which is what validation sees of them, and those that
  are expired and still stored, which the other observers see as well.
\<close>

definition live :: "u64 \<Rightarrow> web_sessions \<Rightarrow> string \<Rightarrow> web_session option" where
  "live now s = (\<lambda>sessionId. case map_of s sessionId of
     None \<Rightarrow> None | Some x \<Rightarrow> if ws_expiresAt x < now then None else Some x)"

definition expired :: "u64 \<Rightarrow> web_sessions \<Rightarrow> string \<Rightarrow> web_session option" where
  "expired now s = (\<lambda>sessionId. case map_of s sessionId of
     None \<Rightarrow> None | Some x \<Rightarrow> if ws_expiresAt x < now then Some x else None)"

lemma count_stored: "map_ok s \<Longrightarrow> getActiveSessionCount s = card (dom (map_of s))"
  using distinct_card [OF map_ok_distinct, of s] by (simp add: getActiveSessionCount_def dom_map_of_conv_image_fst)

lemma live_or_expired:
  "dom (map_of s) = dom (live now s) \<union> dom (expired now s)" "dom (live now s) \<inter> dom (expired now s) = {}"
  by (auto simp: live_def expired_def split: option.splits if_splits)

lemma count_live_expired:
  assumes "map_ok s"
  shows "getActiveSessionCount s = card (dom (live now s)) + card (dom (expired now s))"
proof -
  have "finite (dom (live now s))" "finite (dom (expired now s))"
    using finite_dom_map_of [of s] unfolding live_or_expired(1) [of s now] by simp_all
  then show ?thesis
    using card_Un_disjoint live_or_expired [where s = s and now = now] by (simp add: count_stored [OF assms])
qed

lemma stored_after_cleanup: "map_ok s \<Longrightarrow> map_of (cleanupExpiredSessions now s) = live now s"
  by (auto simp: live_def cleanupExpiredSessions_def fun_eq_iff map_of_filter split: option.splits)

lemma live_after:
  assumes "map_ok s" "now \<le> later"
  shows "live later (snd (validateSession i now s)) = live later s"
    "live later (cleanupExpiredSessions now s) = live later s"
    "live later (snd (invalidateSession i s)) = (live later s)(i := None)"
    "(let (j, s') = createSession userId ip agent lifetime t1 t2 rnd s
     in live later s' = (live later s)(j := (if t2 + lifetime < later then None
          else Some \<lparr>ws_sessionId = j, ws_userId = userId, ws_createdAt = t2, ws_expiresAt = t2 + lifetime,
                 ws_ipAddress = ip, ws_userAgent = agent\<rparr>)))"
proof -
  show "live later (snd (validateSession i now s)) = live later s"
    using assms by (auto simp: live_def validateSession_def fun_eq_iff split: option.splits)
  show "live later (cleanupExpiredSessions now s) = live later s"
    using assms by (auto simp: live_def cleanupExpiredSessions_def fun_eq_iff map_of_filter split: option.splits)
  show "live later (snd (invalidateSession i s)) = (live later s)(i := None)"
    by (auto simp: live_def invalidateSession_def fun_eq_iff)
qed (use assms in \<open>auto simp: live_def createSession_def fun_eq_iff Let_def\<close>)

text \<open>
  C27: Validation succeeds exactly for the sessions that are stored and not expired (the live
  ones), whatever validations and removals of expired sessions came before; a new session is
  added to them, or never valid when its expiry time wraps below the clock, and an
  invalidated one is taken out. The two other observers do not test the expiry: until a
  validation or a removal finds it, an expired session gives its user's name in getUserId,
  and afterwards the empty string; and getActiveSessionCount counts the live and the expired
  sessions that are stored, after a removal of expired sessions only the live ones.
\<close>

theorem session_expiry:
  assumes "map_ok s" "now \<le> later"
  shows "fst (validateSession i now s) = (live now s i \<noteq> None) \<and>
    live later (snd (validateSession i now s)) = live later s \<and>
    live later (cleanupExpiredSessions now s) = live later s \<and>
    live later (snd (invalidateSession i s)) = (live later s)(i := None) \<and>
    (let (j, s') = createSession userId ip agent lifetime t1 t2 rnd s
     in live later s' = (live later s)(j := (if t2 + lifetime < later then None
          else Some \<lparr>ws_sessionId = j, ws_userId = userId, ws_createdAt = t2, ws_expiresAt = t2 + lifetime,
                 ws_ipAddress = ip, ws_userAgent = agent\<rparr>))) \<and>
    (\<forall>x. live now s i = Some x \<longrightarrow> ws_getUserId i s = ws_userId x \<and> ws_getUserId i (cleanupExpiredSessions now s) = ws_userId x) \<and>
    (\<forall>x. expired now s i = Some x \<longrightarrow> ws_getUserId i s = ws_userId x \<and>
       ws_getUserId i (cleanupExpiredSessions now s) = [] \<and> ws_getUserId i (snd (validateSession i now s)) = []) \<and>
    getActiveSessionCount s = card (dom (live now s)) + card (dom (expired now s)) \<and>
    getActiveSessionCount (cleanupExpiredSessions now s) = card (dom (live now s))"
proof -
  have "fst (validateSession i now s) = (live now s i \<noteq> None)"
    by (simp add: live_def validateSession_def split: option.split)
  moreover have "ws_getUserId i s = ws_userId x \<and> ws_getUserId i (cleanupExpiredSessions now s) = ws_userId x"
    if "live now s i = Some x" for x
    using that stored_after_cleanup [OF assms(1), of now]
    by (auto simp: ws_getUserId_def live_def split: option.splits if_splits)
  moreover have "ws_getUserId i s = ws_userId x \<and>
       ws_getUserId i (cleanupExpiredSessions now s) = [] \<and> ws_getUserId i (snd (validateSession i now s)) = []"
    if "expired now s i = Some x" for x
  proof -
    have "live now s i = None" "map_of s i = Some x" "ws_expiresAt x < now"
      using that by (auto simp: expired_def live_def split: option.splits if_splits)
    then show ?thesis using stored_after_cleanup [OF assms(1), of now] by (simp add: ws_getUserId_def validateSession_def)
  qed
  moreover have "map_ok (cleanupExpiredSessions now s)" using assms(1) by (simp add: cleanupExpiredSessions_def map_ok_filter)
  then have "getActiveSessionCount (cleanupExpiredSessions now s) = card (dom (live now s))"
    by (simp add: count_stored stored_after_cleanup [OF assms(1)])
  ultimately show ?thesis using live_after [OF assms] count_live_expired [OF assms(1)] by blast
qed

text \<open>a session that expired at 5: its user is named until a removal at 7\<close>

lemma session_expiry_witness:
  "let (i, s) = createSession ''ann'' ''ip'' ''ua'' 3 1 2 ''r'' []
   in \<not> fst (validateSession i 7 s) \<and> ws_getUserId i s = ''ann'' \<and> ws_getUserId i (cleanupExpiredSessions 7 s) = [] \<and>
      getActiveSessionCount (cleanupExpiredSessions 7 s) = 0"
proof -
  obtain i s where c: "createSession ''ann'' ''ip'' ''ua'' 3 1 2 ''r'' [] = (i, s)" by (metis surj_pair)
  then have s: "s = [(i, \<lparr>ws_sessionId = i, ws_userId = ''ann'', ws_createdAt = 2, ws_expiresAt = 5,
      ws_ipAddress = ''ip'', ws_userAgent = ''ua''\<rparr>)]"
    by (auto simp: createSession_def Let_def)
  have "map_ok s" "live 7 s = Map.empty" "expired 7 s i = Some (snd (hd s))" by (auto simp: s live_def expired_def fun_eq_iff)
  then show ?thesis using session_expiry [of s 7 9 i] by (simp add: c) (simp add: s)
qed

end
