(* ===== verification/P2p_Message.thy ===== *)
theory P2p_Message
  imports P2p_Codec "HOL-Library.Sublist"
begin

text \<open>
  The messages of the network (\<open>network/message.cpp\<close>) and the states of a connection
  (\<open>network/protocol.cpp\<close>). The clock and the random number of a message are arguments, and
  so are the handlers; a mutex that an operation locks once is left out.
\<close>

section \<open>Messages\<close>

datatype message_type = PING | PONG | TRANSACTION | BLOCK | BLOCKCHAIN_SYNC | BLOCKCHAIN_RESPONSE | PEER_DISCOVERY
  | PEER_RESPONSE | KEY_EXCHANGE | KEY_EXCHANGE_RESPONSE | AUTHENTICATION | AUTHENTICATION_RESPONSE | VOTE | COMMIT
  | STATUS | ERROR

text \<open>the enumeration is a byte, and holds every byte\<close>

fun type_code :: "message_type \<Rightarrow> u8" where
  "type_code PING = 0x01"
| "type_code PONG = 0x02"
| "type_code TRANSACTION = 0x03"
| "type_code BLOCK = 0x04"
| "type_code BLOCKCHAIN_SYNC = 0x05"
| "type_code BLOCKCHAIN_RESPONSE = 0x06"
| "type_code PEER_DISCOVERY = 0x07"
| "type_code PEER_RESPONSE = 0x08"
| "type_code KEY_EXCHANGE = 0x09"
| "type_code KEY_EXCHANGE_RESPONSE = 0x0A"
| "type_code AUTHENTICATION = 0x0B"
| "type_code AUTHENTICATION_RESPONSE = 0x0C"
| "type_code VOTE = 0x0D"
| "type_code COMMIT = 0x0E"
| "type_code STATUS = 0x0F"
| "type_code ERROR = 0x10"

record message =
  ms_type :: u8
  ms_senderId :: string
  ms_recipientId :: string
  ms_payload :: string
  ms_sequence :: u64
  ms_timestamp :: u64
  ms_signature :: string

definition empty_message :: message where
  "empty_message = \<lparr>ms_type = type_code PING, ms_senderId = [], ms_recipientId = [], ms_payload = [],
     ms_sequence = 0, ms_timestamp = 0, ms_signature = []\<rparr>"

definition new_message :: "u8 \<Rightarrow> string \<Rightarrow> string \<Rightarrow> string \<Rightarrow> u64 \<Rightarrow> u64 \<Rightarrow> message" where
  "new_message t sender recipient data now rnd = \<lparr>ms_type = t, ms_senderId = sender, ms_recipientId = recipient,
     ms_payload = data, ms_sequence = rnd, ms_timestamp = now, ms_signature = []\<rparr>"

text \<open>a byte printed with \<open>operator<<\<close> is a character\<close>

definition ms_serialize :: "message \<Rightarrow> string" where
  "ms_serialize m = join CHR ''|'' [[char_of (unat (ms_type m))], ms_senderId m, ms_recipientId m, ms_payload m,
     dec_u64 (ms_sequence m), dec_u64 (ms_timestamp m), ms_signature m]"

definition ms_deserialize :: "string \<Rightarrow> message cpp" where
  "ms_deserialize text =
     (let (typeStr, ss) = getline CHR ''|'' (Some text)
      in cpp_then (stoi typeStr) (\<lambda>type.
         let (senderId, ss) = getline CHR ''|'' ss;
             (recipientId, ss) = getline CHR ''|'' ss;
             (payload, ss) = getline CHR ''|'' ss;
             (seqStr, ss) = getline CHR ''|'' ss
         in cpp_then (stoull seqStr) (\<lambda>sequence.
            let (tsStr, ss) = getline CHR ''|'' ss
            in cpp_then (stoull tsStr) (\<lambda>timestamp.
               let (signature, ss) = getline CHR ''|'' ss
               in Inr \<lparr>ms_type = of_int type, ms_senderId = senderId, ms_recipientId = recipientId, ms_payload = payload,
                       ms_sequence = sequence, ms_timestamp = timestamp, ms_signature = signature\<rparr>))))"

definition getMessageId :: "message \<Rightarrow> string" where
  "getMessageId m = sha1 (ms_senderId m @ dec_u64 (ms_sequence m) @ dec_u64 (ms_timestamp m))"

text \<open>the string is built and not used\<close>

definition ms_verifyIntegrity :: "message \<Rightarrow> bool" where
  "ms_verifyIntegrity m = (ms_signature m \<noteq> [])"

text \<open>\<open>std::to_string\<close> of a byte is its number\<close>

definition signed_data :: "message \<Rightarrow> string" where
  "signed_data m = dec_nat (unat (ms_type m)) @ ms_senderId m @ ms_recipientId m @ ms_payload m @
     dec_u64 (ms_sequence m) @ dec_u64 (ms_timestamp m)"

definition ms_sign :: "string \<Rightarrow> message \<Rightarrow> message" where
  "ms_sign privateKey m = m\<lparr>ms_signature := sha1_hmac privateKey (signed_data m)\<rparr>"

definition ms_verifySignature :: "string \<Rightarrow> message \<Rightarrow> bool" where
  "ms_verifySignature publicKey m = (sha1_hmac publicKey (signed_data m) = ms_signature m)"

section \<open>The queue\<close>

record message_queue =
  mq_messages :: "message list"
  mq_maxSize :: nat

definition mq_new :: "nat \<Rightarrow> message_queue" where
  "mq_new maxQueueSize = \<lparr>mq_messages = [], mq_maxSize = maxQueueSize\<rparr>"

text \<open>pop of an empty queue is undefined\<close>

definition mq_push :: "message \<Rightarrow> message_queue \<Rightarrow> message_queue cpp" where
  "mq_push m q =
     (if mq_maxSize q \<le> length (mq_messages q)
      then if mq_messages q = [] then Inl Bad_Index else Inr (q\<lparr>mq_messages := tl (mq_messages q) @ [m]\<rparr>)
      else Inr (q\<lparr>mq_messages := mq_messages q @ [m]\<rparr>))"

definition mq_pop :: "message_queue \<Rightarrow> message option \<times> message_queue" where
  "mq_pop q = (case mq_messages q of [] \<Rightarrow> (None, q) | m # ms \<Rightarrow> (Some m, q\<lparr>mq_messages := ms\<rparr>))"

definition mq_size :: "message_queue \<Rightarrow> nat" where
  "mq_size q = length (mq_messages q)"

definition mq_clear :: "message_queue \<Rightarrow> message_queue" where
  "mq_clear q = q\<lparr>mq_messages := []\<rparr>"

definition mq_isEmpty :: "message_queue \<Rightarrow> bool" where
  "mq_isEmpty q = (mq_messages q = [])"

section \<open>Handlers and states\<close>

text \<open>the handlers by the type of the message\<close>

type_synonym 'h handlers = "(u8, 'h) std_map"

definition registerHandler :: "u8 \<Rightarrow> 'h \<Rightarrow> 'h handlers \<Rightarrow> 'h handlers" where
  "registerHandler type h m = map_put type h m"

definition unregisterHandler :: "u8 \<Rightarrow> 'h handlers \<Rightarrow> 'h handlers" where
  "unregisterHandler type m = map_erase type m"

text \<open>the handler that is called\<close>

definition handleMessage :: "message \<Rightarrow> 'h handlers \<Rightarrow> 'h option" where
  "handleMessage msg m = map_of m (ms_type msg)"

definition hasHandler :: "u8 \<Rightarrow> 'h handlers \<Rightarrow> bool" where
  "hasHandler type m = (map_of m type \<noteq> None)"

datatype link_state = DISCONNECTED | HANDSHAKE | AUTHENTICATING | CONNECTED | SYNCING | READY

record protocol_state =
  ps_currentState :: link_state
  ps_peerId :: string
  ps_handshakeStartTime :: u64

definition ps_new :: protocol_state where
  "ps_new = \<lparr>ps_currentState = DISCONNECTED, ps_peerId = [], ps_handshakeStartTime = 0\<rparr>"

definition ps_setState :: "link_state \<Rightarrow> protocol_state \<Rightarrow> protocol_state" where
  "ps_setState s p = p\<lparr>ps_currentState := s\<rparr>"

definition canSendMessage :: "u8 \<Rightarrow> protocol_state \<Rightarrow> bool" where
  "canSendMessage type p =
     (case ps_currentState p of
        DISCONNECTED \<Rightarrow> False
      | HANDSHAKE \<Rightarrow> type = type_code KEY_EXCHANGE \<or> type = type_code KEY_EXCHANGE_RESPONSE
      | AUTHENTICATING \<Rightarrow> type = type_code AUTHENTICATION \<or> type = type_code AUTHENTICATION_RESPONSE
      | CONNECTED \<Rightarrow> type = type_code STATUS \<or> type = type_code PING \<or> type = type_code PONG
      | SYNCING \<Rightarrow> type = type_code BLOCKCHAIN_SYNC \<or> type = type_code BLOCKCHAIN_RESPONSE
      | READY \<Rightarrow> True)"

definition ps_setPeerId :: "string \<Rightarrow> protocol_state \<Rightarrow> protocol_state" where
  "ps_setPeerId i p = p\<lparr>ps_peerId := i\<rparr>"

definition ps_reset :: "protocol_state \<Rightarrow> protocol_state" where
  "ps_reset p = p\<lparr>ps_currentState := DISCONNECTED, ps_peerId := [], ps_handshakeStartTime := 0\<rparr>"

section \<open>No message is read\<close>

lemma stoi_control:
  assumes "(of_char c :: nat) < 32" shows "stoi [c] = Inl Invalid_Argument"
proof -
  have "digit_value 10 c = None" using assms by (simp add: digit_value_def)
  moreover have "c \<noteq> CHR ''-''" "c \<noteq> CHR ''+''" using assms by auto
  ultimately have "skip_space [c] = [] \<or> (skip_space [c] = [c] \<and> take_sign [c] = (False, [c]) \<and> take_digits 10 [c] = ([], [c]))"
    by (simp add: skip_space_def take_sign_def)
  then show ?thesis by (auto simp: stoi_def sto_signed_def strto_int_def take_sign_def)
qed

lemma type_code_control: "unat (type_code t) < 32"
  by (cases t) simp_all

text \<open>
  No message is read back: the type is printed as a character, a control character for each
  of the sixteen types, and parsed as a number, so reading throws whatever the other fields
  are. A signature protects no field by itself: any text that is not empty passes the test of
  integrity; who can verify a signature can make it; and the border between sender, recipient
  and payload can be moved without changing it.
\<close>

theorem messages_unreadable:
  "(ms_type m = type_code t \<longrightarrow> ms_deserialize (ms_serialize m) = Inl Invalid_Argument) \<and>
   ms_verifyIntegrity (m\<lparr>ms_signature := c # s\<rparr>) \<and>
   ms_verifySignature k (ms_sign k m) \<and>
   ms_verifySignature k (m\<lparr>ms_senderId := a @ b, ms_recipientId := d, ms_signature := ms_signature (ms_sign k (m\<lparr>ms_senderId := a, ms_recipientId := b @ d\<rparr>))\<rparr>)"
proof (intro conjI impI)
  assume t: "ms_type m = type_code t"
  let ?c = "char_of (unat (ms_type m)) :: char"
  have n: "(of_char ?c :: nat) < 32" using type_code_control [of t] by (simp add: t)
  then have "CHR ''|'' \<noteq> ?c" using char_of_eq_iff [of "unat (ms_type m)" "CHR ''|''"] by (auto simp: take_bit_eq_mod)
  then have "CHR ''|'' \<notin> set [?c]" by simp
  then have "getline CHR ''|'' (Some (ms_serialize m)) = ([?c], Some (join CHR ''|'' [ms_senderId m, ms_recipientId m, ms_payload m,
     dec_u64 (ms_sequence m), dec_u64 (ms_timestamp m), ms_signature m]))"
    unfolding ms_serialize_def join.simps(3) by (rule getline_field)
  then show "ms_deserialize (ms_serialize m) = Inl Invalid_Argument"
    using stoi_control [OF n] by (simp add: ms_deserialize_def)
qed (simp_all add: ms_verifyIntegrity_def ms_verifySignature_def ms_sign_def signed_data_def)

lemma messages_unreadable_witness:
  "ms_deserialize (ms_serialize (new_message (type_code VOTE) ''ann'' ''bob'' ''yes'' 5 6)) = Inl Invalid_Argument"
  using messages_unreadable [of "new_message (type_code VOTE) ''ann'' ''bob'' ''yes'' 5 6" VOTE]
  by (simp add: new_message_def)

section \<open>The queue is a bounded buffer in order\<close>

datatype queue_op = Push message | Pop | Clear

fun mq_run :: "queue_op list \<Rightarrow> message_queue \<Rightarrow> (message list \<times> message_queue) cpp" where
  "mq_run [] q = Inr ([], q)"
| "mq_run (Push m # ops) q = cpp_then (mq_push m q) (mq_run ops)"
| "mq_run (Pop # ops) q =
     (let (r, q) = mq_pop q
      in cpp_then (mq_run ops q) (\<lambda>(out, q). Inr ((case r of None \<Rightarrow> out | Some m \<Rightarrow> m # out), q)))"
| "mq_run (Clear # ops) q = mq_run ops (mq_clear q)"

fun pushed :: "queue_op list \<Rightarrow> message list" where
  "pushed [] = []"
| "pushed (Push m # ops) = m # pushed ops"
| "pushed (op # ops) = pushed ops"

lemma mq_run_ok:
  "0 < mq_maxSize q \<Longrightarrow> length (mq_messages q) \<le> mq_maxSize q \<Longrightarrow>
    \<exists>out q'. mq_run ops q = Inr (out, q') \<and> length (mq_messages q') \<le> mq_maxSize q \<and>
      subseq (out @ mq_messages q') (mq_messages q @ pushed ops) \<and>
      (length (mq_messages q @ pushed ops) \<le> mq_maxSize q \<longrightarrow> Clear \<notin> set ops \<longrightarrow> out @ mq_messages q' = mq_messages q @ pushed ops)"
proof (induction ops q rule: mq_run.induct)
  case (2 m ops q)
  let ?ms = "if mq_maxSize q \<le> length (mq_messages q) then tl (mq_messages q) else mq_messages q"
  let ?q = "q\<lparr>mq_messages := ?ms @ [m]\<rparr>"
  have p: "mq_push m q = Inr ?q" using 2(2) by (auto simp: mq_push_def)
  have "length (mq_messages ?q) \<le> mq_maxSize ?q" using 2(2,3) by auto
  then obtain out q' where r: "mq_run ops ?q = Inr (out, q')" "length (mq_messages q') \<le> mq_maxSize q"
      "subseq (out @ mq_messages q') ((?ms @ [m]) @ pushed ops)"
      "length ((?ms @ [m]) @ pushed ops) \<le> mq_maxSize q \<longrightarrow> Clear \<notin> set ops \<longrightarrow> out @ mq_messages q' = (?ms @ [m]) @ pushed ops"
    using 2(1) [of ?q] 2(2) by auto
  have "subseq ?ms (mq_messages q)" by (cases "mq_messages q") auto
  then have "subseq ((?ms @ [m]) @ pushed ops) (mq_messages q @ pushed (Push m # ops))"
    by (simp add: list_emb_append_mono)
  with r(3) have "subseq (out @ mq_messages q') (mq_messages q @ pushed (Push m # ops))" by (rule subseq_order.trans)
  then show ?case using p r(1,2,4) by auto
next
  case (3 ops q)
  then show ?case
  proof (cases "mq_messages q")
    case Nil
    then show ?thesis using 3(1) [OF refl, of None q] 3(2,3) by (auto simp: mq_pop_def)
  next
    case (Cons m ms)
    let ?q = "q\<lparr>mq_messages := ms\<rparr>"
    have p: "mq_pop q = (Some m, ?q)" by (simp add: mq_pop_def Cons)
    obtain out q' where r: "mq_run ops ?q = Inr (out, q')" "length (mq_messages q') \<le> mq_maxSize q"
        "subseq (out @ mq_messages q') (ms @ pushed ops)"
        "length (ms @ pushed ops) \<le> mq_maxSize q \<longrightarrow> Clear \<notin> set ops \<longrightarrow> out @ mq_messages q' = ms @ pushed ops"
      using 3(1) [OF p [symmetric] refl] 3(2,3) Cons by auto
    then show ?thesis using p Cons by auto
  qed
next
  case (4 ops q)
  obtain out q' where "mq_run ops (mq_clear q) = Inr (out, q')" "length (mq_messages q') \<le> mq_maxSize q"
      "subseq (out @ mq_messages q') (pushed ops)"
    using 4(1) 4(2) by (auto simp: mq_clear_def)
  then show ?case by (auto intro: subseq_order.trans)
qed auto

text \<open>
  A queue with room for at least one message never fails, never exceeds its size, and
  delivers what is pushed in order and at most once; if no more is pushed than fits and it is
  not cleared, nothing is lost. A queue of size 0 pops an empty queue at the first push.
\<close>

theorem queue_in_order:
  "(0 < n \<longrightarrow> (\<exists>out q. mq_run ops (mq_new n) = Inr (out, q) \<and> mq_size q \<le> n \<and>
      subseq (out @ mq_messages q) (pushed ops) \<and>
      (length (pushed ops) \<le> n \<and> Clear \<notin> set ops \<longrightarrow> out @ mq_messages q = pushed ops))) \<and>
   mq_push m (mq_new 0) = Inl Bad_Index"
  using mq_run_ok [of "mq_new n" ops] by (auto simp: mq_new_def mq_size_def mq_push_def)

lemma queue_in_order_witness:
  "\<exists>out q. mq_run [Push empty_message, Pop, Push (empty_message\<lparr>ms_payload := ''x''\<rparr>)] (mq_new 2) = Inr (out, q) \<and>
     out @ mq_messages q = [empty_message, empty_message\<lparr>ms_payload := ''x''\<rparr>]"
  using queue_in_order [of 2 "[Push empty_message, Pop, Push (empty_message\<lparr>ms_payload := ''x''\<rparr>)]" empty_message, THEN conjunct1]
  by (auto simp del: mq_run.simps)

end
