(* ===== verification/P2p_Peers.thy ===== *)
theory P2p_Peers
  imports P2p_Codec P2p_Store "HOL-Library.Multiset"
begin

text \<open>
  The peers a node knows (\<open>network/peer_manager.cpp\<close>) and its connections
  (\<open>network/connection_pool.cpp\<close>). The clock is an argument; sockets are numbers, and an
  operation returns the sockets it closes. A mutex that an operation locks once is left out.
\<close>

section \<open>Peers\<close>

record peer_info =
  pi_peerId :: string
  pi_address :: string
  pi_port :: int
  pi_lastSeen :: u64
  pi_latency :: u64
  pi_score :: int
  pi_isActive :: bool
  pi_version :: string

definition empty_peer :: peer_info where
  "empty_peer = \<lparr>pi_peerId = [], pi_address = [], pi_port = 0, pi_lastSeen = 0, pi_latency = 0, pi_score = 0,
     pi_isActive = False, pi_version = []\<rparr>"

definition new_peer :: "string \<Rightarrow> string \<Rightarrow> int \<Rightarrow> u64 \<Rightarrow> peer_info" where
  "new_peer peerId addr port now =
     empty_peer\<lparr>pi_peerId := peerId, pi_address := addr, pi_port := port, pi_lastSeen := now, pi_isActive := True\<rparr>"

record peer_manager =
  pm_knownPeers :: "(string, peer_info) std_map"
  pm_bannedPeers :: "string set"
  pm_maxPeers :: nat

definition pm_new :: "nat \<Rightarrow> peer_manager" where
  "pm_new maxPeersCount = \<lparr>pm_knownPeers = [], pm_bannedPeers = {}, pm_maxPeers = maxPeersCount\<rparr>"

text \<open>the loop that erases the first inactive peer\<close>

fun erase_inactive :: "(string, peer_info) std_map \<Rightarrow> (string, peer_info) std_map" where
  "erase_inactive [] = []"
| "erase_inactive ((k, p) # m) = (if \<not> pi_isActive p then m else (k, p) # erase_inactive m)"

definition pm_addPeer :: "string \<Rightarrow> string \<Rightarrow> int \<Rightarrow> u64 \<Rightarrow> peer_manager \<Rightarrow> peer_manager" where
  "pm_addPeer peerId address port now m =
     (if peerId \<in> pm_bannedPeers m then m
      else let known = (if pm_maxPeers m \<le> length (pm_knownPeers m) then erase_inactive (pm_knownPeers m) else pm_knownPeers m)
           in m\<lparr>pm_knownPeers :=
                case map_of known peerId of
                  None \<Rightarrow> map_put peerId (new_peer peerId address port now) known
                | Some p \<Rightarrow> map_put peerId (p\<lparr>pi_address := address, pi_port := port, pi_lastSeen := now, pi_isActive := True\<rparr>) known\<rparr>)"

definition pm_removePeer :: "string \<Rightarrow> peer_manager \<Rightarrow> peer_manager" where
  "pm_removePeer peerId m = m\<lparr>pm_knownPeers := map_erase peerId (pm_knownPeers m)\<rparr>"

definition on_peer :: "string \<Rightarrow> (peer_info \<Rightarrow> peer_info) \<Rightarrow> peer_manager \<Rightarrow> peer_manager" where
  "on_peer peerId f m =
     (case map_of (pm_knownPeers m) peerId of
        None \<Rightarrow> m
      | Some p \<Rightarrow> m\<lparr>pm_knownPeers := map_put peerId (f p) (pm_knownPeers m)\<rparr>)"

definition updatePeerSeen :: "string \<Rightarrow> u64 \<Rightarrow> peer_manager \<Rightarrow> peer_manager" where
  "updatePeerSeen peerId now m = on_peer peerId (\<lambda>p. p\<lparr>pi_lastSeen := now, pi_isActive := True\<rparr>) m"

definition updatePeerLatency :: "string \<Rightarrow> u64 \<Rightarrow> peer_manager \<Rightarrow> peer_manager" where
  "updatePeerLatency peerId latency m = on_peer peerId (\<lambda>p. p\<lparr>pi_latency := (pi_latency p + latency) div 2\<rparr>) m"

text \<open>banPeer locks the mutex that adjustPeerScore holds\<close>

definition adjustPeerScore :: "string \<Rightarrow> int \<Rightarrow> peer_manager \<Rightarrow> peer_manager cpp" where
  "adjustPeerScore peerId delta m =
     (case map_of (pm_knownPeers m) peerId of
        None \<Rightarrow> Inr m
      | Some p \<Rightarrow>
          let score = pi_score p + delta
          in if score < - (2 ^ 31) \<or> 2 ^ 31 \<le> score then Inl Overflow
             else if score < - 100 then Inl Deadlock
             else Inr (m\<lparr>pm_knownPeers := map_put peerId (p\<lparr>pi_score := score\<rparr>) (pm_knownPeers m)\<rparr>))"

definition banPeer :: "string \<Rightarrow> peer_manager \<Rightarrow> peer_manager" where
  "banPeer peerId m = m\<lparr>pm_bannedPeers := insert peerId (pm_bannedPeers m), pm_knownPeers := map_erase peerId (pm_knownPeers m)\<rparr>"

definition unbanPeer :: "string \<Rightarrow> peer_manager \<Rightarrow> peer_manager" where
  "unbanPeer peerId m = m\<lparr>pm_bannedPeers := pm_bannedPeers m - {peerId}\<rparr>"

definition isBanned :: "string \<Rightarrow> peer_manager \<Rightarrow> bool" where
  "isBanned peerId m = (peerId \<in> pm_bannedPeers m)"

definition pm_getPeer :: "string \<Rightarrow> peer_manager \<Rightarrow> peer_info" where
  "pm_getPeer peerId m = (case map_of (pm_knownPeers m) peerId of Some p \<Rightarrow> p | None \<Rightarrow> empty_peer)"

definition getActivePeers :: "peer_manager \<Rightarrow> peer_info list" where
  "getActivePeers m = filter pi_isActive (map snd (pm_knownPeers m))"

definition peer_better :: "peer_info \<Rightarrow> peer_info \<Rightarrow> bool" where
  "peer_better a b = (if pi_score a \<noteq> pi_score b then pi_score b < pi_score a else pi_latency a < pi_latency b)"

text \<open>\<open>std::sort\<close>; it leaves the order of equal peers open, here they keep theirs\<close>

fun insert_peer :: "peer_info \<Rightarrow> peer_info list \<Rightarrow> peer_info list" where
  "insert_peer p [] = [p]"
| "insert_peer p (q # qs) = (if peer_better q p then q # insert_peer p qs else p # q # qs)"

definition getBestPeers :: "nat \<Rightarrow> peer_manager \<Rightarrow> peer_info list" where
  "getBestPeers n m =
     (let sorted = foldr insert_peer (getActivePeers m) []
      in if n < length sorted then take n sorted else sorted)"

definition getPeerCount :: "peer_manager \<Rightarrow> nat" where
  "getPeerCount m = length (pm_knownPeers m)"

definition cleanupInactivePeers :: "u64 \<Rightarrow> u64 \<Rightarrow> peer_manager \<Rightarrow> peer_manager" where
  "cleanupInactivePeers maxInactiveMs now m =
     m\<lparr>pm_knownPeers := filter (\<lambda>(_, p). \<not> maxInactiveMs < now - pi_lastSeen p) (pm_knownPeers m)\<rparr>"

definition pm_serialize :: "peer_manager \<Rightarrow> string" where
  "pm_serialize m =
     concat (map (\<lambda>(i, p). join CHR '':'' [i, pi_address p, dec_int (pi_port p), dec_u64 (pi_lastSeen p), dec_int (pi_score p)] @ ''|'')
       (pm_knownPeers m))"

text \<open>one entry; None: its identifier or its address is empty\<close>

definition read_peer :: "string \<Rightarrow> u64 \<Rightarrow> (string \<times> peer_info) option cpp" where
  "read_peer entry now =
     (let (i, ss) = getline CHR '':'' (Some entry);
          (addr, ss) = getline CHR '':'' ss;
          (portStr, ss) = getline CHR '':'' ss;
          (lastSeenStr, ss) = getline CHR '':'' ss;
          (scoreStr, ss) = getline CHR '':'' ss
      in if i \<noteq> [] \<and> addr \<noteq> []
         then cpp_then (stoi portStr) (\<lambda>port.
              cpp_then (stoull lastSeenStr) (\<lambda>lastSeen.
              cpp_then (stoi scoreStr) (\<lambda>score.
                Inr (Some (i, (new_peer i addr port now)\<lparr>pi_lastSeen := lastSeen, pi_score := score\<rparr>)))))
         else Inr None)"

text \<open>the loop; an exception leaves the peers read so far\<close>

fun read_peers :: "string list \<Rightarrow> u64 \<Rightarrow> (string, peer_info) std_map \<Rightarrow> unit cpp \<times> (string, peer_info) std_map" where
  "read_peers [] now known = (Inr (), known)"
| "read_peers (entry # rest) now known =
     (if entry = [] then read_peers rest now known
      else case read_peer entry now of
        Inl e \<Rightarrow> (Inl e, known)
      | Inr None \<Rightarrow> read_peers rest now known
      | Inr (Some (i, p)) \<Rightarrow> read_peers rest now (map_put i p known))"

definition pm_deserialize :: "string \<Rightarrow> u64 \<Rightarrow> peer_manager \<Rightarrow> unit cpp \<times> peer_manager" where
  "pm_deserialize text now m =
     (let (r, known) = read_peers (split_fields CHR ''|'' text) now (pm_knownPeers m)
      in (r, m\<lparr>pm_knownPeers := known\<rparr>))"

section \<open>Connections\<close>

type_synonym socket = int

record connection =
  cn_socket :: socket
  cn_peerId :: string
  cn_createdAt :: u64
  cn_lastUsed :: u64
  cn_isActive :: bool

record connection_pool =
  cp_connections :: "(string, connection) std_map"
  cp_availableConnections :: "string list"
  cp_maxConnections :: nat
  cp_activeCount :: u64

definition cp_new :: "nat \<Rightarrow> connection_pool" where
  "cp_new maxConn = \<lparr>cp_connections = [], cp_availableConnections = [], cp_maxConnections = maxConn, cp_activeCount = 0\<rparr>"

definition addConnection :: "string \<Rightarrow> socket \<Rightarrow> u64 \<Rightarrow> connection_pool \<Rightarrow> bool \<times> connection_pool" where
  "addConnection peerId sock now p =
     (if cp_maxConnections p \<le> length (cp_connections p) then (False, p)
      else (True, p\<lparr>cp_connections := map_put peerId \<lparr>cn_socket = sock, cn_peerId = peerId, cn_createdAt = now,
                                      cn_lastUsed = now, cn_isActive = True\<rparr> (cp_connections p),
                    cp_availableConnections := cp_availableConnections p @ [peerId],
                    cp_activeCount := cp_activeCount p + 1\<rparr>))"

definition removeConnection :: "string \<Rightarrow> connection_pool \<Rightarrow> bool \<times> connection_pool \<times> socket list" where
  "removeConnection peerId p =
     (case map_of (cp_connections p) peerId of
        None \<Rightarrow> (False, p, [])
      | Some c \<Rightarrow> (True, p\<lparr>cp_connections := map_erase peerId (cp_connections p), cp_activeCount := cp_activeCount p - 1\<rparr>,
                   [cn_socket c]))"

text \<open>-1: no socket\<close>

definition getConnection :: "string \<Rightarrow> u64 \<Rightarrow> connection_pool \<Rightarrow> socket \<times> connection_pool" where
  "getConnection peerId now p =
     (case map_of (cp_connections p) peerId of
        None \<Rightarrow> (- 1, p)
      | Some c \<Rightarrow> (cn_socket c, p\<lparr>cp_connections := map_put peerId (c\<lparr>cn_lastUsed := now\<rparr>) (cp_connections p)\<rparr>))"

definition acquireConnection :: "string \<Rightarrow> u64 \<Rightarrow> connection_pool \<Rightarrow> socket \<times> connection_pool" where
  "acquireConnection peerId now p =
     (case map_of (cp_connections p) peerId of
        None \<Rightarrow> (- 1, p)
      | Some c \<Rightarrow> if cn_isActive c
          then (cn_socket c, p\<lparr>cp_connections := map_put peerId (c\<lparr>cn_lastUsed := now\<rparr>) (cp_connections p)\<rparr>)
          else (- 1, p))"

definition releaseConnection :: "string \<Rightarrow> u64 \<Rightarrow> connection_pool \<Rightarrow> connection_pool" where
  "releaseConnection peerId now p =
     (case map_of (cp_connections p) peerId of
        None \<Rightarrow> p
      | Some c \<Rightarrow> p\<lparr>cp_connections := map_put peerId (c\<lparr>cn_isActive := True, cn_lastUsed := now\<rparr>) (cp_connections p),
                    cp_availableConnections := cp_availableConnections p @ [peerId]\<rparr>)"

definition hasConnection :: "string \<Rightarrow> connection_pool \<Rightarrow> bool" where
  "hasConnection peerId p = (map_of (cp_connections p) peerId \<noteq> None)"

definition cp_size :: "connection_pool \<Rightarrow> nat" where
  "cp_size p = length (cp_connections p)"

definition idle :: "u64 \<Rightarrow> u64 \<Rightarrow> connection \<Rightarrow> bool" where
  "idle idleTimeoutMs now c = (idleTimeoutMs < now - cn_lastUsed c)"

definition cleanupIdleConnections :: "u64 \<Rightarrow> u64 \<Rightarrow> connection_pool \<Rightarrow> connection_pool \<times> socket list" where
  "cleanupIdleConnections idleTimeoutMs now p =
     (let old = filter (\<lambda>(_, c). idle idleTimeoutMs now c) (cp_connections p)
      in (p\<lparr>cp_connections := filter (\<lambda>(_, c). \<not> idle idleTimeoutMs now c) (cp_connections p),
            cp_activeCount := cp_activeCount p - of_nat (length old)\<rparr>, map (\<lambda>(_, c). cn_socket c) old))"

definition closeAll :: "connection_pool \<Rightarrow> connection_pool \<times> socket list" where
  "closeAll p = (p\<lparr>cp_connections := [], cp_availableConnections := [], cp_activeCount := 0\<rparr>,
     map (\<lambda>(_, c). cn_socket c) (cp_connections p))"

section \<open>The limit of connections\<close>

record limiter =
  li_connectionCounts :: "(string, nat) std_map"
  li_maxPerIp :: nat
  li_maxTotal :: nat

definition li_new :: "nat \<Rightarrow> nat \<Rightarrow> limiter" where
  "li_new maxPerIp maxTotal = \<lparr>li_connectionCounts = [], li_maxPerIp = maxPerIp, li_maxTotal = maxTotal\<rparr>"

definition li_getTotalCount :: "limiter \<Rightarrow> nat" where
  "li_getTotalCount l = sum_list (map snd (li_connectionCounts l))"

text \<open>the count of an unknown address is entered as 0\<close>

definition allowConnection :: "string \<Rightarrow> limiter \<Rightarrow> bool \<times> limiter" where
  "allowConnection ip l =
     (if li_maxTotal l \<le> li_getTotalCount l then (False, l)
      else let (ipCount, counts) = map_index 0 ip (li_connectionCounts l); l = l\<lparr>li_connectionCounts := counts\<rparr>
           in (\<not> li_maxPerIp l \<le> ipCount, l))"

definition connectionEstablished :: "string \<Rightarrow> limiter \<Rightarrow> limiter" where
  "connectionEstablished ip l = l\<lparr>li_connectionCounts := map_change 0 ip Suc (li_connectionCounts l)\<rparr>"

definition connectionClosed :: "string \<Rightarrow> limiter \<Rightarrow> limiter" where
  "connectionClosed ip l =
     (case map_of (li_connectionCounts l) ip of
        None \<Rightarrow> l
      | Some n \<Rightarrow> l\<lparr>li_connectionCounts :=
          (if 1 < n then map_put ip (n - 1) (li_connectionCounts l) else map_erase ip (li_connectionCounts l))\<rparr>)"

definition getCountForIp :: "string \<Rightarrow> limiter \<Rightarrow> nat" where
  "getCountForIp ip l = (case map_of (li_connectionCounts l) ip of Some n \<Rightarrow> n | None \<Rightarrow> 0)"

definition li_reset :: "limiter \<Rightarrow> limiter" where
  "li_reset l = l\<lparr>li_connectionCounts := []\<rparr>"

section \<open>The limiter counts a multiset of connections\<close>

definition open_connections :: "limiter \<Rightarrow> string multiset" where
  "open_connections l = mset (concat (map (\<lambda>(ip, n). replicate n ip) (li_connectionCounts l)))"

lemma count_open: "map_ok (li_connectionCounts l) \<Longrightarrow> count (open_connections l) ip = getCountForIp ip l"
proof -
  have "count (mset (concat (map (\<lambda>(ip, n). replicate n ip) m))) ip = (case map_of m ip of Some n \<Rightarrow> n | None \<Rightarrow> 0)"
    if "map_ok m" for m
    using that
  proof (induction m)
    case (Cons a m)
    obtain k n where a: "a = (k, n)" by (cases a)
    have "map_of m k = None" using Cons.prems by (auto simp: a map_of_eq_None_iff)
    then show ?case using Cons by (auto simp: a)
  qed simp
  then show "map_ok (li_connectionCounts l) \<Longrightarrow> count (open_connections l) ip = getCountForIp ip l"
    by (simp add: open_connections_def getCountForIp_def)
qed

lemma size_open: "size (open_connections l) = li_getTotalCount l"
proof -
  have "length (concat (map (\<lambda>(ip, n). replicate n ip) m)) = sum_list (map snd m)" for m :: "(string, nat) std_map"
    by (induction m) auto
  then show ?thesis by (simp only: open_connections_def li_getTotalCount_def size_mset)
qed

definition li_ok :: "limiter \<Rightarrow> bool" where
  "li_ok l = map_ok (li_connectionCounts l)"

lemma li_ok_steps [simp]:
  "li_ok (li_new a b)" "li_ok l \<Longrightarrow> li_ok (snd (allowConnection ip l))" "li_ok l \<Longrightarrow> li_ok (connectionEstablished ip l)"
  "li_ok l \<Longrightarrow> li_ok (connectionClosed ip l)" "li_ok (li_reset l)"
  by (auto simp: li_ok_def li_new_def allowConnection_def connectionEstablished_def connectionClosed_def li_reset_def
      Let_def split_def split: option.split)

lemma open_eqI: "li_ok l \<Longrightarrow> (\<And>ip. getCountForIp ip l = count M ip) \<Longrightarrow> open_connections l = M"
  by (intro multiset_eqI) (simp add: count_open li_ok_def)

lemma open_steps:
  assumes "li_ok l"
  shows "open_connections (snd (allowConnection ip l)) = open_connections l"
    "open_connections (connectionEstablished ip l) = add_mset ip (open_connections l)"
    "open_connections (connectionClosed ip l) = open_connections l - {#ip#}"
    "open_connections (li_reset l) = {#}"
    "fst (allowConnection ip l) = (size (open_connections l) < li_maxTotal l \<and> count (open_connections l) ip < li_maxPerIp l)"
proof -
  have ok: "map_ok (li_connectionCounts l)" using assms by (simp add: li_ok_def)
  note c = count_open [OF ok]
  have at: "getCountForIp i l = map_at 0 (li_connectionCounts l) i" for i l by (simp add: getCountForIp_def map_at_def)
  show "open_connections (snd (allowConnection ip l)) = open_connections l"
    using assms ok by (intro open_eqI li_ok_steps(2)) (simp_all add: c at allowConnection_def Let_def split_def)
  show "open_connections (connectionEstablished ip l) = add_mset ip (open_connections l)"
    using assms ok by (intro open_eqI li_ok_steps(3)) (simp_all add: c at connectionEstablished_def)
  show "open_connections (connectionClosed ip l) = open_connections l - {#ip#}"
    using assms ok by (intro open_eqI li_ok_steps(4)) (auto simp: c getCountForIp_def connectionClosed_def split: option.split)
  show "open_connections (li_reset l) = {#}" by (simp add: open_connections_def li_reset_def)
  show "fst (allowConnection ip l) = (size (open_connections l) < li_maxTotal l \<and> count (open_connections l) ip < li_maxPerIp l)"
    by (auto simp: size_open c at allowConnection_def Let_def split_def)
qed

text \<open>
  The calls of several clients in any order. Asking and establishing are two calls, each
  under the lock of its own; a client that may connect holds a permission from the one to the
  other. At most \<open>w\<close> permissions are held at a time, and a connection is established only
  with one.
\<close>

inductive li_step :: "nat \<Rightarrow> limiter \<times> string multiset \<Rightarrow> limiter \<times> string multiset \<Rightarrow> bool" for w where
  li_allow: "allowConnection ip l = (True, l') \<Longrightarrow> size held < w \<Longrightarrow> li_step w (l, held) (l', add_mset ip held)"
| li_refuse: "allowConnection ip l = (False, l') \<Longrightarrow> li_step w (l, held) (l', held)"
| li_establish: "ip \<in># held \<Longrightarrow> li_step w (l, held) (connectionEstablished ip l, held - {#ip#})"
| li_close: "li_step w (l, held) (connectionClosed ip l, held)"
| li_clear: "li_step w (l, held) (li_reset l, held)"

lemma li_max [simp]:
  "li_maxTotal (snd (allowConnection ip l)) = li_maxTotal l" "li_maxPerIp (snd (allowConnection ip l)) = li_maxPerIp l"
  "li_maxTotal (connectionEstablished ip l) = li_maxTotal l" "li_maxPerIp (connectionEstablished ip l) = li_maxPerIp l"
  "li_maxTotal (connectionClosed ip l) = li_maxTotal l" "li_maxPerIp (connectionClosed ip l) = li_maxPerIp l"
  "li_maxTotal (li_reset l) = li_maxTotal l" "li_maxPerIp (li_reset l) = li_maxPerIp l"
  by (auto simp: allowConnection_def connectionEstablished_def connectionClosed_def li_reset_def Let_def split_def split: option.split)

text \<open>connections and permissions together exceed a limit by less than the number of clients\<close>

definition li_bounded :: "nat \<Rightarrow> nat \<Rightarrow> nat \<Rightarrow> limiter \<times> string multiset \<Rightarrow> bool" where
  "li_bounded w a b s \<longleftrightarrow> (case s of (l, held) \<Rightarrow> li_ok l \<and> li_maxPerIp l = a \<and> li_maxTotal l = b \<and>
     size (open_connections l) + size held \<le> b + (w - 1) \<and>
     (\<forall>ip. count (open_connections l) ip + count held ip \<le> a + (w - 1)))"

lemma li_step_bounded:
  assumes "li_step w s s'" "li_bounded w a b s"
  shows "li_bounded w a b s'"
  using assms
proof (induction rule: li_step.induct)
  case (li_allow ip l l' held)
  then have l': "l' = snd (allowConnection ip l)" and "fst (allowConnection ip l)" by simp_all
  then have room: "size (open_connections l) < b" "count (open_connections l) ip < a"
    using li_allow(3) open_steps(5) [of l ip] by (simp_all add: li_bounded_def)
  have "count held ip \<le> size held" by (metis count_le_replicate_mset_subset_eq size_mset_mono size_replicate_mset order_refl)
  then show ?case using li_allow(2,3) room open_steps(1) [of l ip] unfolding l' by (auto simp: li_bounded_def)
next
  case (li_refuse ip l l' held)
  then have "l' = snd (allowConnection ip l)" by simp
  then show ?case using li_refuse(2) open_steps(1) [of l ip] by (simp add: li_bounded_def)
next
  case (li_establish ip held l)
  obtain h where h: "held = add_mset ip h" using multi_member_split [OF li_establish(1)] by blast
  show ?case using li_establish(2) open_steps(2) [of l ip] unfolding h by (auto simp: li_bounded_def split: if_splits)
next
  case (li_close l held ip)
  have "size (M - {#ip#}) \<le> size M" "count (M - {#ip#}) j \<le> count M j" for M :: "string multiset" and j
    by (simp_all add: size_Diff1_le)
  then show ?case using li_close open_steps(3) [of l ip] unfolding li_bounded_def prod.case
    by (metis li_max(5,6) li_ok_steps(4) add_le_mono1 order_trans)
next
  case (li_clear l held)
  then show ?case by (auto simp: li_bounded_def open_steps intro: order_trans [OF le_add2])
qed

lemma li_run_bounded:
  assumes "(li_step w)\<^sup>*\<^sup>* (li_new a b, {#}) (l, held)"
  shows "li_bounded w a b (l, held)"
  using assms
proof (induction rule: rtranclp_induct)
  case base
  then show ?case by (simp add: li_bounded_def) (simp add: li_new_def open_connections_def)
qed (rule li_step_bounded)

text \<open>
  C29: The limiter refines the multiset of the open connections by address: each call of
  connectionEstablished adds a connection (whether it was allowed or not), each of
  connectionClosed removes one, and allowConnection says whether both limits leave room.
  Asking and establishing are separate calls, so the limits are kept exactly only if no two
  clients are between the two: when connections are established only after an own successful
  question, and at most w clients at a time have asked and not yet established, the total and
  the count of an address exceed the limit by at most w - 1. They do exceed it: two clients
  that both ask first both establish, with a limit of one per address.
\<close>

theorem limiter_refines_multiset:
  "(li_ok l \<longrightarrow>
      open_connections (connectionEstablished ip l) = add_mset ip (open_connections l) \<and>
      open_connections (connectionClosed ip l) = open_connections l - {#ip#} \<and>
      fst (allowConnection ip l) = (size (open_connections l) < li_maxTotal l \<and> count (open_connections l) ip < li_maxPerIp l) \<and>
      open_connections (snd (allowConnection ip l)) = open_connections l \<and>
      getCountForIp ip l = count (open_connections l) ip \<and> li_getTotalCount l = size (open_connections l)) \<and>
   ((li_step w)\<^sup>*\<^sup>* (li_new a b, {#}) (l, held) \<longrightarrow>
      li_getTotalCount l \<le> b + (w - 1) \<and> getCountForIp ip l \<le> a + (w - 1)) \<and>
   (let (x, l1) = allowConnection ip (li_new 1 (Suc c)); (y, l2) = allowConnection ip l1
    in x \<and> y \<and> getCountForIp ip (connectionEstablished ip (connectionEstablished ip l2)) = 2)"
proof (intro conjI impI)
  assume "(li_step w)\<^sup>*\<^sup>* (li_new a b, {#}) (l, held)"
  then have i: "li_bounded w a b (l, held)" by (rule li_run_bounded)
  then have "size (open_connections l) \<le> b + (w - 1)" "count (open_connections l) ip \<le> a + (w - 1)"
    unfolding li_bounded_def prod.case by (auto intro: add_leD1)
  then show "li_getTotalCount l \<le> b + (w - 1)" "getCountForIp ip l \<le> a + (w - 1)"
    using i count_open [of l ip] by (simp_all add: li_bounded_def size_open li_ok_def)
next
  show "let (x, l1) = allowConnection ip (li_new 1 (Suc c)); (y, l2) = allowConnection ip l1
    in x \<and> y \<and> getCountForIp ip (connectionEstablished ip (connectionEstablished ip l2)) = 2"
    by (simp add: allowConnection_def li_new_def li_getTotalCount_def map_index_def connectionEstablished_def map_change_def
        map_at_def getCountForIp_def)
qed (simp_all add: open_steps count_open size_open li_ok_def)

lemma limiter_refines_multiset_witness:
  "open_connections (connectionClosed ''ip'' (connectionEstablished ''ip'' (li_new 1 2))) = open_connections (connectionEstablished ''ip'' (li_new 1 2)) - {#''ip''#} \<and>
   getCountForIp ''ip'' (connectionEstablished ''ip'' (snd (allowConnection ''ip'' (li_new 1 2)))) \<le> 1"
proof (intro conjI)
  show "open_connections (connectionClosed ''ip'' (connectionEstablished ''ip'' (li_new 1 2))) = open_connections (connectionEstablished ''ip'' (li_new 1 2)) - {#''ip''#}"
    using limiter_refines_multiset [of "connectionEstablished ''ip'' (li_new 1 2)" "''ip''"] by simp
  let ?l = "snd (allowConnection ''ip'' (li_new 1 2))"
  have "allowConnection ''ip'' (li_new 1 2) = (True, ?l)"
    by (simp add: allowConnection_def li_new_def li_getTotalCount_def map_index_def)
  then have "li_step 1 (li_new 1 2, {#}) (?l, {#''ip''#})" by (rule li_allow) simp
  moreover have "li_step 1 (?l, {#''ip''#}) (connectionEstablished ''ip'' ?l, {#})"
    using li_establish [of "''ip''" "{#''ip''#}" 1 ?l] by simp
  ultimately have "(li_step 1)\<^sup>*\<^sup>* (li_new 1 2, {#}) (connectionEstablished ''ip'' ?l, {#})"
    by (meson converse_rtranclp_into_rtranclp r_into_rtranclp)
  then have "getCountForIp ''ip'' (connectionEstablished ''ip'' ?l) \<le> 1 + (1 - 1)"
    using limiter_refines_multiset by blast
  then show "getCountForIp ''ip'' (connectionEstablished ''ip'' ?l) \<le> 1" by simp
qed

section \<open>Peers in every reachable state\<close>

text \<open>the flag allows the reading of saved peers\<close>

inductive pm_step :: "bool \<Rightarrow> peer_manager \<Rightarrow> peer_manager \<Rightarrow> bool" for reads where
  "pm_step reads m (pm_addPeer i address port now m)"
| "pm_step reads m (pm_removePeer i m)"
| "pm_step reads m (updatePeerSeen i now m)"
| "pm_step reads m (updatePeerLatency i latency m)"
| "adjustPeerScore i delta m = Inr m' \<Longrightarrow> pm_step reads m m'"
| "pm_step reads m (banPeer i m)"
| "pm_step reads m (unbanPeer i m)"
| "pm_step reads m (cleanupInactivePeers maxInactiveMs now m)"
| "reads \<Longrightarrow> pm_deserialize content now m = (r, m') \<Longrightarrow> pm_step reads m m'"

definition pm_ok :: "peer_manager \<Rightarrow> bool" where
  "pm_ok m \<longleftrightarrow> map_ok (pm_knownPeers m) \<and> (\<forall>i p. map_of (pm_knownPeers m) i = Some p \<longrightarrow> pi_isActive p)"

lemma erase_inactive_id: "\<forall>x\<in>set m. pi_isActive (snd x) \<Longrightarrow> erase_inactive m = m"
  by (induction m rule: erase_inactive.induct) auto

lemma pm_ok_active: "pm_ok m \<Longrightarrow> \<forall>x\<in>set (pm_knownPeers m). pi_isActive (snd x)"
  by (auto simp: pm_ok_def dest: map_ok_distinct)

lemma pm_addPeer_known:
  assumes "pm_ok m" "i \<notin> pm_bannedPeers m"
  shows "pm_knownPeers (pm_addPeer i address port now m) =
    map_put i (case map_of (pm_knownPeers m) i of None \<Rightarrow> new_peer i address port now
      | Some p \<Rightarrow> p\<lparr>pi_address := address, pi_port := port, pi_lastSeen := now, pi_isActive := True\<rparr>) (pm_knownPeers m)"
  using assms erase_inactive_id [OF pm_ok_active [OF assms(1)]] by (simp add: pm_addPeer_def Let_def split: option.split)

lemma pm_ok_put: "pm_ok m \<Longrightarrow> pi_isActive p \<Longrightarrow> pm_ok (m\<lparr>pm_knownPeers := map_put i p (pm_knownPeers m)\<rparr>)"
  by (simp add: pm_ok_def)

lemma pm_ok_on_peer: "pm_ok m \<Longrightarrow> (\<And>p. pi_isActive p \<Longrightarrow> pi_isActive (f p)) \<Longrightarrow> pm_ok (on_peer i f m)"
  by (auto simp: on_peer_def pm_ok_def split: option.split)

definition known_ok :: "(string, peer_info) std_map \<Rightarrow> bool" where
  "known_ok known \<longleftrightarrow> map_ok known \<and> (\<forall>i p. map_of known i = Some p \<longrightarrow> pi_isActive p)"

lemma read_peer_active: "read_peer entry now = Inr (Some (i, p)) \<Longrightarrow> pi_isActive p"
  by (auto simp: read_peer_def new_peer_def Let_def cpp_then_def split: prod.splits sum.splits if_splits)

lemma read_peers_ok: "known_ok known \<Longrightarrow> known_ok (snd (read_peers es now known))"
proof (induction es arbitrary: known)
  case (Cons entry es)
  have put: "known_ok (map_put i p known)" if "read_peer entry now = Inr (Some (i, p))" for i p
    using read_peer_active [OF that] Cons.prems by (simp add: known_ok_def)
  show ?case
  proof (cases "entry = []")
    case False
    show ?thesis
    proof (cases "read_peer entry now")
      case (Inr o')
      show ?thesis
      proof (cases o')
        case None
        then show ?thesis using Inr False Cons by simp
      next
        case (Some x)
        obtain i p where "x = (i, p)" by (cases x)
        then show ?thesis using Inr Some False Cons.IH [OF put] by simp
      qed
    qed (use Cons.prems False in simp)
  qed (use Cons in simp)
qed simp

lemma pm_step_ok: "pm_step reads m m' \<Longrightarrow> pm_ok m \<Longrightarrow> pm_ok m'"
proof (induction rule: pm_step.induct)
  case (1 m i address port now)
  show ?case
  proof (cases "i \<in> pm_bannedPeers m")
    case False
    let ?p = "case map_of (pm_knownPeers m) i of None \<Rightarrow> new_peer i address port now
      | Some p \<Rightarrow> p\<lparr>pi_address := address, pi_port := port, pi_lastSeen := now, pi_isActive := True\<rparr>"
    have "pi_isActive ?p" by (simp add: new_peer_def split: option.split)
    then have "pm_ok (m\<lparr>pm_knownPeers := map_put i ?p (pm_knownPeers m)\<rparr>)" by (rule pm_ok_put [OF 1])
    then show ?thesis unfolding pm_ok_def pm_addPeer_known [OF 1 False] by simp
  qed (use 1 in \<open>simp add: pm_addPeer_def\<close>)
next
  case (5 i delta m m')
  then show ?case
    by (auto simp: adjustPeerScore_def Let_def pm_ok_def split: option.splits if_splits)
next
  case (8 m maxInactiveMs now)
  then show ?case by (auto simp: cleanupInactivePeers_def pm_ok_def map_ok_filter map_of_filter_Some)
next
  case (9 content now m r m')
  then show ?case using read_peers_ok [of "pm_knownPeers m" "split_fields CHR ''|'' content" now]
    by (auto simp: pm_deserialize_def pm_ok_def known_ok_def split: prod.splits)
next
  case (3 m i now)
  then show ?case unfolding updatePeerSeen_def by (rule pm_ok_on_peer) simp
next
  case (4 m i latency)
  then show ?case unfolding updatePeerLatency_def by (rule pm_ok_on_peer) simp
qed (auto simp: pm_removePeer_def banPeer_def unbanPeer_def pm_ok_def split: if_splits)

lemma pm_reach_ok: "(pm_step reads)\<^sup>*\<^sup>* (pm_new k) m \<Longrightarrow> pm_ok m"
  by (induction rule: rtranclp_induct) (simp add: pm_new_def pm_ok_def, rule pm_step_ok)

lemma length_map_put: "map_of m k = None \<Longrightarrow> length (map_put k v m) = Suc (length m)"
  by (induction k v m rule: map_put.induct) (auto split: if_splits)

text \<open>
  No operation makes a peer inactive, so in every reachable state all peers are active,
  none is ever evicted, and the largest number of peers plays no part: a peer that is neither
  banned nor known is added on top of however many there are.
\<close>

theorem peer_limit_ignored:
  assumes "(pm_step reads)\<^sup>*\<^sup>* (pm_new k) m"
  shows "getActivePeers m = map snd (pm_knownPeers m) \<and>
    (\<not> isBanned i m \<and> map_of (pm_knownPeers m) i = None \<longrightarrow> getPeerCount (pm_addPeer i address port now m) = Suc (getPeerCount m))"
proof (intro conjI impI)
  have ok: "pm_ok m" by (rule pm_reach_ok [OF assms])
  show "getActivePeers m = map snd (pm_knownPeers m)"
    using pm_ok_active [OF ok] by (auto simp: getActivePeers_def filter_id_conv)
  assume i: "\<not> isBanned i m \<and> map_of (pm_knownPeers m) i = None"
  then show "getPeerCount (pm_addPeer i address port now m) = Suc (getPeerCount m)"
    using pm_addPeer_known [OF ok, of i] by (simp add: getPeerCount_def isBanned_def length_map_put)
qed

lemma peer_limit_ignored_witness:
  "getPeerCount (pm_addPeer ''bob'' ''10.0.0.1'' 80 5 (pm_addPeer ''ann'' ''10.0.0.2'' 80 5 (pm_new 1))) = 2"
proof -
  have "(pm_step False)\<^sup>*\<^sup>* (pm_new 1) (pm_addPeer ''ann'' ''10.0.0.2'' 80 5 (pm_new 1))"
    by (rule r_into_rtranclp) (rule pm_step.intros(1))
  from peer_limit_ignored [OF this, of "''bob''"] show ?thesis
    by (simp add: pm_addPeer_def pm_new_def getPeerCount_def isBanned_def)
qed

text \<open>without saved peers, banned peers are unknown\<close>

lemma pm_step_bans:
  "pm_step False m m' \<Longrightarrow> pm_ok m \<and> (\<forall>i\<in>pm_bannedPeers m. map_of (pm_knownPeers m) i = None) \<Longrightarrow>
    \<forall>i\<in>pm_bannedPeers m'. map_of (pm_knownPeers m') i = None"
proof (induction rule: pm_step.induct)
  case (1 m i address port now)
  show ?case
  proof (cases "i \<in> pm_bannedPeers m")
    case False
    have "pm_bannedPeers (pm_addPeer i address port now m) = pm_bannedPeers m" by (simp add: pm_addPeer_def Let_def)
    then show ?thesis using 1 False pm_addPeer_known [of m i] by (auto simp: pm_ok_def)
  qed (use 1 in \<open>simp add: pm_addPeer_def\<close>)
next
  case (8 m maxInactiveMs now)
  have "map_of (filter P l) k = None" if "map_of l k = None" for P k and l :: "(string, peer_info) std_map"
    using that by (induction l) (auto split: if_splits)
  then show ?case using 8 by (simp add: cleanupInactivePeers_def)
qed (auto simp: pm_removePeer_def updatePeerSeen_def updatePeerLatency_def adjustPeerScore_def banPeer_def unbanPeer_def
    on_peer_def pm_ok_def Let_def split: if_splits option.splits)

text \<open>
  A banned peer is unknown and cannot be added, as long as no saved peers are read; reading
  saved peers enters a banned peer again. And the ban that a low score should bring never
  returns: it locks the mutex that the adjustment of the score holds.
\<close>

theorem peer_bans:
  "((pm_step False)\<^sup>*\<^sup>* (pm_new k) m \<and> isBanned i m \<longrightarrow> map_of (pm_knownPeers m) i = None \<and> pm_addPeer i address port now m = m) \<and>
   (map_of (pm_knownPeers m) i = Some p \<and> - (2 ^ 31) \<le> pi_score p + delta \<and> pi_score p + delta < - 100 \<longrightarrow>
      adjustPeerScore i delta m = Inl Deadlock) \<and>
   (map_ok (pm_knownPeers m) \<longrightarrow>
      map_of (pm_knownPeers (snd (pm_deserialize ''eve:10.0.0.3:80:5:0|'' now (banPeer ''eve'' m)))) ''eve'' \<noteq> None)"
proof (intro conjI impI)
  assume a: "(pm_step False)\<^sup>*\<^sup>* (pm_new k) m \<and> isBanned i m"
  then have "(pm_step False)\<^sup>*\<^sup>* (pm_new k) m" by simp
  then have "pm_ok m \<and> (\<forall>i\<in>pm_bannedPeers m. map_of (pm_knownPeers m) i = None)"
  proof (induction rule: rtranclp_induct)
    case base
    then show ?case by (simp add: pm_new_def pm_ok_def)
  next
    case (step m m')
    then show ?case using pm_step_ok [OF step(2)] pm_step_bans [OF step(2) step(3)] by simp
  qed
  then show "map_of (pm_knownPeers m) i = None" using a by (simp add: isBanned_def)
  show "pm_addPeer i address port now m = m" using a by (simp add: pm_addPeer_def isBanned_def)
next
  assume "map_of (pm_knownPeers m) i = Some p \<and> - (2 ^ 31) \<le> pi_score p + delta \<and> pi_score p + delta < - 100"
  then show "adjustPeerScore i delta m = Inl Deadlock" by (simp add: adjustPeerScore_def Let_def)
next
  assume ok: "map_ok (pm_knownPeers m)"
  have f: "split_fields CHR ''|'' ''eve:10.0.0.3:80:5:0|'' = [''eve:10.0.0.3:80:5:0'']"
    by (simp add: split_fields.simps)
  have "\<exists>p. read_peer ''eve:10.0.0.3:80:5:0'' now = Inr (Some (''eve'', p))"
    by (simp add: read_peer_def getline.simps stoi_def sto_signed_def stoull_def strto_int_def skip_space_def take_sign_def digit_value_def digits_value_def)
  then obtain p where "read_peer ''eve:10.0.0.3:80:5:0'' now = Inr (Some (''eve'', p))" by blast
  then show "map_of (pm_knownPeers (snd (pm_deserialize ''eve:10.0.0.3:80:5:0|'' now (banPeer ''eve'' m)))) ''eve'' \<noteq> None"
    using ok by (simp add: pm_deserialize_def f banPeer_def)
qed

lemma peer_bans_witness:
  "adjustPeerScore ''ann'' (- 101) (pm_addPeer ''ann'' ''10.0.0.2'' 80 5 (pm_new 1)) = Inl Deadlock"
  using peer_bans [of 1 "pm_addPeer ''ann'' ''10.0.0.2'' 80 5 (pm_new 1)" "''ann''" "''a''" 0 0 "new_peer ''ann'' ''10.0.0.2'' 80 5" "- 101"]
  by (simp add: pm_addPeer_def pm_new_def new_peer_def empty_peer_def)

section \<open>Saved peers\<close>

definition peer_plain :: "string \<times> peer_info \<Rightarrow> bool" where
  "peer_plain = (\<lambda>(i, p). i \<noteq> [] \<and> pi_address p \<noteq> [] \<and> CHR '':'' \<notin> set i \<union> set (pi_address p) \<and>
     CHR ''|'' \<notin> set i \<union> set (pi_address p) \<and> - (2 ^ 31) \<le> pi_port p \<and> pi_port p < 2 ^ 31 \<and>
     - (2 ^ 31) \<le> pi_score p \<and> pi_score p < 2 ^ 31)"

text \<open>what is saved of a peer\<close>

definition saved :: "u64 \<Rightarrow> string \<times> peer_info \<Rightarrow> string \<times> peer_info" where
  "saved now = (\<lambda>(i, p). (i, (new_peer i (pi_address p) (pi_port p) now)\<lparr>pi_lastSeen := pi_lastSeen p, pi_score := pi_score p\<rparr>))"

definition peer_text :: "string \<times> peer_info \<Rightarrow> string" where
  "peer_text = (\<lambda>(i, p). join CHR '':'' [i, pi_address p, dec_int (pi_port p), dec_u64 (pi_lastSeen p), dec_int (pi_score p)])"

lemma no_colon [simp]: "CHR '':'' \<notin> set (dec_int x)" "CHR '':'' \<notin> set (dec_u64 y)"
  using set_dec_nat [of "CHR '':''"] by (auto simp: dec_int_def dec_u64_def)

lemma read_peer_text: "peer_plain x \<Longrightarrow> read_peer (peer_text x) now = Inr (Some (saved now x))"
  by (cases x) (simp add: peer_plain_def peer_text_def read_peer_def saved_def)

lemma peer_text_field: "peer_plain x \<Longrightarrow> CHR ''|'' \<notin> set (peer_text x)" "peer_text x \<noteq> []"
  by (cases x; simp add: peer_plain_def peer_text_def)+

lemma split_peer_texts:
  "\<forall>x\<in>set l. peer_plain x \<Longrightarrow> split_fields CHR ''|'' (concat (map (\<lambda>x. peer_text x @ ''|'') l)) = map peer_text l"
proof (induction l)
  case (Cons x l)
  then show ?case using peer_text_field [of x] by (simp add: split_fields_cons)
qed (simp add: split_fields.simps)

lemma read_peer_texts:
  "\<forall>x\<in>set l. peer_plain x \<Longrightarrow> read_peers (map peer_text l) now known = (Inr (), foldl (\<lambda>m (i, p). map_put i p m) known (map (saved now) l))"
proof (induction l arbitrary: known)
  case (Cons x l)
  obtain i p where x: "saved now x = (i, p)" by (cases "saved now x")
  then have "read_peer (peer_text x) now = Inr (Some (i, p))" using Cons.prems read_peer_text [of x] by simp
  then show ?case using Cons peer_text_field(2) [of x] by (simp add: x)
qed simp

lemma saved_ok: "map_ok l \<Longrightarrow> map_ok (map (saved now) l)"
  by (simp add: map_ok_def comp_def saved_def split_def)

text \<open>
  What is saved of the peers is read back: identifiers, addresses, ports, times and scores,
  provided no identifier or address is empty or has a colon or a bar in it (an IPv6 address
  has colons). Latencies and versions are not saved, and every peer read is active.
\<close>

theorem peers_saved:
  assumes "map_ok (pm_knownPeers m)" "\<forall>x\<in>set (pm_knownPeers m). peer_plain x"
  shows "pm_deserialize (pm_serialize m) now (pm_new k) = (Inr (), (pm_new k)\<lparr>pm_knownPeers := map (saved now) (pm_knownPeers m)\<rparr>)"
proof -
  have "pm_serialize m = concat (map (\<lambda>x. peer_text x @ ''|'') (pm_knownPeers m))"
    by (simp add: pm_serialize_def peer_text_def split_def)
  then have "split_fields CHR ''|'' (pm_serialize m) = map peer_text (pm_knownPeers m)"
    using split_peer_texts [OF assms(2)] by simp
  moreover have "foldl (\<lambda>m (i, p). map_put i p m) [] (map (saved now) (pm_knownPeers m)) = map (saved now) (pm_knownPeers m)"
    using map_puts_sorted [of "[]" "map (saved now) (pm_knownPeers m)"] saved_ok [OF assms(1)] by simp
  ultimately show ?thesis using read_peer_texts [OF assms(2)] by (simp add: pm_deserialize_def pm_new_def)
qed

lemma peers_saved_witness:
  "fst (pm_deserialize (pm_serialize (pm_addPeer ''ann'' ''10.0.0.2'' 80 5 (pm_new 1))) 9 (pm_new 1)) = Inr ()"
  using peers_saved [of "pm_addPeer ''ann'' ''10.0.0.2'' 80 5 (pm_new 1)" 9 1]
  by (simp add: pm_addPeer_def pm_new_def peer_plain_def new_peer_def empty_peer_def)

section \<open>The best peers\<close>

lemma mset_insert_peer: "mset (insert_peer p l) = add_mset p (mset l)"
  by (induction p l rule: insert_peer.induct) auto

lemma mset_sort_peers: "mset (foldr insert_peer l []) = mset l"
  by (induction l) (simp_all add: mset_insert_peer)

lemma set_insert_peer [simp]: "set (insert_peer p l) = insert p (set l)"
  using mset_insert_peer [of p l] by (metis set_mset_add_mset_insert set_mset_mset)

lemma peer_better_negtrans: "\<not> peer_better b a \<Longrightarrow> \<not> peer_better c b \<Longrightarrow> \<not> peer_better c a"
  by (auto simp: peer_better_def split: if_splits)

lemma insert_peer_sorted:
  "sorted_wrt (\<lambda>a b. \<not> peer_better b a) l \<Longrightarrow> sorted_wrt (\<lambda>a b. \<not> peer_better b a) (insert_peer p l)"
proof (induction p l rule: insert_peer.induct)
  case (2 p q qs)
  show ?case
  proof (cases "peer_better q p")
    case True
    then have "\<not> peer_better p q" by (auto simp: peer_better_def split: if_splits)
    then show ?thesis using 2 True by auto
  next
    case False
    then show ?thesis using 2(2) peer_better_negtrans [of q p] by auto
  qed
qed simp

text \<open>
  The best peers are as many active peers as asked for, or all, in order; and no active peer
  left out has a higher score, or the same score and a lower latency, than one returned.
\<close>

theorem best_peers:
  "\<exists>rest. mset (getBestPeers n m @ rest) = mset (getActivePeers m) \<and>
     length (getBestPeers n m) = min n (length (getActivePeers m)) \<and>
     sorted_wrt (\<lambda>a b. \<not> peer_better b a) (getBestPeers n m @ rest)"
proof -
  let ?l = "foldr insert_peer (getActivePeers m) []"
  have s: "sorted_wrt (\<lambda>a b. \<not> peer_better b a) (foldr insert_peer l [])" for l
    by (induction l) (simp_all add: insert_peer_sorted)
  have l: "length ?l = length (getActivePeers m)" using arg_cong [OF mset_sort_peers, of size "getActivePeers m"] by simp
  have "getBestPeers n m = take n ?l" by (simp add: getBestPeers_def Let_def)
  then have "getBestPeers n m @ drop n ?l = ?l" "length (getBestPeers n m) = min n (length (getActivePeers m))"
    using l by (simp_all add: min.commute)
  then show ?thesis using s [of "getActivePeers m"] mset_sort_peers by metis
qed

section \<open>The pool\<close>

text \<open>steps of the pool, and the sockets that are open, when no peer is added twice\<close>

inductive cp_step :: "connection_pool \<times> socket multiset \<Rightarrow> connection_pool \<times> socket multiset \<Rightarrow> bool" where
  "\<not> hasConnection i p \<Longrightarrow> addConnection i s now p = (True, p') \<Longrightarrow> cp_step (p, socks) (p', add_mset s socks)"
| "addConnection i s now p = (False, p') \<Longrightarrow> cp_step (p, socks) (p', socks)"
| "removeConnection i p = (b, p', gone) \<Longrightarrow> cp_step (p, socks) (p', socks - mset gone)"
| "getConnection i now p = (s, p') \<Longrightarrow> cp_step (p, socks) (p', socks)"
| "acquireConnection i now p = (s, p') \<Longrightarrow> cp_step (p, socks) (p', socks)"
| "cp_step (p, socks) (releaseConnection i now p, socks)"
| "cleanupIdleConnections timeout now p = (p', gone) \<Longrightarrow> cp_step (p, socks) (p', socks - mset gone)"
| "closeAll p = (p', gone) \<Longrightarrow> cp_step (p, socks) (p', socks - mset gone)"

definition pool_sockets :: "connection_pool \<Rightarrow> socket multiset" where
  "pool_sockets p = image_mset (\<lambda>(_, c). cn_socket c) (mset (cp_connections p))"

definition cp_inv :: "connection_pool \<times> socket multiset \<Rightarrow> bool" where
  "cp_inv = (\<lambda>(p, socks). map_ok (cp_connections p) \<and> cp_activeCount p = of_nat (cp_size p) \<and> socks = pool_sockets p \<and>
     cp_size p \<le> cp_maxConnections p)"

lemma mset_map_put_new: "map_of m k = None \<Longrightarrow> mset (map_put k v m) = add_mset (k, v) (mset m)"
  by (induction k v m rule: map_put.induct) (auto split: if_splits)

lemma mset_map_put_old: "map_ok m \<Longrightarrow> map_of m k = Some u \<Longrightarrow> add_mset (k, u) (mset (map_put k v m)) = add_mset (k, v) (mset m)"
proof (induction k v m rule: map_put.induct)
  case (2 k v k' v' m)
  have "map_of m k = None" if "k < k'" using 2(2) that by (fastforce simp: map_of_eq_None_iff)
  then show ?case using 2 by (auto simp: add_mset_commute split: if_splits)
qed simp

lemma mset_map_erase: "map_ok m \<Longrightarrow> map_of m k = Some u \<Longrightarrow> add_mset (k, u) (mset (map_erase k m)) = mset m"
proof (induction m)
  case (Cons a m)
  obtain k' v where a: "a = (k', v)" by (cases a)
  show ?case
  proof (cases "k' = k")
    case True
    then have "map_erase k (a # m) = m" using Cons.prems(1) by (auto simp: map_erase_def filter_id_conv a)
    then show ?thesis using Cons.prems(2) True by (simp add: a)
  next
    case False
    then have "map_erase k (a # m) = a # map_erase k m" by (simp add: map_erase_def a)
    then show ?thesis using Cons False by (simp add: a)
  qed
qed simp

lemma length_map_put_old: "map_of m k = Some u \<Longrightarrow> map_ok m \<Longrightarrow> length (map_put k v m) = length m"
  using arg_cong [OF mset_map_put_old [of m k u v], of size] by simp

lemma length_map_erase: "map_of m k = Some u \<Longrightarrow> map_ok m \<Longrightarrow> Suc (length (map_erase k m)) = length m"
  using arg_cong [OF mset_map_erase [of m k u], of size] by simp

lemma pool_put_same:
  assumes "map_ok (cp_connections p)" "map_of (cp_connections p) i = Some c" "cn_socket c' = cn_socket c"
  shows "pool_sockets (p\<lparr>cp_connections := map_put i c' (cp_connections p)\<rparr>) = pool_sockets p"
  using arg_cong [OF mset_map_put_old [OF assms(1,2), of c'], of "image_mset (\<lambda>(_, c). cn_socket c)"] assms(3)
  by (simp add: pool_sockets_def)

lemma cp_inv_put:
  "cp_inv (p, socks) \<Longrightarrow> map_of (cp_connections p) i = Some c \<Longrightarrow> cn_socket c' = cn_socket c \<Longrightarrow>
    cp_inv (p\<lparr>cp_connections := map_put i c' (cp_connections p)\<rparr>, socks)"
  using pool_put_same [of p i c c'] by (simp add: cp_inv_def cp_size_def length_map_put_old)

lemma cp_inv_available: "cp_inv (p\<lparr>cp_availableConnections := l\<rparr>, socks) = cp_inv (p, socks)"
  by (simp add: cp_inv_def cp_size_def pool_sockets_def)

lemma cp_step_inv: "cp_step s s' \<Longrightarrow> cp_inv s \<Longrightarrow> cp_inv s'"
proof (induction rule: cp_step.induct)
  case (1 i p s now p' socks)
  have n: "map_of (cp_connections p) i = None" using 1 by (simp add: hasConnection_def)
  have "length (cp_connections p) < cp_maxConnections p" using 1(2) by (auto simp: addConnection_def split: if_splits)
  then show ?case using 1 n
    by (auto simp: addConnection_def cp_inv_def cp_size_def pool_sockets_def length_map_put mset_map_put_new)
next
  case (3 i p b p' gone socks)
  show ?case
  proof (cases "map_of (cp_connections p) i")
    case (Some c)
    have ok: "map_ok (cp_connections p)" using 3(2) by (simp add: cp_inv_def)
    from mset_map_erase [OF ok Some] have e: "pool_sockets p = add_mset (cn_socket c) (image_mset (\<lambda>(_, c). cn_socket c) (mset (map_erase i (cp_connections p))))"
      unfolding pool_sockets_def by (metis (mono_tags, lifting) case_prod_conv image_mset_add_mset)
    have "(of_nat (length (cp_connections p)) :: u64) = of_nat (length (map_erase i (cp_connections p))) + 1"
      by (metis length_map_erase [OF Some ok] of_nat_Suc add.commute)
    with e show ?thesis using 3 Some length_map_erase [OF Some ok]
      by (auto simp: removeConnection_def cp_inv_def cp_size_def pool_sockets_def)
  qed (use 3 in \<open>auto simp: removeConnection_def\<close>)
next
  case (7 timeout now p p' gone socks)
  let ?old = "\<lambda>(_ :: string, c). idle timeout now c" and ?m = "cp_connections p"
  have "mset ?m = mset (filter ?old ?m) + mset (filter (\<lambda>x. \<not> ?old x) ?m)" by (simp add: multiset_partition)
  moreover have "(\<lambda>x. \<not> ?old x) = (\<lambda>(_, c). \<not> idle timeout now c)" by auto
  ultimately have m: "mset ?m = mset (filter ?old ?m) + mset (filter (\<lambda>(_, c). \<not> idle timeout now c) ?m)" by simp
  then have "length ?m = length (filter ?old ?m) + length (filter (\<lambda>(_, c). \<not> idle timeout now c) ?m)"
    by (metis size_mset size_union)
  moreover have "pool_sockets p = mset (map (\<lambda>(_, c). cn_socket c) (filter ?old ?m)) +
      image_mset (\<lambda>(_, c). cn_socket c) (mset (filter (\<lambda>(_, c). \<not> idle timeout now c) ?m))"
    unfolding pool_sockets_def by (subst m) (simp only: image_mset_union mset_map)
  ultimately show ?case using 7
    by (auto simp: cleanupIdleConnections_def cp_inv_def cp_size_def pool_sockets_def Let_def map_ok_filter)
next
  case (8 p p' gone socks)
  then show ?case by (auto simp: closeAll_def cp_inv_def cp_size_def pool_sockets_def)
qed (auto simp: addConnection_def getConnection_def acquireConnection_def releaseConnection_def cp_inv_available
    intro!: cp_inv_put split: if_splits option.splits)

text \<open>
  As long as no peer is added that is connected already, the counter of active connections
  is their number, the sockets of the pool are those given to it and not closed, and the
  largest number is kept. Adding a connected peer again counts it twice and loses its first
  socket, which nothing closes any more.
\<close>

theorem pool_accounting:
  "(cp_step\<^sup>*\<^sup>* (cp_new n, {#}) (p, socks) \<longrightarrow>
      cp_activeCount p = of_nat (cp_size p) \<and> socks = pool_sockets p \<and> cp_size p \<le> n) \<and>
   (addConnection i s now q = (True, q') \<and> map_of (cp_connections q) i = Some c \<and> map_ok (cp_connections q) \<longrightarrow>
      cp_size q' = cp_size q \<and> cp_activeCount q' = cp_activeCount q + 1 \<and>
      add_mset (cn_socket c) (pool_sockets q') = add_mset s (pool_sockets q))"
proof (intro conjI impI)
  assume r: "cp_step\<^sup>*\<^sup>* (cp_new n, {#}) (p, socks)"
  have "cp_inv x \<and> cp_maxConnections (fst x) = n" if "cp_step\<^sup>*\<^sup>* (cp_new n, {#}) x" for x
    using that
  proof (induction rule: rtranclp_induct)
    case base
    then show ?case by (simp add: cp_inv_def cp_new_def cp_size_def pool_sockets_def)
  next
    case (step x y)
    have "cp_maxConnections (fst y) = cp_maxConnections (fst x)"
      using step(2) by (cases rule: cp_step.cases)
        (auto simp: addConnection_def removeConnection_def getConnection_def acquireConnection_def releaseConnection_def
          cleanupIdleConnections_def closeAll_def Let_def split: if_splits option.splits)
    then show ?case using step cp_step_inv by simp
  qed
  from this [OF r] show "cp_activeCount p = of_nat (cp_size p)" "socks = pool_sockets p" "cp_size p \<le> n"
    by (simp_all add: cp_inv_def)
next
  assume a: "addConnection i s now q = (True, q') \<and> map_of (cp_connections q) i = Some c \<and> map_ok (cp_connections q)"
  then obtain c' where q': "cp_connections q' = map_put i c' (cp_connections q)" "cn_socket c' = s" "cp_activeCount q' = cp_activeCount q + 1"
    by (auto simp: addConnection_def split: if_splits)
  show "cp_size q' = cp_size q" using a by (simp add: cp_size_def q' length_map_put_old)
  show "cp_activeCount q' = cp_activeCount q + 1" by (rule q'(3))
  show "add_mset (cn_socket c) (pool_sockets q') = add_mset s (pool_sockets q)"
    using a arg_cong [OF mset_map_put_old [of "cp_connections q" i c c'], of "image_mset (\<lambda>(_, c). cn_socket c)"]
    by (simp add: pool_sockets_def q')
qed

lemma pool_accounting_witness:
  "cp_activeCount (snd (addConnection ''ann'' 8 6 (snd (addConnection ''ann'' 7 5 (cp_new 3))))) = 2 \<and>
   cp_size (snd (addConnection ''ann'' 8 6 (snd (addConnection ''ann'' 7 5 (cp_new 3))))) = 1"
  using pool_accounting [of 3 "cp_new 3" "{#}" "''ann''" 8 6 "snd (addConnection ''ann'' 7 5 (cp_new 3))"
      "snd (addConnection ''ann'' 8 6 (snd (addConnection ''ann'' 7 5 (cp_new 3))))"]
  by (simp add: addConnection_def cp_new_def cp_size_def)

end
