(* ===== verification/P2p_Web.thy ===== *)
theory P2p_Web
  imports P2p_Codec
begin

text \<open>
  The frames of \<open>api/websocket.cpp\<close>, server and client, the registry of the server's clients,
  and the routing and responses of \<open>api/rest_api.cpp\<close>. A socket is the list of the segments
  the network will deliver; threads, the accept loop and connecting are left out, and
  handlers are functions.
\<close>

section \<open>Sockets\<close>

text \<open>recv gives what is left of the next segment, n bytes at most; at the end it gives none\<close>

type_synonym segments = "bytes list"

fun recv :: "nat \<Rightarrow> segments \<Rightarrow> bytes \<times> segments" where
  "recv n [] = ([], [])"
| "recv n (seg # segs) = (take n seg, if length seg \<le> n then segs else drop n seg # segs)"

text \<open>an array of which recv filled the beginning; the rest is the residue of the stack\<close>

type_synonym residue = "nat \<Rightarrow> u8"

definition filled :: "nat \<Rightarrow> bytes \<Rightarrow> residue \<Rightarrow> bytes" where
  "filled n got stack = map (\<lambda>i. if i < length got then got ! i else stack i) [0..<n]"

section \<open>Frames\<close>

definition len_bytes :: "nat \<Rightarrow> nat \<Rightarrow> bytes" where
  "len_bytes k n = map (\<lambda>i. ucast (drop_bit (8 * i) (of_nat n :: u64))) (rev [0..<k])"

definition frame_header :: "u8 \<Rightarrow> nat \<Rightarrow> bytes" where
  "frame_header mask_bit len =
     0x81 # (if len \<le> 125 then [mask_bit OR of_nat len]
             else if len \<le> 65535 then (mask_bit OR 126) # len_bytes 2 len
             else (mask_bit OR 127) # len_bytes 8 len)"

text \<open>the server sets the bit that announces a mask, and sends none\<close>

definition server_sendFrame :: "string \<Rightarrow> bytes" where
  "server_sendFrame data = frame_header 0x80 (length data) @ str_bytes data"

definition client_sendFrame :: "string \<Rightarrow> bytes" where
  "client_sendFrame data = frame_header 0 (length data) @ str_bytes data"

text \<open>the length, and the bytes behind it\<close>

definition read_length :: "u8 \<Rightarrow> residue \<Rightarrow> segments \<Rightarrow> u64 \<times> segments" where
  "read_length h stack s =
     (let payloadLen = h AND 0x7F
      in if payloadLen = 126 then
           let (got, s) = recv 2 s; ext = filled 2 got stack
           in (push_bit 8 (ucast (ext ! 0)) OR ucast (ext ! 1), s)
         else if payloadLen = 127 then
           let (got, s) = recv 8 s
           in (foldl (\<lambda>n b. push_bit 8 n OR ucast b) 0 (filled 8 got stack), s)
         else (ucast payloadLen, s))"

text \<open>the loop; None: the socket ended\<close>

function read_payload :: "nat \<Rightarrow> bytes \<Rightarrow> segments \<Rightarrow> bytes option \<times> segments" where
  "read_payload payloadLen payload s =
     (if length payload < payloadLen then
        let (r, s) = recv (payloadLen - length payload) s
        in if r = [] then (None, s) else read_payload payloadLen (payload @ r) s
      else (Some payload, s))"
  by pat_completeness auto
termination by (relation "measure (\<lambda>(payloadLen, payload, s). payloadLen - length payload)") (auto simp flip: length_greater_0_conv)

declare read_payload.simps [simp del]

definition bytes_text :: "bytes \<Rightarrow> string" where
  "bytes_text b = map (\<lambda>x. char_of (unat x)) b"

text \<open>
  The message and whether the connection is closed. The residue is that of \<open>ext\<close>, then that of
  \<open>mask\<close>. Segments are shorter than \<open>INT_MAX\<close>, the range of what recv returns. A vector longer than \<open>PTRDIFF_MAX\<close> throws;
  shorter ones are taken to fit in memory.
\<close>

definition server_receiveFrame :: "residue \<Rightarrow> segments \<Rightarrow> ((string \<times> bool) \<times> segments) cpp" where
  "server_receiveFrame stack s =
     (let (header, s) = recv 2 s
      in if length header \<noteq> 2 then Inr (([], True), s)
         else let opcode = header ! 0 AND 0x0F; masked = header ! 1 AND 0x80 \<noteq> 0;
                  (payloadLen, s) = read_length (header ! 1) stack s;
                  (got, s) = (if masked then recv 4 s else ([], s)); mask = filled 4 got (\<lambda>i. stack (8 + i))
              in if 2 ^ 63 \<le> unat payloadLen then Inl Length_Error
                 else case read_payload (unat payloadLen) [] s of
                     (None, s) \<Rightarrow> Inr (([], True), s)
                   | (Some payload, s) \<Rightarrow>
                       let payload = (if masked then map (\<lambda>(i, b). b XOR mask ! (i mod 4)) (enumerate 0 payload) else payload)
                       in if opcode = 8 then Inr (([], True), s) else Inr ((bytes_text payload, False), s))"

definition client_receiveFrame :: "residue \<Rightarrow> segments \<Rightarrow> ((string \<times> bool) \<times> segments) cpp" where
  "client_receiveFrame stack s =
     (let (header, s) = recv 2 s
      in if length header \<noteq> 2 then Inr (([], True), s)
         else let opcode = header ! 0 AND 0x0F;
                  (payloadLen, s) = read_length (header ! 1) stack s
              in if 2 ^ 63 \<le> unat payloadLen then Inl Length_Error
                 else case read_payload (unat payloadLen) [] s of
                     (None, s) \<Rightarrow> Inr (([], True), s)
                   | (Some payload, s) \<Rightarrow>
                       if opcode = 8 then Inr (([], True), s) else Inr ((bytes_text payload, False), s))"

definition generateHandshakeKey :: "string \<Rightarrow> string" where
  "generateHandshakeKey key = sha1 (key @ ''258EAFA5-E914-47DA-95CA-C5AB0DC85B11'')"

section \<open>The clients of the server\<close>

record ws_server =
  wv_clients :: "(int, string) std_map"
  wv_clientSockets :: "(string, int) std_map"
  wv_clientTopics :: "(string, string) std_map"

definition wv_new :: ws_server where
  "wv_new = \<lparr>wv_clients = [], wv_clientSockets = [], wv_clientTopics = []\<rparr>"

definition wv_clientId :: "u64 \<Rightarrow> int \<Rightarrow> string" where
  "wv_clientId now sock = sha1 (dec_u64 now @ dec_int sock)"

definition wv_connect :: "u64 \<Rightarrow> int \<Rightarrow> ws_server \<Rightarrow> ws_server" where
  "wv_connect now sock v =
     (let clientId = wv_clientId now sock
      in v\<lparr>wv_clients := map_put sock clientId (wv_clients v), wv_clientSockets := map_put clientId sock (wv_clientSockets v)\<rparr>)"

definition wv_disconnect :: "string \<Rightarrow> int \<Rightarrow> ws_server \<Rightarrow> ws_server" where
  "wv_disconnect clientId sock v =
     v\<lparr>wv_clients := map_erase sock (wv_clients v), wv_clientSockets := map_erase clientId (wv_clientSockets v),
       wv_clientTopics := filter (\<lambda>(i, _). i \<noteq> clientId) (wv_clientTopics v)\<rparr>"

definition wv_subscribe :: "string \<Rightarrow> string \<Rightarrow> ws_server \<Rightarrow> ws_server" where
  "wv_subscribe clientId topic v = v\<lparr>wv_clientTopics := map_put clientId topic (wv_clientTopics v)\<rparr>"

definition wv_unsubscribe :: "string \<Rightarrow> string \<Rightarrow> ws_server \<Rightarrow> ws_server" where
  "wv_unsubscribe clientId topic v =
     (if map_of (wv_clientTopics v) clientId = Some topic
      then v\<lparr>wv_clientTopics := map_erase clientId (wv_clientTopics v)\<rparr> else v)"

text \<open>the sockets a message goes to\<close>

definition wv_broadcast :: "ws_server \<Rightarrow> int list" where
  "wv_broadcast v = map fst (wv_clients v)"

definition wv_sendTo :: "string \<Rightarrow> ws_server \<Rightarrow> int list" where
  "wv_sendTo clientId v = (case map_of (wv_clientSockets v) clientId of None \<Rightarrow> [] | Some sock \<Rightarrow> [sock])"

definition wv_sendToTopic :: "string \<Rightarrow> ws_server \<Rightarrow> int list" where
  "wv_sendToTopic topic v =
     concat (map (\<lambda>(clientId, t). if t = topic then wv_sendTo clientId v else []) (wv_clientTopics v))"

definition getConnectedClients :: "ws_server \<Rightarrow> string list" where
  "getConnectedClients v = map snd (wv_clients v)"

definition getClientCount :: "ws_server \<Rightarrow> nat" where
  "getClientCount v = length (wv_clients v)"

section \<open>Requests\<close>

text \<open>a handler: the parameters and the body to the response\<close>

type_synonym handler = "(string, string) std_map \<Rightarrow> string \<Rightarrow> string"

datatype rest_method = GET | POST | PUT | DELETE

record rest_api =
  ra_handlers :: "rest_method \<Rightarrow> (string, handler) std_map"
  ra_apiPrefix :: string

definition ra_new :: "string \<Rightarrow> rest_api" where
  "ra_new prefix = \<lparr>ra_handlers = (\<lambda>_. []), ra_apiPrefix = prefix\<rparr>"

text \<open>onGet, onPost, onPut, onDelete\<close>

definition ra_on :: "rest_method \<Rightarrow> string \<Rightarrow> handler \<Rightarrow> rest_api \<Rightarrow> rest_api" where
  "ra_on me path h a =
     a\<lparr>ra_handlers := (ra_handlers a)(me := map_put (ra_apiPrefix a @ path) h (ra_handlers a me))\<rparr>"

record api_response =
  ar_statusCode :: int
  ar_body :: string
  ar_headers :: "(string, string) std_map"

definition new_response :: "int \<Rightarrow> string \<Rightarrow> api_response" where
  "new_response code data = \<lparr>ar_statusCode = code, ar_body = data, ar_headers = []\<rparr>"

definition crlf :: string where
  "crlf = [char_of (13::nat), char_of (10::nat)]"

definition ar_serialize :: "api_response \<Rightarrow> string" where
  "ar_serialize r =
     ''HTTP/1.1 '' @ dec_int (ar_statusCode r) @ crlf @
     concat (map (\<lambda>(key, v). key @ '': '' @ v @ crlf) (ar_headers r)) @
     ''Content-Length: '' @ dec_nat (length (ar_body r)) @ crlf @ crlf @ ar_body r"

definition quoted :: "string \<Rightarrow> string" where
  "quoted s = [CHR 0x22] @ s @ [CHR 0x22]"

definition ar_ok :: "string \<Rightarrow> api_response" where
  "ar_ok data = (new_response 200 data)\<lparr>ar_headers := [(''Content-Type'', ''application/json'')]\<rparr>"

definition ar_error :: "string \<Rightarrow> int \<Rightarrow> api_response" where
  "ar_error msg code =
     (new_response code (''{'' @ quoted ''error'' @ '':'' @ quoted msg @ ''}''))\<lparr>ar_headers := [(''Content-Type'', ''application/json'')]\<rparr>"

definition ar_notFound :: api_response where
  "ar_notFound = ar_error ''Not Found'' 404"

definition ar_unauthorized :: api_response where
  "ar_unauthorized = ar_error ''Unauthorized'' 401"

definition ar_forbidden :: api_response where
  "ar_forbidden = ar_error ''Forbidden'' 403"

definition ar_created :: "string \<Rightarrow> api_response" where
  "ar_created location =
     (new_response 201 (''{'' @ quoted ''location'' @ '':'' @ quoted location @ ''}''))\<lparr>ar_headers :=
        [(''Content-Type'', ''application/json''), (''Location'', location)]\<rparr>"

text \<open>handleGet, handlePost, handlePut, handleDelete; GET and DELETE pass an empty body\<close>

definition ra_handle :: "rest_method \<Rightarrow> string \<Rightarrow> (string, string) std_map \<Rightarrow> string \<Rightarrow> rest_api \<Rightarrow> string" where
  "ra_handle me path params body a =
     (case map_of (ra_handlers a me) path of
        Some h \<Rightarrow> h params (if me = GET \<or> me = DELETE then [] else body)
      | None \<Rightarrow> ar_serialize ar_notFound)"

definition rest_method_of :: "string \<Rightarrow> rest_method option" where
  "rest_method_of s =
     (if s = ''GET'' then Some GET else if s = ''POST'' then Some POST else if s = ''PUT'' then Some PUT
      else if s = ''DELETE'' then Some DELETE else None)"

definition ra_removeHandler :: "string \<Rightarrow> string \<Rightarrow> rest_api \<Rightarrow> rest_api" where
  "ra_removeHandler s path a =
     (case rest_method_of s of
        None \<Rightarrow> a
      | Some me \<Rightarrow> a\<lparr>ra_handlers := (ra_handlers a)(me := map_erase (ra_apiPrefix a @ path) (ra_handlers a me))\<rparr>)"

definition ra_hasHandler :: "string \<Rightarrow> string \<Rightarrow> rest_api \<Rightarrow> bool" where
  "ra_hasHandler s path a =
     (case rest_method_of s of None \<Rightarrow> False | Some me \<Rightarrow> map_of (ra_handlers a me) (ra_apiPrefix a @ path) \<noteq> None)"

definition ra_setApiPrefix :: "string \<Rightarrow> rest_api \<Rightarrow> rest_api" where
  "ra_setApiPrefix prefix a = a\<lparr>ra_apiPrefix := prefix\<rparr>"

definition ra_listEndpoints :: "rest_api \<Rightarrow> string list" where
  "ra_listEndpoints a =
     map (\<lambda>(path, _). ''GET '' @ path) (ra_handlers a GET) @ map (\<lambda>(path, _). ''POST '' @ path) (ra_handlers a POST) @
     map (\<lambda>(path, _). ''PUT '' @ path) (ra_handlers a PUT) @ map (\<lambda>(path, _). ''DELETE '' @ path) (ra_handlers a DELETE)"

section \<open>What a frame carries\<close>

definition seg_cons :: "bytes \<Rightarrow> segments \<Rightarrow> segments" where
  "seg_cons b segs = (if b = [] then segs else b # segs)"

lemma recv_prefix: "length a = n \<Longrightarrow> 0 < n \<Longrightarrow> recv n (seg_cons (a @ b) segs) = (a, seg_cons b segs)"
  by (cases "a = []") (auto simp: seg_cons_def)

lemma read_payload_segments:
  "[] \<notin> set segs \<Longrightarrow> length (concat segs) + length got = n \<Longrightarrow> read_payload n got segs = (Some (got @ concat segs), [])"
proof (induction segs arbitrary: got)
  case Nil
  then show ?case by (subst read_payload.simps) simp
next
  case (Cons seg segs)
  then have "seg \<noteq> []" "length seg \<le> n - length got" "length got < n" by auto
  then have "read_payload n got (seg # segs) = read_payload n (got @ seg) segs"
    by (subst read_payload.simps) simp
  then show ?case using Cons.IH [of "got @ seg"] Cons.prems by simp
qed

lemma read_length_bytes:
  "j \<le> k \<Longrightarrow> foldl (\<lambda>n b. push_bit 8 n OR ucast b) 0 (map (\<lambda>i. ucast (drop_bit (8 * i) x) :: u8) (rev [j..<k])) =
    take_bit (8 * (k - j)) (drop_bit (8 * j) (x :: u64))"
proof (induction "k - j" arbitrary: j)
  case (Suc m)
  then have l: "rev [j..<k] = rev [Suc j..<k] @ [j]" by (simp add: upt_conv_Cons)
  have "foldl (\<lambda>n b. push_bit 8 n OR ucast b) 0 (map (\<lambda>i. ucast (drop_bit (8 * i) x) :: u8) (rev [j..<k])) =
      push_bit 8 (take_bit (8 * (k - Suc j)) (drop_bit (8 * Suc j) x)) OR ucast (ucast (drop_bit (8 * j) x) :: u8)"
    unfolding l using Suc by simp
  also have "\<dots> = take_bit (8 * (k - j)) (drop_bit (8 * j) x)"
  proof (rule bit_word_eqI)
    fix n assume "n < LENGTH(64)"
    moreover have "8 * (k - j) = 8 * (k - Suc j) + 8" using Suc(2) by simp
    moreover have "\<not> n < 8 \<Longrightarrow> 8 * Suc j + (n - 8) = 8 * j + n" by simp
    ultimately show "bit (push_bit 8 (take_bit (8 * (k - Suc j)) (drop_bit (8 * Suc j) x)) OR ucast (ucast (drop_bit (8 * j) x) :: u8)) n =
        bit (take_bit (8 * (k - j)) (drop_bit (8 * j) x)) n"
      by (cases "n < 8") (auto simp: bit_simps)
  qed
  finally show ?case .
qed simp

lemma len_bytes_length [simp]: "length (len_bytes k n) = k"
  by (simp add: len_bytes_def)

lemma filled_full [simp]: "length got = n \<Longrightarrow> filled n got stack = got"
  unfolding filled_def by (auto intro!: nth_equalityI)

lemma len_bytes_value:
  assumes "n < 2 ^ (8 * k)" "k \<le> 8"
  shows "foldl (\<lambda>n b. push_bit 8 n OR ucast b) 0 (len_bytes k n) = (of_nat n :: u64)"
proof -
  have "n < 2 ^ 64" using assms power_increasing [of "8 * k" 64 "2 :: nat"] by simp
  then have "unat (of_nat n :: u64) < 2 ^ (8 * k)" using assms by (simp add: unat_of_nat)
  moreover have "unat x < 2 ^ (8 * k) \<Longrightarrow> take_bit (8 * k) x = x" for x :: u64
    by (simp add: word_unat_eq_iff unsigned_take_bit_eq take_bit_nat_eq_self)
  ultimately have "take_bit (8 * k) (of_nat n :: u64) = of_nat n" by blast
  then show ?thesis unfolding len_bytes_def using read_length_bytes [of 0 k "of_nat n"] by simp
qed

lemma low_bits: "w AND 0x7F = w \<Longrightarrow> w AND 0x80 = (0 :: u8)"
proof -
  assume "w AND 0x7F = w"
  then have "w AND 0x80 = (w AND 0x7F) AND 0x80" by (rule arg_cong [OF sym])
  then show ?thesis unfolding and.assoc by simp
qed

text \<open>a server header read from the segment it came in, and the length it stands for\<close>

lemma header_length:
  assumes "len < 2 ^ 64" "m = 0 \<or> m = 0x80"
  obtains b h where "frame_header m len = 0x81 # b # h"
    "b AND 0x80 = m"
    "\<And>stack rest segs. read_length b stack (seg_cons (h @ rest) segs) = (of_nat len, seg_cons rest segs)"
proof (cases "len \<le> 125")
  case True
  let ?b = "m OR of_nat len :: u8"
  have "take_bit 7 (of_nat len :: u8) = of_nat len"
    using True by (simp add: word_unat_eq_iff unsigned_take_bit_eq unat_of_nat take_bit_nat_eq_self)
  then have l: "of_nat len AND 0x7F = (of_nat len :: u8)" by (simp add: take_bit_eq_mask mask_eq_exp_minus_1)
  then have h: "of_nat len AND 0x80 = (0 :: u8)" by (rule low_bits)
  have b: "?b AND 0x80 = m" "?b AND 0x7F = of_nat len" using assms(2) l h by (auto simp: bit.conj_disj_distrib2)
  have n: "of_nat len \<noteq> (126 :: u8)" "of_nat len \<noteq> (127 :: u8)" "ucast (of_nat len :: u8) = (of_nat len :: u64)"
  proof -
    have u: "unat (of_nat len :: u8) = len" using True by (simp add: unat_of_nat take_bit_nat_eq_self)
    show "of_nat len \<noteq> (126 :: u8)" "of_nat len \<noteq> (127 :: u8)"
      by (rule notI, drule arg_cong [of _ _ unat], use u True in simp)+
    show "ucast (of_nat len :: u8) = (of_nat len :: u64)"
      using arg_cong [OF u, of "of_nat :: nat \<Rightarrow> u64"] by (simp only: of_nat_unat)
  qed
  show ?thesis
  proof (rule that [of ?b "drop 2 (frame_header m len)"])
    show "frame_header m len = 0x81 # ?b # drop 2 (frame_header m len)" using True by (simp add: frame_header_def)
    show "?b AND 0x80 = m" by (rule b)
    show "read_length ?b stack (seg_cons (drop 2 (frame_header m len) @ rest) segs) = (of_nat len, seg_cons rest segs)"
      for stack rest segs
      using True unfolding read_length_def Let_def b if_not_P [OF n(1)] if_not_P [OF n(2)] n(3) frame_header_def by simp
  qed
next
  case False
  let ?k = "if len \<le> 65535 then 2 else 8 :: nat"
  let ?b = "m OR (if len \<le> 65535 then 126 else 127) :: u8"
  show ?thesis
  proof (rule that [of ?b "drop 2 (frame_header m len)"])
    show "frame_header m len = 0x81 # ?b # drop 2 (frame_header m len)" using False by (simp add: frame_header_def)
    show "?b AND 0x80 = m" using assms(2) by auto
    show "read_length ?b stack (seg_cons (drop 2 (frame_header m len) @ rest) segs) = (of_nat len, seg_cons rest segs)"
      for stack rest segs
    proof (cases "len \<le> 65535")
      case True
      have "length (len_bytes 2 len) = Suc (Suc 0)" unfolding len_bytes_length by simp
      then obtain x y where xy: "len_bytes 2 len = [x, y]" unfolding length_Suc_conv length_0_conv by blast
      have "push_bit 8 (ucast x) OR ucast y = (of_nat len :: u64)"
        using len_bytes_value [of len 2] True unfolding xy by simp
      then show ?thesis
        using True False assms(2) unfolding frame_header_def read_length_def
        by (auto simp: xy recv_prefix [of "[x, y]", simplified])
    next
      case big: False
      have "foldl (\<lambda>n b. push_bit 8 n OR ucast b) 0 (len_bytes 8 len) = (of_nat len :: u64)"
        using len_bytes_value [of len 8] assms(1) by simp
      then show ?thesis
        using big False assms(2) unfolding frame_header_def read_length_def
        by (auto simp: recv_prefix)
    qed
  qed
qed

lemma header_length_ge: "2 \<le> length (frame_header m len)"
  by (simp add: frame_header_def)

lemma bytes_text_bytes [simp]: "bytes_text (str_bytes data) = data"
proof -
  have "char_of (unat (of_char c :: u8)) = c" for c
  proof -
    have "unat (of_char c :: u8) = unat (of_nat (of_char c) :: u8)" by (simp only: of_nat_of_char)
    also have "\<dots> = (of_char c :: nat)" using nat_of_char_less_256 [of c] by (simp add: unat_of_nat take_bit_nat_eq_self del: of_nat_of_char)
    finally show ?thesis by simp
  qed
  then show ?thesis by (simp add: bytes_text_def str_bytes_def map_idI)
qed

lemma str_bytes_length [simp]: "length (str_bytes data) = length data"
  by (simp add: str_bytes_def)

lemma str_bytes_Nil [simp]: "str_bytes data = [] \<longleftrightarrow> data = []" "str_bytes [] = []"
  by (simp_all add: str_bytes_def)

text \<open>
  C30: A frame the client sends is what the server receives, and the other way round, whatever the
  length of the message, as long as the header arrives in one piece; the payload may arrive
  in any pieces.
\<close>

theorem websocket_frames:
  assumes "length data < 2 ^ 63" "str_bytes data = now @ concat later" "[] \<notin> set later"
  shows "server_receiveFrame stack ((frame_header 0 (length data) @ now) # later) = Inr ((data, False), []) \<and>
    client_receiveFrame stack ((frame_header 0x80 (length data) @ now) # later) = Inr ((data, False), []) \<and>
    client_sendFrame data = frame_header 0 (length data) @ now @ concat later \<and>
    server_sendFrame data = frame_header 0x80 (length data) @ now @ concat later"
proof -
  let ?n = "length data"
  have l: "length data < 2 ^ 64" "unat (of_nat ?n :: u64) = ?n" using assms(1) by (simp_all add: unat_of_nat take_bit_nat_eq_self)
  have p: "read_payload ?n [] (seg_cons now later) = (Some (str_bytes data), [])"
  proof -
    have "concat (seg_cons now later) = str_bytes data" "[] \<notin> set (seg_cons now later)"
      using assms(2,3) by (auto simp: seg_cons_def)
    then show ?thesis using read_payload_segments [of "seg_cons now later" "[]" ?n] by simp
  qed
  obtain b h where b: "frame_header 0 ?n = 0x81 # b # h" "b AND 0x80 = 0"
    "\<And>stack rest segs. read_length b stack (seg_cons (h @ rest) segs) = (of_nat ?n, seg_cons rest segs)"
    using l(1) by (rule header_length [where m = 0]) (simp, rule that)
  obtain c k where c: "frame_header 0x80 ?n = 0x81 # c # k"
    "\<And>stack rest segs. read_length c stack (seg_cons (k @ rest) segs) = (of_nat ?n, seg_cons rest segs)"
    using l(1) by (rule header_length [where m = "0x80"]) (simp, rule that)
  have r: "recv 2 ((0x81 # x # rest) # later) = ([0x81, x], seg_cons rest later)" for x rest
    using recv_prefix [of "[0x81, x]" 2 rest later] by (simp add: seg_cons_def)
  have "server_receiveFrame stack ((frame_header 0 ?n @ now) # later) = Inr ((data, False), [])"
    unfolding server_receiveFrame_def b(1) append_Cons r using b(2,3) p l assms(1) by simp
  moreover have "client_receiveFrame stack ((frame_header 0x80 ?n @ now) # later) = Inr ((data, False), [])"
    unfolding client_receiveFrame_def c(1) append_Cons r using c(2) p l assms(1) by simp
  ultimately show ?thesis using assms(2) by (simp add: client_sendFrame_def server_sendFrame_def)
qed

theorem websocket_frames_witness:
  "server_receiveFrame (\<lambda>_. 0) [frame_header 0 (length ''hi'') @ [0x68], [0x69]] = Inr ((''hi'', False), [])"
  using websocket_frames [of "''hi''" "[0x68]" "[[0x69]]" "\<lambda>_. 0"] by (simp add: str_bytes_def)

lemma read_payload_short:
  "[] \<notin> set segs \<Longrightarrow> length (concat segs) + length got < n \<Longrightarrow> read_payload n got segs = (None, [])"
proof (induction segs arbitrary: got)
  case Nil
  then show ?case by (subst read_payload.simps) simp
next
  case (Cons seg segs)
  then have "seg \<noteq> []" "length seg \<le> n - length got" "length got < n" by auto
  then have "read_payload n got (seg # segs) = read_payload n (got @ seg) segs"
    by (subst read_payload.simps) simp
  then show ?case using Cons.IH [of "got @ seg"] Cons.prems by simp
qed

lemma bit_63_large: "bit (w :: u64) 63 \<Longrightarrow> 2 ^ 63 \<le> unat w"
proof (rule ccontr)
  assume "bit w 63" "\<not> 2 ^ 63 \<le> unat w"
  then have "take_bit 63 w = w" by (simp add: word_unat_eq_iff unsigned_take_bit_eq take_bit_nat_eq_self)
  then show False using \<open>bit w 63\<close> bit_take_bit_iff [of 63 w 63] by simp
qed

lemma read_length_huge:
  assumes "bit hi 7" "length ext = 7"
  shows "2 ^ 63 \<le> unat (fst (read_length 0x7F stack (seg_cons (hi # ext) later)))"
proof (rule bit_63_large)
  have "length ext = Suc (Suc (Suc (Suc (Suc (Suc (Suc 0))))))" using assms(2) by simp
  then obtain a b c d e f g where ext: "ext = [a, b, c, d, e, f, g]" unfolding length_Suc_conv length_0_conv by blast
  have "recv 8 (seg_cons (hi # ext) later) = (hi # ext, later)"
    using recv_prefix [of "hi # ext" 8 "[]" later] assms(2) by (simp add: seg_cons_def)
  moreover have high: "\<not> bit (x :: u8) n" if "8 \<le> n" for x n using that bit_imp_le_length [of x n] by auto
  ultimately show "bit (fst (read_length 0x7F stack (seg_cons (hi # ext) later))) 63"
    using assms(1) high unfolding read_length_def by (simp add: ext bit_simps)
qed

text \<open>
  What breaks a connection. The frames of the server announce a mask they do not
  have: a receiver that reads the mask, as the server itself does, closes the connection at
  every message but the empty one. So does a receiver that is given the header in two pieces. A length of 63 bits or
  more ends the thread with an exception, whoever sent it.
\<close>

theorem websocket_errors:
  assumes "length data < 2 ^ 63" "bit hi 7" "length ext = 7"
  shows "server_receiveFrame stack [server_sendFrame data] = Inr (([], data \<noteq> []), []) \<and>
    server_receiveFrame stack ([h0] # later) = Inr (([], True), later) \<and>
    client_receiveFrame stack ([h0] # later) = Inr (([], True), later) \<and>
    server_receiveFrame stack ((h0 # 0x7F # hi # ext) # later) = Inl Length_Error \<and>
    client_receiveFrame stack ((h0 # 0x7F # hi # ext) # later) = Inl Length_Error"
proof -
  let ?n = "length data"
  have l: "?n < 2 ^ 64" "unat (of_nat ?n :: u64) = ?n" using assms(1) by (simp_all add: unat_of_nat take_bit_nat_eq_self)
  obtain c h where c: "frame_header 0x80 ?n = 0x81 # c # h" "c AND 0x80 = 0x80"
    "\<And>stack rest segs. read_length c stack (seg_cons (h @ rest) segs) = (of_nat ?n, seg_cons rest segs)"
    using l(1) by (rule header_length [where m = "0x80"]) (simp, rule that)
  have r: "recv 2 ((h # x # rest) # segs) = ([h, x], seg_cons rest segs)" for h x rest segs
    using recv_prefix [of "[h, x]" 2 rest segs] by (simp add: seg_cons_def)
  have "read_payload ?n [] (seg_cons (drop 4 (str_bytes data)) []) = (if data = [] then Some [] else None, [])"
    using read_payload_short [of "seg_cons (drop 4 (str_bytes data)) []" "[]" ?n]
    by (cases "data = []") (auto simp: seg_cons_def read_payload.simps)
  moreover have "recv 4 (seg_cons (str_bytes data) []) = (take 4 (str_bytes data), seg_cons (drop 4 (str_bytes data)) [])"
    by (simp add: seg_cons_def)
  ultimately have "server_receiveFrame stack [server_sendFrame data] = Inr (([], data \<noteq> []), [])"
    unfolding server_receiveFrame_def server_sendFrame_def c(1) append_Cons r
    using c(2) c(3) [of _ "str_bytes data" "[]"] l assms(1) by (simp add: bytes_text_def)
  moreover have "server_receiveFrame stack ((h0 # 0x7F # hi # ext) # later) = Inl Length_Error"
    "client_receiveFrame stack ((h0 # 0x7F # hi # ext) # later) = Inl Length_Error"
    unfolding server_receiveFrame_def client_receiveFrame_def r
    using read_length_huge [OF assms(2,3), where stack = stack and later = later] by (simp_all add: case_prod_unfold)
  ultimately show ?thesis by (simp add: server_receiveFrame_def client_receiveFrame_def)
qed

theorem websocket_errors_witness:
  "server_receiveFrame (\<lambda>_. 0) [server_sendFrame ''hello''] = Inr (([], True), [])"
  using websocket_errors [where data = "''hello''" and hi = "0x80" and ext = "[0, 0, 0, 0, 0, 0, 0]" and stack = "\<lambda>_. 0"] by simp

end
