(* ===== verification/P2p_Config.thy ===== *)
theory P2p_Config
  imports P2p_Text P2p_Store
begin

text \<open>
  The configuration of the peer-to-peer bank (\<open>config/config_loader.cpp\<close>): a map of texts, saved
  in a file of lines \<open>key = value\<close> and read from it, and the environment variables. The file is
  part of the state. Its mutex is locked once per operation and left out.
\<close>

section \<open>Reading\<close>

record config =
  cf_config :: "(string, string) std_map"
  cf_path :: string
  cf_file :: "string option"

definition trim_spaces :: "string \<Rightarrow> string" where
  "trim_spaces s = dropWhile (\<lambda>c. c = CHR '' '') (rev (dropWhile (\<lambda>c. c = CHR '' '') (rev s)))"

definition unquote :: "string \<Rightarrow> string" where
  "unquote v = (if 2 \<le> length v \<and> hd v = CHR 0x22 \<and> last v = CHR 0x22 then butlast (tl v) else v)"

definition parseLine :: "(string, string) std_map \<Rightarrow> string \<Rightarrow> (string, string) std_map" where
  "parseLine m line =
     (if line = [] \<or> hd line = CHR ''#'' \<or> hd line = CHR '';'' then m
      else if CHR ''='' \<notin> set line then m
      else map_put (trim_spaces (takeWhile (\<lambda>c. c \<noteq> CHR ''='') line))
             (unquote (trim_spaces (tl (dropWhile (\<lambda>c. c \<noteq> CHR ''='') line)))) m)"

definition parseINI :: "string \<Rightarrow> (string, string) std_map \<Rightarrow> (string, string) std_map" where
  "parseINI content m = foldl parseLine m (getlines [] content)"

text \<open>\<open>parseJSON\<close> has an empty body\<close>

definition parseJSON :: "string \<Rightarrow> (string, string) std_map \<Rightarrow> (string, string) std_map" where
  "parseJSON content m = m"

definition config_load :: "config \<Rightarrow> bool \<times> config" where
  "config_load c =
     (case cf_file c of
        None \<Rightarrow> (False, c)
      | Some content \<Rightarrow>
          (True, c\<lparr>cf_config := (if str_contains ''.json'' (cf_path c) then parseJSON content (cf_config c)
                                else parseINI content (cf_config c))\<rparr>))"

definition config_reload :: "config \<Rightarrow> bool \<times> config" where
  "config_reload c = config_load c"

text \<open>whether the file can be opened for writing is an argument\<close>

definition config_text :: "(string, string) std_map \<Rightarrow> string" where
  "config_text m = ''# Configuration File'' @ [CHR 0x0A] @ ''# Generated by Banking System'' @ [CHR 0x0A, CHR 0x0A] @
     concat (map (\<lambda>(key, value). key @ '' = '' @ value @ [CHR 0x0A]) m)"

definition config_save :: "bool \<Rightarrow> config \<Rightarrow> bool \<times> config" where
  "config_save writable c = (if \<not> writable then (False, c) else (True, c\<lparr>cf_file := Some (config_text (cf_config c))\<rparr>))"

section \<open>Values\<close>

definition cf_getString :: "string \<Rightarrow> string \<Rightarrow> config \<Rightarrow> string" where
  "cf_getString key d c = (case map_of (cf_config c) key of Some v \<Rightarrow> v | None \<Rightarrow> d)"

definition int_or :: "string \<Rightarrow> int \<Rightarrow> int" where
  "int_or val d = (if val = [] then d else case stoi val of Inr x \<Rightarrow> x | Inl _ \<Rightarrow> d)"

definition bool_or :: "string \<Rightarrow> bool \<Rightarrow> bool" where
  "bool_or val d = (if val = [] then d else val = ''true'' \<or> val = ''1'' \<or> val = ''yes'' \<or> val = ''on'')"

definition cf_getInt :: "string \<Rightarrow> int \<Rightarrow> config \<Rightarrow> int" where
  "cf_getInt key d c = int_or (cf_getString key [] c) d"

definition cf_getDouble :: "string \<Rightarrow> double \<Rightarrow> config \<Rightarrow> double" where
  "cf_getDouble key d c =
     (let val = cf_getString key [] c in if val = [] then d else case stod val of Inr x \<Rightarrow> x | Inl _ \<Rightarrow> d)"

definition cf_getBool :: "string \<Rightarrow> bool \<Rightarrow> config \<Rightarrow> bool" where
  "cf_getBool key d c = bool_or (cf_getString key [] c) d"

definition cf_setString :: "string \<Rightarrow> string \<Rightarrow> config \<Rightarrow> config" where
  "cf_setString key value c = c\<lparr>cf_config := map_put key value (cf_config c)\<rparr>"

definition cf_setInt :: "string \<Rightarrow> int \<Rightarrow> config \<Rightarrow> config" where
  "cf_setInt key value c = cf_setString key (dec_int value) c"

definition cf_setDouble :: "string \<Rightarrow> double \<Rightarrow> config \<Rightarrow> config" where
  "cf_setDouble key value c = cf_setString key (dec_double value) c"

definition cf_setBool :: "string \<Rightarrow> bool \<Rightarrow> config \<Rightarrow> config" where
  "cf_setBool key value c = cf_setString key (if value then ''true'' else ''false'') c"

definition cf_hasKey :: "string \<Rightarrow> config \<Rightarrow> bool" where
  "cf_hasKey key c = (map_of (cf_config c) key \<noteq> None)"

definition cf_removeKey :: "string \<Rightarrow> config \<Rightarrow> config" where
  "cf_removeKey key c = c\<lparr>cf_config := map_erase key (cf_config c)\<rparr>"

definition cf_getKeys :: "config \<Rightarrow> string list" where
  "cf_getKeys c = map fst (cf_config c)"

definition cf_clear :: "config \<Rightarrow> config" where
  "cf_clear c = c\<lparr>cf_config := []\<rparr>"

text \<open>the environment: \<open>setenv\<close> refuses an empty name and one with an equals sign\<close>

type_synonym environment = "(string, string) std_map"

definition c_text :: "string \<Rightarrow> string" where
  "c_text s = takeWhile (\<lambda>c. c \<noteq> char_of (0::nat)) s"

definition getEnv :: "string \<Rightarrow> string \<Rightarrow> environment \<Rightarrow> string" where
  "getEnv name d env = (case map_of env (c_text name) of Some v \<Rightarrow> v | None \<Rightarrow> d)"

definition getEnvInt :: "string \<Rightarrow> int \<Rightarrow> environment \<Rightarrow> int" where
  "getEnvInt name d env = int_or (getEnv name [] env) d"

definition getEnvBool :: "string \<Rightarrow> bool \<Rightarrow> environment \<Rightarrow> bool" where
  "getEnvBool name d env = bool_or (getEnv name [] env) d"

definition setEnv :: "string \<Rightarrow> string \<Rightarrow> environment \<Rightarrow> environment" where
  "setEnv name value env =
     (if c_text name = [] \<or> CHR ''='' \<in> set (c_text name) then env else map_put (c_text name) (c_text value) env)"

section \<open>The saved file gives back the configuration\<close>

definition trimmed :: "string \<Rightarrow> bool" where
  "trimmed s \<longleftrightarrow> s = [] \<or> hd s \<noteq> CHR '' '' \<and> last s \<noteq> CHR '' ''"

text \<open>the keys and values that survive\<close>

definition plain_key :: "string \<Rightarrow> bool" where
  "plain_key k \<longleftrightarrow> trimmed k \<and> CHR ''='' \<notin> set k \<and> CHR 0x0A \<notin> set k \<and> (k = [] \<or> hd k \<noteq> CHR ''#'' \<and> hd k \<noteq> CHR '';'')"

definition plain_value :: "string \<Rightarrow> bool" where
  "plain_value v \<longleftrightarrow> trimmed v \<and> CHR 0x0A \<notin> set v \<and> unquote v = v"

lemma drop_nothing: "s = [] \<or> hd s \<noteq> x \<Longrightarrow> dropWhile (\<lambda>c. c = x) s = s"
  by (cases s) auto

lemma trim_key: assumes "trimmed k" shows "trim_spaces (k @ '' '') = k"
proof -
  have "dropWhile (\<lambda>c. c = CHR '' '') (rev k) = rev k" "dropWhile (\<lambda>c. c = CHR '' '') k = k"
    using assms by (auto intro!: drop_nothing simp: trimmed_def hd_rev)
  then show ?thesis by (simp add: trim_spaces_def)
qed

lemma trim_value: assumes "trimmed v" shows "trim_spaces (CHR '' '' # v) = v"
proof (cases "v = []")
  case False
  have "dropWhile (\<lambda>c. c = CHR '' '') (rev v @ '' '') = rev v @ '' ''" "dropWhile (\<lambda>c. c = CHR '' '') v = v"
    using assms False by (auto intro!: drop_nothing simp: trimmed_def hd_rev hd_append)
  then show ?thesis by (simp add: trim_spaces_def)
qed (simp add: trim_spaces_def)

lemma parse_pair:
  assumes "plain_key k" "plain_value v"
  shows "parseLine m (k @ '' = '' @ v) = map_put k v m"
proof -
  have "takeWhile (\<lambda>c. c \<noteq> CHR ''='') (k @ '' = '' @ v) = k @ '' ''"
    "dropWhile (\<lambda>c. c \<noteq> CHR ''='') (k @ '' = '' @ v) = ''= '' @ v"
    using assms(1) by (auto simp: plain_key_def takeWhile_append dropWhile_append)
  moreover have "hd (k @ '' = '' @ v) \<noteq> CHR ''#''" "hd (k @ '' = '' @ v) \<noteq> CHR '';''"
    using assms(1) by (auto simp: plain_key_def hd_append)
  ultimately show ?thesis
    using assms by (simp add: parseLine_def plain_key_def plain_value_def trim_key trim_value)
qed

lemma parse_config_text:
  assumes "map_ok m" "\<forall>(k, v)\<in>set m. plain_key k \<and> plain_value v"
  shows "parseINI (config_text m) [] = m"
proof -
  let ?f = "\<lambda>(k, v). k @ '' = '' @ v"
  have "getlines [] (concat (map (\<lambda>x. ?f x @ [CHR 0x0A]) m)) = map ?f m"
    using assms(2) by (intro getlines_concat) (auto simp: plain_key_def plain_value_def)
  moreover have "(\<lambda>x. ?f x @ [CHR 0x0A]) = (\<lambda>(k, v). k @ '' = '' @ v @ [CHR 0x0A])" by auto
  ultimately have "getlines [] (config_text m) = [''# Configuration File'', ''# Generated by Banking System'', []] @ map ?f m"
    by (simp add: config_text_def)
  moreover have "foldl parseLine r (map ?f l) = foldl (\<lambda>m (k, v). map_put k v m) r l"
    if "\<forall>(k, v)\<in>set l. plain_key k \<and> plain_value v" for l r
    using that by (induction l arbitrary: r) (auto simp: parse_pair [simplified])
  ultimately show ?thesis
    using assms map_puts_sorted [of "[]" m] by (simp add: parseINI_def parseLine_def)
qed

text \<open>
  A configuration that is saved and loaded into an empty one is the same, when no key holds an
  equals sign or starts like a comment, no text a line break or outer spaces, and no value
  outer quotes; with a path that contains \<open>.json\<close> saving writes the same text, and loading reports success
  and reads nothing.
\<close>

theorem config_round_trip:
  assumes "map_ok (cf_config c)" "\<forall>(k, v)\<in>set (cf_config c). plain_key k \<and> plain_value v"
  shows "config_load (cf_clear (snd (config_save True c))) =
    (True, (snd (config_save True c))\<lparr>cf_config := (if str_contains ''.json'' (cf_path c) then [] else cf_config c)\<rparr>)"
  using parse_config_text [OF assms] by (simp add: config_load_def cf_clear_def config_save_def parseJSON_def)

definition sample_config :: config where
  "sample_config = \<lparr>cf_config = [(''name'', ''a = b''), (''port'', ''8080'')], cf_path = ''config.ini'', cf_file = None\<rparr>"

theorem config_round_trip_witness:
  "cf_config (snd (config_load (cf_clear (snd (config_save True sample_config))))) = [(''name'', ''a = b''), (''port'', ''8080'')]"
proof -
  have "map_ok (cf_config sample_config)" "\<forall>(k, v)\<in>set (cf_config sample_config). plain_key k \<and> plain_value v"
    by (simp_all add: sample_config_def less_char_def plain_key_def plain_value_def trimmed_def unquote_def)
  from config_round_trip [OF this] show ?thesis by (simp add: sample_config_def)
qed

text \<open>a value with outer quotes loses them, a key with an equals sign is cut there\<close>

lemma config_losses:
  "parseINI (config_text [(''k'', [CHR 0x22, CHR ''v'', CHR 0x22])]) [] = [(''k'', ''v'')]"
  "parseINI (config_text [(''a=b'', ''v'')]) [] = [(''a'', ''b = v'')]"
  by (simp_all add: parseINI_def config_text_def parseLine_def trim_spaces_def unquote_def)

text \<open>typed values are read as they were set, for every int\<close>

lemma typed_values:
  assumes "map_ok (cf_config c)"
  shows "- (2 ^ 31) \<le> x \<Longrightarrow> x < 2 ^ 31 \<Longrightarrow> cf_getInt key d (cf_setInt key x c) = x"
    and "cf_getBool key b' (cf_setBool key b c) = b"
proof -
  have g: "cf_getString key [] (cf_setString key v c) = v" for v
    using assms by (simp add: cf_getString_def cf_setString_def)
  have "dec_int x \<noteq> []" by (simp add: dec_int_def)
  then show "- (2 ^ 31) \<le> x \<Longrightarrow> x < 2 ^ 31 \<Longrightarrow> cf_getInt key d (cf_setInt key x c) = x"
    by (simp add: cf_getInt_def cf_setInt_def g int_or_def)
  show "cf_getBool key b' (cf_setBool key b c) = b" by (simp add: cf_getBool_def cf_setBool_def g bool_or_def)
qed

lemma environment_round_trip:
  assumes "map_ok env" "name \<noteq> []" "CHR ''='' \<notin> set name" "char_of (0::nat) \<notin> set name" "char_of (0::nat) \<notin> set value"
  shows "getEnv name d (setEnv name value env) = value"
proof -
  have "c_text s = s" if "char_of (0::nat) \<notin> set s" for s using that by (auto simp: c_text_def takeWhile_eq_all_conv)
  then show ?thesis using assms by (simp add: getEnv_def setEnv_def)
qed

end
