(* ===== verification/P2p_Backup.thy ===== *)
theory P2p_Backup
  imports P2p_Text P2p_Ternary
begin

text \<open>
  Backups (\<open>backup/backup_manager.cpp\<close>): texts in the ternary code, one file each, with the time of
  the backup in its first line and in a table of names, and the scheduler that writes them. The
  files are part of the state, by their paths; clock readings, and whether a file can be opened for writing, are
  arguments. A second lock of the mutex is the fault \<open>Deadlock\<close>.
\<close>

section \<open>The manager\<close>

record backups =
  bk_dir :: string
  bk_metadata :: "(string, string) std_map"
  bk_maxBackups :: nat
  bk_files :: "(string, string) std_map"

definition bk_new :: "string \<Rightarrow> nat \<Rightarrow> (string, string) std_map \<Rightarrow> backups" where
  "bk_new dir m files = \<lparr>bk_dir = dir, bk_metadata = [], bk_maxBackups = m, bk_files = files\<rparr>"

definition generateBackupPath :: "string \<Rightarrow> backups \<Rightarrow> string" where
  "generateBackupPath name b = bk_dir b @ ''/'' @ name @ ''.backup''"

text \<open>\<open>held\<close>: the calling thread holds the mutex already\<close>

definition deleteBackup :: "bool \<Rightarrow> string \<Rightarrow> backups \<Rightarrow> (bool \<times> backups) cpp" where
  "deleteBackup held name b =
     (if held then Inl Deadlock
      else if map_of (bk_files b) (generateBackupPath name b) \<noteq> None
      then Inr (True, b\<lparr>bk_files := map_erase (generateBackupPath name b) (bk_files b), bk_metadata := map_erase name (bk_metadata b)\<rparr>)
      else Inr (False, b))"

fun backup_times :: "(string, string) std_map \<Rightarrow> (u64 \<times> string) list cpp" where
  "backup_times [] = Inr []"
| "backup_times ((name, timeStr) # m) =
     cpp_then (stoull timeStr) (\<lambda>t. cpp_then (backup_times m) (\<lambda>ts. Inr ((t, name) # ts)))"

fun delete_all :: "bool \<Rightarrow> string list \<Rightarrow> backups \<Rightarrow> backups cpp" where
  "delete_all held [] b = Inr b"
| "delete_all held (name # names) b = cpp_then (deleteBackup held name b) (\<lambda>(_, b). delete_all held names b)"

text \<open>the table is in the order of the names, so a stable sort by time sorts the pairs\<close>

definition cleanupOldBackups :: "bool \<Rightarrow> backups \<Rightarrow> backups cpp" where
  "cleanupOldBackups held b =
     (if length (bk_metadata b) \<le> bk_maxBackups b then Inr b
      else cpp_then (backup_times (bk_metadata b)) (\<lambda>ts.
             delete_all held (map snd (take (length (bk_metadata b) - bk_maxBackups b) (sort_key fst ts))) b))"

definition createBackup :: "bool \<Rightarrow> u64 \<Rightarrow> u64 \<Rightarrow> string \<Rightarrow> string \<Rightarrow> backups \<Rightarrow> (bool \<times> backups) cpp" where
  "createBackup writable now1 now2 name data b =
     (if \<not> writable then Inr (False, b)
      else let b = b\<lparr>bk_files := map_put (generateBackupPath name b) (dec_nat (unat now1) @ [CHR 0x0A] @ encodeBinary data) (bk_files b),
                     bk_metadata := map_put name (dec_nat (unat now2)) (bk_metadata b)\<rparr>
           in cpp_then (cleanupOldBackups True b) (\<lambda>b. Inr (True, b)))"

text \<open>None: the file cannot be opened, and the output parameter stays as it is\<close>

definition restoreBackup :: "string \<Rightarrow> backups \<Rightarrow> bool \<times> string option" where
  "restoreBackup name b =
     (case map_of (bk_files b) (generateBackupPath name b) of
        None \<Rightarrow> (False, None)
      | Some content \<Rightarrow>
          let (line, rest) = getline (CHR 0x0A) (Some content);
              (encoded, rest) = getline (CHR 0x00) rest;
              data = decodeTernary encoded
          in (data \<noteq> [], Some data))"

definition listBackups :: "backups \<Rightarrow> string list" where
  "listBackups b = map fst (bk_metadata b)"

definition backupExists :: "string \<Rightarrow> backups \<Rightarrow> bool" where
  "backupExists name b = (map_of (bk_metadata b) name \<noteq> None)"

text \<open>None: \<open>file_size\<close> throws\<close>

definition getBackupSize :: "string \<Rightarrow> backups \<Rightarrow> nat option" where
  "getBackupSize name b = map_option length (map_of (bk_files b) (generateBackupPath name b))"

definition getBackupTime :: "string \<Rightarrow> backups \<Rightarrow> u64 cpp" where
  "getBackupTime name b = (case map_of (bk_metadata b) name of Some t \<Rightarrow> stoull t | None \<Rightarrow> Inr 0)"

definition setMaxBackups :: "nat \<Rightarrow> backups \<Rightarrow> backups cpp" where
  "setMaxBackups m b = cleanupOldBackups True (b\<lparr>bk_maxBackups := m\<rparr>)"

text \<open>whether the target can be written is an argument\<close>

definition exportBackup :: "bool \<Rightarrow> string \<Rightarrow> string \<Rightarrow> backups \<Rightarrow> bool \<times> backups" where
  "exportBackup writable name exportPath b =
     (case map_of (bk_files b) (generateBackupPath name b) of
        Some content \<Rightarrow>
          if writable then (True, b\<lparr>bk_files := map_put (exportPath @ ''/'' @ name @ ''.backup'') content (bk_files b)\<rparr>) else (False, b)
      | None \<Rightarrow> (False, b))"

definition importBackup :: "bool \<Rightarrow> u64 \<Rightarrow> string \<Rightarrow> string \<Rightarrow> backups \<Rightarrow> bool \<times> backups" where
  "importBackup writable now importPath newName b =
     (case map_of (bk_files b) importPath of
        Some content \<Rightarrow>
          if writable
          then (True, b\<lparr>bk_files := map_put (generateBackupPath newName b) content (bk_files b),
                        bk_metadata := map_put newName (dec_nat (unat now)) (bk_metadata b)\<rparr>)
          else (False, b)
      | None \<Rightarrow> (False, b))"

section \<open>The scheduler\<close>

text \<open>a task: its name, its interval and what its provider returns in this round\<close>

type_synonym backup_task = "string \<times> int \<times> string"

definition addBackupTask :: "string \<Rightarrow> int \<Rightarrow> string \<Rightarrow> backup_task list \<Rightarrow> backup_task list" where
  "addBackupTask name intervalMs data ts = ts @ [(name, intervalMs, data)]"

fun removeBackupTask :: "string \<Rightarrow> backup_task list \<Rightarrow> backup_task list" where
  "removeBackupTask name [] = []"
| "removeBackupTask name (t # ts) = (if fst t = name then ts else t # removeBackupTask name ts)"

text \<open>one round of \<open>loop\<close>, whose length does not depend on the intervals\<close>

fun backup_round :: "(string \<Rightarrow> u64) \<Rightarrow> backup_task list \<Rightarrow> backups \<Rightarrow> backups cpp" where
  "backup_round clock [] b = Inr b"
| "backup_round clock ((name, intervalMs, data) # ts) b =
     (if data = [] then backup_round clock ts b
      else cpp_then (createBackup True (clock name) (clock name) name data b) (\<lambda>(_, b). backup_round clock ts b))"

section \<open>The table of backups\<close>

definition bk_ok :: "backups \<Rightarrow> bool" where
  "bk_ok b \<longleftrightarrow> map_ok (bk_metadata b) \<and> map_ok (bk_files b) \<and> (\<forall>(n, t)\<in>set (bk_metadata b). \<exists>x :: u64. t = dec_nat (unat x))"

lemma path_inject [simp]: "generateBackupPath n b = generateBackupPath n' b \<longleftrightarrow> n = n'"
  by (simp add: generateBackupPath_def)

lemma path_update [simp]:
  "generateBackupPath n (b\<lparr>bk_files := fs\<rparr>) = generateBackupPath n b"
  "generateBackupPath n (b\<lparr>bk_metadata := m\<rparr>) = generateBackupPath n b"
  by (simp_all add: generateBackupPath_def)

lemma backup_times_ok:
  "\<forall>(n, t)\<in>set m. \<exists>x :: u64. t = dec_nat (unat x) \<Longrightarrow> \<exists>ts. backup_times m = Inr ts \<and> length ts = length m"
proof (induction m)
  case (Cons a m)
  then obtain ts where "backup_times m = Inr ts" "length ts = length m" by auto
  with Cons.prems show ?case by (cases a) auto
qed simp

lemma cleanup_held:
  assumes "bk_ok b"
  shows "cleanupOldBackups True b = (if length (bk_metadata b) \<le> bk_maxBackups b then Inr b else Inl Deadlock)"
proof (cases "length (bk_metadata b) \<le> bk_maxBackups b")
  case False
  obtain ts where ts: "backup_times (bk_metadata b) = Inr ts" "length ts = length (bk_metadata b)"
    using backup_times_ok assms unfolding bk_ok_def by blast
  have "map snd (take (length (bk_metadata b) - bk_maxBackups b) (sort_key fst ts)) \<noteq> []"
    using False ts(2) by (auto dest: arg_cong [of _ _ length])
  then obtain n ns where "map snd (take (length (bk_metadata b) - bk_maxBackups b) (sort_key fst ts)) = n # ns"
    by (meson list.exhaust)
  then show ?thesis using False ts(1) by (simp add: cleanupOldBackups_def deleteBackup_def)
qed (simp add: cleanupOldBackups_def)

lemma length_map_put_cases: "map_ok m \<Longrightarrow> length (map_put k v m) = (if map_of m k = None then Suc (length m) else length m)"
proof (induction k v m rule: map_put.induct)
  case (2 k v k' v' m)
  have "\<forall>x\<in>set m. k' < fst x" using 2 by simp
  then have "map_of m k = None" if "k < k'" using that less_not_sym [of k k'] by (auto simp: map_of_eq_None_iff)
  then show ?case using 2 by auto
qed simp

definition backed_up :: "u64 \<Rightarrow> u64 \<Rightarrow> string \<Rightarrow> string \<Rightarrow> backups \<Rightarrow> backups" where
  "backed_up now1 now2 name data b =
     b\<lparr>bk_files := map_put (generateBackupPath name b) (dec_nat (unat now1) @ [CHR 0x0A] @ encodeBinary data) (bk_files b),
       bk_metadata := map_put name (dec_nat (unat now2)) (bk_metadata b)\<rparr>"

lemma backed_up_ok: "bk_ok b \<Longrightarrow> bk_ok (backed_up now1 now2 name data b)"
  using set_map_put [of name "dec_nat (unat now2)" "bk_metadata b"] by (auto simp: bk_ok_def backed_up_def)

lemma createBackup_eq:
  assumes "bk_ok b"
  shows "createBackup True now1 now2 name data b =
    (if length (bk_metadata b) < bk_maxBackups b \<or> backupExists name b \<and> length (bk_metadata b) = bk_maxBackups b
     then Inr (True, backed_up now1 now2 name data b) else Inl Deadlock)"
proof -
  have "createBackup True now1 now2 name data b = cpp_then (cleanupOldBackups True (backed_up now1 now2 name data b)) (\<lambda>b. Inr (True, b))"
    by (simp add: createBackup_def backed_up_def Let_def)
  moreover have "length (bk_metadata (backed_up now1 now2 name data b)) =
      (if backupExists name b then length (bk_metadata b) else Suc (length (bk_metadata b)))"
    "bk_maxBackups (backed_up now1 now2 name data b) = bk_maxBackups b"
    using assms by (auto simp: backed_up_def bk_ok_def length_map_put_cases backupExists_def)
  ultimately show ?thesis using cleanup_held [OF backed_up_ok [OF assms]] by auto
qed

lemma no_digit_break [simp]: "CHR 0x0A \<notin> set (dec_nat n)" "CHR 0x00 \<notin> set (encodeBinary data)"
  using set_dec_nat [of "CHR 0x0A" n] encodeBinary_lines [of "CHR 0x00" data] by auto

lemma restore_backed_up:
  assumes "bk_ok b"
  shows "restoreBackup n (backed_up now1 now2 name data b) = (if n = name then (data \<noteq> [], Some data) else restoreBackup n b)"
proof (cases "n = name")
  case True
  have "getline (CHR 0x0A) (Some (dec_nat (unat now1) @ CHR 0x0A # encodeBinary data)) = (dec_nat (unat now1), Some (encodeBinary data))"
    by simp
  then show ?thesis using True assms
    by (simp add: restoreBackup_def backed_up_def bk_ok_def decode_encodeBinary)
next
  case False
  then show ?thesis using assms by (simp add: restoreBackup_def backed_up_def bk_ok_def)
qed

text \<open>
  C38: As long as the table holds fewer backups than the limit, or holds this one and not more than the limit, a backup is
  written: it is restored exactly (success is reported unless it is empty), its time is found, and the other backups are
  restored as before. Otherwise the call locks the mutex it holds and never returns: no old backup is ever removed.
\<close>

theorem backup_round_trip:
  assumes "bk_ok b"
  shows "if length (bk_metadata b) < bk_maxBackups b \<or> backupExists name b \<and> length (bk_metadata b) = bk_maxBackups b
    then \<exists>b'. createBackup True now1 now2 name data b = Inr (True, b') \<and> bk_ok b' \<and>
           restoreBackup name b' = (data \<noteq> [], Some data) \<and> getBackupTime name b' = Inr now2 \<and>
           (\<forall>n. n \<noteq> name \<longrightarrow> restoreBackup n b' = restoreBackup n b)
    else createBackup True now1 now2 name data b = Inl Deadlock"
proof -
  have "getBackupTime name (backed_up now1 now2 name data b) = Inr now2"
    using assms by (simp add: getBackupTime_def backed_up_def bk_ok_def)
  then show ?thesis
    using backed_up_ok [OF assms] restore_backed_up [OF assms] by (simp add: createBackup_eq [OF assms])
qed

theorem backup_round_trip_witness:
  "\<exists>b'. createBackup True 5 6 ''accounts'' ''alice:3'' (bk_new ''backups'' 1 []) = Inr (True, b') \<and>
     restoreBackup ''accounts'' b' = (True, Some ''alice:3'') \<and> createBackup True 7 8 ''ledger'' ''x'' b' = Inl Deadlock"
proof -
  let ?b = "bk_new ''backups'' 1 []"
  have "bk_ok ?b" by (simp add: bk_ok_def bk_new_def)
  from backup_round_trip [OF this, of "''accounts''" 5 6 "''alice:3''"]
  obtain b' where b': "createBackup True 5 6 ''accounts'' ''alice:3'' ?b = Inr (True, b')" "bk_ok b'"
      "restoreBackup ''accounts'' b' = (True, Some ''alice:3'')"
    by (auto simp: bk_new_def)
  have "b' = backed_up 5 6 ''accounts'' ''alice:3'' ?b"
    using b'(1) createBackup_eq [OF \<open>bk_ok ?b\<close>, of 5 6 "''accounts''" "''alice:3''"] by (simp add: bk_new_def)
  then have "length (bk_metadata b') = 1" "bk_maxBackups b' = 1" "\<not> backupExists ''ledger'' b'"
    by (simp_all add: backed_up_def bk_new_def backupExists_def)
  then have "createBackup True 7 8 ''ledger'' ''x'' b' = Inl Deadlock"
    using backup_round_trip [OF b'(2), of "''ledger''" 7 8 "''x''"] by simp
  then show ?thesis using b' by blast
qed

text \<open>a lower limit is not enforced: \<open>setMaxBackups\<close> never returns when there are more backups\<close>

lemma lower_limit: "bk_ok b \<Longrightarrow> m < length (bk_metadata b) \<Longrightarrow> setMaxBackups m b = Inl Deadlock"
  using cleanup_held [of "b\<lparr>bk_maxBackups := m\<rparr>"] by (simp add: setMaxBackups_def bk_ok_def)

end
