(* ===== verification/P2p_Scan.thy ===== *)
theory P2p_Scan
  imports P2p_Text P2p_Sha1
begin

text \<open>
  The scanner of data and the checks of file names (\<open>security/virus_scan.cpp\<close>). A \<open>std::set\<close> is an
  ordered map to the unit value; mutexes are locked once per operation and left out.
\<close>

section \<open>The scanner\<close>

record scanner =
  vs_virusSignatures :: "(string, unit) std_map"
  vs_heuristicPatterns :: "(string, unit) std_map"

definition inserts :: "string list \<Rightarrow> (string, unit) std_map \<Rightarrow> (string, unit) std_map" where
  "inserts xs m = foldl (\<lambda>m x. map_put x () m) m xs"

definition default_signatures :: "string list" where
  "default_signatures =
     [''X5O!P%@AP[4'' @ [CHR 0x5C] @ ''PZX54(P^)7CC)7}$EICAR-STANDARD-ANTIVIRUS-TEST-FILE!$H+H*'',
      sha1 ''malware_pattern_1'', sha1 ''malware_pattern_2'', sha1 ''trojan_pattern'', sha1 ''ransomware_pattern'']"

definition default_patterns :: "string list" where
  "default_patterns = [''eval('', ''exec('', ''system('', ''popen('', ''shell_exec('', ''base64_decode('', ''gzinflate('']"

definition loadDefaultSignatures :: "scanner \<Rightarrow> scanner" where
  "loadDefaultSignatures s = s\<lparr>vs_virusSignatures := inserts default_signatures (vs_virusSignatures s),
     vs_heuristicPatterns := inserts default_patterns (vs_heuristicPatterns s)\<rparr>"

definition vs_new :: scanner where
  "vs_new = loadDefaultSignatures \<lparr>vs_virusSignatures = [], vs_heuristicPatterns = []\<rparr>"

definition computeSignature :: "string \<Rightarrow> nat \<Rightarrow> nat \<Rightarrow> string" where
  "computeSignature data offset len = (if length data < offset + len then [] else sha1 (take len (drop offset data)))"

definition addSignature :: "string \<Rightarrow> scanner \<Rightarrow> scanner" where
  "addSignature signature s = s\<lparr>vs_virusSignatures := map_put signature () (vs_virusSignatures s)\<rparr>"

definition addSignatures :: "string list \<Rightarrow> scanner \<Rightarrow> scanner" where
  "addSignatures signatures s = s\<lparr>vs_virusSignatures := inserts signatures (vs_virusSignatures s)\<rparr>"

definition removeSignature :: "string \<Rightarrow> scanner \<Rightarrow> scanner" where
  "removeSignature signature s = s\<lparr>vs_virusSignatures := map_erase signature (vs_virusSignatures s)\<rparr>"

definition isSignatureKnown :: "string \<Rightarrow> scanner \<Rightarrow> bool" where
  "isSignatureKnown signature s = (map_of (vs_virusSignatures s) signature \<noteq> None)"

definition clearSignatures :: "scanner \<Rightarrow> scanner" where
  "clearSignatures s = loadDefaultSignatures (s\<lparr>vs_virusSignatures := []\<rparr>)"

definition getSignatureCount :: "scanner \<Rightarrow> nat" where
  "getSignatureCount s = length (vs_virusSignatures s)"

definition window_signatures :: "string \<Rightarrow> string list" where
  "window_signatures data = map (\<lambda>i. computeSignature data i 32) [0..<length data + 1 - 32]"

definition scanData :: "string \<Rightarrow> scanner \<Rightarrow> bool \<times> string list" where
  "scanData data s =
     (let detected = filter (\<lambda>p. str_contains p data) (map fst (vs_virusSignatures s)) @
            filter (\<lambda>sig. isSignatureKnown sig s) (window_signatures data) @
            map (\<lambda>p. ''heuristic:'' @ p) (filter (\<lambda>p. str_contains p data) (map fst (vs_heuristicPatterns s)))
      in (detected = [], detected))"

text \<open>the file is not opened\<close>

definition scanFile :: "string \<Rightarrow> bool" where
  "scanFile filename = True"

section \<open>File names\<close>

record sanitizer =
  fs_blockedExtensions :: "string list"
  fs_allowedExtensions :: "string list"
  fs_maxFileSize :: nat

definition fs_new :: sanitizer where
  "fs_new = \<lparr>fs_blockedExtensions = [''.exe'', ''.dll'', ''.so'', ''.dylib'', ''.sh'', ''.bat'', ''.cmd'', ''.ps1'', ''.vbs'', ''.js'', ''.jar''],
     fs_allowedExtensions = [''.txt'', ''.json'', ''.xml'', ''.csv'', ''.log'', ''.dat'', ''.bin''], fs_maxFileSize = 10485760\<rparr>"

definition isSafeExtension :: "string \<Rightarrow> sanitizer \<Rightarrow> bool" where
  "isSafeExtension filename s =
     list_all (\<lambda>ext. \<not> (length ext \<le> length filename \<and> drop (length filename - length ext) filename = ext)) (fs_blockedExtensions s)"

definition isSafeSize :: "nat \<Rightarrow> sanitizer \<Rightarrow> bool" where
  "isSafeSize fileSize s \<longleftrightarrow> fileSize \<le> fs_maxFileSize s"

definition safe_char :: "char \<Rightarrow> bool" where
  "safe_char c \<longleftrightarrow> (let n = (of_char c :: nat) in (97 \<le> n \<and> n \<le> 122) \<or> (65 \<le> n \<and> n \<le> 90) \<or> (48 \<le> n \<and> n \<le> 57)
     \<or> c = CHR ''.'' \<or> c = CHR ''-'' \<or> c = CHR ''_'')"

definition sanitizeFilename :: "string \<Rightarrow> string" where
  "sanitizeFilename filename = map (\<lambda>c. if safe_char c then c else CHR ''_'') filename"

definition malicious_patterns :: "string list" where
  "malicious_patterns = [''../'', ''..'' @ [CHR 0x5C], ''~'', ''eval'', ''exec'', ''system'', ''popen'', ''base64_decode'', ''gzinflate'', ''str_rot13'',
     ''assert'', ''create_function'', ''call_user_func'', ''preg_replace'']"

definition containsMaliciousPatterns :: "string \<Rightarrow> bool" where
  "containsMaliciousPatterns data = list_ex (\<lambda>p. str_contains p data) malicious_patterns"

section \<open>What the scanner finds\<close>

lemma inserts_ok: "map_ok m \<Longrightarrow> map_ok (inserts xs m) \<and> fst ` set (inserts xs m) = fst ` set m \<union> set xs"
proof (induction xs arbitrary: m)
  case (Cons x xs)
  have "fst ` set (map_put x () m) = insert x (fst ` set m)"
    using Cons.prems by (metis dom_map_of_conv_image_fst dom_fun_upd map_of_put option.distinct(1))
  then show ?case using Cons.IH [of "map_put x () m"] Cons.prems by (simp add: inserts_def)
qed (simp add: inserts_def)

lemma vs_new_sets:
  "fst ` set (vs_virusSignatures vs_new) = set default_signatures"
  "fst ` set (vs_heuristicPatterns vs_new) = set default_patterns"
  using inserts_ok [of "[]" default_signatures] inserts_ok [of "[]" default_patterns]
  by (simp_all add: vs_new_def loadDefaultSignatures_def)

lemma str_contains_sub: "str_contains p s \<longleftrightarrow> (\<exists>a b. s = a @ p @ b)"
proof (induction p s rule: str_contains.induct)
  case (2 p c s)
  have "take (length p) (c # s) = p \<longleftrightarrow> (\<exists>b. c # s = p @ b)"
    by (metis append_eq_conv_conj append_take_drop_id)
  moreover have "(\<exists>a b. c # s = a @ p @ b) \<longleftrightarrow> (\<exists>b. c # s = p @ b) \<or> (\<exists>a b. s = a @ p @ b)"
    by (auto simp: Cons_eq_append_conv)
  ultimately show ?case using 2 by simp
qed auto

lemma known_iff: "isSignatureKnown sig s \<longleftrightarrow> sig \<in> fst ` set (vs_virusSignatures s)"
  by (simp add: isSignatureKnown_def map_of_eq_None_iff)

lemma window_signatures_iff:
  "sig \<in> set (window_signatures data) \<longleftrightarrow> (\<exists>a w b. data = a @ w @ b \<and> length w = 32 \<and> sig = sha1 w)"
proof
  assume "sig \<in> set (window_signatures data)"
  then obtain i where j: "i < length data + 1 - 32" "sig = computeSignature data i 32"
    unfolding window_signatures_def set_map set_upt by auto
  have i: "i + 32 \<le> length data" using j(1) by linarith
  then have "sig = sha1 (take 32 (drop i data))" using j(2) by (simp add: computeSignature_def)
  have "data = take i data @ take 32 (drop i data) @ drop 32 (drop i data)" by (simp only: append_take_drop_id)
  moreover have "length (take 32 (drop i data)) = 32" using i by simp
  ultimately show "\<exists>a w b. data = a @ w @ b \<and> length w = 32 \<and> sig = sha1 w"
    using \<open>sig = sha1 (take 32 (drop i data))\<close> by blast
next
  assume "\<exists>a w b. data = a @ w @ b \<and> length w = 32 \<and> sig = sha1 w"
  then obtain a w b where w: "data = a @ w @ b" "length w = 32" "sig = sha1 w" by blast
  then have "computeSignature data (length a) 32 = sig" "length a < length data + 1 - 32" by (simp_all add: computeSignature_def)
  then show "sig \<in> set (window_signatures data)" unfolding window_signatures_def by force
qed

lemma scanData_clean:
  "fst (scanData data s) \<longleftrightarrow>
     (\<forall>p\<in>fst ` set (vs_virusSignatures s) \<union> fst ` set (vs_heuristicPatterns s). \<nexists>a b. data = a @ p @ b) \<and>
     (\<forall>a w b. data = a @ w @ b \<longrightarrow> length w = 32 \<longrightarrow> sha1 w \<notin> fst ` set (vs_virusSignatures s))"
proof -
  have "fst (scanData data s) \<longleftrightarrow>
      (\<forall>p\<in>fst ` set (vs_virusSignatures s). \<not> str_contains p data) \<and>
      (\<forall>sig\<in>set (window_signatures data). \<not> isSignatureKnown sig s) \<and>
      (\<forall>p\<in>fst ` set (vs_heuristicPatterns s). \<not> str_contains p data)"
    unfolding scanData_def Let_def fst_conv append_is_Nil_conv filter_empty_conv map_is_Nil_conv set_map by blast
  moreover have "(\<forall>sig\<in>set (window_signatures data). \<not> isSignatureKnown sig s) \<longleftrightarrow>
      (\<forall>a w b. data = a @ w @ b \<longrightarrow> length w = 32 \<longrightarrow> sha1 w \<notin> fst ` set (vs_virusSignatures s))"
    unfolding known_iff Ball_def window_signatures_iff by metis
  ultimately show ?thesis unfolding str_contains_sub ball_Un by argo
qed

lemma short_clean:
  assumes "length d < 32" "CHR ''('' \<notin> set d"
  shows "fst (scanData d vs_new)"
proof -
  have "\<forall>p\<in>set default_signatures. 32 \<le> length p" by (simp add: default_signatures_def)
  moreover have "\<forall>p\<in>set default_patterns. CHR ''('' \<in> set p" by (simp add: default_patterns_def)
  ultimately have "\<forall>p\<in>set default_signatures \<union> set default_patterns. \<nexists>a b. d = a @ p @ b"
    using assms by fastforce
  moreover have "\<nexists>a w b. d = a @ w @ b \<and> length w = 32" using assms(1) by auto
  ultimately show ?thesis unfolding scanData_clean vs_new_sets by blast
qed

text \<open>
  Scanning reports data as clean exactly when it contains no signature and no pattern as a part and no
  window of 32 bytes hashes to a signature. The texts whose hashes are the default signatures are shorter than a
  window: a new scanner reports each of them as clean.
\<close>

theorem scanner_finds:
  "(fst (scanData data s) \<longleftrightarrow>
     (\<forall>p\<in>fst ` set (vs_virusSignatures s) \<union> fst ` set (vs_heuristicPatterns s). \<nexists>a b. data = a @ p @ b) \<and>
     (\<forall>a w b. data = a @ w @ b \<longrightarrow> length w = 32 \<longrightarrow> sha1 w \<notin> fst ` set (vs_virusSignatures s)))
   \<and> fst (scanData ''malware_pattern_1'' vs_new) \<and> fst (scanData ''malware_pattern_2'' vs_new)
   \<and> fst (scanData ''trojan_pattern'' vs_new) \<and> fst (scanData ''ransomware_pattern'' vs_new)"
  by (intro conjI scanData_clean short_clean) simp_all

text \<open>
  A sanitized name has the same length and only letters, digits, dots, dashes and underscores, a second
  pass changes nothing, and no directory separator is left; blocked extensions are compared with their case.
\<close>

lemma sanitized_name:
  "length (sanitizeFilename f) = length f" "\<forall>c\<in>set (sanitizeFilename f). safe_char c"
  "sanitizeFilename (sanitizeFilename f) = sanitizeFilename f" "CHR ''/'' \<notin> set (sanitizeFilename f)"
proof -
  show safe: "\<forall>c\<in>set (sanitizeFilename f). safe_char c" by (auto simp: sanitizeFilename_def safe_char_def)
  have "\<not> safe_char (CHR ''/'')" by (simp add: safe_char_def)
  then show "CHR ''/'' \<notin> set (sanitizeFilename f)" using safe by blast
  show "sanitizeFilename (sanitizeFilename f) = sanitizeFilename f"
    using safe unfolding sanitizeFilename_def [of "sanitizeFilename f"] by (simp add: map_idI)
qed (simp add: sanitizeFilename_def)

lemma extension_case: "isSafeExtension ''run.EXE'' fs_new" "\<not> isSafeExtension ''run.exe'' fs_new"
  by (simp_all add: isSafeExtension_def fs_new_def)

end
