(* ===== verification/P2p_Pools.thy ===== *)
theory P2p_Pools
  imports Bank_Prelude
begin

text \<open>
  The pools of buffers and of memory blocks (\<open>utils/buffer_pool.cpp\<close>), over a common interface
  of what hands out a fixed number of blocks (\<open>allocator\<close>). A pointer to a block is its index,
  or null for a block without bytes, of which \<open>data()\<close> gives no address. Writing through a
  pointer is an operation of the model.
\<close>

section \<open>Handing out blocks\<close>

locale allocator =
  fixes ok :: "'s \<Rightarrow> bool" and held :: "'s \<Rightarrow> nat set" and size_of :: "'s \<Rightarrow> nat"
    and get :: "'s \<Rightarrow> nat option \<times> 's" and put :: "nat \<Rightarrow> 's \<Rightarrow> 's"
  assumes held_below: "ok s \<Longrightarrow> held s \<subseteq> {..<size_of s}"
    and get_ok: "ok s \<Longrightarrow> ok (snd (get s)) \<and> size_of (snd (get s)) = size_of s"
    and get_some: "ok s \<Longrightarrow> held s \<noteq> {..<size_of s} \<Longrightarrow>
      \<exists>i. fst (get s) = Some i \<and> i \<notin> held s \<and> held (snd (get s)) = insert i (held s)"
    and get_none: "ok s \<Longrightarrow> held s = {..<size_of s} \<Longrightarrow> get s = (None, s)"
    and put_ok: "ok s \<Longrightarrow> ok (put i s) \<and> size_of (put i s) = size_of s"
    and put_held: "ok s \<Longrightarrow> held (put i s) = held s - {i}"
begin

fun gets :: "nat \<Rightarrow> 's \<Rightarrow> nat option list \<times> 's" where
  "gets 0 s = ([], s)"
| "gets (Suc n) s = (let (r, s) = get s; (rs, s) = gets n s in (r # rs, s))"

lemma gets_distinct:
  "ok s \<Longrightarrow> n + card (held s) \<le> size_of s \<Longrightarrow>
    \<exists>is. fst (gets n s) = map Some is \<and> distinct is \<and> set is \<inter> held s = {} \<and> ok (snd (gets n s)) \<and>
      held (snd (gets n s)) = held s \<union> set is \<and> size_of (snd (gets n s)) = size_of s"
proof (induction n arbitrary: s)
  case (Suc n)
  have fin: "finite (held s)" using held_below [OF Suc.prems(1)] finite_subset by blast
  have "card (held s) \<noteq> size_of s" using Suc.prems(2) by linarith
  then have "held s \<noteq> {..<size_of s}" by (metis card_lessThan)
  then obtain i where i: "fst (get s) = Some i" "i \<notin> held s" "held (snd (get s)) = insert i (held s)"
    using get_some [OF Suc.prems(1)] by blast
  have "n + card (held (snd (get s))) \<le> size_of (snd (get s))" using Suc.prems i fin get_ok [OF Suc.prems(1)] by simp
  then obtain "is" where rest: "fst (gets n (snd (get s))) = map Some is" "distinct is" "set is \<inter> held (snd (get s)) = {}"
      "ok (snd (gets n (snd (get s))))" "held (snd (gets n (snd (get s)))) = held (snd (get s)) \<union> set is"
      "size_of (snd (gets n (snd (get s)))) = size_of (snd (get s))"
    using Suc.IH get_ok [OF Suc.prems(1)] by blast
  have "fst (gets (Suc n) s) = map Some (i # is)" "snd (gets (Suc n) s) = snd (gets n (snd (get s)))"
    using i(1) rest(1) by (simp_all add: case_prod_unfold Let_def)
  then show ?case using rest i get_ok [OF Suc.prems(1)] by (intro exI [of _ "i # is"]) auto
qed simp

text \<open>as many blocks as there are, all different, and then none\<close>

lemma exhausted:
  assumes "ok s" "held s = {}"
  shows "\<exists>is s'. gets (size_of s) s = (map Some is, s') \<and> distinct is \<and> set is = {..<size_of s} \<and> get s' = (None, s')"
proof -
  obtain "is" where *: "fst (gets (size_of s) s) = map Some is" "distinct is" "ok (snd (gets (size_of s) s))"
      "held (snd (gets (size_of s) s)) = set is" "size_of (snd (gets (size_of s) s)) = size_of s"
    using gets_distinct [OF assms(1), of "size_of s"] assms(2) by auto
  have "length is = size_of s"
  proof -
    have "length (fst (gets n t)) = n" for n t by (induction n arbitrary: t) (simp_all add: case_prod_unfold Let_def)
    then show ?thesis using *(1) by (metis length_map)
  qed
  moreover have "set is \<subseteq> {..<size_of s}" using held_below [OF *(3)] * by simp
  ultimately have "set is = {..<size_of s}" using *(2) by (metis card_lessThan card_subset_eq distinct_card finite_lessThan)
  then have "get (snd (gets (size_of s) s)) = (None, snd (gets (size_of s) s))" using get_none [OF *(3)] * by simp
  moreover have "gets (size_of s) s = (map Some is, snd (gets (size_of s) s))" by (simp add: prod_eq_iff *(1))
  ultimately show ?thesis using *(2) \<open>set is = {..<size_of s}\<close> by blast
qed

end

section \<open>The pool of buffers\<close>

text \<open>\<open>data()\<close> of the i-th vector\<close>

definition data_ptr :: "bytes \<Rightarrow> nat \<Rightarrow> nat option" where
  "data_ptr d i = (if d = [] then None else Some i)"

lemma data_ptr_simps [simp]: "d \<noteq> [] \<Longrightarrow> data_ptr d i = Some i" "data_ptr [] i = None" "data_ptr d i = Some j \<longleftrightarrow> d \<noteq> [] \<and> i = j"
  by (simp_all add: data_ptr_def)

lemma find_upt_eq: "List.find (\<lambda>i. i = j \<and> Q i) [0..<n] = (if j < n \<and> Q j then Some j else None)"
proof (cases "j < n \<and> Q j")
  case True
  then have "List.find (\<lambda>i. i = j \<and> Q i) [0..<n] = Some j" unfolding find_Some_iff by (intro exI [of _ j]) simp
  then show ?thesis using True by simp
next
  case False
  then have "List.find (\<lambda>i. i = j \<and> Q i) [0..<n] = None" by (auto simp: find_None_iff)
  then show ?thesis using False by simp
qed

record buffer =
  bf_data :: bytes
  bf_size :: nat
  bf_inUse :: bool

record buffer_pool =
  bp_buffers :: "buffer list"
  bp_available :: "nat list"
  bp_bufferSize :: nat
  bp_maxBuffers :: nat

definition fresh_buffers :: "nat \<Rightarrow> nat \<Rightarrow> buffer list" where
  "fresh_buffers sz n = replicate n \<lparr>bf_data = replicate sz 0, bf_size = sz, bf_inUse = False\<rparr>"

definition bp_new :: "nat \<Rightarrow> nat \<Rightarrow> buffer_pool" where
  "bp_new sz n = \<lparr>bp_buffers = fresh_buffers sz n, bp_available = [0..<n], bp_bufferSize = sz, bp_maxBuffers = n\<rparr>"

definition bp_acquire :: "buffer_pool \<Rightarrow> nat option \<times> buffer_pool" where
  "bp_acquire p =
     (case bp_available p of
        [] \<Rightarrow> (None, p)
      | idx # rest \<Rightarrow>
          (data_ptr (bf_data (bp_buffers p ! idx)) idx,
           p\<lparr>bp_available := rest, bp_buffers := (bp_buffers p)[idx := (bp_buffers p ! idx)\<lparr>bf_inUse := True\<rparr>]\<rparr>))"

definition bp_release :: "nat option \<Rightarrow> buffer_pool \<Rightarrow> buffer_pool" where
  "bp_release ptr p =
     (case List.find (\<lambda>i. bf_inUse (bp_buffers p ! i) \<and> data_ptr (bf_data (bp_buffers p ! i)) i = ptr) [0..<length (bp_buffers p)] of
        None \<Rightarrow> p
      | Some i \<Rightarrow> p\<lparr>bp_buffers := (bp_buffers p)[i := (bp_buffers p ! i)\<lparr>bf_inUse := False\<rparr>], bp_available := bp_available p @ [i]\<rparr>)"

definition bp_getAvailableCount :: "buffer_pool \<Rightarrow> nat" where
  "bp_getAvailableCount p = length (bp_available p)"

definition bp_getUsedCount :: "buffer_pool \<Rightarrow> nat" where
  "bp_getUsedCount p = length (filter bf_inUse (bp_buffers p))"

definition bp_resize :: "nat \<Rightarrow> nat \<Rightarrow> buffer_pool \<Rightarrow> buffer_pool" where
  "bp_resize sz n p = p\<lparr>bp_bufferSize := sz, bp_maxBuffers := n, bp_buffers := fresh_buffers sz n, bp_available := [0..<n]\<rparr>"

definition bp_clear :: "buffer_pool \<Rightarrow> buffer_pool" where
  "bp_clear p = p\<lparr>bp_buffers := map (\<lambda>b. b\<lparr>bf_inUse := False, bf_data := replicate (length (bf_data b)) 0\<rparr>) (bp_buffers p),
     bp_available := [0..<length (bp_buffers p)]\<rparr>"

text \<open>a holder writes one byte\<close>

definition bp_write :: "nat \<Rightarrow> nat \<Rightarrow> u8 \<Rightarrow> buffer_pool \<Rightarrow> buffer_pool" where
  "bp_write ptr k x p = p\<lparr>bp_buffers := (bp_buffers p)[ptr := (bp_buffers p ! ptr)\<lparr>bf_data := (bf_data (bp_buffers p ! ptr))[k := x]\<rparr>]\<rparr>"

definition bp_held :: "buffer_pool \<Rightarrow> nat set" where
  "bp_held p = {i. i < length (bp_buffers p) \<and> bf_inUse (bp_buffers p ! i)}"

definition bp_ok :: "buffer_pool \<Rightarrow> bool" where
  "bp_ok p \<longleftrightarrow> distinct (bp_available p) \<and> length (bp_buffers p) = bp_maxBuffers p
     \<and> (\<forall>i. i \<in> set (bp_available p) \<longleftrightarrow> i < length (bp_buffers p) \<and> \<not> bf_inUse (bp_buffers p ! i))
     \<and> (\<forall>i<length (bp_buffers p). length (bf_data (bp_buffers p ! i)) = bp_bufferSize p)"

inductive bp_reach :: "nat \<Rightarrow> nat \<Rightarrow> buffer_pool \<Rightarrow> bool" for sz n where
  "bp_reach sz n (bp_new sz n)"
| "bp_reach sz n p \<Longrightarrow> bp_reach sz n (snd (bp_acquire p))"
| "bp_reach sz n p \<Longrightarrow> bp_reach sz n (bp_release i p)"
| "bp_reach sz n p \<Longrightarrow> bp_reach sz n (bp_resize sz' n' p)"
| "bp_reach sz n p \<Longrightarrow> bp_reach sz n (bp_clear p)"
| "bp_reach sz n p \<Longrightarrow> bp_reach sz n (bp_write i k x p)"

lemma bp_ok_new: "bp_ok (bp_new sz n)" "bp_ok (bp_resize sz n p)"
  by (auto simp: bp_ok_def bp_new_def bp_resize_def fresh_buffers_def)

lemma bp_ok_clear: "bp_ok p \<Longrightarrow> bp_ok (bp_clear p)"
  by (auto simp: bp_ok_def bp_clear_def)

lemma bp_ok_write: "bp_ok p \<Longrightarrow> bp_ok (bp_write i k x p)"
  unfolding bp_ok_def bp_write_def
  by (cases "i < length (bp_buffers p)") (auto simp: nth_list_update)

lemma bp_acquire_cons:
  "bp_available p = i # rest \<Longrightarrow>
    bp_acquire p = (data_ptr (bf_data (bp_buffers p ! i)) i, p\<lparr>bp_available := rest, bp_buffers := (bp_buffers p)[i := (bp_buffers p ! i)\<lparr>bf_inUse := True\<rparr>]\<rparr>)"
  by (simp add: bp_acquire_def)

lemma bp_ok_acquire: assumes "bp_ok p" shows "bp_ok (snd (bp_acquire p))"
proof (cases "bp_available p")
  case (Cons i rest)
  have "i < length (bp_buffers p)" "i \<notin> set rest" using assms Cons by (auto simp: bp_ok_def)
  then show ?thesis using assms Cons unfolding bp_ok_def bp_acquire_cons [OF Cons]
    by (auto simp: nth_list_update)
qed (simp add: bp_acquire_def assms)

lemma bp_release_cases:
  obtains "bp_release ptr p = p"
  | i where "i < length (bp_buffers p)" "bf_inUse (bp_buffers p ! i)" "bp_release ptr p =
      p\<lparr>bp_buffers := (bp_buffers p)[i := (bp_buffers p ! i)\<lparr>bf_inUse := False\<rparr>], bp_available := bp_available p @ [i]\<rparr>"
proof (cases "List.find (\<lambda>i. bf_inUse (bp_buffers p ! i) \<and> data_ptr (bf_data (bp_buffers p ! i)) i = ptr) [0..<length (bp_buffers p)]")
  case None
  then show thesis by (intro that(1)) (simp add: bp_release_def)
next
  case (Some i)
  then have "i < length (bp_buffers p)" "bf_inUse (bp_buffers p ! i)" by (auto simp: find_Some_iff)
  then show thesis using Some by (intro that(2)) (simp_all add: bp_release_def)
qed

lemma bp_ok_release: "bp_ok p \<Longrightarrow> bp_ok (bp_release ptr p)"
  by (cases rule: bp_release_cases [of ptr p]) (auto simp: bp_ok_def nth_list_update)

text \<open>with buffers that are not empty a pointer is that of one buffer\<close>

lemma bp_release_Some:
  assumes "bp_ok p" "0 < bp_bufferSize p"
  shows "bp_release (Some i) p = (if i \<in> bp_held p
    then p\<lparr>bp_buffers := (bp_buffers p)[i := (bp_buffers p ! i)\<lparr>bf_inUse := False\<rparr>], bp_available := bp_available p @ [i]\<rparr> else p)"
proof -
  have "List.find (\<lambda>j. bf_inUse (bp_buffers p ! j) \<and> data_ptr (bf_data (bp_buffers p ! j)) j = Some i) [0..<length (bp_buffers p)] =
      List.find (\<lambda>j. j = i \<and> bf_inUse (bp_buffers p ! j)) [0..<length (bp_buffers p)]"
    using assms by (intro find_cong) (fastforce simp: bp_ok_def)+
  then show ?thesis by (simp add: bp_release_def find_upt_eq bp_held_def)
qed

lemma bp_reach_ok: "bp_reach sz n p \<Longrightarrow> bp_ok p"
  by (induction rule: bp_reach.induct) (simp_all add: bp_ok_new bp_ok_clear bp_ok_write bp_ok_acquire bp_ok_release)

interpretation bufs: allocator "\<lambda>p. bp_ok p \<and> 0 < bp_bufferSize p" bp_held "\<lambda>p. length (bp_buffers p)" bp_acquire "\<lambda>i. bp_release (Some i)"
proof unfold_locales
  fix p
  assume "bp_ok p \<and> 0 < bp_bufferSize p"
  then have ok: "bp_ok p" and pos: "0 < bp_bufferSize p" by simp_all
  show "bp_held p \<subseteq> {..<length (bp_buffers p)}" by (auto simp: bp_held_def)
  show "(bp_ok (snd (bp_acquire p)) \<and> 0 < bp_bufferSize (snd (bp_acquire p))) \<and>
      length (bp_buffers (snd (bp_acquire p))) = length (bp_buffers p)"
    using bp_ok_acquire [OF ok] pos by (simp add: bp_acquire_def split: list.split)
  { assume "bp_held p \<noteq> {..<length (bp_buffers p)}"
    then obtain j where "j \<in> set (bp_available p)" using ok by (auto simp: bp_held_def bp_ok_def)
    then obtain i rest where av: "bp_available p = i # rest" by (cases "bp_available p") auto
    then have "i < length (bp_buffers p)" "\<not> bf_inUse (bp_buffers p ! i)" using ok by (auto simp: bp_ok_def)
    moreover from this have "bf_data (bp_buffers p ! i) \<noteq> []" using ok pos by (fastforce simp: bp_ok_def)
    ultimately show "\<exists>i. fst (bp_acquire p) = Some i \<and> i \<notin> bp_held p \<and> bp_held (snd (bp_acquire p)) = insert i (bp_held p)"
      by (auto simp: bp_acquire_cons [OF av] bp_held_def nth_list_update) }
  { assume "bp_held p = {..<length (bp_buffers p)}"
    then have "\<forall>i<length (bp_buffers p). i \<in> bp_held p" by blast
    then have "\<forall>i<length (bp_buffers p). bf_inUse (bp_buffers p ! i)" unfolding bp_held_def by simp
    then have "\<forall>i. i \<notin> set (bp_available p)" using ok unfolding bp_ok_def by blast
    then have "bp_available p = []" by (cases "bp_available p") auto
    then show "bp_acquire p = (None, p)" by (simp add: bp_acquire_def) }
  fix i
  show "(bp_ok (bp_release (Some i) p) \<and> 0 < bp_bufferSize (bp_release (Some i) p)) \<and>
      length (bp_buffers (bp_release (Some i) p)) = length (bp_buffers p)"
    using bp_ok_release [OF ok, of "Some i"] pos by (simp add: bp_release_Some [OF ok pos])
  show "bp_held (bp_release (Some i) p) = bp_held p - {i}"
    unfolding bp_release_Some [OF ok pos] by (auto simp: bp_held_def nth_list_update)
qed

lemma bp_counts: assumes "bp_ok p" shows "bp_getAvailableCount p + bp_getUsedCount p = bp_maxBuffers p"
proof -
  have "bp_getUsedCount p = card (bp_held p)"
    by (simp add: bp_getUsedCount_def length_filter_conv_card bp_held_def)
  moreover have "bp_getAvailableCount p = card (set (bp_available p))"
    using assms by (simp add: bp_getAvailableCount_def bp_ok_def distinct_card)
  moreover have "set (bp_available p) \<union> bp_held p = {..<bp_maxBuffers p}" "set (bp_available p) \<inter> bp_held p = {}"
    using assms by (auto simp: bp_ok_def bp_held_def)
  moreover have "finite (bp_held p)" by (simp add: bp_held_def)
  ultimately show ?thesis by (metis add.commute card_Un_disjoint card_lessThan finite_set)
qed

text \<open>
  After any calls: the counts of available and of used buffers add up to the size of the pool; if
  buffers have bytes, a request fails exactly when every buffer is in use, and otherwise gives one that was not in use
  and is in use then, all others as before; every buffer has the size set last.
\<close>

theorem buffer_pool_sound:
  assumes "bp_reach sz n p"
  shows "bp_getAvailableCount p + bp_getUsedCount p = bp_maxBuffers p
    \<and> (0 < bp_bufferSize p \<longrightarrow> (case fst (bp_acquire p) of
         None \<Rightarrow> \<forall>b\<in>set (bp_buffers p). bf_inUse b
       | Some i \<Rightarrow> i < bp_maxBuffers p \<and> i \<notin> bp_held p \<and> bp_held (snd (bp_acquire p)) = insert i (bp_held p)))
    \<and> (\<forall>b\<in>set (bp_buffers p). length (bf_data b) = bp_bufferSize p)"
proof -
  have ok: "bp_ok p" using assms by (rule bp_reach_ok)
  have "case fst (bp_acquire p) of
         None \<Rightarrow> \<forall>b\<in>set (bp_buffers p). bf_inUse b
       | Some i \<Rightarrow> i < bp_maxBuffers p \<and> i \<notin> bp_held p \<and> bp_held (snd (bp_acquire p)) = insert i (bp_held p)"
    if pos: "0 < bp_bufferSize p"
  proof (cases "bp_held p = {..<length (bp_buffers p)}")
    case True
    then have "\<forall>i<length (bp_buffers p). i \<in> bp_held p" by blast
    then have "\<forall>b\<in>set (bp_buffers p). bf_inUse b" unfolding bp_held_def by (simp add: all_set_conv_all_nth)
    then show ?thesis using bufs.get_none [OF conjI [OF ok pos] True] by simp
  next
    case False
    then obtain i where i: "fst (bp_acquire p) = Some i" "i \<notin> bp_held p" "bp_held (snd (bp_acquire p)) = insert i (bp_held p)"
      using bufs.get_some [OF conjI [OF ok pos]] by blast
    then have "i \<in> bp_held (snd (bp_acquire p))" by simp
    then have "i < length (bp_buffers (snd (bp_acquire p)))" by (simp add: bp_held_def)
    then show ?thesis using i bufs.get_ok [OF conjI [OF ok pos]] ok by (simp add: bp_ok_def)
  qed
  moreover have "\<forall>b\<in>set (bp_buffers p). length (bf_data b) = bp_bufferSize p"
    using ok by (auto simp: bp_ok_def in_set_conv_nth)
  ultimately show ?thesis using bp_counts [OF ok] by blast
qed

theorem buffer_pool_sound_witness:
  "bp_getAvailableCount (snd (bp_acquire (bp_new 4 2))) + bp_getUsedCount (snd (bp_acquire (bp_new 4 2))) = 2"
proof -
  have "bp_reach 4 2 (snd (bp_acquire (bp_new 4 2)))" by (intro bp_reach.intros)
  moreover have "bp_maxBuffers (snd (bp_acquire (bp_new 4 2))) = 2" by (simp add: bp_acquire_def bp_new_def split: list.split)
  ultimately show ?thesis using buffer_pool_sound [of 4 2 "snd (bp_acquire (bp_new 4 2))"] by simp
qed

text \<open>\<open>clear\<close> takes the buffers back from their holders: the next request gives a held one again\<close>

lemma clear_shares:
  "0 < sz \<Longrightarrow> fst (bp_acquire (bp_new sz 1)) = Some 0" "0 < sz \<Longrightarrow> fst (bp_acquire (bp_clear (snd (bp_acquire (bp_new sz 1))))) = Some 0"
  by (simp_all add: bp_acquire_def bp_new_def bp_clear_def fresh_buffers_def)

section \<open>The pool of memory blocks\<close>

record memory_pool =
  mp_pools :: "bytes list"
  mp_used :: "bool list"
  mp_blockSize :: nat
  mp_blockCount :: nat

definition mp_new :: "nat \<Rightarrow> nat \<Rightarrow> memory_pool" where
  "mp_new sz n = \<lparr>mp_pools = replicate n (replicate sz 0), mp_used = replicate n False, mp_blockSize = sz, mp_blockCount = n\<rparr>"

definition mp_allocate :: "memory_pool \<Rightarrow> nat option \<times> memory_pool" where
  "mp_allocate p =
     (case List.find (\<lambda>i. \<not> mp_used p ! i) [0..<mp_blockCount p] of
        None \<Rightarrow> (None, p)
      | Some i \<Rightarrow> (data_ptr (mp_pools p ! i) i, p\<lparr>mp_used := (mp_used p)[i := True]\<rparr>))"

definition mp_deallocate :: "nat option \<Rightarrow> memory_pool \<Rightarrow> memory_pool" where
  "mp_deallocate ptr p =
     (case List.find (\<lambda>i. data_ptr (mp_pools p ! i) i = ptr) [0..<mp_blockCount p] of
        None \<Rightarrow> p
      | Some i \<Rightarrow> p\<lparr>mp_used := (mp_used p)[i := False], mp_pools := (mp_pools p)[i := replicate (length (mp_pools p ! i)) 0]\<rparr>)"

definition mp_getFreeCount :: "memory_pool \<Rightarrow> nat" where
  "mp_getFreeCount p = length (filter Not (mp_used p))"

definition mp_getUsedCount :: "memory_pool \<Rightarrow> nat" where
  "mp_getUsedCount p = length (filter (\<lambda>u. u) (mp_used p))"

definition mp_write :: "nat \<Rightarrow> nat \<Rightarrow> u8 \<Rightarrow> memory_pool \<Rightarrow> memory_pool" where
  "mp_write ptr k x p = p\<lparr>mp_pools := (mp_pools p)[ptr := (mp_pools p ! ptr)[k := x]]\<rparr>"

definition mp_held :: "memory_pool \<Rightarrow> nat set" where
  "mp_held p = {i. i < mp_blockCount p \<and> mp_used p ! i}"

definition mp_ok :: "memory_pool \<Rightarrow> bool" where
  "mp_ok p \<longleftrightarrow> length (mp_pools p) = mp_blockCount p \<and> length (mp_used p) = mp_blockCount p
     \<and> (\<forall>i<mp_blockCount p. length (mp_pools p ! i) = mp_blockSize p \<and> (mp_used p ! i \<or> mp_pools p ! i = replicate (mp_blockSize p) 0))"

text \<open>only holders write\<close>

inductive mp_reach :: "nat \<Rightarrow> nat \<Rightarrow> memory_pool \<Rightarrow> bool" for sz n where
  "mp_reach sz n (mp_new sz n)"
| "mp_reach sz n p \<Longrightarrow> mp_reach sz n (snd (mp_allocate p))"
| "mp_reach sz n p \<Longrightarrow> mp_reach sz n (mp_deallocate i p)"
| "mp_reach sz n p \<Longrightarrow> i \<in> mp_held p \<Longrightarrow> mp_reach sz n (mp_write i k x p)"

lemma mp_ok_allocate: "mp_ok p \<Longrightarrow> mp_ok (snd (mp_allocate p))"
  unfolding mp_ok_def mp_allocate_def by (auto simp: nth_list_update find_Some_iff split: option.split)

lemma mp_ok_deallocate: assumes "mp_ok p" shows "mp_ok (mp_deallocate ptr p)"
proof (cases "List.find (\<lambda>i. data_ptr (mp_pools p ! i) i = ptr) [0..<mp_blockCount p]")
  case None
  then show ?thesis using assms by (simp add: mp_deallocate_def)
next
  case (Some i)
  then have "i < mp_blockCount p" by (auto simp: find_Some_iff)
  then have "mp_ok (p\<lparr>mp_used := (mp_used p)[i := False], mp_pools := (mp_pools p)[i := replicate (length (mp_pools p ! i)) 0]\<rparr>)"
    using assms by (auto simp: mp_ok_def nth_list_update)
  then show ?thesis using Some by (simp add: mp_deallocate_def)
qed

lemma mp_deallocate_Some:
  assumes "mp_ok p" "0 < mp_blockSize p"
  shows "mp_deallocate (Some i) p = (if i < mp_blockCount p
    then p\<lparr>mp_used := (mp_used p)[i := False], mp_pools := (mp_pools p)[i := replicate (length (mp_pools p ! i)) 0]\<rparr> else p)"
proof -
  have "List.find (\<lambda>j. data_ptr (mp_pools p ! j) j = Some i) [0..<mp_blockCount p] = List.find (\<lambda>j. j = i \<and> True) [0..<mp_blockCount p]"
    using assms by (intro find_cong) (fastforce simp: mp_ok_def)+
  then show ?thesis by (simp only: mp_deallocate_def find_upt_eq) simp
qed

lemma mp_ok_write: "mp_ok p \<Longrightarrow> i \<in> mp_held p \<Longrightarrow> mp_ok (mp_write i k x p)"
  by (auto simp: mp_ok_def mp_write_def mp_held_def nth_list_update)

lemma mp_sizes [simp]:
  "mp_blockCount (snd (mp_allocate p)) = mp_blockCount p" "mp_blockCount (mp_deallocate ptr p) = mp_blockCount p"
  "mp_blockSize (snd (mp_allocate p)) = mp_blockSize p" "mp_blockSize (mp_deallocate ptr p) = mp_blockSize p"
  "mp_blockCount (mp_write i k x p) = mp_blockCount p" "mp_blockSize (mp_write i k x p) = mp_blockSize p"
  "mp_pools (snd (mp_allocate p)) = mp_pools p"
  by (simp_all add: mp_allocate_def mp_deallocate_def mp_write_def split: option.split)

lemma mp_reach_ok: "mp_reach sz n p \<Longrightarrow> mp_ok p \<and> mp_blockCount p = n \<and> mp_blockSize p = sz"
proof (induction rule: mp_reach.induct)
  case 1
  show ?case by (simp add: mp_ok_def mp_new_def)
qed (simp_all add: mp_ok_allocate mp_ok_deallocate mp_ok_write)

interpretation mem: allocator "\<lambda>p. mp_ok p \<and> 0 < mp_blockSize p" mp_held mp_blockCount mp_allocate "\<lambda>i. mp_deallocate (Some i)"
proof unfold_locales
  fix p
  assume "mp_ok p \<and> 0 < mp_blockSize p"
  then have ok: "mp_ok p" and pos: "0 < mp_blockSize p" by simp_all
  show "mp_held p \<subseteq> {..<mp_blockCount p}" by (auto simp: mp_held_def)
  show "(mp_ok (snd (mp_allocate p)) \<and> 0 < mp_blockSize (snd (mp_allocate p))) \<and> mp_blockCount (snd (mp_allocate p)) = mp_blockCount p"
    by (simp add: mp_ok_allocate ok pos)
  { assume "mp_held p \<noteq> {..<mp_blockCount p}"
    then obtain i where i: "List.find (\<lambda>i. \<not> mp_used p ! i) [0..<mp_blockCount p] = Some i"
      by (cases "List.find (\<lambda>i. \<not> mp_used p ! i) [0..<mp_blockCount p]") (auto simp: mp_held_def find_None_iff)
    then have "i < mp_blockCount p" "\<not> mp_used p ! i" by (auto simp: find_Some_iff)
    moreover from this have "mp_pools p ! i \<noteq> []" using ok pos by (fastforce simp: mp_ok_def)
    ultimately show "\<exists>i. fst (mp_allocate p) = Some i \<and> i \<notin> mp_held p \<and> mp_held (snd (mp_allocate p)) = insert i (mp_held p)"
      using ok i by (auto simp: mp_allocate_def mp_held_def mp_ok_def nth_list_update) }
  { assume "mp_held p = {..<mp_blockCount p}"
    then have "List.find (\<lambda>i. \<not> mp_used p ! i) [0..<mp_blockCount p] = None" by (auto simp: find_None_iff mp_held_def)
    then show "mp_allocate p = (None, p)" by (simp add: mp_allocate_def) }
  fix i
  show "(mp_ok (mp_deallocate (Some i) p) \<and> 0 < mp_blockSize (mp_deallocate (Some i) p)) \<and>
      mp_blockCount (mp_deallocate (Some i) p) = mp_blockCount p"
    by (simp add: mp_ok_deallocate ok pos)
  show "mp_held (mp_deallocate (Some i) p) = mp_held p - {i}"
    using ok unfolding mp_deallocate_Some [OF ok pos] by (auto simp: mp_held_def mp_ok_def nth_list_update)
qed

text \<open>
  C39: As long as only holders write, a block that is handed out (the pointer is not null, so the blocks have bytes)
  holds nothing but zeros, was not in use before, and has the size of the pool's blocks; the counts add up; a new pool gives each of its blocks once, then none.
\<close>

theorem memory_pool_zeroed:
  assumes "mp_reach sz n p" "fst (mp_allocate p) = Some i"
  shows "i < n \<and> i \<notin> mp_held p \<and> mp_pools (snd (mp_allocate p)) ! i = replicate sz 0 \<and> mp_getFreeCount p + mp_getUsedCount p = n
    \<and> (\<exists>is s'. mem.gets n (mp_new sz n) = (map Some is, s') \<and> distinct is \<and> set is = {..<n} \<and> mp_allocate s' = (None, s'))"
proof -
  have ok: "mp_ok p" "mp_blockCount p = n" "mp_blockSize p = sz" using mp_reach_ok [OF assms(1)] by auto
  have "List.find (\<lambda>i. \<not> mp_used p ! i) [0..<mp_blockCount p] = Some i" and bytes: "mp_pools p ! i \<noteq> []"
    using assms(2) by (simp_all add: mp_allocate_def split: option.splits)
  then have i: "i < n" "\<not> mp_used p ! i" using ok by (auto simp: find_Some_iff)
  have "length (mp_pools p ! i) = sz" using ok i(1) by (simp add: mp_ok_def)
  then have sz: "0 < sz" using bytes by auto
  have "mp_getFreeCount p + mp_getUsedCount p = length (mp_used p)"
    unfolding mp_getFreeCount_def mp_getUsedCount_def using sum_length_filter_compl [of "\<lambda>u. u" "mp_used p"] by (simp add: comp_def)
  moreover have "mp_ok (mp_new sz n) \<and> 0 < mp_blockSize (mp_new sz n)" "mp_held (mp_new sz n) = {}" "mp_blockCount (mp_new sz n) = n"
    using sz by (auto simp: mp_ok_def mp_held_def mp_new_def)
  then have "\<exists>is s'. mem.gets n (mp_new sz n) = (map Some is, s') \<and> distinct is \<and> set is = {..<n} \<and> mp_allocate s' = (None, s')"
    using mem.exhausted [of "mp_new sz n"] by simp
  ultimately show ?thesis using i ok by (auto simp: mp_held_def mp_ok_def)
qed

theorem memory_pool_zeroed_witness:
  "mp_pools (snd (mp_allocate (mp_deallocate (Some 0) (mp_write 0 1 7 (snd (mp_allocate (mp_new 2 1))))))) ! 0 = replicate 2 0"
proof -
  let ?p = "mp_deallocate (Some 0) (mp_write 0 1 7 (snd (mp_allocate (mp_new 2 1))))"
  have "mp_reach 2 1 ?p" by (intro mp_reach.intros) (simp add: mp_held_def mp_allocate_def mp_new_def)
  moreover have "fst (mp_allocate ?p) = Some 0"
    by (simp add: mp_allocate_def mp_deallocate_def mp_write_def mp_new_def)
  ultimately show ?thesis using memory_pool_zeroed by blast
qed

end
