(* ===== verification/P2p_Monitor.thy ===== *)
theory P2p_Monitor
  imports P2p_Prelude
begin

text \<open>
  Timers (\<open>utils/timer.cpp\<close>, the class \<open>TimerManager\<close>), metrics (\<open>monitoring/metrics.cpp\<close>) and the states of
  health (\<open>monitoring/health_check.cpp\<close>). Clock readings are arguments; one round of a background
  thread is one operation, in which no other thread calls. What a callback does to the timers
  is a parameter.
\<close>

section \<open>Timers\<close>

record 'c timer_info =
  ti_callback :: 'c
  ti_nextRun :: int
  ti_interval :: int
  ti_repeating :: bool
  ti_active :: bool

record 'c timers =
  tm_timers :: "(int, 'c timer_info) std_map"
  tm_nextId :: u32

definition tm_new :: "'c timers" where
  "tm_new = \<lparr>tm_timers = [], tm_nextId = 1\<rparr>"

text \<open>the identifier is read from an atomic int, which wraps around\<close>

definition add_timer :: "bool \<Rightarrow> 'c \<Rightarrow> int \<Rightarrow> int \<Rightarrow> 'c timers \<Rightarrow> int \<times> 'c timers" where
  "add_timer repeating callback delayMs now t =
     (sint (tm_nextId t), t\<lparr>tm_nextId := tm_nextId t + 1,
        tm_timers := map_put (sint (tm_nextId t)) \<lparr>ti_callback = callback, ti_nextRun = now + delayMs, ti_interval = delayMs,
          ti_repeating = repeating, ti_active = True\<rparr> (tm_timers t)\<rparr>)"

definition setTimeout :: "'c \<Rightarrow> int \<Rightarrow> int \<Rightarrow> 'c timers \<Rightarrow> int \<times> 'c timers" where
  "setTimeout callback delayMs now t = add_timer False callback delayMs now t"

definition setInterval :: "'c \<Rightarrow> int \<Rightarrow> int \<Rightarrow> 'c timers \<Rightarrow> int \<times> 'c timers" where
  "setInterval callback intervalMs now t = add_timer True callback intervalMs now t"

definition clearTimer :: "int \<Rightarrow> 'c timers \<Rightarrow> bool \<times> 'c timers" where
  "clearTimer i t = (map_of (tm_timers t) i \<noteq> None, t\<lparr>tm_timers := map_erase i (tm_timers t)\<rparr>)"

definition tm_clearAll :: "'c timers \<Rightarrow> 'c timers" where
  "tm_clearAll t = t\<lparr>tm_timers := []\<rparr>"

definition getActiveTimerCount :: "'c timers \<Rightarrow> nat" where
  "getActiveTimerCount t = length (tm_timers t)"

definition due :: "int \<Rightarrow> 'c timer_info \<Rightarrow> bool" where
  "due now x \<longleftrightarrow> ti_active x \<and> ti_nextRun x \<le> now"

definition toExecute :: "int \<Rightarrow> 'c timers \<Rightarrow> int list" where
  "toExecute now t = map fst (filter (\<lambda>(_, x). due now x) (tm_timers t))"

text \<open>one timer of a round: the callback run, if any, and the timers then\<close>

definition run_timer :: "('c \<Rightarrow> 'c timers \<Rightarrow> 'c timers) \<Rightarrow> int \<Rightarrow> int \<Rightarrow> 'c timers \<Rightarrow> 'c list \<times> 'c timers" where
  "run_timer effect clock i t =
     (case map_of (tm_timers t) i of
        Some x \<Rightarrow>
          if ti_active x
          then let t = effect (ti_callback x) t
               in ([ti_callback x],
                   if ti_repeating x
                   then case map_of (tm_timers t) i of
                          Some y \<Rightarrow> if ti_active y then t\<lparr>tm_timers := map_put i (y\<lparr>ti_nextRun := clock + ti_interval x\<rparr>) (tm_timers t)\<rparr> else t
                        | None \<Rightarrow> t
                   else snd (clearTimer i t))
          else ([], snd (clearTimer i t))
      | None \<Rightarrow> ([], snd (clearTimer i t)))"

fun run_timers :: "('c \<Rightarrow> 'c timers \<Rightarrow> 'c timers) \<Rightarrow> (int \<Rightarrow> int) \<Rightarrow> int list \<Rightarrow> 'c timers \<Rightarrow> 'c list \<times> 'c timers" where
  "run_timers effect clock [] t = ([], t)"
| "run_timers effect clock (i # is) t =
     (let (cs, t) = run_timer effect (clock i) i t; (cs', t) = run_timers effect clock is t in (cs @ cs', t))"

text \<open>one round of \<open>loop\<close>\<close>

definition timer_round :: "('c \<Rightarrow> 'c timers \<Rightarrow> 'c timers) \<Rightarrow> (int \<Rightarrow> int) \<Rightarrow> int \<Rightarrow> 'c timers \<Rightarrow> 'c list \<times> 'c timers" where
  "timer_round effect clock now t = run_timers effect clock (toExecute now t) t"

text \<open>the invariant of a manager that has created n timers\<close>

definition tm_ok :: "nat \<Rightarrow> 'c timers \<Rightarrow> bool" where
  "tm_ok n t \<longleftrightarrow> map_ok (tm_timers t) \<and> tm_nextId t = 1 + of_nat n \<and>
     (\<forall>(i, x)\<in>set (tm_timers t). (\<exists>k<n. i = sint (1 + of_nat k :: u32)) \<and> ti_active x)"

lemma toExecute_due:
  assumes "map_ok (tm_timers t)"
  shows "distinct (toExecute now t)" "i \<in> set (toExecute now t) \<longleftrightarrow> (\<exists>x. map_of (tm_timers t) i = Some x \<and> due now x)"
proof -
  have d: "distinct (map fst (tm_timers t))" using assms by (rule map_ok_distinct)
  then show "distinct (toExecute now t)" unfolding toExecute_def by (rule distinct_map_filter)
  show "i \<in> set (toExecute now t) \<longleftrightarrow> (\<exists>x. map_of (tm_timers t) i = Some x \<and> due now x)"
    unfolding toExecute_def using d by force
qed

lemma tm_ok_lookup: "tm_ok n t \<Longrightarrow> map_of (tm_timers t) i = Some x \<Longrightarrow> (\<exists>k<n. i = sint (1 + of_nat k :: u32)) \<and> ti_active x"
  unfolding tm_ok_def using map_of_SomeD by fastforce

lemma tm_okI:
  assumes "map_ok (tm_timers t)" "tm_nextId t = 1 + of_nat n"
    "\<And>i x. map_of (tm_timers t) i = Some x \<Longrightarrow> (\<exists>k<n. i = sint (1 + of_nat k :: u32)) \<and> ti_active x"
  shows "tm_ok n t"
proof -
  have "map_of (tm_timers t) i = Some x" if "(i, x) \<in> set (tm_timers t)" for i x
    using that map_ok_distinct [OF assms(1)] by simp
  then show ?thesis using assms unfolding tm_ok_def by blast
qed

lemma tm_ok_step:
  "tm_ok 0 tm_new" "tm_ok n t \<Longrightarrow> tm_ok (Suc n) (snd (add_timer r c d now t))" "tm_ok n t \<Longrightarrow> tm_ok n (snd (clearTimer i t))"
  "tm_ok n t \<Longrightarrow> tm_ok n (tm_clearAll t)"
proof -
  show "tm_ok 0 tm_new" by (simp add: tm_ok_def tm_new_def)
  show "tm_ok n t \<Longrightarrow> tm_ok n (tm_clearAll t)" by (simp add: tm_ok_def tm_clearAll_def)
  assume ok: "tm_ok n t"
  then have m: "map_ok (tm_timers t)" "tm_nextId t = 1 + of_nat n" by (simp_all add: tm_ok_def)
  show "tm_ok n (snd (clearTimer i t))"
    using m tm_ok_lookup [OF ok] by (intro tm_okI) (auto simp: clearTimer_def split: if_splits)
  show "tm_ok (Suc n) (snd (add_timer r c d now t))"
  proof (rule tm_okI)
    show "map_ok (tm_timers (snd (add_timer r c d now t)))" "tm_nextId (snd (add_timer r c d now t)) = 1 + of_nat (Suc n)"
      using m by (simp_all add: add_timer_def)
    show "(\<exists>k<Suc n. i = sint (1 + of_nat k :: u32)) \<and> ti_active x"
      if "map_of (tm_timers (snd (add_timer r c d now t))) i = Some x" for i x
      using that tm_ok_lookup [OF ok, of i] m by (auto simp: add_timer_def less_Suc_eq split: if_splits)
  qed
qed

text \<open>as long as the counter has not been round, the next identifier is a new one\<close>

lemma fresh_identifier:
  assumes "tm_ok n t" "n < 2 ^ 32"
  shows "map_of (tm_timers t) (sint (tm_nextId t)) = None"
proof (rule ccontr)
  assume "map_of (tm_timers t) (sint (tm_nextId t)) \<noteq> None"
  then obtain k where k: "k < n" "sint (tm_nextId t) = sint (1 + of_nat k :: u32)" using tm_ok_lookup [OF assms(1)] by blast
  have "tm_nextId t = 1 + of_nat n" using assms(1) by (simp add: tm_ok_def)
  then have "(of_nat n :: u32) = of_nat k" using k(2) by (simp add: signed_word_eqI [OF k(2)])
  then have "unat (of_nat n :: u32) = unat (of_nat k :: u32)" by simp
  then show False using k(1) assms(2) by (simp add: unat_of_nat)
qed

section \<open>A round with callbacks that clear timers\<close>

definition clearing :: "('c \<Rightarrow> int list) \<Rightarrow> 'c \<Rightarrow> 'c timers \<Rightarrow> 'c timers" where
  "clearing kills c t = foldl (\<lambda>t k. snd (clearTimer k t)) t (kills c)"

text \<open>the due timers that run: those that no callback run before them has cleared\<close>

fun executed :: "('c \<Rightarrow> int list) \<Rightarrow> int set \<Rightarrow> (int \<times> 'c timer_info) list \<Rightarrow> (int \<times> 'c timer_info) list" where
  "executed kills cleared [] = []"
| "executed kills cleared ((i, x) # xs) =
     (if i \<in> cleared then executed kills cleared xs
      else (i, x) # executed kills (cleared \<union> set (kills (ti_callback x))) xs)"

lemma executed_idle: "executed (\<lambda>_. []) {} xs = xs"
  by (induction xs) auto

text \<open>the state of a timer after its turn\<close>

definition after_turn :: "int \<Rightarrow> 'c timer_info \<Rightarrow> 'c timer_info option" where
  "after_turn clock x = (if ti_repeating x then Some (x\<lparr>ti_nextRun := clock + ti_interval x\<rparr>) else None)"

lemma clear_fold:
  assumes "map_ok (tm_timers t)"
  shows "map_ok (tm_timers (foldl (\<lambda>t k. snd (clearTimer k t)) t ks))"
    "tm_nextId (foldl (\<lambda>t k. snd (clearTimer k t)) t ks) = tm_nextId t"
    "map_of (tm_timers (foldl (\<lambda>t k. snd (clearTimer k t)) t ks)) j = (if j \<in> set ks then None else map_of (tm_timers t) j)"
  using assms by (induction ks arbitrary: t) (auto simp: clearTimer_def)

lemma run_timer_clearing:
  assumes "map_ok (tm_timers t)" "map_of (tm_timers t) i = Some x" "ti_active x"
  shows "fst (run_timer (clearing kills) c i t) = [ti_callback x]"
    and "map_of (tm_timers (snd (run_timer (clearing kills) c i t))) j =
      (if j \<in> set (kills (ti_callback x)) then None else if j = i then after_turn c x else map_of (tm_timers t) j)"
    and "map_ok (tm_timers (snd (run_timer (clearing kills) c i t)))"
    and "tm_nextId (snd (run_timer (clearing kills) c i t)) = tm_nextId t"
  using assms clear_fold [OF assms(1)]
  by (auto simp: run_timer_def after_turn_def clearing_def clearTimer_def Let_def split: option.split)

lemma run_timer_gone:
  assumes "map_ok (tm_timers t)" "map_of (tm_timers t) i = None"
  shows "fst (run_timer f c i t) = []" "map_of (tm_timers (snd (run_timer f c i t))) = map_of (tm_timers t)"
    "map_ok (tm_timers (snd (run_timer f c i t)))" "tm_nextId (snd (run_timer f c i t)) = tm_nextId t"
  using assms by (auto simp: run_timer_def clearTimer_def)

definition killed :: "('c \<Rightarrow> int list) \<Rightarrow> (int \<times> 'c timer_info) list \<Rightarrow> int \<Rightarrow> bool" where
  "killed kills taken j \<longleftrightarrow> (\<exists>p\<in>set taken. j \<in> set (kills (ti_callback (snd p))))"

lemma run_timers_clearing:
  assumes "map_ok (tm_timers t)" "distinct (map fst l)"
    "\<forall>(i, x)\<in>set l. ti_active x \<and> map_of (tm_timers t) i = (if i \<in> D then None else Some x)"
  shows "fst (run_timers (clearing kills) clock (map fst l) t) = map (ti_callback \<circ> snd) (executed kills D l)
    \<and> map_ok (tm_timers (snd (run_timers (clearing kills) clock (map fst l) t)))
    \<and> tm_nextId (snd (run_timers (clearing kills) clock (map fst l) t)) = tm_nextId t
    \<and> (\<forall>j. map_of (tm_timers (snd (run_timers (clearing kills) clock (map fst l) t))) j =
         (if killed kills (executed kills D l) j then None
          else if j \<in> fst ` set l then Option.bind (map_of (tm_timers t) j) (after_turn (clock j)) else map_of (tm_timers t) j))"
  using assms
proof (induction l arbitrary: t D)
  case Nil
  then show ?case by (simp add: killed_def)
next
  case (Cons p l)
  obtain i x where p: "p = (i, x)" by (cases p)
  let ?u = "snd (run_timer (clearing kills) (clock i) i t)"
  have step: "fst (run_timers (clearing kills) clock (map fst (p # l)) t) =
      fst (run_timer (clearing kills) (clock i) i t) @ fst (run_timers (clearing kills) clock (map fst l) ?u)"
    "snd (run_timers (clearing kills) clock (map fst (p # l)) t) = snd (run_timers (clearing kills) clock (map fst l) ?u)"
    by (simp_all add: p case_prod_unfold Let_def)
  have d: "distinct (map fst l)" "i \<notin> fst ` set l" using Cons.prems(2) by (simp_all add: p)
  show ?case
  proof (cases "i \<in> D")
    case True
    then have n: "map_of (tm_timers t) i = None" using Cons.prems(3) by (simp add: p)
    note u = run_timer_gone [OF Cons.prems(1) n, of "clearing kills" "clock i"]
    have "\<forall>(j, y)\<in>set l. ti_active y \<and> map_of (tm_timers ?u) j = (if j \<in> D then None else Some y)"
      using Cons.prems(3) by (simp add: u(2))
    note ih = Cons.IH [OF u(3) d(1) this]
    show ?thesis unfolding step using ih u n True by (auto simp: p)
  next
    case False
    then have x: "map_of (tm_timers t) i = Some x" "ti_active x" using Cons.prems(3) by (simp_all add: p)
    note u = run_timer_clearing [OF Cons.prems(1) x, of kills "clock i"]
    let ?D = "D \<union> set (kills (ti_callback x))"
    have other: "map_of (tm_timers ?u) j = (if j \<in> set (kills (ti_callback x)) then None else map_of (tm_timers t) j)"
      if "j \<noteq> i" for j using that by (simp add: u(2))
    have "\<forall>(j, y)\<in>set l. ti_active y \<and> map_of (tm_timers ?u) j = (if j \<in> ?D then None else Some y)"
    proof (clarify)
      fix j y assume j: "(j, y) \<in> set l"
      then have "j \<noteq> i" using d(2) by force
      then show "ti_active y \<and> map_of (tm_timers ?u) j = (if j \<in> ?D then None else Some y)"
        using Cons.prems(3) j other [of j] by auto
    qed
    note ih = Cons.IH [OF u(3) d(1) this]
    have e: "executed kills D (p # l) = (i, x) # executed kills ?D l" using False by (simp add: p)
    have k: "killed kills (executed kills D (p # l)) j \<longleftrightarrow>
        j \<in> set (kills (ti_callback x)) \<or> killed kills (executed kills ?D l) j" for j
      unfolding e by (auto simp: killed_def)
    have "map_of (tm_timers (snd (run_timers (clearing kills) clock (map fst l) ?u))) j =
         (if killed kills (executed kills D (p # l)) j then None
          else if j \<in> fst ` set (p # l) then Option.bind (map_of (tm_timers t) j) (after_turn (clock j)) else map_of (tm_timers t) j)" for j
    proof (cases "j = i")
      case True
      then show ?thesis using ih d(2) x(1) unfolding k by (simp add: p u(2))
    next
      case False
      then show ?thesis using ih other [OF False] unfolding k by (simp add: p)
    qed
    then show ?thesis unfolding step e using ih u(1,4) by simp
  qed
qed

text \<open>
  C40: In a round in which the callbacks may clear timers, and no other thread interferes, the
  callbacks that run are those of the due timers, in the order of their identifiers, except
  the timers that a callback run before in the round has cleared; without clearing, all due
  timers run, once each. Afterwards a cleared timer is gone, a repeating one that was due is
  due again an interval after its turn, any other that was due is gone, and the timers not
  due are as before. The identifier of a new timer was not in use as long as fewer than 2 to
  the 32 timers have been created; then the counter has wrapped around and the first
  identifier, 1, is given again.
\<close>

theorem timer_round_runs_due:
  fixes t :: "'c timers" and kills :: "'c \<Rightarrow> int list" and now :: int
  assumes "tm_ok n t"
  defines "taken \<equiv> executed kills {} (filter (\<lambda>(_, x). due now x) (tm_timers t))"
  shows "fst (timer_round (clearing kills) clock now t) = map (ti_callback \<circ> snd) taken
    \<and> (\<forall>i. map_of (tm_timers (snd (timer_round (clearing kills) clock now t))) i =
         (if \<exists>(j, y)\<in>set taken. i \<in> set (kills (ti_callback y)) then None
          else case map_of (tm_timers t) i of
            None \<Rightarrow> None
          | Some x \<Rightarrow> if \<not> due now x then Some x
                      else if ti_repeating x then Some (x\<lparr>ti_nextRun := clock i + ti_interval x\<rparr>) else None))
    \<and> (kills = (\<lambda>_. []) \<longrightarrow> taken = filter (\<lambda>(_, x). due now x) (tm_timers t))
    \<and> (n < 2 ^ 32 \<longrightarrow> map_of (tm_timers t) (fst (setTimeout c d now t)) = None)
    \<and> (n = 2 ^ 32 \<longrightarrow> fst (setTimeout c d now t) = 1)
    \<and> tm_ok n (snd (timer_round (clearing kills) clock now t)) \<and> tm_ok (Suc n) (snd (setTimeout c d now t))"
proof -
  let ?r = "timer_round (clearing kills) clock now t" and ?l = "filter (\<lambda>(_, x). due now x) (tm_timers t)"
  have m: "map_ok (tm_timers t)" "tm_nextId t = 1 + of_nat n" using assms(1) by (simp_all add: tm_ok_def)
  have l: "\<forall>(i, x)\<in>set ?l. ti_active x \<and> map_of (tm_timers t) i = (if i \<in> {} then None else Some x)"
    using map_ok_distinct [OF m(1)] by (auto simp: due_def)
  have "distinct (map fst ?l)" using toExecute_due(1) [OF m(1), of now] by (simp add: toExecute_def)
  note run = run_timers_clearing [OF m(1) this l, of kills clock, folded toExecute_def timer_round_def taken_def]
  have mem: "i \<in> fst ` set ?l \<longleftrightarrow> (\<exists>x. map_of (tm_timers t) i = Some x \<and> due now x)" for i
    using toExecute_due(2) [OF m(1), of i now] by (simp add: toExecute_def)
  have look: "map_of (tm_timers (snd ?r)) i = (if \<exists>(j, y)\<in>set taken. i \<in> set (kills (ti_callback y)) then None
      else case map_of (tm_timers t) i of None \<Rightarrow> None
      | Some x \<Rightarrow> if \<not> due now x then Some x else if ti_repeating x then Some (x\<lparr>ti_nextRun := clock i + ti_interval x\<rparr>) else None)" for i
    using run mem [of i] by (auto simp: killed_def after_turn_def case_prod_unfold split: option.split)
  have "tm_ok n (snd ?r)"
  proof (rule tm_okI)
    show "map_ok (tm_timers (snd ?r))" "tm_nextId (snd ?r) = 1 + of_nat n" using run m(2) by simp_all
    show "(\<exists>k<n. i = sint (1 + of_nat k :: u32)) \<and> ti_active x" if "map_of (tm_timers (snd ?r)) i = Some x" for i x
      using that [unfolded look] tm_ok_lookup [OF assms(1), of i] by (auto split: option.splits if_splits)
  qed
  moreover have "tm_ok (Suc n) (snd (setTimeout c d now t))" using tm_ok_step(2) [OF assms(1)] by (simp add: setTimeout_def)
  moreover have "fst (setTimeout c d now t) = sint (tm_nextId t)" by (simp add: setTimeout_def add_timer_def)
  moreover have "sint (tm_nextId t) = 1" if "n = 2 ^ 32" using m(2) that by simp
  moreover have "kills = (\<lambda>_. []) \<longrightarrow> taken = ?l" by (auto simp: taken_def executed_idle)
  ultimately show ?thesis using look run fresh_identifier [OF assms(1)] by simp
qed

definition sample_timers :: "nat timers" where
  "sample_timers = snd (setInterval 8 10 0 (snd (setTimeout 7 5 0 tm_new)))"

text \<open>both due timers run; when the first clears the second, only the first does\<close>

theorem timer_round_runs_due_witness:
  "fst (timer_round (clearing (\<lambda>_. [])) (\<lambda>_. 11) 10 sample_timers) = [7, 8] \<and>
   fst (timer_round (clearing (\<lambda>c. if c = 7 then [2] else [])) (\<lambda>_. 11) 10 sample_timers) = [7]"
proof -
  have ok: "tm_ok 2 sample_timers"
    unfolding sample_timers_def setInterval_def setTimeout_def numeral_2_eq_2 by (intro tm_ok_step)
  have l: "filter (\<lambda>(_, x). due 10 x) (tm_timers sample_timers) = tm_timers sample_timers" "map fst (tm_timers sample_timers) = [1, 2]"
    "map (ti_callback \<circ> snd) (tm_timers sample_timers) = [7, 8]"
    by (simp_all add: sample_timers_def setInterval_def setTimeout_def add_timer_def tm_new_def due_def)
  have r: "fst (timer_round (clearing kills) (\<lambda>_. 11) 10 sample_timers) = map (ti_callback \<circ> snd) (executed kills {} (tm_timers sample_timers))" for kills
    using conjunct1 [OF timer_round_runs_due [OF ok, where c = 0 and d = 0 and now = 10], of kills "\<lambda>_. 11"] unfolding l .
  show ?thesis unfolding r using l(2,3) by (auto simp: executed_idle map_eq_Cons_conv)
qed

section \<open>Metrics\<close>

record metrics =
  mc_counters :: "(string, u64) std_map"
  mc_gauges :: "(string, double) std_map"
  mc_histograms :: "(string, u64 list) std_map"

definition mc_new :: metrics where
  "mc_new = \<lparr>mc_counters = [], mc_gauges = [], mc_histograms = []\<rparr>"

definition incrementCounter :: "string \<Rightarrow> u64 \<Rightarrow> metrics \<Rightarrow> metrics" where
  "incrementCounter name delta c = c\<lparr>mc_counters := map_change 0 name (\<lambda>x. x + delta) (mc_counters c)\<rparr>"

definition getCounter :: "string \<Rightarrow> metrics \<Rightarrow> u64" where
  "getCounter name c = map_at 0 (mc_counters c) name"

definition setGauge :: "string \<Rightarrow> double \<Rightarrow> metrics \<Rightarrow> metrics" where
  "setGauge name value c = c\<lparr>mc_gauges := map_put name value (mc_gauges c)\<rparr>"

definition getGauge :: "string \<Rightarrow> metrics \<Rightarrow> double" where
  "getGauge name c = map_at (Fin 0) (mc_gauges c) name"

definition recordHistogram :: "string \<Rightarrow> u64 \<Rightarrow> metrics \<Rightarrow> metrics" where
  "recordHistogram name value c =
     (let h = map_at [] (mc_histograms c) name @ [value]
      in c\<lparr>mc_histograms := map_put name (if 10000 < length h then tl h else h) (mc_histograms c)\<rparr>)"

definition getHistogram :: "string \<Rightarrow> metrics \<Rightarrow> u64 list" where
  "getHistogram name c = map_at [] (mc_histograms c) name"

definition mc_reset :: "metrics \<Rightarrow> metrics" where
  "mc_reset c = mc_new"

definition getAllCounters :: "metrics \<Rightarrow> (string, u64) std_map" where
  "getAllCounters c = mc_counters c"

definition getAllGauges :: "metrics \<Rightarrow> (string, double) std_map" where
  "getAllGauges c = mc_gauges c"

lemma keep_last:
  assumes "0 < n" "h = drop (length vs - n) vs @ [v]"
  shows "(if n < length h then tl h else h) = drop (length (vs @ [v]) - n) (vs @ [v])"
proof (cases "n \<le> length vs")
  case True
  then have "drop (length vs - n) vs \<noteq> []" using assms(1) by simp
  then have "tl h = drop (Suc (length vs - n)) vs @ [v]" using assms(2) by (simp add: drop_Suc tl_drop)
  moreover have "Suc (length vs - n) = length (vs @ [v]) - n" using True by simp
  ultimately show ?thesis using True assms by simp
qed (simp add: assms(2))

lemma record_lookup:
  assumes "map_ok (mc_histograms c)" "getHistogram name c = h"
  shows "getHistogram name (recordHistogram name v c) = (if 10000 < length (h @ [v]) then tl (h @ [v]) else h @ [v])"
    and "n \<noteq> name \<Longrightarrow> getHistogram name (recordHistogram n v c) = h" "map_ok (mc_histograms (recordHistogram n v c))"
  using assms by (simp_all add: recordHistogram_def getHistogram_def Let_def)

text \<open>the last 10000 values of a histogram, in order\<close>

lemma histogram_window:
  "getHistogram name (foldl (\<lambda>c (n, v). recordHistogram n v c) mc_new rs)
     = (let vs = map snd (filter (\<lambda>r. fst r = name) rs) in drop (length vs - 10000) vs)"
proof -
  let ?c = "\<lambda>rs. foldl (\<lambda>c (n, v). recordHistogram n v c) mc_new rs"
  let ?vs = "\<lambda>rs. map snd (filter (\<lambda>r. fst r = name) rs)"
  have "map_ok (mc_histograms (?c rs)) \<and> getHistogram name (?c rs) = drop (length (?vs rs) - 10000) (?vs rs)"
  proof (induction rs rule: rev_induct)
    case Nil
    show ?case by (simp add: mc_new_def getHistogram_def map_at_def)
  next
    case (snoc r rs)
    obtain n v where r: "r = (n, v)" by (cases r)
    have c: "?c (rs @ [r]) = recordHistogram n v (?c rs)" by (simp add: r)
    note rec = record_lookup [OF conjunct1 [OF snoc.IH] conjunct2 [OF snoc.IH]]
    show ?case
    proof (cases "n = name")
      case True
      then have "?vs (rs @ [r]) = ?vs rs @ [v]" by (simp add: r)
      have "getHistogram name (?c (rs @ [r])) = drop (length (?vs rs @ [v]) - 10000) (?vs rs @ [v])"
        unfolding c True by (rule trans [OF rec(1) keep_last [OF _ refl]]) simp
      then show ?thesis using rec(3) [of n v] unfolding c \<open>?vs (rs @ [r]) = ?vs rs @ [v]\<close> by blast
    next
      case False
      then have "?vs (rs @ [r]) = ?vs rs" by (simp add: r)
      then show ?thesis using rec(2) [OF False, of v] rec(3) [of n v] unfolding c by presburger
    qed
  qed
  then show ?thesis unfolding Let_def by blast
qed

section \<open>Health\<close>

record health_status =
  hs_healthy :: bool
  hs_component :: string
  hs_message :: string
  hs_lastCheck :: u64
  hs_responseTimeMs :: u64

text \<open>a check is what it returns in this round\<close>

record health_checker =
  hc_checks :: "(string, health_status) std_map"
  hc_statuses :: "(string, health_status) std_map"

definition health_round :: "(string \<Rightarrow> u64) \<Rightarrow> health_checker \<Rightarrow> health_checker" where
  "health_round clock h =
     foldl (\<lambda>h (name, status). h\<lparr>hc_statuses := map_put name (status\<lparr>hs_lastCheck := clock name\<rparr>) (hc_statuses h)\<rparr>) h (hc_checks h)"

definition registerCheck :: "string \<Rightarrow> health_status \<Rightarrow> health_checker \<Rightarrow> health_checker" where
  "registerCheck name check h = h\<lparr>hc_checks := map_put name check (hc_checks h)\<rparr>"

definition unregisterCheck :: "string \<Rightarrow> health_checker \<Rightarrow> health_checker" where
  "unregisterCheck name h = h\<lparr>hc_checks := map_erase name (hc_checks h), hc_statuses := map_erase name (hc_statuses h)\<rparr>"

text \<open>the times of a missing status are not initialized: what they hold is an argument\<close>

definition hc_getStatus :: "u64 \<Rightarrow> u64 \<Rightarrow> string \<Rightarrow> health_checker \<Rightarrow> health_status" where
  "hc_getStatus r1 r2 name h =
     (case map_of (hc_statuses h) name of
        Some s \<Rightarrow> s
      | None \<Rightarrow> \<lparr>hs_healthy = False, hs_component = name, hs_message = ''No status available'', hs_lastCheck = r1, hs_responseTimeMs = r2\<rparr>)"

definition isOverallHealthy :: "health_checker \<Rightarrow> bool" where
  "isOverallHealthy h = list_all (\<lambda>(_, s). hs_healthy s) (hc_statuses h)"

text \<open>before its first round a checker reports overall health, whatever its checks would find\<close>

lemma healthy_before_check: "isOverallHealthy (registerCheck name check \<lparr>hc_checks = [], hc_statuses = []\<rparr>)"
  by (simp add: isOverallHealthy_def registerCheck_def)

end
