(* ===== verification/Tok_Hash.thy ===== *)
theory Tok_Hash
  imports Bank_Prelude
begin

text \<open>
  The hash functions of the token engine, \<open>compute_hash\<close>, \<open>compute_hash_fast\<close> and
  \<open>compute_merkle_root\<close> of \<open>1-to-file/main_file.cpp\<close>. Hashes and addresses have 64 bytes; an
  integer is copied to memory with its low byte first.
\<close>

section \<open>Hash functions\<close>

definition fnv_basis :: u64 where "fnv_basis = 0xcbf29ce484222325"

definition fnv_step :: "u64 \<Rightarrow> u8 \<Rightarrow> u64" where
  "fnv_step h b = (h XOR ucast b) * 0x100000001b3"

definition mix_step :: "u64 \<Rightarrow> u8 \<Rightarrow> u64" where
  "mix_step h b = (h XOR (ucast b + 0x9e3779b97f4a7c15)) * 0xbf58476d1ce4e5b9"

definition compute_hash :: "bytes \<Rightarrow> bytes" where
  "compute_hash data =
     (let h1 = foldl fnv_step fnv_basis data; h2 = foldl mix_step fnv_basis data
      in foldl (\<lambda>r i. r @ [r ! (i - 16) XOR r ! (i - 8)]) (store_le64 h1 @ store_le64 h2) [16..<64])"

definition compute_hash_fast :: "bytes \<Rightarrow> bytes" where
  "compute_hash_fast data =
     foldl (\<lambda>r i. r @ [r ! (i - 8) XOR of_nat (i * 255)]) (store_le64 (foldl fnv_step fnv_basis data)) [8..<64]"

text \<open>
  One pass of the loop over \<open>levels\<close>: the pairs are hashed in place, an odd hash at the end
  moves up as it is.
\<close>

fun merkle_level :: "bytes list \<Rightarrow> bytes list" where
  "merkle_level (a # b # rest) = compute_hash_fast (a @ b) # merkle_level rest"
| "merkle_level rest = rest"

lemma length_merkle_level: "length (merkle_level ls) = (length ls + 1) div 2"
  by (induction ls rule: merkle_level.induct) auto

function merkle_levels :: "bytes list \<Rightarrow> bytes" where
  "merkle_levels ls = (if 1 < length ls then merkle_levels (merkle_level ls) else ls ! 0)"
  by pat_completeness auto
termination by (relation "measure length") (auto simp: length_merkle_level)

declare merkle_levels.simps [simp del]

text \<open>the argument: the hashes of the transactions\<close>

definition compute_merkle_root :: "bytes list \<Rightarrow> bytes" where
  "compute_merkle_root txs =
     (if length txs = 0 then replicate 64 0
      else if length txs = 1 then compute_hash (txs ! 0)
      else merkle_levels txs)"

section \<open>Lengths\<close>

lemma foldl_snoc: "\<exists>t. length t = length is \<and> foldl (\<lambda>r i. r @ [f r i]) r0 is = r0 @ t"
proof (induction "is" arbitrary: r0)
  case (Cons i "is")
  obtain t where "length t = length is" "foldl (\<lambda>r i. r @ [f r i]) (r0 @ [f r0 i]) is = (r0 @ [f r0 i]) @ t"
    using Cons by blast
  then show ?case by (intro exI [of _ "f r0 i # t"]) simp
qed simp

lemma fast_form: "\<exists>t. length t = 56 \<and> compute_hash_fast data = store_le64 (foldl fnv_step fnv_basis data) @ t"
proof -
  obtain t where "length t = length [8..<64]" "compute_hash_fast data = store_le64 (foldl fnv_step fnv_basis data) @ t"
    unfolding compute_hash_fast_def
    using foldl_snoc [of "[8..<64]" "\<lambda>r i. r ! (i - 8) XOR of_nat (i * 255)" "store_le64 (foldl fnv_step fnv_basis data)"] by blast
  then show ?thesis by (intro exI [of _ t]) simp
qed

lemma full_form: "\<exists>t. length t = 56 \<and> compute_hash data = store_le64 (foldl fnv_step fnv_basis data) @ t"
proof -
  obtain t where "length t = length [16..<64]"
    "compute_hash data = (store_le64 (foldl fnv_step fnv_basis data) @ store_le64 (foldl mix_step fnv_basis data)) @ t"
    unfolding compute_hash_def Let_def
    using foldl_snoc [of "[16..<64]" "\<lambda>r i. r ! (i - 16) XOR r ! (i - 8)"
      "store_le64 (foldl fnv_step fnv_basis data) @ store_le64 (foldl mix_step fnv_basis data)"] by blast
  then show ?thesis by (intro exI [of _ "store_le64 (foldl mix_step fnv_basis data) @ t"]) simp
qed

lemma length_hashes [layout, simp]: "length (compute_hash data) = 64" "length (compute_hash_fast data) = 64"
  using full_form [of data] fast_form [of data] by auto

lemma store_le64_inj: "store_le64 x = store_le64 y \<Longrightarrow> x = y"
proof (rule bit_word_eqI)
  fix n assume e: "store_le64 x = store_le64 y" and n: "n < LENGTH(64)"
  have b: "bit (store_le64 z ! (n div 8)) (n mod 8) = bit z n" for z
  proof -
    have "n div 8 < 8" "n div 8 * 8 + n mod 8 = n" "n mod 8 < 8" using n by simp_all
    then show ?thesis unfolding store_le64_def by (simp add: bit_simps)
  qed
  have "bit (store_le64 x ! (n div 8)) (n mod 8) = bit (store_le64 y ! (n div 8)) (n mod 8)" unfolding e ..
  then show "bit x n = bit y n" unfolding b .
qed

text \<open>the hash is determined by its first eight bytes, the state of the loop\<close>

lemma fast_state: "take 8 (compute_hash_fast data) = store_le64 (foldl fnv_step fnv_basis data)"
  using fast_form [of data] by auto

lemma full_state: "take 8 (compute_hash data) = store_le64 (foldl fnv_step fnv_basis data)"
  using full_form [of data] by auto

lemma fast_eq: "compute_hash_fast x = compute_hash_fast y \<longleftrightarrow> foldl fnv_step fnv_basis x = foldl fnv_step fnv_basis y"
proof
  assume "compute_hash_fast x = compute_hash_fast y"
  then have "store_le64 (foldl fnv_step fnv_basis x) = store_le64 (foldl fnv_step fnv_basis y)"
    unfolding fast_state [symmetric] by simp
  then show "foldl fnv_step fnv_basis x = foldl fnv_step fnv_basis y" by (rule store_le64_inj)
qed (simp only: compute_hash_fast_def)

section \<open>What the hash tells apart\<close>

text \<open>the multiplier is odd, so that a step can be undone\<close>

lemma fnv_unmul: assumes "x * 0x100000001b3 = y * (0x100000001b3 :: u64)" shows "x = y"
proof -
  have inv: "0x100000001b3 * 0xce965057aff6957b = (1 :: u64)" by simp
  have "x * (0x100000001b3 * 0xce965057aff6957b) = y * (0x100000001b3 * 0xce965057aff6957b)"
    unfolding mult.assoc [symmetric] assms ..
  then show ?thesis unfolding inv by simp
qed

lemma xor_cancel: "x XOR z = y XOR z \<Longrightarrow> x = (y :: u64)"
proof -
  assume "x XOR z = y XOR z"
  then have "(x XOR z) XOR z = (y XOR z) XOR z" by (rule arg_cong)
  then show ?thesis by (simp add: xor.assoc)
qed

lemma fnv_step_inject: "fnv_step h b = fnv_step k b \<Longrightarrow> h = k"
  unfolding fnv_step_def by (drule fnv_unmul) (rule xor_cancel)

lemma fnv_step_byte: "fnv_step h a = fnv_step h b \<Longrightarrow> a = b"
proof -
  assume "fnv_step h a = fnv_step h b"
  then have "h XOR ucast a = h XOR ucast b" unfolding fnv_step_def by (rule fnv_unmul)
  then have "ucast a XOR h = ucast b XOR h" unfolding xor.commute [of _ h] .
  then have "ucast a = (ucast b :: u64)" by (rule xor_cancel)
  then show ?thesis by (intro bit_word_eqI) (drule arg_cong [of _ _ "\<lambda>w. bit w _"], auto simp: bit_simps)
qed

lemma fnv_fold_inject: "foldl fnv_step h xs = foldl fnv_step k xs \<Longrightarrow> h = k"
  by (induction xs arbitrary: h k) (auto dest: fnv_step_inject)

text \<open>
  Two messages that differ in one byte have different hashes, under both functions. But
  the hash has no more than the eight bytes of its state: equal first bytes mean equal hashes, and
  whatever is appended to two messages with the same hash, they keep the same hash.
\<close>

theorem hash_strength:
  assumes "a \<noteq> b"
  shows "compute_hash_fast (p @ a # s) \<noteq> compute_hash_fast (p @ b # s) \<and>
    compute_hash (p @ a # s) \<noteq> compute_hash (p @ b # s) \<and>
    (take 8 (compute_hash_fast x) = take 8 (compute_hash_fast y)) = (compute_hash_fast x = compute_hash_fast y) \<and>
    (compute_hash_fast (x @ s) = compute_hash_fast (y @ s)) = (compute_hash_fast x = compute_hash_fast y)"
proof -
  have d: "foldl fnv_step fnv_basis (p @ a # s) \<noteq> foldl fnv_step fnv_basis (p @ b # s)"
    using assms by (auto dest: fnv_fold_inject fnv_step_byte)
  then have "compute_hash (p @ a # s) \<noteq> compute_hash (p @ b # s)"
    by (metis full_state store_le64_inj)
  moreover have "compute_hash_fast (p @ a # s) \<noteq> compute_hash_fast (p @ b # s)" using d by (simp add: fast_eq)
  moreover have "(take 8 (compute_hash_fast x) = take 8 (compute_hash_fast y)) = (compute_hash_fast x = compute_hash_fast y)"
    by (metis fast_eq fast_state store_le64_inj)
  moreover have "(compute_hash_fast (x @ s) = compute_hash_fast (y @ s)) = (compute_hash_fast x = compute_hash_fast y)"
    unfolding fast_eq by (auto dest: fnv_fold_inject)
  ultimately show ?thesis by blast
qed

theorem hash_strength_witness: "compute_hash [0x68, 0x69] \<noteq> compute_hash [0x68, 0x6A]"
  using hash_strength [of "0x69" "0x6A" "[0x68]" "[]" "[]" "[]"] by simp

section \<open>The root of a list of transactions\<close>

text \<open>
  The root does not fix the list: three hashes or more have the root of the shorter list in
  which every two are replaced by the hash of the pair, so a block can be passed off with
  other transactions; the last hash of an odd list stands in the root's own input as it is.
\<close>

theorem merkle_second_preimage:
  assumes "3 \<le> length txs"
  shows "compute_merkle_root (merkle_level txs) = compute_merkle_root txs \<and> length (merkle_level txs) < length txs"
proof -
  have "length (merkle_level txs) = (length txs + 1) div 2" by (rule length_merkle_level)
  then have l: "1 < length (merkle_level txs)" "length (merkle_level txs) < length txs" using assms by simp_all
  have "merkle_levels txs = merkle_levels (merkle_level txs)"
    using assms by (subst merkle_levels.simps) simp
  moreover have "compute_merkle_root (merkle_level txs) = merkle_levels (merkle_level txs)" "compute_merkle_root txs = merkle_levels txs"
    using l assms by (auto simp: compute_merkle_root_def)
  ultimately show ?thesis using l(2) by simp
qed

theorem merkle_second_preimage_witness:
  "compute_merkle_root [compute_hash_fast ([1] @ [2]), [3]] = compute_merkle_root [[1], [2], [3]]"
  using merkle_second_preimage [of "[[1], [2], [3]]"] by simp

text \<open>the root of a list of 64-byte hashes is a hash\<close>

lemma length_merkle_root:
  assumes "\<forall>t\<in>set txs. length t = 64" shows "length (compute_merkle_root txs) = 64"
proof -
  have s: "\<forall>t\<in>set (merkle_level ls). length t = 64" if "\<forall>t\<in>set ls. length t = 64" for ls
    using that by (induction ls rule: merkle_level.induct) auto
  have "length (merkle_levels ls) = 64" if "\<forall>t\<in>set ls. length t = 64" "ls \<noteq> []" for ls
    using that
  proof (induction ls rule: merkle_levels.induct)
    case (1 ls)
    show ?case
    proof (cases "1 < length ls")
      case True
      then have "merkle_level ls \<noteq> []" using length_merkle_level [of ls] by auto
      then show ?thesis using 1 True s by (subst merkle_levels.simps) simp
    next
      case False
      then show ?thesis using 1 by (subst merkle_levels.simps) simp
    qed
  qed
  then show ?thesis using assms by (simp add: compute_merkle_root_def)
qed

end
