(* ===== verification/Tok_Balance.thy ===== *)
theory Tok_Balance
  imports Bank_Prelude
begin

text \<open>
  The balance cache of \<open>1-to-file/main_file.cpp\<close>, a hash table with linear probing, and the
  map of balances it stands for. The capacity is positive (the only cache has 5000000 entries).
\<close>

section \<open>The table\<close>

type_synonym token_id = u32
type_synonym amount = u64

record balance_entry =
  be_address :: bytes
  be_token_id :: token_id
  be_balance :: amount
  be_last_update_block :: u32
  be_last_transaction_nonce :: u32
  be_locked_balance :: amount
  be_lock_until_block :: u32

record balance_cache =
  bc_entries :: "balance_entry list"
  bc_capacity :: nat
  bc_count :: nat
  bc_cache_hits :: u64
  bc_cache_misses :: u64

definition zero_entry :: balance_entry where
  "zero_entry = \<lparr>be_address = replicate 64 0, be_token_id = 0, be_balance = 0, be_last_update_block = 0,
     be_last_transaction_nonce = 0, be_locked_balance = 0, be_lock_until_block = 0\<rparr>"

definition balance_cache_create :: "nat \<Rightarrow> balance_cache" where
  "balance_cache_create capacity =
     \<lparr>bc_entries = replicate capacity zero_entry, bc_capacity = capacity, bc_count = 0, bc_cache_hits = 0, bc_cache_misses = 0\<rparr>"

definition home :: "nat \<Rightarrow> bytes \<Rightarrow> token_id \<Rightarrow> nat" where
  "home capacity addr token = unat (ucast (addr ! 0) XOR push_bit 8 (ucast (addr ! 1)) XOR token) mod capacity"

text \<open>the indices in the order in which the loops visit them\<close>

definition probe :: "nat \<Rightarrow> bytes \<Rightarrow> token_id \<Rightarrow> nat list" where
  "probe capacity addr token = map (\<lambda>k. (home capacity addr token + k) mod capacity) [0..<capacity]"

definition entry_of :: "bytes \<Rightarrow> token_id \<Rightarrow> balance_entry \<Rightarrow> bool" where
  "entry_of addr token e \<longleftrightarrow> be_address e = addr \<and> be_token_id e = token"

definition is_free :: "balance_entry \<Rightarrow> bool" where
  "is_free e \<longleftrightarrow> be_last_update_block e = 0"

definition new_entry :: "bytes \<Rightarrow> token_id \<Rightarrow> amount \<Rightarrow> balance_entry" where
  "new_entry addr token delta = \<lparr>be_address = addr, be_token_id = token, be_balance = delta, be_last_update_block = 1,
     be_last_transaction_nonce = 0, be_locked_balance = 0, be_lock_until_block = 0\<rparr>"

definition balance_cache_update :: "bytes \<Rightarrow> token_id \<Rightarrow> amount \<Rightarrow> balance_cache \<Rightarrow> balance_cache" where
  "balance_cache_update addr token delta c =
     (case List.find (\<lambda>i. is_free (bc_entries c ! i) \<or> entry_of addr token (bc_entries c ! i))
             (probe (bc_capacity c) addr token) of
        None \<Rightarrow> c\<lparr>bc_cache_misses := bc_cache_misses c + 1\<rparr>
      | Some i \<Rightarrow>
          if is_free (bc_entries c ! i)
          then c\<lparr>bc_entries := (bc_entries c)[i := new_entry addr token delta], bc_count := bc_count c + 1,
                 bc_cache_hits := bc_cache_hits c + 1\<rparr>
          else c\<lparr>bc_entries := (bc_entries c)[i := (bc_entries c ! i)\<lparr>be_balance := be_balance (bc_entries c ! i) + delta\<rparr>],
                 bc_cache_hits := bc_cache_hits c + 1\<rparr>)"

text \<open>the entry is compared before the test whether the next one is free\<close>

fun get_scan :: "(balance_entry \<Rightarrow> bool) \<Rightarrow> balance_entry list \<Rightarrow> nat list \<Rightarrow> nat option" where
  "get_scan P es [] = None"
| "get_scan P es [i] = (if P (es ! i) then Some i else None)"
| "get_scan P es (i # j # is) = (if P (es ! i) then Some i else if is_free (es ! j) then None else get_scan P es (j # is))"

definition balance_cache_get :: "bytes \<Rightarrow> token_id \<Rightarrow> balance_cache \<Rightarrow> amount \<times> balance_cache" where
  "balance_cache_get addr token c =
     (case get_scan (entry_of addr token) (bc_entries c) (probe (bc_capacity c) addr token) of
        Some i \<Rightarrow> (be_balance (bc_entries c ! i), c\<lparr>bc_cache_hits := bc_cache_hits c + 1\<rparr>)
      | None \<Rightarrow> (0, c\<lparr>bc_cache_misses := bc_cache_misses c + 1\<rparr>))"

section \<open>The invariant\<close>

text \<open>the balance of an address in a token: 0 if there is no entry\<close>

definition stored :: "balance_cache \<Rightarrow> bytes \<Rightarrow> token_id \<Rightarrow> nat \<Rightarrow> bool" where
  "stored c addr token i \<longleftrightarrow> i < bc_capacity c \<and> \<not> is_free (bc_entries c ! i) \<and> entry_of addr token (bc_entries c ! i)"

definition cached_balance :: "balance_cache \<Rightarrow> bytes \<Rightarrow> token_id \<Rightarrow> amount" where
  "cached_balance c addr token =
     (case List.find (\<lambda>e. \<not> is_free e \<and> entry_of addr token e) (bc_entries c) of Some e \<Rightarrow> be_balance e | None \<Rightarrow> 0)"

definition has_room :: "balance_cache \<Rightarrow> bool" where
  "has_room c \<longleftrightarrow> (\<exists>i < bc_capacity c. is_free (bc_entries c ! i))"

text \<open>
  Free entries are zero, the others are counted, an entry is there once, and from the home of an entry up to the entry
  itself the table is occupied.
\<close>

definition bc_ok :: "balance_cache \<Rightarrow> bool" where
  "bc_ok c \<longleftrightarrow> 0 < bc_capacity c \<and> length (bc_entries c) = bc_capacity c \<and>
     (\<forall>e \<in> set (bc_entries c). is_free e \<longrightarrow> be_balance e = 0) \<and>
     bc_count c = card {i. i < bc_capacity c \<and> \<not> is_free (bc_entries c ! i)} \<and>
     (\<forall>addr token i j. stored c addr token i \<and> stored c addr token j \<longrightarrow> i = j) \<and>
     (\<forall>addr token i. stored c addr token i \<longrightarrow>
        (\<exists>k < bc_capacity c. probe (bc_capacity c) addr token ! k = i \<and>
           (\<forall>m \<le> k. \<not> is_free (bc_entries c ! (probe (bc_capacity c) addr token ! m)))))"

lemma length_probe [simp]: "length (probe n addr token) = n"
  by (simp add: probe_def)

lemma probe_nth: "k < n \<Longrightarrow> probe n addr token ! k = (home n addr token + k) mod n"
  by (simp add: probe_def)

lemma probe_bound: "k < n \<Longrightarrow> probe n addr token ! k < n"
  by (simp add: probe_def)

lemma set_probe: "i \<in> set (probe n addr token) \<Longrightarrow> i < n"
  by (auto simp: in_set_conv_nth probe_nth)

lemma probe_inject:
  assumes "k < n" "m < n" "probe n addr token ! m = probe n addr token ! k" shows "m = k"
proof -
  define h where "h = home n addr token"
  have h: "h < n" using assms(1) by (simp add: h_def home_def)
  have s: "(h + x) mod n = (if h + x < n then h + x else h + x - n)" if "x < n" for x
    using h that by (simp add: mod_if)
  have "(h + m) mod n = (h + k) mod n" using assms by (simp add: probe_nth h_def)
  then show ?thesis using assms(1,2) h unfolding s [OF assms(1)] s [OF assms(2)] by (auto split: if_splits)
qed

text \<open>every index is visited\<close>

lemma probe_surj: "i < n \<Longrightarrow> \<exists>k < n. probe n addr token ! k = i"
proof -
  assume i: "i < n"
  let ?h = "home n addr token"
  have h: "?h < n" using i by (simp add: home_def)
  show ?thesis
  proof (cases "?h \<le> i")
    case True
    then have "i - ?h < n" "?h + (i - ?h) = i" using i by simp_all
    then show ?thesis using i by (intro exI [of _ "i - ?h"]) (simp add: probe_nth)
  next
    case False
    then have "?h + (n - ?h + i) = n + i" "n - ?h + i < n" using h by simp_all
    then show ?thesis using i by (intro exI [of _ "n - ?h + i"]) (simp add: probe_nth)
  qed
qed

lemma find_at:
  assumes "k < length xs" "P (xs ! k)" "\<And>m. m < k \<Longrightarrow> \<not> P (xs ! m)"
  shows "List.find P xs = Some (xs ! k)"
  using assms by (auto simp: find_Some_iff)

lemma get_scan_at:
  assumes "k < length is" "P (es ! (is ! k))" "\<And>m. m < k \<Longrightarrow> \<not> P (es ! (is ! m))" "\<And>m. m \<le> k \<Longrightarrow> \<not> is_free (es ! (is ! m))"
  shows "get_scan P es is = Some (is ! k)"
  using assms
proof (induction P es "is" arbitrary: k rule: get_scan.induct)
  case (3 P es i j "is")
  show ?case
  proof (cases k)
    case 0
    then show ?thesis using 3(3) by simp
  next
    case (Suc k')
    have "\<not> P (es ! i)" using 3(4) [of 0] Suc by simp
    moreover have "\<not> is_free (es ! j)" using 3(5) [of 1] Suc by simp
    moreover have "get_scan P es (j # is) = Some ((j # is) ! k')"
    proof (rule 3(1))
      show "\<not> P (es ! i)" "\<not> is_free (es ! j)" by fact+
      show "k' < length (j # is)" "P (es ! ((j # is) ! k'))" using 3(2,3) Suc by simp_all
      show "\<not> P (es ! ((j # is) ! m))" if "m < k'" for m using 3(4) [of "Suc m"] that Suc by simp
      show "\<not> is_free (es ! ((j # is) ! m))" if "m \<le> k'" for m using 3(5) [of "Suc m"] that Suc by simp
    qed
    ultimately show ?thesis using Suc by simp
  qed
qed auto

lemma get_scan_SomeD:
  assumes "get_scan P es is = Some i"
  shows "i \<in> set is \<and> P (es ! i) \<and> (i = hd is \<or> \<not> is_free (es ! i))"
  using assms by (induction P es "is" rule: get_scan.induct) (auto split: if_splits)

section \<open>Balances\<close>

lemma bc_okD:
  assumes "bc_ok c"
  shows "0 < bc_capacity c" "length (bc_entries c) = bc_capacity c"
    "i < bc_capacity c \<Longrightarrow> is_free (bc_entries c ! i) \<Longrightarrow> be_balance (bc_entries c ! i) = 0"
    "stored c addr token i \<Longrightarrow> stored c addr token j \<Longrightarrow> i = j"
proof -
  show l: "0 < bc_capacity c" "length (bc_entries c) = bc_capacity c" using assms unfolding bc_ok_def by blast+
  show "be_balance (bc_entries c ! i) = 0" if "i < bc_capacity c" "is_free (bc_entries c ! i)"
    using assms that l(2) nth_mem [of i "bc_entries c"] unfolding bc_ok_def by simp
  show "stored c addr token i \<Longrightarrow> stored c addr token j \<Longrightarrow> i = j" using assms unfolding bc_ok_def by blast
qed

lemma bc_ok_path:
  assumes "bc_ok c" "stored c addr token i"
  obtains k where "k < bc_capacity c" "probe (bc_capacity c) addr token ! k = i"
    "\<And>m. m \<le> k \<Longrightarrow> \<not> is_free (bc_entries c ! (probe (bc_capacity c) addr token ! m))"
    "\<And>m. m < k \<Longrightarrow> \<not> entry_of addr token (bc_entries c ! (probe (bc_capacity c) addr token ! m))"
proof -
  obtain k where k: "k < bc_capacity c" "probe (bc_capacity c) addr token ! k = i"
    "\<forall>m \<le> k. \<not> is_free (bc_entries c ! (probe (bc_capacity c) addr token ! m))"
    using assms unfolding bc_ok_def by blast
  have "\<not> entry_of addr token (bc_entries c ! (probe (bc_capacity c) addr token ! m))" if "m < k" for m
  proof
    assume "entry_of addr token (bc_entries c ! (probe (bc_capacity c) addr token ! m))"
    then have "stored c addr token (probe (bc_capacity c) addr token ! m)"
      using k(1,3) that probe_bound [of m "bc_capacity c" addr token] unfolding stored_def by simp
    then have "probe (bc_capacity c) addr token ! m = probe (bc_capacity c) addr token ! k"
      using bc_okD(4) [OF assms(1)] assms(2) k(2) by blast
    moreover have "m < bc_capacity c" using k(1) that by simp
    ultimately have "m = k" using probe_inject [OF k(1)] by blast
    then show False using that by simp
  qed
  then show ?thesis using that k by blast
qed

lemma balance_of_stored: assumes "bc_ok c" "stored c addr token i" shows "cached_balance c addr token = be_balance (bc_entries c ! i)"
proof -
  have "List.find (\<lambda>e. \<not> is_free e \<and> entry_of addr token e) (bc_entries c) = Some (bc_entries c ! i)"
  proof (rule find_at)
    show "i < length (bc_entries c)" using assms by (simp add: stored_def bc_okD(2))
    show "\<not> is_free (bc_entries c ! i) \<and> entry_of addr token (bc_entries c ! i)" using assms by (simp add: stored_def)
    show "\<not> (\<not> is_free (bc_entries c ! m) \<and> entry_of addr token (bc_entries c ! m))" if "m < i" for m
      using bc_okD(4) [OF assms(1) assms(2), of m] assms(2) that unfolding stored_def by auto
  qed
  then show ?thesis by (simp add: cached_balance_def)
qed

lemma balance_of_absent: "bc_ok c \<Longrightarrow> \<forall>i. \<not> stored c addr token i \<Longrightarrow> cached_balance c addr token = 0"
  unfolding cached_balance_def stored_def by (auto simp: find_None_iff in_set_conv_nth bc_okD(2) split: option.split)
   (metis bc_okD(2) find_Some_iff)

lemma balance_cache_get_balance:
  assumes "bc_ok c" shows "fst (balance_cache_get addr token c) = cached_balance c addr token"
proof (cases "\<exists>i. stored c addr token i")
  case True
  then obtain i where i: "stored c addr token i" by blast
  from bc_ok_path [OF assms i] obtain k where k: "k < bc_capacity c" "probe (bc_capacity c) addr token ! k = i"
    "\<And>m. m \<le> k \<Longrightarrow> \<not> is_free (bc_entries c ! (probe (bc_capacity c) addr token ! m))"
    "\<And>m. m < k \<Longrightarrow> \<not> entry_of addr token (bc_entries c ! (probe (bc_capacity c) addr token ! m))" by blast
  have "get_scan (entry_of addr token) (bc_entries c) (probe (bc_capacity c) addr token) = Some (probe (bc_capacity c) addr token ! k)"
    using k i by (intro get_scan_at) (auto simp: stored_def)
  then show ?thesis using k(2) balance_of_stored [OF assms i] by (simp add: balance_cache_get_def)
next
  case False
  have "be_balance (bc_entries c ! i) = 0"
    if "get_scan (entry_of addr token) (bc_entries c) (probe (bc_capacity c) addr token) = Some i" for i
  proof -
    have "i \<in> set (probe (bc_capacity c) addr token)" "entry_of addr token (bc_entries c ! i)"
      using get_scan_SomeD [OF that] by blast+
    then have "i < bc_capacity c" "is_free (bc_entries c ! i)"
      using False set_probe unfolding stored_def by blast+
    then show ?thesis by (rule bc_okD(3) [OF assms])
  qed
  then show ?thesis using False balance_of_absent [OF assms] by (simp add: balance_cache_get_def split: option.split)
qed

lemma balance_cache_get_same [simp]:
  "bc_entries (snd (balance_cache_get addr token c)) = bc_entries c" "bc_capacity (snd (balance_cache_get addr token c)) = bc_capacity c"
  "bc_count (snd (balance_cache_get addr token c)) = bc_count c"
  by (simp_all add: balance_cache_get_def split: option.split)

section \<open>Updates\<close>

lemma bc_ok_create: "0 < capacity \<Longrightarrow> bc_ok (balance_cache_create capacity)"
  by (auto simp: bc_ok_def balance_cache_create_def stored_def zero_entry_def is_free_def)

lemma has_room_count: "bc_ok c \<Longrightarrow> has_room c \<longleftrightarrow> bc_count c < bc_capacity c"
proof -
  assume ok: "bc_ok c"
  let ?A = "{i. i < bc_capacity c \<and> \<not> is_free (bc_entries c ! i)}"
  have c: "bc_count c = card ?A" using ok by (simp add: bc_ok_def)
  have s: "?A \<subseteq> {..<bc_capacity c}" by auto
  show ?thesis
  proof
    assume "has_room c"
    then obtain i where "i < bc_capacity c" "is_free (bc_entries c ! i)" unfolding has_room_def by blast
    then have "i \<in> {..<bc_capacity c}" "i \<notin> ?A" by simp_all
    then have "?A \<subset> {..<bc_capacity c}" using s by blast
    then have "card ?A < card {..<bc_capacity c}" by (intro psubset_card_mono) simp_all
    then show "bc_count c < bc_capacity c" by (simp add: c)
  next
    assume "bc_count c < bc_capacity c"
    then have "card ?A \<noteq> card {..<bc_capacity c}" unfolding c by simp
    then have "?A \<noteq> {..<bc_capacity c}" by (rule contrapos_nn) (rule arg_cong)
    then obtain i where "i < bc_capacity c" "i \<notin> ?A" using s by blast
    then show "has_room c" unfolding has_room_def by blast
  qed
qed

definition admits :: "balance_cache \<Rightarrow> bytes \<Rightarrow> token_id \<Rightarrow> bool" where
  "admits c addr token \<longleftrightarrow> has_room c \<or> (\<exists>i. stored c addr token i)"

lemma update_stored:
  assumes "bc_ok c" "stored c addr token i"
  shows "bc_entries (balance_cache_update addr token delta c) =
      (bc_entries c)[i := (bc_entries c ! i)\<lparr>be_balance := be_balance (bc_entries c ! i) + delta\<rparr>] \<and>
    bc_count (balance_cache_update addr token delta c) = bc_count c"
proof -
  from bc_ok_path [OF assms] obtain k where k: "k < bc_capacity c" "probe (bc_capacity c) addr token ! k = i"
    "\<And>m. m \<le> k \<Longrightarrow> \<not> is_free (bc_entries c ! (probe (bc_capacity c) addr token ! m))"
    "\<And>m. m < k \<Longrightarrow> \<not> entry_of addr token (bc_entries c ! (probe (bc_capacity c) addr token ! m))" by blast
  have "List.find (\<lambda>i. is_free (bc_entries c ! i) \<or> entry_of addr token (bc_entries c ! i)) (probe (bc_capacity c) addr token) =
      Some (probe (bc_capacity c) addr token ! k)"
    using k assms(2) by (intro find_at) (auto simp: stored_def)
  then show ?thesis using k(2) assms(2) by (simp add: balance_cache_update_def stored_def)
qed

lemma update_new:
  assumes "bc_ok c" "\<forall>i. \<not> stored c addr token i" "has_room c"
  obtains k where "k < bc_capacity c" "is_free (bc_entries c ! (probe (bc_capacity c) addr token ! k))"
    "\<And>m. m < k \<Longrightarrow> \<not> is_free (bc_entries c ! (probe (bc_capacity c) addr token ! m))"
    "bc_entries (balance_cache_update addr token delta c) =
       (bc_entries c)[probe (bc_capacity c) addr token ! k := new_entry addr token delta]"
    "bc_count (balance_cache_update addr token delta c) = bc_count c + 1"
proof -
  let ?p = "probe (bc_capacity c) addr token"
  obtain i where "i < bc_capacity c" "is_free (bc_entries c ! i)" using assms(3) unfolding has_room_def by blast
  then obtain k0 where k0: "k0 < bc_capacity c \<and> is_free (bc_entries c ! (?p ! k0))" using probe_surj by metis
  define k where "k = (LEAST k. k < bc_capacity c \<and> is_free (bc_entries c ! (?p ! k)))"
  have k: "k < bc_capacity c" "is_free (bc_entries c ! (?p ! k))" using LeastI [of "\<lambda>k. k < bc_capacity c \<and> is_free (bc_entries c ! (?p ! k))", OF k0]
    unfolding k_def by blast+
  have before: "\<not> is_free (bc_entries c ! (?p ! m))" if "m < k" for m
    using not_less_Least [OF that [unfolded k_def]] that k(1) by auto
  have "\<not> entry_of addr token (bc_entries c ! (?p ! m))" if "m < k" for m
    using assms(2) before [OF that] probe_bound [of m "bc_capacity c" addr token] that k(1) unfolding stored_def by auto
  then have f: "List.find (\<lambda>i. is_free (bc_entries c ! i) \<or> entry_of addr token (bc_entries c ! i)) ?p = Some (?p ! k)"
    using k before by (intro find_at) auto
  show ?thesis by (rule that [OF k before]) (use f k(2) in \<open>simp_all add: balance_cache_update_def\<close>)
qed

lemma update_full:
  assumes "\<forall>i. \<not> stored c addr token i" "\<not> has_room c"
  shows "bc_entries (balance_cache_update addr token delta c) = bc_entries c \<and>
    bc_count (balance_cache_update addr token delta c) = bc_count c"
proof -
  have "List.find (\<lambda>i. is_free (bc_entries c ! i) \<or> entry_of addr token (bc_entries c ! i)) (probe (bc_capacity c) addr token) = None"
    using assms set_probe unfolding find_None_iff stored_def has_room_def by blast
  then show ?thesis by (simp add: balance_cache_update_def)
qed

lemma update_capacity [simp]: "bc_capacity (balance_cache_update addr token delta c) = bc_capacity c"
  by (simp add: balance_cache_update_def split: option.split)

text \<open>the cases of an update, by what it does to the entries\<close>

lemma update_cases:
  assumes "bc_ok c"
  obtains (old) i where "stored c addr token i" | (fresh) "\<forall>i. \<not> stored c addr token i" "has_room c"
    | (full) "\<forall>i. \<not> stored c addr token i" "\<not> has_room c"
  by blast

lemma bc_ok_cong:
  assumes "bc_ok c" "bc_capacity d = bc_capacity c" "length (bc_entries d) = length (bc_entries c)" "bc_count d = bc_count c"
    and same: "\<And>m. m < bc_capacity c \<Longrightarrow> be_address (bc_entries d ! m) = be_address (bc_entries c ! m) \<and>
      be_token_id (bc_entries d ! m) = be_token_id (bc_entries c ! m) \<and>
      is_free (bc_entries d ! m) = is_free (bc_entries c ! m) \<and> (is_free (bc_entries c ! m) \<longrightarrow> be_balance (bc_entries d ! m) = 0)"
  shows "bc_ok d" "\<And>a t i. stored d a t i = stored c a t i"
proof -
  note l = bc_okD(1,2) [OF assms(1)]
  show st: "stored d a t i = stored c a t i" for a t i
    using same [of i] unfolding stored_def entry_of_def assms(2) by auto
  have f: "\<And>m. m < bc_capacity c \<Longrightarrow> is_free (bc_entries d ! m) = is_free (bc_entries c ! m)" using same by blast
  have "\<exists>k < bc_capacity c. probe (bc_capacity c) a t ! k = i \<and> (\<forall>m \<le> k. \<not> is_free (bc_entries d ! (probe (bc_capacity c) a t ! m)))"
    if s: "stored c a t i" for a t i
  proof -
    obtain k where "k < bc_capacity c" "probe (bc_capacity c) a t ! k = i"
      "\<And>m. m \<le> k \<Longrightarrow> \<not> is_free (bc_entries c ! (probe (bc_capacity c) a t ! m))"
      using bc_ok_path [OF assms(1) s] by blast
    moreover from this have "\<And>m. m \<le> k \<Longrightarrow> probe (bc_capacity c) a t ! m < bc_capacity c" by (auto intro: probe_bound)
    ultimately show ?thesis using f by blast
  qed
  moreover have "\<forall>e \<in> set (bc_entries d). is_free e \<longrightarrow> be_balance e = 0"
    using same f l assms(3) by (auto simp: in_set_conv_nth)
  moreover have "{i. i < bc_capacity c \<and> \<not> is_free (bc_entries d ! i)} = {i. i < bc_capacity c \<and> \<not> is_free (bc_entries c ! i)}"
    using f by auto
  moreover have "bc_count c = card {i. i < bc_capacity c \<and> \<not> is_free (bc_entries c ! i)}" using assms(1) unfolding bc_ok_def by blast
  ultimately show "bc_ok d"
    unfolding bc_ok_def st assms(2,3,4) using l bc_okD(4) [OF assms(1)] by auto
qed

text \<open>a new entry at the first free index of its probe sequence\<close>

lemma bc_ok_insert:
  assumes ok: "bc_ok c" and fresh: "\<forall>i. \<not> stored c addr token i"
    and k: "k < bc_capacity c" "is_free (bc_entries c ! (probe (bc_capacity c) addr token ! k))"
      "\<And>m. m < k \<Longrightarrow> \<not> is_free (bc_entries c ! (probe (bc_capacity c) addr token ! m))"
    and d: "bc_entries d = (bc_entries c)[probe (bc_capacity c) addr token ! k := new_entry addr token delta]"
      "bc_count d = bc_count c + 1" "bc_capacity d = bc_capacity c"
  shows "bc_ok d"
    "\<And>a t i. stored d a t i \<longleftrightarrow> stored c a t i \<or> i = probe (bc_capacity c) addr token ! k \<and> a = addr \<and> t = token"
proof -
  let ?j = "probe (bc_capacity c) addr token ! k"
  note l = bc_okD(1,2) [OF ok]
  have j: "?j < bc_capacity c" using k(1) by (rule probe_bound)
  have at: "bc_entries d ! m = (if m = ?j then new_entry addr token delta else bc_entries c ! m)" if "m < bc_capacity c" for m
    using that j l(2) by (simp add: d(1))
  have e: "\<not> is_free (new_entry addr token delta)" "entry_of a t (new_entry addr token delta) \<longleftrightarrow> a = addr \<and> t = token" for a t
    by (auto simp: new_entry_def is_free_def entry_of_def)
  show st: "stored d a t i \<longleftrightarrow> stored c a t i \<or> i = ?j \<and> a = addr \<and> t = token" for a t i
    using j k(2) at [of i] e by (cases "i = ?j") (auto simp: stored_def d(3))
  have keep: "\<not> is_free (bc_entries d ! m)" if "m < bc_capacity c" "\<not> is_free (bc_entries c ! m)" for m
    using at [OF that(1)] that(2) e(1) by simp
  have path: "\<exists>k < bc_capacity c. probe (bc_capacity c) a t ! k = i \<and> (\<forall>m \<le> k. \<not> is_free (bc_entries d ! (probe (bc_capacity c) a t ! m)))"
    if s: "stored d a t i" for a t i
  proof (cases "stored c a t i")
    case True
    obtain n where n: "n < bc_capacity c" "probe (bc_capacity c) a t ! n = i"
      "\<And>m. m \<le> n \<Longrightarrow> \<not> is_free (bc_entries c ! (probe (bc_capacity c) a t ! m))"
      using bc_ok_path [OF ok True] by blast
    have "\<not> is_free (bc_entries d ! (probe (bc_capacity c) a t ! m))" if "m \<le> n" for m
      using n(1) that by (intro keep n(3) probe_bound) simp_all
    then show ?thesis using n(1,2) by blast
  next
    case False
    then have new: "i = ?j" "a = addr" "t = token" using s st by blast+
    have "\<not> is_free (bc_entries d ! (probe (bc_capacity c) a t ! m))" if "m \<le> k" for m
    proof (cases "m = k")
      case True
      then show ?thesis using at [OF j] e(1) by (simp add: new)
    next
      case False
      then show ?thesis using k(1) that unfolding new by (intro keep k(3) probe_bound) simp_all
    qed
    then show ?thesis using k(1) new by blast
  qed
  have "{i. i < bc_capacity c \<and> \<not> is_free (bc_entries d ! i)} = insert ?j {i. i < bc_capacity c \<and> \<not> is_free (bc_entries c ! i)}"
    using j at e(1) by (auto split: if_splits)
  moreover have "?j \<notin> {i. i < bc_capacity c \<and> \<not> is_free (bc_entries c ! i)}" using k(2) by simp
  moreover have "bc_count c = card {i. i < bc_capacity c \<and> \<not> is_free (bc_entries c ! i)}" using ok unfolding bc_ok_def by blast
  ultimately have count: "bc_count d = card {i. i < bc_capacity c \<and> \<not> is_free (bc_entries d ! i)}"
    by (simp add: d(2))
  have zero: "is_free e \<longrightarrow> be_balance e = 0" if mem: "e \<in> set (bc_entries d)" for e
  proof -
    have "length (bc_entries d) = bc_capacity c" using l(2) by (simp add: d(1))
    then obtain m where "m < bc_capacity c" "e = bc_entries d ! m" using mem unfolding in_set_conv_nth by metis
    then show ?thesis using at e(1) bc_okD(3) [OF ok] by auto
  qed
  have once: "i = i'" if "stored d a t i" "stored d a t i'" for a t i i'
  proof (cases "a = addr \<and> t = token")
    case True
    then have "i = ?j" "i' = ?j" using that fresh unfolding st by auto
    then show ?thesis by simp
  next
    case False
    then have "stored c a t i" "stored c a t i'" using that unfolding st by auto
    then show ?thesis by (rule bc_okD(4) [OF ok])
  qed
  have "length (bc_entries d) = bc_capacity c" using l(2) by (simp add: d(1))
  then show "bc_ok d" unfolding bc_ok_def using l(1) count zero path once unfolding d(3) by blast
qed

lemma bc_ok_update:
  assumes ok: "bc_ok c" shows "bc_ok (balance_cache_update addr token delta c)"
    "cached_balance (balance_cache_update addr token delta c) a t =
       (if a = addr \<and> t = token \<and> admits c addr token then cached_balance c a t + delta else cached_balance c a t)"
proof -
  let ?d = "balance_cache_update addr token delta c"
  have "bc_ok ?d \<and> cached_balance ?d a t =
      (if a = addr \<and> t = token \<and> admits c addr token then cached_balance c a t + delta else cached_balance c a t)"
    using ok
  proof (cases rule: update_cases [where addr = addr and token = token])
    case (old i)
    note u = update_stored [OF ok old, of delta]
    have i: "i < bc_capacity c" "i < length (bc_entries c)" using old bc_okD(2) [OF ok] by (auto simp: stored_def)
    have at: "bc_entries ?d ! m = (if m = i then (bc_entries c ! i)\<lparr>be_balance := be_balance (bc_entries c ! i) + delta\<rparr> else bc_entries c ! m)"
      if "m < bc_capacity c" for m using u that i by simp
    have s: "bc_ok ?d" "stored ?d a' t' i' = stored c a' t' i'" for a' t' i'
      by (rule bc_ok_cong [OF ok update_capacity]; use u at old bc_okD(3) [OF ok] in \<open>auto simp: is_free_def stored_def\<close>)+
    show ?thesis
    proof (cases "\<exists>j. stored c a t j")
      case True
      then obtain j where j: "stored c a t j" by blast
      have "j < bc_capacity c" using j by (simp add: stored_def)
      moreover have "j = i \<longleftrightarrow> a = addr \<and> t = token"
        using j old bc_okD(4) [OF ok] by (auto simp: stored_def entry_of_def)
      ultimately have "cached_balance ?d a t = (if a = addr \<and> t = token then cached_balance c a t + delta else cached_balance c a t)"
        using at balance_of_stored [OF ok j] balance_of_stored [OF s(1), of a t j] j s(2) by auto
      then show ?thesis using s(1) old by (auto simp: admits_def)
    next
      case False
      then have "cached_balance ?d a t = 0" "cached_balance c a t = 0" using s ok by (auto intro: balance_of_absent)
      then show ?thesis using s(1) False old by auto
    qed
  next
    case fresh
    obtain k where k: "k < bc_capacity c" "is_free (bc_entries c ! (probe (bc_capacity c) addr token ! k))"
      "\<And>m. m < k \<Longrightarrow> \<not> is_free (bc_entries c ! (probe (bc_capacity c) addr token ! m))"
      "bc_entries ?d = (bc_entries c)[probe (bc_capacity c) addr token ! k := new_entry addr token delta]"
      "bc_count ?d = bc_count c + 1"
      using update_new [OF ok fresh] by metis
    let ?j = "probe (bc_capacity c) addr token ! k"
    note s = bc_ok_insert [OF ok fresh(1) k update_capacity]
    have j: "?j < bc_capacity c" "?j < length (bc_entries c)" using k(1) bc_okD(2) [OF ok] by (simp_all add: probe_bound)
    show ?thesis
    proof (cases "a = addr \<and> t = token")
      case True
      then have "cached_balance ?d a t = be_balance (bc_entries ?d ! ?j)" using s by (intro balance_of_stored) auto
      then have "cached_balance ?d a t = delta" using k(4) j by (simp add: new_entry_def)
      moreover have "cached_balance c a t = 0" using True fresh(1) ok by (intro balance_of_absent) auto
      ultimately show ?thesis using s(1) fresh(2) True by (simp add: admits_def)
    next
      case other: False
      have "cached_balance ?d a t = cached_balance c a t"
      proof (cases "\<exists>m. stored c a t m")
        case True
        then obtain m where m: "stored c a t m" by blast
        then have "m \<noteq> ?j" using k(2) by (auto simp: stored_def)
        then have "bc_entries ?d ! m = bc_entries c ! m" using k(4) by simp
        then show ?thesis using balance_of_stored [OF ok m] balance_of_stored [OF s(1), of a t m] m s(2) by simp
      next
        case False
        then have "cached_balance ?d a t = 0" "cached_balance c a t = 0" using s other ok by (auto intro!: balance_of_absent)
        then show ?thesis by simp
      qed
      then show ?thesis using s(1) other by auto
    qed
  next
    case full
    note u = update_full [OF full, of delta]
    have s: "bc_ok ?d" "stored ?d a' t' i' = stored c a' t' i'" for a' t' i'
      by (rule bc_ok_cong [OF ok update_capacity]; use u bc_okD(3) [OF ok] in auto)+
    have "cached_balance ?d a t = cached_balance c a t" using u by (simp add: cached_balance_def)
    then show ?thesis using s(1) full by (auto simp: admits_def)
  qed
  then show "bc_ok ?d" "cached_balance ?d a t =
      (if a = addr \<and> t = token \<and> admits c addr token then cached_balance c a t + delta else cached_balance c a t)" by simp_all
qed

definition known :: "balance_cache \<Rightarrow> bytes \<Rightarrow> token_id \<Rightarrow> bool" where
  "known c addr token \<longleftrightarrow> (\<exists>i. stored c addr token i)"

lemma update_known:
  assumes ok: "bc_ok c" and "admits c addr token"
  shows "known (balance_cache_update addr token delta c) a t \<longleftrightarrow> known c a t \<or> a = addr \<and> t = token"
    "bc_count (balance_cache_update addr token delta c) = (if known c addr token then bc_count c else bc_count c + 1)"
proof -
  let ?d = "balance_cache_update addr token delta c"
  have "(known ?d a t \<longleftrightarrow> known c a t \<or> a = addr \<and> t = token) \<and> bc_count ?d = (if known c addr token then bc_count c else bc_count c + 1)"
    using ok
  proof (cases rule: update_cases [where addr = addr and token = token])
    case (old i)
    have u: "bc_entries ?d = (bc_entries c)[i := (bc_entries c ! i)\<lparr>be_balance := be_balance (bc_entries c ! i) + delta\<rparr>]" "bc_count ?d = bc_count c"
      using update_stored [OF ok old] by blast+
    have "i < length (bc_entries c)" using old bc_okD(2) [OF ok] by (simp add: stored_def)
    then have "stored ?d a t m = stored c a t m" for m
      unfolding stored_def u(1) by (cases "m = i") (auto simp: is_free_def entry_of_def)
    then show ?thesis using old u(2) by (auto simp: known_def)
  next
    case fresh
    obtain k where k: "k < bc_capacity c" "is_free (bc_entries c ! (probe (bc_capacity c) addr token ! k))"
      "\<And>m. m < k \<Longrightarrow> \<not> is_free (bc_entries c ! (probe (bc_capacity c) addr token ! m))"
      "bc_entries ?d = (bc_entries c)[probe (bc_capacity c) addr token ! k := new_entry addr token delta]"
      "bc_count ?d = bc_count c + 1"
      using update_new [OF ok fresh] by metis
    show ?thesis using bc_ok_insert(2) [OF ok fresh(1) k update_capacity] k(5) fresh(1) unfolding known_def by auto
  next
    case full
    then show ?thesis using assms(2) by (simp add: admits_def)
  qed
  then show "known ?d a t \<longleftrightarrow> known c a t \<or> a = addr \<and> t = token"
    "bc_count ?d = (if known c addr token then bc_count c else bc_count c + 1)" by blast+
qed

definition key_of :: "bytes \<times> token_id \<times> amount \<Rightarrow> bytes \<times> token_id" where
  "key_of u = (fst u, fst (snd u))"

definition run_updates :: "(bytes \<times> token_id \<times> amount) list \<Rightarrow> balance_cache \<Rightarrow> balance_cache" where
  "run_updates us c = foldl (\<lambda>c (addr, token, delta). balance_cache_update addr token delta c) c us"

lemma run_updates_props:
  assumes "0 < n" "card (key_of ` set us) \<le> n"
  shows "bc_ok (run_updates us (balance_cache_create n)) \<and>
    bc_capacity (run_updates us (balance_cache_create n)) = n \<and>
    bc_count (run_updates us (balance_cache_create n)) = card (key_of ` set us) \<and>
    (\<forall>a t. known (run_updates us (balance_cache_create n)) a t \<longleftrightarrow> (a, t) \<in> key_of ` set us) \<and>
    (\<forall>a t. cached_balance (run_updates us (balance_cache_create n)) a t =
      (\<Sum>u\<leftarrow>us. if key_of u = (a, t) then snd (snd u) else 0))"
  using assms(2)
proof (induction us rule: rev_induct)
  case Nil
  have "\<not> stored (balance_cache_create n) a t i" for a t i
    by (simp add: stored_def balance_cache_create_def zero_entry_def is_free_def)
  then show ?case using bc_ok_create [OF assms(1)]
    by (simp add: run_updates_def known_def balance_of_absent) (simp add: balance_cache_create_def)
next
  case (snoc u us)
  obtain addr token delta where u: "u = (addr, token, delta)" by (cases u)
  let ?c = "run_updates us (balance_cache_create n)"
  have step: "run_updates (us @ [u]) (balance_cache_create n) = balance_cache_update addr token delta ?c"
    by (simp add: run_updates_def u)
  have "key_of ` set us \<subseteq> key_of ` set (us @ [u])" by auto
  then have "card (key_of ` set us) \<le> n" using snoc.prems card_mono [of "key_of ` set (us @ [u])" "key_of ` set us"] by simp
  note IH = snoc.IH [OF this]
  have ok: "bc_ok ?c" using IH by blast
  have new: "card (key_of ` set us) < n" if "\<not> known ?c addr token"
    using that snoc.prems IH by (simp add: u key_of_def)
  have ad: "admits ?c addr token"
    unfolding admits_def has_room_count [OF ok] using IH new unfolding known_def by force
  note k = update_known [OF ok ad, of delta]
  show ?case unfolding step
    using bc_ok_update [OF ok, of addr token delta] k IH ad by (auto simp: u key_of_def card_insert_if)
qed

text \<open>
  C33: The table stands for the map of balances. After any updates with at most as many
  pairs of address and token as the table has room for, a lookup gives the sum, modulo
  two to the 64, of what was added for the pair, and the counter is the number of pairs. An update for one
  pair more is lost.
\<close>

theorem balances_refine_map:
  assumes "0 < n" "card (key_of ` set us) \<le> n"
  shows "fst (balance_cache_get addr token (run_updates us (balance_cache_create n))) =
      (\<Sum>u\<leftarrow>us. if key_of u = (addr, token) then snd (snd u) else 0) \<and>
    bc_count (run_updates us (balance_cache_create n)) = card (key_of ` set us) \<and>
    (card (key_of ` set us) = n \<longrightarrow> (addr, token) \<notin> key_of ` set us \<longrightarrow>
      fst (balance_cache_get addr token (balance_cache_update addr token delta (run_updates us (balance_cache_create n)))) = 0)"
proof (intro conjI impI)
  let ?c = "run_updates us (balance_cache_create n)"
  note props = run_updates_props [OF assms]
  have ok: "bc_ok ?c" using props by blast
  show "fst (balance_cache_get addr token ?c) = (\<Sum>u\<leftarrow>us. if key_of u = (addr, token) then snd (snd u) else 0)"
    using props by (simp add: balance_cache_get_balance)
  show "bc_count ?c = card (key_of ` set us)" using props by blast
  assume full: "card (key_of ` set us) = n" "(addr, token) \<notin> key_of ` set us"
  then have "\<not> admits ?c addr token" "\<not> known ?c addr token"
    using props unfolding admits_def has_room_count [OF ok] by (simp_all add: known_def)
  then have "cached_balance (balance_cache_update addr token delta ?c) addr token = 0"
    using bc_ok_update(2) [OF ok] balance_of_absent [OF ok] by (simp add: known_def)
  then show "fst (balance_cache_get addr token (balance_cache_update addr token delta ?c)) = 0"
    by (simp add: balance_cache_get_balance bc_ok_update(1) [OF ok])
qed

theorem balances_refine_map_witness:
  "fst (balance_cache_get [1, 0] 7 (run_updates [([1, 0], 7, 5), ([2, 0], 7, 1), ([1, 0], 7, 3)] (balance_cache_create 2))) = 8"
  using balances_refine_map [where n = 2 and us = "[([1, 0], 7, 5), ([2, 0], 7, 1), ([1, 0], 7, 3)]" and addr = "[1, 0]" and token = 7]
  by (simp add: key_of_def card_insert_if)

end
