(* ===== verification/Tok_Pool.thy ===== *)
theory Tok_Pool
  imports Bank_Prelude
begin

text \<open>
  The ring of pending transactions of \<open>1-to-file/main_file.cpp\<close> and the queue it stands for. The
  slots are memory: what is in them before the first write is a parameter. Events and
  allocation are left out.
\<close>

section \<open>Counters\<close>

lemma unat_Suc: "unat x < 2 ^ 64 - 1 \<Longrightarrow> unat (x + 1 :: u64) = Suc (unat x)"
  by (simp add: unat_word_ariths)

lemma unat_less_max: "x < (y :: u64) \<Longrightarrow> unat x < 2 ^ 64 - 1"
  using unsigned_less [of y, where ?'a = nat] by (simp add: word_less_nat_alt)

section \<open>The ring\<close>

record 'a transaction_pool =
  tp_pool :: "'a list"
  tp_head :: u64
  tp_tail :: u64
  tp_size :: u64
  tp_capacity :: u64
  tp_total_added :: u64
  tp_total_removed :: u64

definition transaction_pool_create :: "'a list \<Rightarrow> 'a transaction_pool" where
  "transaction_pool_create memory = \<lparr>tp_pool = memory, tp_head = 0, tp_tail = 0, tp_size = 0,
     tp_capacity = of_nat (length memory), tp_total_added = 0, tp_total_removed = 0\<rparr>"

definition slot :: "u64 \<Rightarrow> 'a transaction_pool \<Rightarrow> nat" where
  "slot i p = unat (i mod tp_capacity p)"

definition transaction_pool_add :: "'a \<Rightarrow> 'a transaction_pool \<Rightarrow> bool \<times> 'a transaction_pool" where
  "transaction_pool_add tx p =
     (if tp_capacity p \<le> tp_size p then (False, p)
      else (True, p\<lparr>tp_pool := (tp_pool p)[slot (tp_tail p) p := tx], tp_tail := tp_tail p + 1,
                     tp_size := tp_size p + 1, tp_total_added := tp_total_added p + 1\<rparr>))"

definition transaction_pool_pop :: "'a transaction_pool \<Rightarrow> 'a option \<times> 'a transaction_pool" where
  "transaction_pool_pop p =
     (if tp_size p = 0 then (None, p)
      else (Some (tp_pool p ! slot (tp_head p) p), p\<lparr>tp_head := tp_head p + 1, tp_size := tp_size p - 1,
              tp_total_removed := tp_total_removed p + 1\<rparr>))"

definition transaction_pool_peek :: "'a transaction_pool \<Rightarrow> 'a option" where
  "transaction_pool_peek p = (if tp_size p = 0 then None else Some (tp_pool p ! slot (tp_head p) p))"

text \<open>\<open>transaction_pool_remove_by_hash\<close>, which removes nothing\<close>

function search_from :: "('a \<Rightarrow> bool) \<Rightarrow> 'a transaction_pool \<Rightarrow> u64 \<Rightarrow> bool" where
  "search_from has_hash p current =
     (if current < tp_tail p
      then has_hash (tp_pool p ! slot current p) \<or> search_from has_hash p (current + 1)
      else False)"
  by pat_completeness auto
termination
proof (relation "measure (\<lambda>(h, p, current). unat (tp_tail p) - unat current)")
  fix h :: "'a \<Rightarrow> bool" and p :: "'a transaction_pool" and current :: u64
  assume "current < tp_tail p"
  then have "unat (current + 1) = Suc (unat current)" "unat current < unat (tp_tail p)"
    using unat_Suc [OF unat_less_max] by (auto simp: word_less_nat_alt)
  then show "((h, p, current + 1), h, p, current) \<in> measure (\<lambda>(h, p, current). unat (tp_tail p) - unat current)" by simp
qed simp

declare search_from.simps [simp del]

definition transaction_pool_remove_by_hash :: "('a \<Rightarrow> bool) \<Rightarrow> 'a transaction_pool \<Rightarrow> bool \<times> 'a transaction_pool" where
  "transaction_pool_remove_by_hash has_hash p = (search_from has_hash p (tp_head p), p)"

section \<open>The queue\<close>

definition queue_of :: "'a transaction_pool \<Rightarrow> 'a list" where
  "queue_of p = map (\<lambda>k. tp_pool p ! ((unat (tp_head p) + k) mod unat (tp_capacity p))) [0..<unat (tp_size p)]"

text \<open>
  The counters agree, and fewer than two to the 64 transactions have been added (the capacity does
  not divide that number, so the ring would jump when a counter wraps).
\<close>

definition tp_ok :: "'a transaction_pool \<Rightarrow> bool" where
  "tp_ok p \<longleftrightarrow> 0 < tp_capacity p \<and> length (tp_pool p) = unat (tp_capacity p) \<and> tp_size p \<le> tp_capacity p \<and>
     unat (tp_head p) + unat (tp_size p) = unat (tp_tail p) \<and>
     tp_total_added p = tp_tail p \<and> tp_total_removed p = tp_head p"

lemma slot_nat: "slot i p = unat i mod unat (tp_capacity p)"
  by (simp add: slot_def unat_mod)

lemma length_queue: "length (queue_of p) = unat (tp_size p)"
  by (simp add: queue_of_def)

lemma tp_okD:
  assumes "tp_ok p"
  shows "0 < unat (tp_capacity p)" "length (tp_pool p) = unat (tp_capacity p)" "unat (tp_size p) \<le> unat (tp_capacity p)"
    "unat (tp_head p) + unat (tp_size p) = unat (tp_tail p)"
  using assms by (simp_all add: tp_ok_def word_less_nat_alt word_le_nat_alt unat_gt_0)

text \<open>positions of the ring less than a capacity apart are different\<close>

lemma ring_distinct: "k < n \<Longrightarrow> 0 < n \<Longrightarrow> 0 < k \<Longrightarrow> (h + k) mod n \<noteq> h mod (n :: nat)"
proof
  assume "k < n" "0 < n" "0 < k" "(h + k) mod n = h mod n"
  then have "n dvd k" by (metis add_diff_cancel_left' mod_eq_dvd_iff_nat le_add1)
  then show False using \<open>k < n\<close> \<open>0 < k\<close> by (simp add: nat_dvd_not_less)
qed

lemma add_refines:
  assumes ok: "tp_ok p" and room: "tp_size p < tp_capacity p" and small: "unat (tp_tail p) < 2 ^ 64 - 1"
  shows "tp_ok (snd (transaction_pool_add tx p))" "queue_of (snd (transaction_pool_add tx p)) = queue_of p @ [tx]"
    "fst (transaction_pool_add tx p)"
proof -
  note d = tp_okD [OF ok]
  have s: "unat (tp_size p + 1) = Suc (unat (tp_size p))" by (rule unat_Suc [OF unat_less_max [OF room]])
  have t: "unat (tp_tail p + 1) = Suc (unat (tp_tail p))" by (rule unat_Suc [OF small])
  let ?q = "snd (transaction_pool_add tx p)"
  have q: "?q = p\<lparr>tp_pool := (tp_pool p)[slot (tp_tail p) p := tx], tp_tail := tp_tail p + 1,
      tp_size := tp_size p + 1, tp_total_added := tp_total_added p + 1\<rparr>"
    using room by (simp add: transaction_pool_add_def)
  show "fst (transaction_pool_add tx p)" using room by (simp add: transaction_pool_add_def)
  have "unat (tp_size p + 1) \<le> unat (tp_capacity p)" using room unfolding s by (simp add: word_less_nat_alt)
  then show "tp_ok ?q" using ok s t unfolding tp_ok_def q by (simp add: word_le_nat_alt)
  have "(tp_pool p)[slot (tp_tail p) p := tx] ! ((unat (tp_head p) + k) mod unat (tp_capacity p)) =
      tp_pool p ! ((unat (tp_head p) + k) mod unat (tp_capacity p))" if k: "k < unat (tp_size p)" for k
  proof -
    have "unat (tp_tail p) = (unat (tp_head p) + k) + (unat (tp_size p) - k)" using d(4) k by simp
    moreover have "unat (tp_size p) - k < unat (tp_capacity p)" "0 < unat (tp_size p) - k"
      using k room by (simp_all add: word_less_nat_alt)
    ultimately have "slot (tp_tail p) p \<noteq> (unat (tp_head p) + k) mod unat (tp_capacity p)"
      unfolding slot_nat using ring_distinct [OF _ d(1)] by metis
    then show ?thesis by simp
  qed
  moreover have "(tp_pool p)[slot (tp_tail p) p := tx] ! ((unat (tp_head p) + unat (tp_size p)) mod unat (tp_capacity p)) = tx"
    unfolding d(4) slot_nat using d(1,2) by simp
  ultimately show "queue_of ?q = queue_of p @ [tx]"
    unfolding queue_of_def q by (simp add: s)
qed

lemma pop_refines:
  assumes ok: "tp_ok p" and some: "tp_size p \<noteq> 0"
  shows "tp_ok (snd (transaction_pool_pop p))" "fst (transaction_pool_pop p) = Some (hd (queue_of p))"
    "queue_of (snd (transaction_pool_pop p)) = tl (queue_of p)"
proof -
  note d = tp_okD [OF ok]
  have pos: "0 < unat (tp_size p)" using some by (simp add: unat_gt_0)
  have s: "unat (tp_size p - 1) = unat (tp_size p) - 1" using some by (simp add: unat_minus_one)
  have h: "unat (tp_head p + 1) = Suc (unat (tp_head p))"
    using unat_Suc [OF unat_less_max [of "tp_head p" "tp_tail p"]] d(4) pos by (simp add: word_less_nat_alt)
  let ?q = "snd (transaction_pool_pop p)"
  have q: "?q = p\<lparr>tp_head := tp_head p + 1, tp_size := tp_size p - 1, tp_total_removed := tp_total_removed p + 1\<rparr>"
    using some by (simp add: transaction_pool_pop_def)
  have "unat (tp_size p - 1) \<le> unat (tp_capacity p)" using d(3) unfolding s by linarith
  then show "tp_ok ?q" using ok s h pos unfolding tp_ok_def q by (simp add: word_le_nat_alt)
  have u: "[0..<unat (tp_size p)] = 0 # map Suc [0..<unat (tp_size p) - 1]"
    using pos by (simp add: upt_conv_Cons map_Suc_upt)
  show "fst (transaction_pool_pop p) = Some (hd (queue_of p))"
    using some unfolding queue_of_def u by (simp add: transaction_pool_pop_def slot_nat)
  show "queue_of ?q = tl (queue_of p)"
    unfolding queue_of_def q u by (simp add: s h)
qed

lemma search_from_queue:
  assumes "tp_ok p" "unat current + k = unat (tp_tail p)"
  shows "search_from P p current \<longleftrightarrow> (\<exists>m < k. P (tp_pool p ! ((unat current + m) mod unat (tp_capacity p))))"
  using assms(2)
proof (induction k arbitrary: current)
  case 0
  then show ?case by (subst search_from.simps) (simp add: word_less_nat_alt)
next
  case (Suc k)
  then have l: "current < tp_tail p" by (simp add: word_less_nat_alt)
  have s: "unat (current + 1) = Suc (unat current)" by (rule unat_Suc [OF unat_less_max [OF l]])
  have "search_from P p (current + 1) \<longleftrightarrow> (\<exists>m < k. P (tp_pool p ! ((unat (current + 1) + m) mod unat (tp_capacity p))))"
    using Suc s by simp
  moreover have "(\<exists>m < Suc k. Q m) \<longleftrightarrow> Q 0 \<or> (\<exists>m < k. Q (Suc m))" for Q by (metis Ex_less_Suc2)
  ultimately show ?case using l by (subst search_from.simps) (simp add: s slot_nat)
qed

text \<open>
  C34: The ring is a bounded queue: transactions come out in the order in which they went in, none
  is lost or given twice, and exactly when the queue is full one is refused. The function
  named \<open>transaction_pool_remove_by_hash\<close> says whether a transaction is in the queue and leaves it there.
\<close>

theorem pool_is_queue:
  assumes "tp_ok p" "unat (tp_tail p) < 2 ^ 64 - 1"
  shows "queue_of (snd (transaction_pool_add tx p)) =
      (if length (queue_of p) < unat (tp_capacity p) then queue_of p @ [tx] else queue_of p) \<and>
    fst (transaction_pool_add tx p) = (length (queue_of p) < unat (tp_capacity p)) \<and>
    (case queue_of p of
       [] \<Rightarrow> transaction_pool_pop p = (None, p) \<and> transaction_pool_peek p = None
     | x # xs \<Rightarrow> fst (transaction_pool_pop p) = Some x \<and> transaction_pool_peek p = Some x \<and> queue_of (snd (transaction_pool_pop p)) = xs) \<and>
    transaction_pool_remove_by_hash P p = (\<not> list_all (\<lambda>x. \<not> P x) (queue_of p), p) \<and>
    tp_ok (snd (transaction_pool_add tx p)) \<and> tp_ok (snd (transaction_pool_pop p))"
proof -
  note d = tp_okD [OF assms(1)]
  have full: "tp_size p < tp_capacity p \<longleftrightarrow> length (queue_of p) < unat (tp_capacity p)"
    by (simp add: length_queue word_less_nat_alt)
  have empty: "tp_size p = 0 \<longleftrightarrow> queue_of p = []"
    unfolding length_0_conv [symmetric] length_queue by (simp add: unat_eq_zero)
  have "search_from P p (tp_head p) \<longleftrightarrow> (\<exists>m < unat (tp_size p). P (queue_of p ! m))"
    using search_from_queue [OF assms(1) d(4), of P] by (auto simp: queue_of_def)
  then have "transaction_pool_remove_by_hash P p = (\<not> list_all (\<lambda>x. \<not> P x) (queue_of p), p)"
    by (simp add: transaction_pool_remove_by_hash_def list_all_length length_queue)
  moreover have "queue_of (snd (transaction_pool_add tx p)) =
      (if length (queue_of p) < unat (tp_capacity p) then queue_of p @ [tx] else queue_of p) \<and>
    fst (transaction_pool_add tx p) = (length (queue_of p) < unat (tp_capacity p)) \<and> tp_ok (snd (transaction_pool_add tx p))"
  proof (cases "tp_size p < tp_capacity p")
    case True
    then show ?thesis using add_refines [OF assms(1) True assms(2)] full by simp
  next
    case False
    then show ?thesis using full assms(1) by (simp add: transaction_pool_add_def)
  qed
  moreover have "(case queue_of p of
       [] \<Rightarrow> transaction_pool_pop p = (None, p) \<and> transaction_pool_peek p = None
     | x # xs \<Rightarrow> fst (transaction_pool_pop p) = Some x \<and> transaction_pool_peek p = Some x \<and> queue_of (snd (transaction_pool_pop p)) = xs) \<and>
    tp_ok (snd (transaction_pool_pop p))"
  proof (cases "queue_of p")
    case Nil
    then show ?thesis using empty assms(1) by (simp add: transaction_pool_pop_def transaction_pool_peek_def)
  next
    case (Cons x xs)
    then have "tp_size p \<noteq> 0" using empty by simp
    moreover from this have "transaction_pool_peek p = fst (transaction_pool_pop p)"
      by (simp add: transaction_pool_peek_def transaction_pool_pop_def)
    ultimately show ?thesis using pop_refines [OF assms(1)] Cons by simp
  qed
  ultimately show ?thesis by blast
qed

lemma tp_ok_create:
  "0 < length memory \<Longrightarrow> length memory < 2 ^ 64 \<Longrightarrow> tp_ok (transaction_pool_create memory) \<and> queue_of (transaction_pool_create memory) = []"
  by (simp add: tp_ok_def transaction_pool_create_def queue_of_def unat_of_nat take_bit_nat_eq_self word_less_nat_alt)

theorem pool_is_queue_witness:
  "fst (transaction_pool_add ''t'' (transaction_pool_create [[], []]))"
  using pool_is_queue [of "transaction_pool_create [[], []]" "''t''" "\<lambda>_. True"] tp_ok_create [of "[[] :: string, []]"]
  by (simp add: transaction_pool_create_def)

end
