(* ===== verification/Tok_Engine.thy ===== *)
theory Tok_Engine
  imports Tok_Hash Tok_Balance Tok_Pool
begin

text \<open>
  The engine of \<open>1-to-file/main_file.cpp\<close>: transactions, blocks, the chain, processing by the
  workers, mining, and queries. What is in memory where the code reads the bytes of a
  structure (padding and pointers included), the clocks and the residue of the stack are
  parameters. A worker's pass and a mined block are one step each.
\<close>

section \<open>Data\<close>

record tok_tx =
  tt_from :: bytes
  tt_to :: bytes
  tt_amount :: amount
  tt_token_id :: token_id
  tt_timestamp :: u64
  tt_nonce :: u64
  tt_tx_hash :: bytes
  tt_signature :: bytes
  tt_fee :: u32
  tt_version :: u8
  tt_is_processed :: bool
  tt_gas_price :: u32
  tt_gas_limit :: u64
  tt_contract_id :: u32
  tt_tx_type :: u8
  tt_deadline :: u32
  tt_memo :: bytes

text \<open>the pointers to the transactions of a block: None when the memory has been freed\<close>

record tok_block =
  tb_block_hash :: bytes
  tb_prev_block_hash :: bytes
  tb_timestamp :: u64
  tb_height :: u32
  tb_tx_count :: u32
  tb_nonce :: u32
  tb_merkle_root :: bytes
  tb_miner :: bytes
  tb_reward :: amount
  tb_difficulty :: u32
  tb_total_fees :: u64
  tb_state_root :: bytes
  tb_receipts_root :: bytes
  tb_transactions :: "tok_tx option list"
  tb_version :: u32
  tb_gas_used :: u32
  tb_gas_limit :: u32

text \<open>a pruned block is None; the height is the number of blocks; arrays nothing reads are left out\<close>

record tok_chain =
  tc_blocks :: "tok_block option list"
  tc_block_hashes :: "bytes list"
  tc_total_difficulty :: u64
  tc_prune_height :: nat

record tok_engine =
  te_tx_pool :: "tok_tx transaction_pool"
  te_blockchain :: tok_chain
  te_balance_cache :: balance_cache
  te_total_transactions_processed :: u64
  te_total_blocks_mined :: u64

text \<open>
  The bytes of a block, of the first entries of the balance cache, of a list of pointers; and
  whether the runtime's free accepts memory of another allocator
\<close>

record memory_image =
  mi_block :: "tok_block \<Rightarrow> bytes"
  mi_entries :: "balance_entry list \<Rightarrow> bytes"
  mi_pointers :: "tok_tx list \<Rightarrow> bytes"
  mi_free_ok :: bool

datatype tok_fault = Null_Pointer | Freed_Memory | Bad_Free

definition zero_hash :: bytes where "zero_hash = replicate 64 0"

definition zero_tx :: tok_tx where
  "zero_tx = \<lparr>tt_from = zero_hash, tt_to = zero_hash, tt_amount = 0, tt_token_id = 0, tt_timestamp = 0, tt_nonce = 0,
     tt_tx_hash = zero_hash, tt_signature = zero_hash, tt_fee = 0, tt_version = 0, tt_is_processed = False, tt_gas_price = 0,
     tt_gas_limit = 0, tt_contract_id = 0, tt_tx_type = 0, tt_deadline = 0, tt_memo = zero_hash\<rparr>"

definition zero_block :: tok_block where
  "zero_block = \<lparr>tb_block_hash = zero_hash, tb_prev_block_hash = zero_hash, tb_timestamp = 0, tb_height = 0, tb_tx_count = 0,
     tb_nonce = 0, tb_merkle_root = zero_hash, tb_miner = zero_hash, tb_reward = 0, tb_difficulty = 0, tb_total_fees = 0,
     tb_state_root = zero_hash, tb_receipts_root = zero_hash, tb_transactions = [], tb_version = 0, tb_gas_used = 0, tb_gas_limit = 0\<rparr>"

section \<open>The chain\<close>

definition max_blocks :: nat where "max_blocks = 500000"

definition tok_chain_create :: "memory_image \<Rightarrow> u64 \<Rightarrow> tok_chain" where
  "tok_chain_create mem now =
     (let genesis = zero_block\<lparr>tb_timestamp := now, tb_difficulty := 0x0000FFFF, tb_reward := 5000000000, tb_version := 1,
            tb_gas_limit := 8000000\<rparr>;
          genesis = genesis\<lparr>tb_block_hash := compute_hash (mi_block mem genesis)\<rparr>
      in \<lparr>tc_blocks = [Some genesis], tc_block_hashes = [tb_block_hash genesis],
          tc_total_difficulty = ucast (tb_difficulty genesis), tc_prune_height = 0\<rparr>)"

definition blockchain_add_block :: "tok_block \<Rightarrow> tok_chain \<Rightarrow> bool \<times> tok_chain" where
  "blockchain_add_block b c =
     (if max_blocks \<le> length (tc_blocks c) then (False, c)
      else (True, c\<lparr>tc_blocks := tc_blocks c @ [Some (b\<lparr>tb_height := of_nat (length (tc_blocks c))\<rparr>)],
              tc_block_hashes := tc_block_hashes c @ [tb_block_hash b],
              tc_total_difficulty := tc_total_difficulty c + ucast (tb_difficulty b)\<rparr>))"

definition blockchain_get_block :: "nat \<Rightarrow> tok_chain \<Rightarrow> tok_block option" where
  "blockchain_get_block height c = (if length (tc_blocks c) \<le> height then None else tc_blocks c ! height)"

text \<open>one pass of \<open>cleanup_thread_function\<close>\<close>

definition prune_pass :: "tok_chain \<Rightarrow> tok_chain" where
  "prune_pass c =
     (let height = length (tc_blocks c); new_prune = height - 1000
      in if 1000 < height \<and> tc_prune_height c < new_prune
         then c\<lparr>tc_blocks := map (\<lambda>i. if tc_prune_height c \<le> i \<and> i < new_prune \<and> 0 < i then None else tc_blocks c ! i) [0..<height],
                tc_prune_height := new_prune\<rparr>
         else c)"

section \<open>Transactions\<close>

text \<open>the buffer of \<open>compute_transaction_hash\<close> has 320 bytes, of which 172 are written\<close>

definition tok_tx_buffer :: "bytes \<Rightarrow> tok_tx \<Rightarrow> bytes" where
  "tok_tx_buffer stack tx =
     (let written = tt_from tx @ tt_to tx @ store_le64 (tt_amount tx) @ store_le32 (tt_token_id tx) @ store_le64 (tt_timestamp tx) @
            store_le64 (tt_nonce tx) @ store_le32 (tt_fee tx) @ store_le32 (tt_gas_price tx) @ store_le64 (tt_gas_limit tx)
      in written @ take (320 - length written) stack)"

definition compute_transaction_hash :: "bytes \<Rightarrow> tok_tx \<Rightarrow> tok_tx" where
  "compute_transaction_hash stack tx = tx\<lparr>tt_tx_hash := compute_hash_fast (tok_tx_buffer stack tx)\<rparr>"

definition total_cost :: "tok_tx \<Rightarrow> amount" where
  "total_cost tx = tt_amount tx + ucast (tt_fee tx) + ucast (tt_gas_price tx) * tt_gas_limit tx div 1000000000"

definition tok_verify_transaction :: "tok_tx \<Rightarrow> u32 \<Rightarrow> balance_cache \<Rightarrow> bool \<times> balance_cache" where
  "tok_verify_transaction tx current_block c =
     (let (balance, c) = balance_cache_get (tt_from tx) (tt_token_id tx) c
      in if balance < total_cost tx then (False, c)
         else if 0 < tt_deadline tx \<and> tt_deadline tx < current_block then (False, c)
         else (True, c))"

definition current_height :: "tok_engine \<Rightarrow> u32" where
  "current_height e =
     (case blockchain_get_block (length (tc_blocks (te_blockchain e)) - 1) (te_blockchain e) of
        Some b \<Rightarrow> tb_height b | None \<Rightarrow> 0)"

definition process_transaction :: "tok_tx \<Rightarrow> tok_engine \<Rightarrow> bool \<times> tok_engine" where
  "process_transaction tx e =
     (let (ok, c) = tok_verify_transaction tx (current_height e) (te_balance_cache e)
      in if \<not> ok then (False, e\<lparr>te_balance_cache := c\<rparr>)
         else let c = balance_cache_update (tt_from tx) (tt_token_id tx) (- total_cost tx) c;
                  c = balance_cache_update (tt_to tx) (tt_token_id tx) (tt_amount tx) c
              in (True, e\<lparr>te_balance_cache := c, te_total_transactions_processed := te_total_transactions_processed e + 1\<rparr>))"

text \<open>
  One pass of \<open>worker_thread_function\<close>: whether a transaction was processed. The transaction
  is memory of \<open>_aligned_malloc\<close>, which \<open>free\<close> must not be given; unless the runtime accepts
  that, the pass ends in undefined behaviour.
\<close>

definition worker_pass :: "memory_image \<Rightarrow> tok_engine \<Rightarrow> tok_fault + bool \<times> tok_engine" where
  "worker_pass mem e =
     (case transaction_pool_pop (te_tx_pool e) of
        (None, p) \<Rightarrow> Inr (False, e)
      | (Some tx, p) \<Rightarrow>
          let (ok, e) = process_transaction tx (e\<lparr>te_tx_pool := p\<rparr>);
              e = (if ok then e\<lparr>te_tx_pool := (te_tx_pool e)\<lparr>tp_size := tp_size (te_tx_pool e) + 1\<rparr>\<rparr> else e)
          in if mi_free_ok mem then Inr (ok, e) else Inl Bad_Free)"

definition transfer_tokens ::
  "bytes \<Rightarrow> bytes \<Rightarrow> token_id \<Rightarrow> amount \<Rightarrow> u32 \<Rightarrow> u32 \<Rightarrow> u64 \<Rightarrow> u64 \<Rightarrow> bytes \<Rightarrow> tok_engine \<Rightarrow> bool \<times> tok_engine" where
  "transfer_tokens from to token amount fee gas_price now tsc stack e =
     (let tx = zero_tx\<lparr>tt_from := from, tt_to := to, tt_amount := amount, tt_token_id := token, tt_timestamp := now,
            tt_nonce := tsc, tt_fee := fee, tt_gas_price := gas_price, tt_gas_limit := 21000, tt_version := 2\<rparr>;
          (ok, p) = transaction_pool_add (compute_transaction_hash stack tx) (te_tx_pool e)
      in (ok, e\<lparr>te_tx_pool := p\<rparr>))"

definition get_balance :: "bytes \<Rightarrow> token_id \<Rightarrow> tok_engine \<Rightarrow> amount \<times> tok_engine" where
  "get_balance addr token e =
     (let (x, c) = balance_cache_get addr token (te_balance_cache e) in (x, e\<lparr>te_balance_cache := c\<rparr>))"

section \<open>Blocks\<close>

text \<open>the transactions for a block, n at most, while their gas fits\<close>

fun fetch_loop :: "nat \<Rightarrow> u64 \<Rightarrow> tok_tx transaction_pool \<Rightarrow> tok_tx list \<times> tok_tx transaction_pool" where
  "fetch_loop 0 total_gas p = ([], p)"
| "fetch_loop (Suc n) total_gas p =
     (case transaction_pool_pop p of
        (None, p) \<Rightarrow> ([], p)
      | (Some tx, p) \<Rightarrow>
          if total_gas + tt_gas_limit tx \<le> 8000000
          then let (txs, p) = fetch_loop n (total_gas + tt_gas_limit tx) p in (tx # txs, p)
          else ([], snd (transaction_pool_add tx p)))"

definition create_block :: "memory_image \<Rightarrow> bytes \<Rightarrow> u64 \<Rightarrow> tok_engine \<Rightarrow> (tok_fault + tok_block) \<times> tok_engine" where
  "create_block mem miner now e =
     (let (txs, p) = fetch_loop 8192 0 (te_tx_pool e);
          e = e\<lparr>te_tx_pool := p\<rparr>;
          c = te_balance_cache e;
          b = zero_block\<lparr>tb_timestamp := now, tb_height := of_nat (length (tc_blocks (te_blockchain e))), tb_miner := miner,
                tb_reward := 5000000000, tb_gas_limit := 8000000, tb_version := 2,
                tb_transactions := map Some txs, tb_tx_count := of_nat (length txs)\<rparr>;
          b = (if txs = [] then b
               else b\<lparr>tb_merkle_root := compute_merkle_root (map tt_tx_hash txs),
                      tb_gas_used := foldl (\<lambda>g tx. g + ucast (tt_gas_limit tx)) 0 txs\<rparr>);
          roots = (\<lambda>b. b\<lparr>tb_state_root := compute_hash_fast (mi_entries mem (take (bc_count c) (bc_entries c))),
                         tb_receipts_root := compute_hash_fast (mi_pointers mem txs)\<rparr>)
      in if tc_blocks (te_blockchain e) = [] then (Inr (roots (b\<lparr>tb_difficulty := 0x0000FFFF\<rparr>)), e)
         else case last (tc_blocks (te_blockchain e)) of
                None \<Rightarrow> (Inl Null_Pointer, e)
              | Some prev \<Rightarrow>
                  (Inr (roots (b\<lparr>tb_prev_block_hash := tb_block_hash prev, tb_difficulty := tb_difficulty prev\<rparr>)), e))"

definition mining_target :: "u32 \<Rightarrow> u32" where
  "mining_target difficulty =
     (let target = 0x0000FFFF div (if difficulty \<noteq> 0 then difficulty else 1) in if target < 1 then 1 else target)"

text \<open>the search for a nonce; \<open>late\<close> tells at which nonces the clock ends it\<close>

function mine_search :: "memory_image \<Rightarrow> (u32 \<Rightarrow> bool) \<Rightarrow> u32 \<Rightarrow> tok_block \<Rightarrow> u32 \<Rightarrow> tok_block option" where
  "mine_search mem late target b nonce =
     (if nonce < 0xFFFFFFFF
      then let b = b\<lparr>tb_nonce := nonce\<rparr>; b = b\<lparr>tb_block_hash := compute_hash_fast (mi_block mem b)\<rparr>
           in if load_le32 (tb_block_hash b) 0 < target then Some b
              else if nonce AND 0xFFFFF = 0 \<and> late nonce then None
              else mine_search mem late target b (nonce + 1)
      else None)"
  by pat_completeness auto
termination
proof (relation "measure (\<lambda>(mem, late, target, b, nonce). unat (0xFFFFFFFF - nonce))", goal_cases)
  case (2 mem late target b nonce)
  then have "unat (0xFFFFFFFF - (nonce + 1)) < unat (0xFFFFFFFF - nonce)"
    by (simp add: unat_sub word_le_nat_alt word_less_nat_alt unat_word_ariths)
  then show ?case by simp
qed simp

declare mine_search.simps [simp del]

fun process_all :: "tok_tx option list \<Rightarrow> tok_engine \<Rightarrow> tok_engine" where
  "process_all [] e = e"
| "process_all (None # txs) e = process_all txs e"
| "process_all (Some tx # txs) e =
     (let (ok, e) = process_transaction tx e
      in process_all txs (if ok then e\<lparr>te_total_transactions_processed := te_total_transactions_processed e + 1\<rparr> else e))"

text \<open>each transaction of the block is freed after it has been processed, like a worker's\<close>

definition mine_block :: "memory_image \<Rightarrow> (u32 \<Rightarrow> bool) \<Rightarrow> tok_block \<Rightarrow> tok_engine \<Rightarrow> tok_fault + tok_engine" where
  "mine_block mem late b e =
     (case mine_search mem late (mining_target (tb_difficulty b)) b 0 of
        None \<Rightarrow> Inr e
      | Some b \<Rightarrow>
          case blockchain_add_block b (te_blockchain e) of
            (False, _) \<Rightarrow> Inr e
          | (True, c) \<Rightarrow>
              let e = e\<lparr>te_blockchain := c, te_balance_cache := balance_cache_update (tb_miner b) 0 (tb_reward b) (te_balance_cache e),
                        te_total_blocks_mined := te_total_blocks_mined e + 1\<rparr>;
                  e = process_all (tb_transactions b) e;
                  freed = b\<lparr>tb_height := of_nat (length (tc_blocks c) - 1), tb_transactions := map (\<lambda>_. None) (tb_transactions b)\<rparr>
              in if tb_transactions b \<noteq> [] \<and> \<not> mi_free_ok mem then Inl Bad_Free
                 else Inr (e\<lparr>te_blockchain := c\<lparr>tc_blocks := butlast (tc_blocks c) @ [Some freed]\<rparr>\<rparr>))"

section \<open>The status of a transaction\<close>

record tok_status =
  ts_tx_hash :: bytes
  ts_block_hash :: bytes
  ts_timestamp :: u64
  ts_confirmations :: u32
  ts_status :: u8
  ts_gas_used :: u32
  ts_fee_paid :: amount
  ts_block_height :: u32

text \<open>the search in the transactions of one block\<close>

fun find_tx :: "bytes \<Rightarrow> tok_tx option list \<Rightarrow> tok_fault + tok_tx option" where
  "find_tx h [] = Inr None"
| "find_tx h (None # txs) = Inl Freed_Memory"
| "find_tx h (Some tx # txs) = (if tt_tx_hash tx = h then Inr (Some tx) else find_tx h txs)"

fun find_in_blocks :: "bytes \<Rightarrow> nat \<Rightarrow> tok_block option list \<Rightarrow> tok_fault + (nat \<times> tok_block \<times> tok_tx) option" where
  "find_in_blocks h i [] = Inr None"
| "find_in_blocks h i (None # bs) = find_in_blocks h (i + 1) bs"
| "find_in_blocks h i (Some b # bs) =
     (case find_tx h (tb_transactions b) of
        Inl f \<Rightarrow> Inl f
      | Inr (Some tx) \<Rightarrow> Inr (Some (i, b, tx))
      | Inr None \<Rightarrow> find_in_blocks h (i + 1) bs)"

definition get_transaction_status :: "bytes \<Rightarrow> u64 \<Rightarrow> tok_engine \<Rightarrow> tok_fault + tok_status" where
  "get_transaction_status h now e =
     (let status = \<lparr>ts_tx_hash = h, ts_block_hash = zero_hash, ts_timestamp = now, ts_confirmations = 0, ts_status = 0,
            ts_gas_used = 0, ts_fee_paid = 0, ts_block_height = 0\<rparr>
      in case find_in_blocks h 0 (tc_blocks (te_blockchain e)) of
           Inl f \<Rightarrow> Inl f
         | Inr (Some (i, b, tx)) \<Rightarrow>
             Inr (status\<lparr>ts_block_hash := tb_block_hash b,
               ts_confirmations := of_nat (length (tc_blocks (te_blockchain e)) - i), ts_status := 1, ts_block_height := of_nat i,
               ts_gas_used := ucast (tt_gas_limit tx), ts_fee_paid := ucast (tt_fee tx)\<rparr>)
         | Inr None \<Rightarrow>
             Inr (if fst (transaction_pool_remove_by_hash (\<lambda>tx. tt_tx_hash tx = h) (te_tx_pool e)) then status\<lparr>ts_status := 2\<rparr> else status))"

section \<open>What processing does to the balances\<close>

abbreviation balance :: "tok_engine \<Rightarrow> bytes \<Rightarrow> token_id \<Rightarrow> amount" where
  "balance e \<equiv> cached_balance (te_balance_cache e)"

lemma bc_ok_get: "bc_ok c \<Longrightarrow> bc_ok (snd (balance_cache_get a t c))"
  by (rule bc_ok_cong(1) [of c]) (use bc_okD(3) [of c] in auto)

lemma balance_of_get [simp]: "cached_balance (snd (balance_cache_get a t c)) = cached_balance c"
  by (simp add: cached_balance_def fun_eq_iff)

lemma verify_cases:
  assumes "bc_ok (te_balance_cache e)"
  shows "fst (tok_verify_transaction tx h (te_balance_cache e)) \<longleftrightarrow>
      total_cost tx \<le> balance e (tt_from tx) (tt_token_id tx) \<and> (tt_deadline tx = 0 \<or> h \<le> tt_deadline tx)"
    "snd (tok_verify_transaction tx h (te_balance_cache e)) = snd (balance_cache_get (tt_from tx) (tt_token_id tx) (te_balance_cache e))"
  using balance_cache_get_balance [OF assms, of "tt_from tx" "tt_token_id tx"]
  by (auto simp: tok_verify_transaction_def case_prod_unfold Let_def not_less word_neq_0_conv)

lemma has_room_get: "has_room (snd (balance_cache_get a t c)) = has_room c" "stored (snd (balance_cache_get a t c)) = stored c"
  by (simp_all add: has_room_def stored_def fun_eq_iff)

lemma process_effect:
  assumes "bc_ok (te_balance_cache e)" "bc_count (te_balance_cache e) + 2 \<le> bc_capacity (te_balance_cache e)"
  shows "fst (process_transaction tx e) =
      (total_cost tx \<le> balance e (tt_from tx) (tt_token_id tx) \<and> (tt_deadline tx = 0 \<or> current_height e \<le> tt_deadline tx)) \<and>
    balance (snd (process_transaction tx e)) a t =
      (if fst (process_transaction tx e)
       then balance e a t - (if a = tt_from tx \<and> t = tt_token_id tx then total_cost tx else 0)
              + (if a = tt_to tx \<and> t = tt_token_id tx then tt_amount tx else 0)
       else balance e a t) \<and>
    bc_ok (te_balance_cache (snd (process_transaction tx e)))"
proof -
  let ?c = "te_balance_cache e" and ?t = "tt_token_id tx"
  let ?g = "snd (balance_cache_get (tt_from tx) ?t ?c)"
  let ?u = "balance_cache_update (tt_from tx) ?t (- total_cost tx) ?g"
  note v = verify_cases [OF assms(1), of tx "current_height e"]
  have g: "bc_ok ?g" by (rule bc_ok_get [OF assms(1)])
  have ad: "admits ?g (tt_from tx) ?t"
    unfolding admits_def has_room_count [OF g] using assms(2) by simp
  note u = bc_ok_update [OF g, of "tt_from tx" ?t "- total_cost tx"]
  have "bc_count ?u < bc_capacity ?u"
    using update_known(2) [OF g ad, of "- total_cost tx"] assms(2) by (simp split: if_splits)
  then have ad2: "admits ?u (tt_to tx) ?t" unfolding admits_def has_room_count [OF u(1)] by simp
  note w = bc_ok_update [OF u(1), of "tt_to tx" ?t "tt_amount tx"]
  have p: "process_transaction tx e = (if fst (tok_verify_transaction tx (current_height e) ?c)
      then (True, e\<lparr>te_balance_cache := balance_cache_update (tt_to tx) ?t (tt_amount tx) ?u,
                    te_total_transactions_processed := te_total_transactions_processed e + 1\<rparr>)
      else (False, e\<lparr>te_balance_cache := ?g\<rparr>))"
    by (simp add: process_transaction_def case_prod_unfold Let_def v(2))
  show ?thesis
    unfolding p using v(1) u w ad ad2 g by (auto split: if_splits)
qed

text \<open>
  C32: A transaction is carried out exactly when its sender has the cost and the deadline has
  not passed; then the sender pays the cost, the receiver gets the amount, and no other balance changes. The
  cost is computed modulo two to the 64; neither the signature nor the nonce nor the mark that the
  transaction has been processed plays a part, so whoever has a transaction can have it
  carried out again.
\<close>

theorem transfer_effect:
  assumes "bc_ok (te_balance_cache e)" "bc_count (te_balance_cache e) + 2 \<le> bc_capacity (te_balance_cache e)"
  shows "fst (process_transaction tx e) =
      (total_cost tx \<le> balance e (tt_from tx) (tt_token_id tx) \<and> (tt_deadline tx = 0 \<or> current_height e \<le> tt_deadline tx)) \<and>
    balance (snd (process_transaction tx e)) a t =
      (if fst (process_transaction tx e)
       then balance e a t - (if a = tt_from tx \<and> t = tt_token_id tx then total_cost tx else 0)
              + (if a = tt_to tx \<and> t = tt_token_id tx then tt_amount tx else 0)
       else balance e a t) \<and>
    process_transaction (tx\<lparr>tt_signature := sig, tt_nonce := nonce, tt_is_processed := marked, tt_tx_hash := h\<rparr>) e = process_transaction tx e \<and>
    bc_ok (te_balance_cache (snd (process_transaction tx e)))"
proof -
  have "process_transaction (tx\<lparr>tt_signature := sig, tt_nonce := nonce, tt_is_processed := marked, tt_tx_hash := h\<rparr>) e = process_transaction tx e"
    by (simp add: process_transaction_def tok_verify_transaction_def total_cost_def case_prod_unfold Let_def)
  then show ?thesis using process_effect [OF assms] by blast
qed

text \<open>an engine with one entry in a cache for n\<close>

definition small_engine :: "tok_tx \<Rightarrow> (bytes \<times> token_id \<times> amount) list \<Rightarrow> nat \<Rightarrow> tok_engine" where
  "small_engine tx us n = \<lparr>te_tx_pool = snd (transaction_pool_add tx (transaction_pool_create [zero_tx])),
     te_blockchain = \<lparr>tc_blocks = [Some zero_block], tc_block_hashes = [zero_hash], tc_total_difficulty = 0, tc_prune_height = 0\<rparr>,
     te_balance_cache = run_updates us (balance_cache_create n), te_total_transactions_processed = 0, te_total_blocks_mined = 0\<rparr>"

theorem transfer_effect_witness:
  "balance (snd (process_transaction (zero_tx\<lparr>tt_from := [1, 0], tt_to := [2, 0], tt_amount := 30, tt_fee := 2\<rparr>)
     (small_engine zero_tx [([1, 0], 0, 100)] 3))) [1, 0] 0 = 68"
proof -
  have "balance (small_engine zero_tx [([1, 0], 0, 100)] 3) [1, 0] 0 = 100" "current_height (small_engine zero_tx [([1, 0], 0, 100)] 3) = 0"
    using run_updates_props [of 3 "[([1, 0], 0, 100)]"]
    by (simp_all add: small_engine_def key_of_def current_height_def blockchain_get_block_def zero_block_def)
  then show ?thesis
    using transfer_effect [of "small_engine zero_tx [([1, 0], 0, 100)] 3" "zero_tx\<lparr>tt_from := [1, 0], tt_to := [2, 0], tt_amount := 30, tt_fee := 2\<rparr>" "[1, 0]" 0]
      run_updates_props [of 3 "[([1, 0], 0, 100)]"]
    by (simp add: small_engine_def key_of_def total_cost_def zero_tx_def)
qed

lemma unat_max: "unat (- 1 :: u64) = 2 ^ 64 - 1"
  by (simp add: unsigned_minus_1_eq_mask mask_eq_exp_minus_1)

text \<open>
  Money from nothing. A transfer of the greatest amount with a fee of 1 costs nothing, because the
  sum wraps, so it is carried out whatever the sender has, and a receiver who had nothing has two to
  the 64 minus 1 then.
\<close>

theorem money_from_nothing:
  assumes "bc_ok (te_balance_cache e)" "bc_count (te_balance_cache e) + 2 \<le> bc_capacity (te_balance_cache e)"
    and "tt_amount tx = - 1" "tt_fee tx = 1" "tt_gas_price tx = 0" "tt_deadline tx = 0" "tt_to tx \<noteq> tt_from tx"
    and "balance e (tt_to tx) (tt_token_id tx) = 0"
  shows "fst (process_transaction tx e) \<and>
    unat (balance (snd (process_transaction tx e)) (tt_to tx) (tt_token_id tx)) = 2 ^ 64 - 1 \<and>
    balance (snd (process_transaction tx e)) (tt_from tx) (tt_token_id tx) = balance e (tt_from tx) (tt_token_id tx)"
proof -
  have "total_cost tx = 0" using assms(3-5) by (simp add: total_cost_def)
  then show ?thesis
    using process_effect [OF assms(1,2), of tx "tt_to tx" "tt_token_id tx"] process_effect [OF assms(1,2), of tx "tt_from tx" "tt_token_id tx"] assms(3-8)
    by (simp add: unat_max)
qed

theorem money_from_nothing_witness:
  "fst (process_transaction (zero_tx\<lparr>tt_from := [1, 0], tt_to := [2, 0], tt_amount := - 1, tt_fee := 1\<rparr>) (small_engine zero_tx [] 3))"
proof -
  have "balance (small_engine zero_tx [] 3) [2, 0] 0 = 0" "bc_ok (te_balance_cache (small_engine zero_tx [] 3))"
    "bc_count (te_balance_cache (small_engine zero_tx [] 3)) + 2 \<le> bc_capacity (te_balance_cache (small_engine zero_tx [] 3))"
    using run_updates_props [of 3 "[]"] by (simp_all add: small_engine_def)
  then show ?thesis
    using money_from_nothing [of "small_engine zero_tx [] 3" "zero_tx\<lparr>tt_from := [1, 0], tt_to := [2, 0], tt_amount := - 1, tt_fee := 1\<rparr>"]
    by (simp add: zero_tx_def)
qed

section \<open>The workers\<close>

text \<open>
  A pass over a pool that is not empty is undefined by the rules of the language; and where the runtime accepts
  the release, a pass that carries out a transaction adds 1 to the size of the pool it took the
  transaction from, so the pool does not get smaller.
\<close>

lemma worker_pass_cases:
  "(\<not> mi_free_ok mem \<longrightarrow> tp_size (te_tx_pool e) \<noteq> 0 \<longrightarrow> worker_pass mem e = Inl Bad_Free) \<and>
   (worker_pass mem e = Inr (True, e') \<longrightarrow> te_tx_pool e' =
      (te_tx_pool e)\<lparr>tp_head := tp_head (te_tx_pool e) + 1, tp_total_removed := tp_total_removed (te_tx_pool e) + 1\<rparr>)"
proof -
  have keep: "te_tx_pool (snd (process_transaction tx x)) = te_tx_pool x" for tx x
    by (simp add: process_transaction_def case_prod_unfold Let_def)
  show ?thesis
    by (auto simp: worker_pass_def case_prod_unfold Let_def transaction_pool_pop_def keep split: if_splits)
qed

section \<open>Mining and the chain\<close>

lemma mine_search_result:
  "mine_search mem late target b nonce = Some r \<Longrightarrow>
    load_le32 (tb_block_hash r) 0 < target \<and>
    r = b\<lparr>tb_nonce := tb_nonce r, tb_block_hash := tb_block_hash r\<rparr> \<and> nonce \<le> tb_nonce r"
proof (induction mem late target b nonce rule: mine_search.induct)
  case (1 mem late target b nonce)
  define c where "c = b\<lparr>tb_nonce := nonce, tb_block_hash := compute_hash_fast (mi_block mem (b\<lparr>tb_nonce := nonce\<rparr>))\<rparr>"
  have l: "nonce < 0xFFFFFFFF" using 1(2) by (subst (asm) mine_search.simps) (auto split: if_splits)
  show ?case
  proof (cases "load_le32 (tb_block_hash c) 0 < target")
    case True
    then have "r = c" using 1(2) l by (subst (asm) mine_search.simps) (simp add: c_def Let_def)
    then show ?thesis using True by (simp add: c_def)
  next
    case False
    then have t: "\<not> (nonce AND 0xFFFFF = 0 \<and> late nonce)" "mine_search mem late target c (nonce + 1) = Some r"
      using 1(2) l by (subst (asm) mine_search.simps, auto simp: c_def Let_def split: if_splits)+
    have "load_le32 (tb_block_hash r) 0 < target \<and> r = c\<lparr>tb_nonce := tb_nonce r, tb_block_hash := tb_block_hash r\<rparr> \<and> nonce + 1 \<le> tb_nonce r"
      using 1(1) [OF l refl refl] False t by (simp add: c_def)
    moreover have "nonce \<le> nonce + 1" using l by (simp add: word_le_nat_alt word_less_nat_alt unat_word_ariths)
    ultimately show ?thesis by (auto simp: c_def intro: order_trans)
  qed
qed

lemma process_all_blockchain [simp]: "te_blockchain (process_all txs e) = te_blockchain e"
proof -
  have "te_blockchain (snd (process_transaction tx x)) = te_blockchain x" for tx x
    by (simp add: process_transaction_def case_prod_unfold Let_def)
  then show ?thesis by (induction txs e rule: process_all.induct) (simp_all add: case_prod_unfold Let_def)
qed

text \<open>the block that is added, its transactions freed\<close>

definition added :: "tok_block \<Rightarrow> tok_chain \<Rightarrow> tok_block" where
  "added b c = b\<lparr>tb_height := of_nat (length (tc_blocks c)), tb_transactions := map (\<lambda>_. None) (tb_transactions b)\<rparr>"

lemma mine_block_returns: "mi_free_ok mem \<Longrightarrow> \<exists>e'. mine_block mem late b e = Inr e'"
  by (simp add: mine_block_def Let_def split: option.split prod.split bool.split)

lemma mine_block_chain:
  assumes "mine_block mem late b e = Inr e'"
  shows "te_blockchain e' =
    (case mine_search mem late (mining_target (tb_difficulty b)) b 0 of
       None \<Rightarrow> te_blockchain e
     | Some r \<Rightarrow> if max_blocks \<le> length (tc_blocks (te_blockchain e)) then te_blockchain e
         else (te_blockchain e)\<lparr>tc_blocks := tc_blocks (te_blockchain e) @ [Some (added r (te_blockchain e))],
                tc_block_hashes := tc_block_hashes (te_blockchain e) @ [tb_block_hash r],
                tc_total_difficulty := tc_total_difficulty (te_blockchain e) + ucast (tb_difficulty r)\<rparr>)"
  using assms by (auto simp: mine_block_def blockchain_add_block_def added_def Let_def split: option.splits if_splits)

lemma find_in_blocks_append:
  "find_in_blocks h i xs = Inr None \<Longrightarrow> find_in_blocks h i (xs @ ys) = find_in_blocks h (i + length xs) ys"
  by (induction h i xs rule: find_in_blocks.induct) (auto split: sum.splits option.splits)

lemma find_tx_freed: "txs \<noteq> [] \<Longrightarrow> find_tx h (map (\<lambda>_. None) txs) = Inl Freed_Memory"
  by (cases txs) simp_all

text \<open>
  The status of a transaction that is not in an earlier block cannot be asked for once a block with transactions
  has been mined (and its transactions released, where the runtime accepts that): the search reads the transactions of that block, which mining has freed. That
  includes the transactions of the block itself.
\<close>

theorem status_reads_freed:
  assumes "mine_search mem late (mining_target (tb_difficulty b)) b 0 \<noteq> None"
    and "length (tc_blocks (te_blockchain e)) < max_blocks" "tb_transactions b \<noteq> []"
    and "find_in_blocks h 0 (tc_blocks (te_blockchain e)) = Inr None" "mine_block mem late b e = Inr e'"
  shows "get_transaction_status h now e' = Inl Freed_Memory"
proof -
  obtain r where r: "mine_search mem late (mining_target (tb_difficulty b)) b 0 = Some r" using assms(1) by blast
  have "r = b\<lparr>tb_nonce := tb_nonce r, tb_block_hash := tb_block_hash r\<rparr>" using mine_search_result [OF r] by blast
  then have "tb_transactions r = tb_transactions b" by (metis tok_block.simps(14) tok_block.surjective tok_block.update_convs(1,6))
  then have "find_tx h (tb_transactions (added r (te_blockchain e))) = Inl Freed_Memory"
    using assms(3) by (simp add: added_def find_tx_freed)
  then show ?thesis
    using find_in_blocks_append [OF assms(4), of "[Some (added r (te_blockchain e))]"] assms(2)
    by (simp add: get_transaction_status_def mine_block_chain [OF assms(5)] r)
qed

text \<open>an image of memory under which the first nonce is found\<close>

definition lucky_image :: memory_image where
  "lucky_image = \<lparr>mi_block = (\<lambda>_. [42, 15, 72]), mi_entries = (\<lambda>_. []), mi_pointers = (\<lambda>_. []), mi_free_ok = True\<rparr>"

lemma load_fast: "load_le32 (compute_hash_fast data) 0 = ucast (foldl fnv_step fnv_basis data)"
proof -
  obtain t where t: "compute_hash_fast data = store_le64 (foldl fnv_step fnv_basis data) @ t" using fast_form by blast
  have n: "(store_le64 x @ t) ! i = ucast (drop_bit (i * 8) x)" if "i < 8" for x i
    using that by (simp add: nth_append store_le64_def)
  have "load_le32 (store_le64 x @ t) 0 = ucast x" for x
  proof (rule bit_word_eqI)
    fix i assume "i < LENGTH(32)"
    then show "bit (load_le32 (store_le64 x @ t) 0) i = bit (ucast x :: u32) i"
      by (cases rule: byte_cases32) (simp_all add: load_le32_def n, simp_all only: bit_ops, auto)
  qed
  then show ?thesis unfolding t .
qed

theorem status_reads_freed_witness:
  "\<exists>e. mine_block lucky_image (\<lambda>_. False) (zero_block\<lparr>tb_transactions := [Some zero_tx]\<rparr>) (small_engine zero_tx [] 3) = Inr e \<and>
     get_transaction_status zero_hash 0 e = Inl Freed_Memory"
proof -
  let ?b = "zero_block\<lparr>tb_transactions := [Some zero_tx]\<rparr>" and ?e = "small_engine zero_tx [] 3"
  have "foldl fnv_step fnv_basis [42, 15, 72] = 0x1a9766180000049a" by (simp add: fnv_step_def fnv_basis_def)
  then have "load_le32 (compute_hash_fast [42, 15, 72]) 0 = 0x49a" by (simp add: load_fast)
  then have m: "mine_search lucky_image (\<lambda>_. False) (mining_target 0) ?b 0 \<noteq> None"
    by (subst mine_search.simps) (simp add: lucky_image_def mining_target_def Let_def)
  have "mi_free_ok lucky_image" by (simp add: lucky_image_def)
  then obtain e where e: "mine_block lucky_image (\<lambda>_. False) ?b ?e = Inr e" using mine_block_returns by blast
  show ?thesis
    using status_reads_freed [OF _ _ _ _ e, of zero_hash 0] m e by (simp add: small_engine_def zero_block_def max_blocks_def)
qed

section \<open>The chain under all operations\<close>

definition block_ok :: "bytes list \<Rightarrow> nat \<Rightarrow> tok_block \<Rightarrow> bool" where
  "block_ok hs i b \<longleftrightarrow> tb_height b = of_nat i \<and> tb_block_hash b = hs ! i \<and> tb_difficulty b = 0x0000FFFF \<and>
     (0 < i \<longrightarrow> tb_prev_block_hash b = hs ! (i - 1) \<and> load_le32 (tb_block_hash b) 0 = 0)"

definition tok_chain_ok :: "tok_chain \<Rightarrow> bool" where
  "tok_chain_ok c \<longleftrightarrow> tc_blocks c \<noteq> [] \<and> length (tc_blocks c) \<le> max_blocks \<and> length (tc_block_hashes c) = length (tc_blocks c) \<and>
     last (tc_blocks c) \<noteq> None \<and> tc_total_difficulty c = of_nat (length (tc_blocks c)) * 0xFFFF \<and>
     (\<forall>i < length (tc_blocks c). pred_option (block_ok (tc_block_hashes c) i) (tc_blocks c ! i))"

text \<open>\<open>consensus_thread_function\<close>: one pass\<close>

definition consensus_pass :: "memory_image \<Rightarrow> (u32 \<Rightarrow> bool) \<Rightarrow> u64 \<Rightarrow> tok_engine \<Rightarrow> tok_fault + tok_engine" where
  "consensus_pass mem late now e =
     (if 10 \<le> tp_size (te_tx_pool e)
      then case create_block mem (0x01 # replicate 63 0) now e of
             (Inl f, e) \<Rightarrow> Inl f
           | (Inr b, e) \<Rightarrow> mine_block mem late b e
      else Inr e)"

text \<open>
  The threads, a user's transfers and queries, and direct changes of balances, in any order.
  A pass that ends in undefined behaviour has no next state; what holds of the others holds
  for a runtime that accepts the release (\<open>mi_free_ok\<close>) and for one that does not.
\<close>

inductive tok_step :: "memory_image \<Rightarrow> tok_engine \<Rightarrow> tok_engine \<Rightarrow> bool" for mem where
  "worker_pass mem e = Inr (ok, e') \<Longrightarrow> tok_step mem e e'"
| "consensus_pass mem late now e = Inr e' \<Longrightarrow> tok_step mem e e'"
| "tok_step mem e (e\<lparr>te_blockchain := prune_pass (te_blockchain e)\<rparr>)"
| "tok_step mem e (snd (transfer_tokens from to token amount fee gas_price now tsc stack e))"
| "tok_step mem e (snd (get_balance addr token e))"
| "tok_step mem e (e\<lparr>te_balance_cache := balance_cache_update addr token delta (te_balance_cache e)\<rparr>)"

lemma create_block_ok:
  assumes "tok_chain_ok (te_blockchain e)" "create_block mem miner now e = (r, e')"
  shows "te_blockchain e' = te_blockchain e"
    "\<exists>b. r = Inr b \<and> tb_difficulty b = 0xFFFF \<and> tb_prev_block_hash b = last (tc_block_hashes (te_blockchain e))"
proof -
  let ?c = "te_blockchain e"
  obtain prev where prev: "last (tc_blocks ?c) = Some prev" using assms(1) unfolding tok_chain_ok_def by blast
  have n: "tc_blocks ?c \<noteq> []" "length (tc_block_hashes ?c) = length (tc_blocks ?c)" using assms(1) unfolding tok_chain_ok_def by blast+
  have "tc_block_hashes ?c \<noteq> []" using n by auto
  then have l: "last (tc_block_hashes ?c) = tc_block_hashes ?c ! (length (tc_blocks ?c) - 1)" using n(2) by (simp add: last_conv_nth)
  have "pred_option (block_ok (tc_block_hashes ?c) (length (tc_blocks ?c) - 1)) (last (tc_blocks ?c))"
    using assms(1) unfolding tok_chain_ok_def last_conv_nth [OF n(1)] by simp
  then have "tb_difficulty prev = 0xFFFF" "tb_block_hash prev = last (tc_block_hashes ?c)"
    using l n by (auto simp: prev block_ok_def)
  then show "te_blockchain e' = te_blockchain e"
    "\<exists>b. r = Inr b \<and> tb_difficulty b = 0xFFFF \<and> tb_prev_block_hash b = last (tc_block_hashes (te_blockchain e))"
    using assms(2) prev n(1) by (auto simp: create_block_def Let_def case_prod_unfold)
qed

lemma mine_block_ok:
  assumes "tok_chain_ok (te_blockchain e)" "tb_difficulty b = 0xFFFF" "tb_prev_block_hash b = last (tc_block_hashes (te_blockchain e))"
    and run: "mine_block mem late b e = Inr e'"
  shows "tok_chain_ok (te_blockchain e')"
proof (cases "mine_search mem late (mining_target (tb_difficulty b)) b 0")
  case None
  then show ?thesis using assms(1) by (simp add: mine_block_chain [OF run])
next
  case (Some r)
  let ?c = "te_blockchain e"
  note m = mine_search_result [OF Some]
  have "mining_target 0xFFFF = 1" by (simp add: mining_target_def)
  then have "load_le32 (tb_block_hash r) 0 < 1" using m assms(2) by simp
  then have h: "load_le32 (tb_block_hash r) 0 = 0" by (simp add: word_less_nat_alt unat_eq_zero)
  have f: "tb_difficulty r = 0xFFFF" "tb_prev_block_hash r = last (tc_block_hashes ?c)"
    using m assms(2,3) by (metis tok_block.simps(2,10) tok_block.surjective tok_block.update_convs(1,6))+
  have n: "tc_blocks ?c \<noteq> []" "length (tc_block_hashes ?c) = length (tc_blocks ?c)"
    "\<And>i. i < length (tc_blocks ?c) \<Longrightarrow> pred_option (block_ok (tc_block_hashes ?c) i) (tc_blocks ?c ! i)"
    using assms(1) unfolding tok_chain_ok_def by blast+
  have "tc_block_hashes ?c \<noteq> []" using n(1,2) by auto
  then have l: "last (tc_block_hashes ?c) = tc_block_hashes ?c ! (length (tc_blocks ?c) - 1)" using n(2) by (simp add: last_conv_nth)
  have old: "pred_option (block_ok (tc_block_hashes ?c @ [x]) i) (tc_blocks ?c ! i)" if "i < length (tc_blocks ?c)" for i x
    using n(3) [OF that] that n(2) by (auto simp: pred_option_def block_ok_def nth_append)
  have new: "block_ok (tc_block_hashes ?c @ [tb_block_hash r]) (length (tc_blocks ?c)) (added r ?c)"
    unfolding block_ok_def
  proof (intro conjI impI)
    assume "0 < length (tc_blocks ?c)"
    then have "length (tc_blocks ?c) - 1 < length (tc_block_hashes ?c)" using n(2) by simp
    then show "tb_prev_block_hash (added r ?c) = (tc_block_hashes ?c @ [tb_block_hash r]) ! (length (tc_blocks ?c) - 1)"
      using f(2) unfolding l by (simp add: added_def nth_append)
  qed (use h f(1) n(2) in \<open>simp_all add: added_def nth_append\<close>)
  have "tc_total_difficulty ?c + ucast (tb_difficulty r) = of_nat (length (tc_blocks ?c) + 1) * 0xFFFF"
  proof -
    have "tc_total_difficulty ?c = of_nat (length (tc_blocks ?c)) * 0xFFFF" using assms(1) unfolding tok_chain_ok_def by blast
    then show ?thesis unfolding f(1) by (simp add: distrib_right)
  qed
  then show ?thesis
    using assms(1) old new unfolding mine_block_chain [OF run] Some
    by (auto simp: tok_chain_ok_def nth_append less_Suc_eq)
qed

lemma prune_ok: "tok_chain_ok c \<Longrightarrow> tok_chain_ok (prune_pass c)"
proof (cases "1000 < length (tc_blocks c) \<and> tc_prune_height c < length (tc_blocks c) - 1000")
  case True
  assume ok: "tok_chain_ok c"
  then have n: "tc_blocks c \<noteq> []" "last (tc_blocks c) \<noteq> None" unfolding tok_chain_ok_def by blast+
  let ?bs = "map (\<lambda>i. if tc_prune_height c \<le> i \<and> i < length (tc_blocks c) - 1000 \<and> 0 < i then None else tc_blocks c ! i) [0..<length (tc_blocks c)]"
  have "\<not> length (tc_blocks c) - 1 < length (tc_blocks c) - 1000" by simp
  then have "last ?bs = last (tc_blocks c)" using n(1) by (simp add: last_map last_conv_nth)
  then show ?thesis using ok n True unfolding prune_pass_def Let_def tok_chain_ok_def by (simp add: Let_def)
next
  case False
  then have "prune_pass c = c" unfolding prune_pass_def Let_def by (rule if_not_P)
  then show "tok_chain_ok c \<Longrightarrow> ?thesis" by simp
qed

lemma step_ok: "tok_step mem e e' \<Longrightarrow> tok_chain_ok (te_blockchain e) \<Longrightarrow> tok_chain_ok (te_blockchain e')"
proof (induction rule: tok_step.induct)
  case (1 e ok e')
  have "te_blockchain (snd (process_transaction tx x)) = te_blockchain x" for tx x
    by (simp add: process_transaction_def case_prod_unfold Let_def)
  then have "te_blockchain e' = te_blockchain e"
    using 1(1) by (auto simp: worker_pass_def case_prod_unfold Let_def split: option.splits if_splits)
  then show ?case using 1 by simp
next
  case (2 late now e e')
  show ?case
  proof (cases "10 \<le> tp_size (te_tx_pool e)")
    case True
    obtain r d where cb: "create_block mem (0x01 # replicate 63 0) now e = (r, d)" by fastforce
    note ok = create_block_ok [OF 2(2) cb]
    obtain b where b: "r = Inr b" "tb_difficulty b = 0xFFFF" "tb_prev_block_hash b = last (tc_block_hashes (te_blockchain e))"
      using ok(2) by blast
    have "mine_block mem late b d = Inr e'" using 2(1) True cb b(1) by (simp add: consensus_pass_def)
    then show ?thesis using mine_block_ok [of d b] ok(1) b 2(2) by simp
  next
    case False
    then show ?thesis using 2 by (simp add: consensus_pass_def)
  qed
next
  case (3 e)
  then show ?case by (simp add: prune_ok)
qed (simp_all add: transfer_tokens_def get_balance_def case_prod_unfold Let_def)

text \<open>
  C31: The chain is sound in every state the engine can reach by passes that each run alone and in which every
  release of memory is defined: each block that is kept has its
  height, the hash entered for it and the hash of its predecessor, and its own hash begins with four zero bytes, except
  the first block's; difficulties add up; the last block is never pruned, and no operation fails to find it.
\<close>

theorem token_chain_invariant:
  assumes "(tok_step mem)\<^sup>*\<^sup>* e0 e" "te_blockchain e0 = tok_chain_create mem now"
  shows "tok_chain_ok (te_blockchain e) \<and> (\<exists>b e'. create_block mem miner t e = (Inr b, e'))"
proof -
  have "tok_chain_ok (tok_chain_create mem now)"
    by (simp add: tok_chain_ok_def tok_chain_create_def max_blocks_def block_ok_def zero_block_def Let_def)
  then have "tok_chain_ok (te_blockchain e0)" unfolding assms(2) .
  with assms(1) have ok: "tok_chain_ok (te_blockchain e)"
    by (induction rule: rtranclp_induct) (auto intro: step_ok)
  moreover obtain r e' where "create_block mem miner t e = (r, e')" by fastforce
  ultimately show ?thesis using create_block_ok(2) [OF ok] by blast
qed

theorem token_chain_invariant_witness:
  "tok_chain_ok (te_blockchain ((small_engine zero_tx [] 3)\<lparr>te_blockchain := prune_pass (tok_chain_create lucky_image 0)\<rparr>))"
proof -
  let ?e = "(small_engine zero_tx [] 3)\<lparr>te_blockchain := tok_chain_create lucky_image 0\<rparr>"
  have "(tok_step lucky_image)\<^sup>*\<^sup>* ?e (?e\<lparr>te_blockchain := prune_pass (te_blockchain ?e)\<rparr>)"
    by (rule r_into_rtranclp) (rule tok_step.intros(3))
  from token_chain_invariant [OF this, of 0] show ?thesis by simp
qed

end
