(* ===== verification/Tok_Market.thy ===== *)
theory Tok_Market
  imports Tok_Hash
begin

text \<open>
  The managers of \<open>1-to-file/main_file.cpp\<close> beside the engine: token registry, peers, staking,
  governance, liquidity pools, collectibles and atomic swaps, over a common interface, a
  table of bounded length to which entries are appended (\<open>slot_table\<close>). A table is the list of its
  entries in use; arrays and fields that nothing sets or reads are left out. A string is what stands before its zero byte.
\<close>

section \<open>Tables that are appended to\<close>

locale slot_table =
  fixes rows :: "'s \<Rightarrow> 'r list" and limit :: nat and row :: "'a \<Rightarrow> 's \<Rightarrow> 'r"
    and put :: "'a \<Rightarrow> 's \<Rightarrow> 'b \<times> 's" and yes :: "'a \<Rightarrow> nat \<Rightarrow> 'b" and no :: 'b
  assumes put_room: "length (rows s) < limit \<Longrightarrow>
      fst (put a s) = yes a (length (rows s)) \<and> rows (snd (put a s)) = rows s @ [row a s]"
    and put_full: "limit \<le> length (rows s) \<Longrightarrow> put a s = (no, s)"
begin

lemma put_rows: "rows (snd (put a s)) = (if length (rows s) < limit then rows s @ [row a s] else rows s)"
  using put_room [of s a] put_full [of s a] by simp

lemma put_bounded: "length (rows s) \<le> limit \<Longrightarrow> length (rows (snd (put a s))) \<le> limit"
  by (simp add: put_rows)

lemma put_keeps: "i < length (rows s) \<Longrightarrow> rows (snd (put a s)) ! i = rows s ! i"
  by (simp add: put_rows nth_append)

lemma puts_length:
  "length (rows s) \<le> limit \<Longrightarrow> length (rows (foldl (\<lambda>s a. snd (put a s)) s as)) = min limit (length (rows s) + length as)"
proof (induction as arbitrary: s)
  case (Cons a as)
  have l: "length (rows (snd (put a s))) = min limit (Suc (length (rows s)))"
    by (cases "length (rows s) < limit") (use Cons.prems in \<open>simp_all add: put_rows\<close>)
  have "length (rows (foldl (\<lambda>s a. snd (put a s)) (snd (put a s)) as)) = min limit (min limit (Suc (length (rows s))) + length as)"
    using Cons.IH [of "snd (put a s)"] unfolding l by linarith
  also have "\<dots> = min limit (length (rows s) + length (a # as))" by simp
  finally show ?case by (simp only: foldl_Cons)
qed simp

text \<open>a property every new row has, in the table in which it is put, every row has\<close>

lemma puts_all:
  assumes "\<forall>r\<in>set (rows s). P r" "\<And>a t. P (row a t)"
  shows "\<forall>r\<in>set (rows (foldl (\<lambda>s a. snd (put a s)) s as)). P r"
  using assms(1)
proof (induction as arbitrary: s)
  case (Cons a as)
  have "\<forall>r\<in>set (rows (snd (put a s))). P r"
    by (cases "length (rows s) < limit") (use Cons.prems assms(2) [of a s] in \<open>simp_all add: put_rows\<close>)
  then show ?case unfolding foldl_Cons by (rule Cons.IH)
qed simp

end

definition c_str :: "nat \<Rightarrow> string \<Rightarrow> string" where
  "c_str n s = take n (takeWhile (\<lambda>c. c \<noteq> char_of (0::nat)) s)"

section \<open>Tokens and peers\<close>

record token =
  tk_symbol :: string
  tk_name :: string
  tk_id :: u32
  tk_issuer :: bytes
  tk_total_supply :: u64
  tk_circulating_supply :: u64
  tk_decimals :: u8
  tk_created_at :: u64
  tk_holders_count :: u32
  tk_is_frozen :: bool
  tk_is_mintable :: bool
  tk_is_burnable :: bool
  tk_version :: u32
  tk_max_supply :: u64
  tk_transfer_fee_bps :: u32
  tk_fee_collector :: bytes

definition create_token :: "string \<Rightarrow> string \<Rightarrow> bytes \<Rightarrow> u64 \<Rightarrow> u8 \<Rightarrow> u64 \<Rightarrow> token" where
  "create_token symbol name issuer supply decimals now =
     \<lparr>tk_symbol = c_str 7 symbol, tk_name = c_str 31 name, tk_id = 0, tk_issuer = issuer, tk_total_supply = supply,
      tk_circulating_supply = supply, tk_decimals = decimals, tk_created_at = now, tk_holders_count = 0, tk_is_frozen = False,
      tk_is_mintable = True, tk_is_burnable = True, tk_version = 1, tk_max_supply = supply * 2, tk_transfer_fee_bps = 0,
      tk_fee_collector = issuer\<rparr>"

text \<open>the tokens with the hash of the memory of the structure given\<close>

type_synonym token_registry = "(token \<times> bytes) list"

definition token_registry_register :: "(token \<Rightarrow> bytes) \<Rightarrow> token \<Rightarrow> token_registry \<Rightarrow> u32 \<times> token_registry" where
  "token_registry_register mem token r =
     (if 50000 \<le> length r then (- 1, r)
      else (of_nat (length r), r @ [(token\<lparr>tk_id := of_nat (length r)\<rparr>, compute_hash (mem token))]))"

record tok_peer =
  tp_id :: u32
  tp_ip :: string
  tp_port :: u16
  tp_last_seen :: u64
  tp_score :: u32
  tp_is_active :: bool
  tp_reputation :: u32

record tok_peers =
  tps_peers :: "tok_peer list"
  tps_active_connections :: u32

definition peer_manager_add :: "string \<Rightarrow> u16 \<Rightarrow> u64 \<Rightarrow> tok_peers \<Rightarrow> bool \<times> tok_peers" where
  "peer_manager_add ip port now m =
     (if 1024 \<le> length (tps_peers m) then (False, m)
      else (True, m\<lparr>tps_peers := tps_peers m @ [\<lparr>tp_id = of_nat (length (tps_peers m)), tp_ip = c_str 15 ip, tp_port = port,
                tp_last_seen = now, tp_score = 100, tp_is_active = True, tp_reputation = 100\<rparr>],
              tps_active_connections := tps_active_connections m + 1\<rparr>))"

section \<open>Staking and governance\<close>

record tok_validator =
  tv_id :: u32
  tv_address :: bytes
  tv_stake :: u64
  tv_rewards :: u64
  tv_blocks_validated :: u32
  tv_missed_blocks :: u32
  tv_uptime_percent :: u32
  tv_registered_at :: u64
  tv_is_active :: bool
  tv_commission_bps :: u32
  tv_reward_address :: bytes
  tv_version :: u32

record staking_manager =
  sm_validators :: "tok_validator list"
  sm_total_staked :: u64
  sm_min_stake_amount :: u32
  sm_epoch_duration :: u32
  sm_current_epoch :: u32

definition staking_manager_create :: staking_manager where
  "staking_manager_create = \<lparr>sm_validators = [], sm_total_staked = 0, sm_min_stake_amount = 10000, sm_epoch_duration = 86400,
     sm_current_epoch = 0\<rparr>"

definition new_validator :: "bytes \<Rightarrow> u64 \<Rightarrow> u32 \<Rightarrow> u64 \<Rightarrow> nat \<Rightarrow> tok_validator" where
  "new_validator addr stake commission now i =
     \<lparr>tv_id = of_nat i, tv_address = addr, tv_stake = stake, tv_rewards = 0, tv_blocks_validated = 0, tv_missed_blocks = 0,
      tv_uptime_percent = 100, tv_registered_at = now, tv_is_active = True, tv_commission_bps = commission,
      tv_reward_address = addr, tv_version = 1\<rparr>"

definition staking_manager_register_validator ::
  "bytes \<Rightarrow> u64 \<Rightarrow> u32 \<Rightarrow> u64 \<Rightarrow> staking_manager \<Rightarrow> bool \<times> staking_manager" where
  "staking_manager_register_validator addr stake commission now s =
     (if 1000 \<le> length (sm_validators s) then (False, s)
      else (True, s\<lparr>sm_validators := sm_validators s @ [new_validator addr stake commission now (length (sm_validators s))],
              sm_total_staked := sm_total_staked s + stake\<rparr>))"

record proposal =
  pr_id :: u32
  pr_proposer :: bytes
  pr_title :: string
  pr_description :: string
  pr_start_epoch :: u32
  pr_end_epoch :: u32
  pr_for_votes :: u64
  pr_against_votes :: u64
  pr_abstain_votes :: u64
  pr_status :: u8
  pr_proposal_type :: u8

type_synonym governance_manager = "proposal list"

definition governance_manager_create_proposal ::
  "bytes \<Rightarrow> string \<Rightarrow> string \<Rightarrow> u8 \<Rightarrow> governance_manager \<Rightarrow> u32 \<times> governance_manager" where
  "governance_manager_create_proposal proposer title description proposal_type g =
     (if 5000 \<le> length g then (- 1, g)
      else (of_nat (length g), g @ [\<lparr>pr_id = of_nat (length g), pr_proposer = proposer, pr_title = c_str 255 title,
              pr_description = c_str 4095 description, pr_start_epoch = of_nat (length g), pr_end_epoch = of_nat (length g) + 100,
              pr_for_votes = 0, pr_against_votes = 0, pr_abstain_votes = 0, pr_status = 0, pr_proposal_type = proposal_type\<rparr>]))"

section \<open>Liquidity pools\<close>

record liquidity_pool =
  lp_id :: u32
  lp_token_a :: bytes
  lp_token_b :: bytes
  lp_reserve_a :: u64
  lp_reserve_b :: u64
  lp_total_liquidity :: u64
  lp_fee_bps :: u32
  lp_created_at :: u64
  lp_volume_24h :: u64
  lp_is_active :: bool

type_synonym liquidity_manager = "liquidity_pool list"

definition liquidity_manager_create_pool :: "bytes \<Rightarrow> bytes \<Rightarrow> u32 \<Rightarrow> u64 \<Rightarrow> liquidity_manager \<Rightarrow> u32 \<times> liquidity_manager" where
  "liquidity_manager_create_pool token_a token_b fee_bps now m =
     (if 500 \<le> length m then (- 1, m)
      else (of_nat (length m), m @ [\<lparr>lp_id = of_nat (length m), lp_token_a = token_a, lp_token_b = token_b, lp_reserve_a = 0,
              lp_reserve_b = 0, lp_total_liquidity = 0, lp_fee_bps = fee_bps, lp_created_at = now, lp_volume_24h = 0,
              lp_is_active = True\<rparr>]))"

text \<open>None: a division by zero\<close>

definition swap_output :: "u64 \<Rightarrow> u64 \<Rightarrow> u32 \<Rightarrow> u64 \<Rightarrow> u64 option" where
  "swap_output reserve_in reserve_out fee_bps amount_in =
     (let amount_in_with_fee = amount_in * ucast (10000 - fee_bps) div 10000;
          d = reserve_in + amount_in_with_fee
      in if d = 0 then None else Some (amount_in_with_fee * reserve_out div d))"

definition liquidity_manager_calculate_swap :: "u32 \<Rightarrow> u64 \<Rightarrow> bool \<Rightarrow> liquidity_manager \<Rightarrow> u64 option" where
  "liquidity_manager_calculate_swap i amount_in is_token_a m =
     (if length m \<le> unat i then Some 0
      else let pool = m ! unat i;
               reserve_in = (if is_token_a then lp_reserve_a pool else lp_reserve_b pool);
               reserve_out = (if is_token_a then lp_reserve_b pool else lp_reserve_a pool)
           in if reserve_in = 0 \<or> reserve_out = 0 then Some 0 else swap_output reserve_in reserve_out (lp_fee_bps pool) amount_in)"

section \<open>Collectibles\<close>

record collection =
  nc_id :: u32
  nc_name :: string
  nc_symbol :: string
  nc_owner :: bytes
  nc_total_supply :: u32
  nc_max_supply :: u32
  nc_created_at :: u64
  nc_is_frozen :: bool
  nc_royalty_bps :: u64
  nc_royalty_recipient :: bytes

record nft_item =
  ni_id :: u64
  ni_collection_id :: u32
  ni_owner :: bytes
  ni_token_id :: u32
  ni_metadata_hash :: bytes
  ni_minted_at :: u64
  ni_last_sale_price :: u64
  ni_transfer_count :: u32
  ni_is_listed :: bool
  ni_listed_price :: u64
  ni_creator :: bytes
  ni_royalty_paid :: u32

record nft_manager =
  nm_collections :: "collection list"
  nm_items :: "nft_item list"

definition nft_manager_create :: nft_manager where
  "nft_manager_create = \<lparr>nm_collections = [], nm_items = []\<rparr>"

definition nft_manager_create_collection :: "string \<Rightarrow> string \<Rightarrow> bytes \<Rightarrow> u32 \<Rightarrow> u64 \<Rightarrow> nft_manager \<Rightarrow> u32 \<times> nft_manager" where
  "nft_manager_create_collection name symbol owner max_supply now m =
     (if 1000 \<le> length (nm_collections m) then (- 1, m)
      else (of_nat (length (nm_collections m)),
            m\<lparr>nm_collections := nm_collections m @ [\<lparr>nc_id = of_nat (length (nm_collections m)), nc_name = c_str 63 name,
                nc_symbol = c_str 15 symbol, nc_owner = owner, nc_total_supply = 0, nc_max_supply = max_supply,
                nc_created_at = now, nc_is_frozen = False, nc_royalty_bps = 250, nc_royalty_recipient = owner\<rparr>]\<rparr>))"

definition nft_manager_mint :: "u32 \<Rightarrow> bytes \<Rightarrow> bytes \<Rightarrow> u64 \<Rightarrow> nft_manager \<Rightarrow> u64 \<times> nft_manager" where
  "nft_manager_mint collection_id to metadata now m =
     (if length (nm_collections m) \<le> unat collection_id then (- 1, m)
      else if 100000 \<le> length (nm_items m) then (- 1, m)
      else let col = nm_collections m ! unat collection_id
           in if nc_max_supply col \<le> nc_total_supply col then (- 1, m)
              else (of_nat (length (nm_items m)),
                    m\<lparr>nm_items := nm_items m @ [\<lparr>ni_id = of_nat (length (nm_items m)), ni_collection_id = collection_id, ni_owner = to,
                        ni_token_id = nc_total_supply col + 1, ni_metadata_hash = metadata, ni_minted_at = now,
                        ni_last_sale_price = 0, ni_transfer_count = 0, ni_is_listed = False, ni_listed_price = 0, ni_creator = to,
                        ni_royalty_paid = 0\<rparr>],
                      nm_collections := (nm_collections m)[unat collection_id := col\<lparr>nc_total_supply := nc_total_supply col + 1\<rparr>]\<rparr>))"

section \<open>Atomic swaps\<close>

record atomic_swap =
  as_swap_id :: bytes
  as_initiator :: bytes
  as_asset_a :: bytes
  as_asset_b :: bytes
  as_amount_a :: u64
  as_amount_b :: u64
  as_secret_hash :: bytes
  as_timeout :: u64
  as_status :: u8
  as_version :: u8

type_synonym swap_manager = "atomic_swap list"

text \<open>336 bytes are hashed, of which 272 are written\<close>

definition swap_id_of :: "bytes \<Rightarrow> bytes \<Rightarrow> bytes \<Rightarrow> bytes \<Rightarrow> u64 \<Rightarrow> u64 \<Rightarrow> bytes \<Rightarrow> bytes" where
  "swap_id_of stack initiator asset_a asset_b amount_a amount_b secret_hash =
     (let written = initiator @ asset_a @ asset_b @ store_le64 amount_a @ store_le64 amount_b @ secret_hash
      in compute_hash (written @ take (336 - length written) stack))"

record swap_request =
  sr_stack :: bytes
  sr_initiator :: bytes
  sr_asset_a :: bytes
  sr_asset_b :: bytes
  sr_amount_a :: u64
  sr_amount_b :: u64
  sr_secret_hash :: bytes
  sr_timeout :: u64

definition new_swap :: "swap_request \<Rightarrow> atomic_swap" where
  "new_swap r = \<lparr>as_swap_id = swap_id_of (sr_stack r) (sr_initiator r) (sr_asset_a r) (sr_asset_b r) (sr_amount_a r) (sr_amount_b r)
        (sr_secret_hash r), as_initiator = sr_initiator r, as_asset_a = sr_asset_a r, as_asset_b = sr_asset_b r,
     as_amount_a = sr_amount_a r, as_amount_b = sr_amount_b r, as_secret_hash = sr_secret_hash r, as_timeout = sr_timeout r,
     as_status = 0, as_version = 1\<rparr>"

definition atomic_swap_manager_create :: "swap_request \<Rightarrow> swap_manager \<Rightarrow> bytes \<times> swap_manager" where
  "atomic_swap_manager_create r m =
     (if 10000 \<le> length m then (replicate 64 0, m) else (as_swap_id (new_swap r), m @ [new_swap r]))"

definition atomic_swap_manager_get_status :: "bytes \<Rightarrow> swap_manager \<Rightarrow> u8" where
  "atomic_swap_manager_get_status swap_id m =
     (case List.find (\<lambda>s. as_swap_id s = swap_id) m of Some s \<Rightarrow> as_status s | None \<Rightarrow> 0xFF)"

section \<open>Every manager is such a table\<close>

interpretation registry: slot_table "\<lambda>r. r" 50000
    "\<lambda>(mem, tok) r. (tok\<lparr>tk_id := of_nat (length r)\<rparr>, compute_hash (mem tok))"
    "\<lambda>(mem, tok). token_registry_register mem tok" "\<lambda>_. of_nat" "- 1"
  by unfold_locales (auto simp: token_registry_register_def split_beta)

interpretation tok_pm: slot_table tps_peers 1024
    "\<lambda>(ip, port, now) m. \<lparr>tp_id = of_nat (length (tps_peers m)), tp_ip = c_str 15 ip, tp_port = port, tp_last_seen = now,
       tp_score = 100, tp_is_active = True, tp_reputation = 100\<rparr>"
    "\<lambda>(ip, port, now). peer_manager_add ip port now" "\<lambda>_ _. True" False
  by unfold_locales (auto simp: peer_manager_add_def split_beta)

interpretation stake: slot_table sm_validators 1000
    "\<lambda>(addr, stake, commission, now) s. new_validator addr stake commission now (length (sm_validators s))"
    "\<lambda>(addr, stake, commission, now). staking_manager_register_validator addr stake commission now" "\<lambda>_ _. True" False
  by unfold_locales (auto simp: staking_manager_register_validator_def split_beta)

interpretation gov: slot_table "\<lambda>g. g" 5000
    "\<lambda>(who, title, description, kind) g. \<lparr>pr_id = of_nat (length g), pr_proposer = who, pr_title = c_str 255 title,
       pr_description = c_str 4095 description, pr_start_epoch = of_nat (length g), pr_end_epoch = of_nat (length g) + 100,
       pr_for_votes = 0, pr_against_votes = 0, pr_abstain_votes = 0, pr_status = 0, pr_proposal_type = kind\<rparr>"
    "\<lambda>(who, title, description, kind). governance_manager_create_proposal who title description kind" "\<lambda>_. of_nat" "- 1"
  by unfold_locales (auto simp: governance_manager_create_proposal_def split_beta)

interpretation pools: slot_table "\<lambda>m. m" 500
    "\<lambda>(a, b, fee, now) m. \<lparr>lp_id = of_nat (length m), lp_token_a = a, lp_token_b = b, lp_reserve_a = 0, lp_reserve_b = 0,
       lp_total_liquidity = 0, lp_fee_bps = fee, lp_created_at = now, lp_volume_24h = 0, lp_is_active = True\<rparr>"
    "\<lambda>(a, b, fee, now). liquidity_manager_create_pool a b fee now" "\<lambda>_. of_nat" "- 1"
  by unfold_locales (auto simp: liquidity_manager_create_pool_def split_beta)

interpretation swaps: slot_table "\<lambda>m. m" 10000 "\<lambda>r _. new_swap r" atomic_swap_manager_create
    "\<lambda>r _. as_swap_id (new_swap r)" "replicate 64 0"
  by unfold_locales (auto simp: atomic_swap_manager_create_def)

section \<open>New liquidity pools\<close>

definition create_pools :: "(bytes \<times> bytes \<times> u32 \<times> u64) list \<Rightarrow> liquidity_manager" where
  "create_pools ps = foldl (\<lambda>m (a, b, fee, now). snd (liquidity_manager_create_pool a b fee now m)) [] ps"

lemma create_pools_as_puts:
  "create_pools ps = foldl (\<lambda>m p. snd ((case p of (a, b, fee, now) \<Rightarrow> liquidity_manager_create_pool a b fee now) m)) [] ps"
  unfolding create_pools_def by (rule arg_cong [where f = "\<lambda>f. foldl f [] ps"]) (auto simp: fun_eq_iff)

lemma create_pools_empty_reserves: "\<forall>p\<in>set (create_pools ps). lp_reserve_a p = 0 \<and> lp_reserve_b p = 0"
  unfolding create_pools_as_puts by (rule pools.puts_all) auto

text \<open>
  At most 500 liquidity pools exist, whatever is created, and every one has empty reserves, since no operation funds
  a pool: each computed swap, in either direction and of any amount, yields 0. (The demonstration writes the reserves itself.)
\<close>

theorem unfunded_pools:
  "length (create_pools ps) = min 500 (length ps)
   \<and> liquidity_manager_calculate_swap i amount_in is_token_a (create_pools ps) = Some 0"
proof
  show "length (create_pools ps) = min 500 (length ps)"
    unfolding create_pools_as_puts using pools.puts_length [of "[]" ps] by simp
  show "liquidity_manager_calculate_swap i amount_in is_token_a (create_pools ps) = Some 0"
  proof (cases "length (create_pools ps) \<le> unat i")
    case False
    then have "create_pools ps ! unat i \<in> set (create_pools ps)" by simp
    then have "lp_reserve_a (create_pools ps ! unat i) = 0" "lp_reserve_b (create_pools ps ! unat i) = 0"
      using create_pools_empty_reserves [of ps] by blast+
    then show ?thesis by (simp add: liquidity_manager_calculate_swap_def Let_def)
  qed (simp add: liquidity_manager_calculate_swap_def)
qed

section \<open>What a swap leaves in the pool\<close>

lemma swap_output_exact:
  assumes fee: "unat fee_bps \<le> 10000" and scaled: "unat amount_in * 10000 < 2 ^ 64"
    and prod: "unat amount_in * unat reserve_out < 2 ^ 64" and sum: "unat reserve_in + unat amount_in < 2 ^ 64"
    and pos: "reserve_in \<noteq> 0"
  shows "\<exists>f out. swap_output reserve_in reserve_out fee_bps amount_in = Some out \<and> f \<le> unat amount_in
           \<and> unat out = f * unat reserve_out div (unat reserve_in + f)"
proof -
  let ?w = "amount_in * ucast (10000 - fee_bps) div 10000 :: u64"
  let ?f = "unat amount_in * (10000 - unat fee_bps) div 10000"
  have "unat (10000 - fee_bps) = 10000 - unat fee_bps"
    using fee by (simp add: unat_sub_if_size word_le_nat_alt)
  then have u: "unat (ucast (10000 - fee_bps) :: u64) = 10000 - unat fee_bps"
    using fee by (simp add: unsigned_ucast_eq take_bit_nat_eq_self)
  have le: "unat amount_in * (10000 - unat fee_bps) \<le> unat amount_in * 10000" by (rule mult_left_mono) simp_all
  have "unat (amount_in * ucast (10000 - fee_bps) :: u64) = unat amount_in * (10000 - unat fee_bps)"
    using le_less_trans [OF le scaled] by (simp add: unat_word_ariths u)
  then have w: "unat ?w = ?f" by (simp add: unat_div)
  have f: "?f \<le> unat amount_in" using div_le_mono [OF le, of 10000] by simp
  have "?f * unat reserve_out \<le> unat amount_in * unat reserve_out" using f by (rule mult_right_mono) simp
  from le_less_trans [OF this prod] have p: "unat (?w * reserve_out) = ?f * unat reserve_out"
    by (simp add: unat_mult_lem [THEN iffD1] w)
  have "unat reserve_in + ?f < 2 ^ 64" using f sum by linarith
  then have d: "unat (reserve_in + ?w) = unat reserve_in + ?f" by (simp add: unat_add_lem [THEN iffD1] w)
  have "unat reserve_in \<noteq> 0" using pos by (simp add: unat_eq_0)
  then have "reserve_in + ?w \<noteq> 0" using d by (metis add_is_0 unat_0)
  then have "swap_output reserve_in reserve_out fee_bps amount_in = Some (?w * reserve_out div (reserve_in + ?w))"
    by (simp add: swap_output_def Let_def)
  moreover have "unat (?w * reserve_out div (reserve_in + ?w)) = ?f * unat reserve_out div (unat reserve_in + ?f)"
    by (simp only: unat_div p d)
  ultimately show ?thesis using f by blast
qed

lemma product_not_less:
  fixes r f a q out :: nat
  assumes "f \<le> a" "out = f * q div (r + f)"
  shows "r * q \<le> (r + a) * (q - out)"
proof -
  have "(r + f) * out \<le> f * q" using assms(2) by simp
  then have "r * q \<le> (r + f) * q - (r + f) * out" by (simp add: algebra_simps)
  also have "\<dots> = (r + f) * (q - out)" by (simp add: diff_mult_distrib2)
  also have "\<dots> \<le> (r + a) * (q - out)" using assms(1) by (intro mult_right_mono) simp_all
  finally show ?thesis .
qed

text \<open>
  C36: A computed swap, with a fee of at most 10000 basis points and amounts whose products fit in 64 bits, gives less than the
  whole reserve and leaves the pool's product of reserves at least as large as it was.
\<close>

theorem swap_keeps_product:
  assumes "unat i < length m"
    and "rin = (if is_a then lp_reserve_a (m ! unat i) else lp_reserve_b (m ! unat i))"
    and "rout = (if is_a then lp_reserve_b (m ! unat i) else lp_reserve_a (m ! unat i))"
    and "0 < rin" and "0 < rout" and "unat (lp_fee_bps (m ! unat i)) \<le> 10000"
    and "unat amount_in * 10000 < 2 ^ 64" and "unat amount_in * unat rout < 2 ^ 64" and "unat rin + unat amount_in < 2 ^ 64"
  shows "\<exists>out. liquidity_manager_calculate_swap i amount_in is_a m = Some out \<and> out < rout
           \<and> unat rin * unat rout \<le> (unat rin + unat amount_in) * (unat rout - unat out)"
proof -
  have pos: "rin \<noteq> 0" "rout \<noteq> 0" using assms(4,5) by auto
  obtain f out where so: "swap_output rin rout (lp_fee_bps (m ! unat i)) amount_in = Some out" "f \<le> unat amount_in"
      "unat out = f * unat rout div (unat rin + f)"
    using swap_output_exact [OF assms(6-9) pos(1)] by blast
  have "liquidity_manager_calculate_swap i amount_in is_a m = Some out"
    using assms(1) pos so(1) unfolding liquidity_manager_calculate_swap_def Let_def assms(2) [symmetric] assms(3) [symmetric]
    by simp
  moreover have "out < rout"
  proof -
    have "0 < unat rin" "0 < unat rout" using pos by (simp_all add: unat_gt_0)
    then have "f * unat rout < unat rout * (unat rin + f)" by (simp add: algebra_simps)
    then have "f * unat rout div (unat rin + f) < unat rout"
      using \<open>0 < unat rin\<close> by (simp add: div_less_iff_less_mult)
    then show ?thesis using so(3) by (simp add: word_less_nat_alt)
  qed
  ultimately show ?thesis using product_not_less [OF so(2,3)] by blast
qed

definition sample_pool :: liquidity_pool where
  "sample_pool = \<lparr>lp_id = 0, lp_token_a = [], lp_token_b = [], lp_reserve_a = 1000, lp_reserve_b = 500, lp_total_liquidity = 0,
     lp_fee_bps = 30, lp_created_at = 0, lp_volume_24h = 0, lp_is_active = True\<rparr>"

theorem swap_keeps_product_witness:
  "\<exists>out. liquidity_manager_calculate_swap 0 100 True [sample_pool] = Some out \<and> out < 500
     \<and> unat (1000 :: u64) * unat (500 :: u64) \<le> (unat (1000 :: u64) + unat (100 :: u64)) * (unat (500 :: u64) - unat out)"
  by (rule swap_keeps_product [where i = 0 and m = "[sample_pool]" and is_a = True and amount_in = 100])
    (simp_all add: sample_pool_def)

text \<open>the sums and products are not checked: the division by zero, and more than the reserve\<close>

lemma swap_output_wraps:
  "swap_output (- 1) q 0 1 = None" "swap_output (- 1) q 0 2 = Some (2 * q)"
  by (simp_all add: swap_output_def)

text \<open>the pool of \<open>demonstrate_dex_functionality\<close>, whose product of amount and reserve exceeds 64 bits\<close>

definition dex_demo_pool :: liquidity_pool where
  "dex_demo_pool = \<lparr>lp_id = 0, lp_token_a = 0xAA # replicate 63 0, lp_token_b = 0xBB # replicate 63 0, lp_reserve_a = 100000000000000,
     lp_reserve_b = 50000000000000, lp_total_liquidity = 70710678118654, lp_fee_bps = 30, lp_created_at = 0, lp_volume_24h = 0,
     lp_is_active = True\<rparr>"

lemma dex_demo_wraps:
  "liquidity_manager_calculate_swap 0 1000000000000 True [dex_demo_pool] = Some 167106"
  "(997000000000 * 50000000000000) div (100000000000000 + 997000000000) = (493579017198 :: nat)"
  by (simp_all add: liquidity_manager_calculate_swap_def dex_demo_pool_def swap_output_def)

section \<open>Atomic swaps stay as they are\<close>

definition create_swaps :: "swap_request list \<Rightarrow> swap_manager" where
  "create_swaps rs = foldl (\<lambda>m r. snd (atomic_swap_manager_create r m)) [] rs"

lemma create_swaps_rows: "create_swaps rs = map new_swap (take 10000 rs)"
  unfolding create_swaps_def
proof (induction rs rule: rev_induct)
  case (snoc r rs)
  then show ?case by (cases "length rs < 10000") (simp_all add: swaps.put_rows)
qed simp

lemma find_status:
  assumes "\<forall>s\<in>set m. as_status s = 0"
  shows "atomic_swap_manager_get_status h m = (if \<exists>s\<in>set m. as_swap_id s = h then 0 else 0xFF)"
  using assms unfolding atomic_swap_manager_get_status_def by (induction m) auto

text \<open>
  After any requests the first 10000 are in the table and no other; the status read for an identifier is 0 if one of these
  has it and 255 otherwise: no swap is ever completed, refunded or expired, and a request beyond the table's size has
  the identifier of 64 zero bytes, under which nothing is stored unless a hash is zero.
\<close>

theorem swap_status_constant:
  "atomic_swap_manager_get_status h (create_swaps rs)
     = (if \<exists>r\<in>set (take 10000 rs). as_swap_id (new_swap r) = h then 0 else 0xFF)
   \<and> fst (atomic_swap_manager_create r (create_swaps rs))
     = (if length rs < 10000 then as_swap_id (new_swap r) else replicate 64 0)"
proof
  have "\<forall>s\<in>set (create_swaps rs). as_status s = 0" by (simp add: create_swaps_rows new_swap_def)
  from find_status [OF this, of h] show "atomic_swap_manager_get_status h (create_swaps rs)
     = (if \<exists>r\<in>set (take 10000 rs). as_swap_id (new_swap r) = h then 0 else 0xFF)"
    by (simp add: create_swaps_rows)
  show "fst (atomic_swap_manager_create r (create_swaps rs)) = (if length rs < 10000 then as_swap_id (new_swap r) else replicate 64 0)"
    by (simp add: atomic_swap_manager_create_def create_swaps_rows)
qed

section \<open>Collections number their items\<close>

definition items_of :: "nat \<Rightarrow> nft_item list \<Rightarrow> nft_item list" where
  "items_of c = filter (\<lambda>it. unat (ni_collection_id it) = c)"

definition collection_ok :: "nft_item list \<Rightarrow> nat \<Rightarrow> collection \<Rightarrow> bool" where
  "collection_ok its c col \<longleftrightarrow> nc_total_supply col \<le> nc_max_supply col
     \<and> map (unat \<circ> ni_token_id) (items_of c its) = [1..<Suc (unat (nc_total_supply col))]"

definition nft_ok :: "nft_manager \<Rightarrow> bool" where
  "nft_ok m \<longleftrightarrow> length (nm_collections m) \<le> 1000 \<and> length (nm_items m) \<le> 100000
     \<and> list_all (\<lambda>it. unat (ni_collection_id it) < length (nm_collections m)) (nm_items m)
     \<and> map (unat \<circ> ni_id) (nm_items m) = [0..<length (nm_items m)]
     \<and> (\<forall>c<length (nm_collections m). collection_ok (nm_items m) c (nm_collections m ! c))"

inductive nft_reach :: "nft_manager \<Rightarrow> bool" where
  nft_start: "nft_reach nft_manager_create"
| nft_collect: "nft_reach m \<Longrightarrow> nft_reach (snd (nft_manager_create_collection name symbol owner max_supply now m))"
| nft_mint: "nft_reach m \<Longrightarrow> nft_reach (snd (nft_manager_mint cid to metadata now m))"

lemma nft_ok_collection:
  assumes "nft_ok m"
  shows "nft_ok (snd (nft_manager_create_collection name symbol owner max_supply now m))"
proof (cases "1000 \<le> length (nm_collections m)")
  case False
  have "items_of (length (nm_collections m)) (nm_items m) = []"
    using assms unfolding items_of_def nft_ok_def list_all_iff filter_empty_conv by fastforce
  with False assms show ?thesis
    unfolding nft_ok_def nft_manager_create_collection_def
    by (auto simp: nth_append less_Suc_eq collection_ok_def list_all_iff)
qed (use assms in \<open>simp add: nft_manager_create_collection_def\<close>)

lemma nft_mint_cases:
  obtains (refused) "nft_manager_mint cid to metadata now m = (- 1, m)"
  | (minted) it where "unat cid < length (nm_collections m)" "length (nm_items m) < 100000"
      "nc_total_supply (nm_collections m ! unat cid) < nc_max_supply (nm_collections m ! unat cid)"
      "ni_id it = of_nat (length (nm_items m))" "ni_collection_id it = cid"
      "ni_token_id it = nc_total_supply (nm_collections m ! unat cid) + 1"
      "nm_items (snd (nft_manager_mint cid to metadata now m)) = nm_items m @ [it]"
      "nm_collections (snd (nft_manager_mint cid to metadata now m))
         = (nm_collections m)[unat cid := (nm_collections m ! unat cid)
             \<lparr>nc_total_supply := nc_total_supply (nm_collections m ! unat cid) + 1\<rparr>]"
proof (cases "length (nm_collections m) \<le> unat cid \<or> 100000 \<le> length (nm_items m)
    \<or> nc_max_supply (nm_collections m ! unat cid) \<le> nc_total_supply (nm_collections m ! unat cid)")
  case True
  then show thesis by (intro refused) (auto simp: nft_manager_mint_def Let_def)
next
  case False
  then show thesis by (intro minted) (auto simp: nft_manager_mint_def Let_def)
qed

lemma unat_Suc_below: "(x :: u32) < y \<Longrightarrow> unat (x + 1) = Suc (unat x) \<and> x + 1 \<le> y"
  using unsigned_less [of y, where ?'a = nat] inc_le [of x y] by (simp add: word_less_nat_alt unat_word_ariths)

lemma nft_ok_mint:
  assumes "nft_ok m"
  shows "nft_ok (snd (nft_manager_mint cid to metadata now m))"
proof (rule nft_mint_cases [of cid to metadata now m])
  fix it
  let ?col = "nm_collections m ! unat cid" and ?m = "snd (nft_manager_mint cid to metadata now m)"
  assume c: "unat cid < length (nm_collections m)" and room: "length (nm_items m) < 100000"
    and below: "nc_total_supply ?col < nc_max_supply ?col" and id: "ni_id it = of_nat (length (nm_items m))"
    and cid: "ni_collection_id it = cid" and tid: "ni_token_id it = nc_total_supply ?col + 1"
    and items: "nm_items ?m = nm_items m @ [it]"
    and cols: "nm_collections ?m = (nm_collections m)[unat cid := ?col\<lparr>nc_total_supply := nc_total_supply ?col + 1\<rparr>]"
  have idn: "unat (ni_id it) = length (nm_items m)"
    using room unfolding id by (simp add: unat_of_nat take_bit_nat_eq_self)
  have "collection_ok (nm_items ?m) k (nm_collections ?m ! k)" if k: "k < length (nm_collections m)" for k
  proof (cases "k = unat cid")
    case True
    have "collection_ok (nm_items m) (unat cid) ?col" using assms c by (simp add: nft_ok_def)
    with True c below show ?thesis
      unfolding collection_ok_def items cols items_of_def using unat_Suc_below [OF below] by (simp add: cid tid)
  next
    case False
    have "collection_ok (nm_items m) k (nm_collections m ! k)" using assms k by (simp add: nft_ok_def)
    with False show ?thesis unfolding collection_ok_def items cols items_of_def by (auto simp: cid)
  qed
  then show ?thesis using assms c room idn unfolding nft_ok_def by (simp add: items cols cid)
qed (use assms in simp)

text \<open>
  C35: Whatever collections are created and items minted, refused calls included: the identifiers of the items are
  0, 1, 2, ...; each item belongs to a collection that exists; and each collection's items are numbered 1 to its total supply, in the
  order of minting, which never exceeds its maximal supply.
\<close>

theorem collections_number_items:
  assumes "nft_reach m"
  shows "map (unat \<circ> ni_id) (nm_items m) = [0..<length (nm_items m)]
       \<and> (\<forall>it\<in>set (nm_items m). unat (ni_collection_id it) < length (nm_collections m))
       \<and> (\<forall>c<length (nm_collections m). unat (nc_total_supply (nm_collections m ! c)) \<le> unat (nc_max_supply (nm_collections m ! c))
            \<and> map (unat \<circ> ni_token_id) (filter (\<lambda>it. unat (ni_collection_id it) = c) (nm_items m))
              = [1..<Suc (unat (nc_total_supply (nm_collections m ! c)))])"
proof -
  have "nft_ok m" using assms
  proof induction
    case nft_start
    show ?case by (simp add: nft_ok_def nft_manager_create_def)
  qed (simp_all add: nft_ok_collection nft_ok_mint)
  then show ?thesis unfolding nft_ok_def collection_ok_def items_of_def list_all_iff by (simp add: word_le_nat_alt)
qed

definition sample_nft :: nft_manager where
  "sample_nft = snd (nft_manager_mint 0 [7] [8] 11 (snd (nft_manager_create_collection ''n'' ''s'' [1] 2 10 nft_manager_create)))"

theorem collections_number_items_witness:
  "length (nm_items sample_nft) = 1 \<and> map (unat \<circ> ni_id) (nm_items sample_nft) = [0..<length (nm_items sample_nft)]"
proof
  show "length (nm_items sample_nft) = 1"
    by (simp add: sample_nft_def nft_manager_mint_def nft_manager_create_collection_def nft_manager_create_def Let_def)
  have "nft_reach sample_nft" unfolding sample_nft_def by (intro nft_reach.intros)
  from collections_number_items [OF this]
  show "map (unat \<circ> ni_id) (nm_items sample_nft) = [0..<length (nm_items sample_nft)]" by blast
qed

end
