(* ===== verification/Spec2Isabelle.thy ===== *)
theory Spec2Isabelle
  imports Bank_Sha512 Bank_Poly1305 Bank_Library
    P2p_Store P2p_Codec P2p_Account P2p_Ledger P2p_Consensus P2p_Security P2p_Node
    P2p_Contract P2p_Auth P2p_Cipher P2p_Message P2p_Peers P2p_Web
    P2p_Config P2p_Backup P2p_Scan P2p_Pools P2p_Monitor Tok_Engine Tok_Market
begin

text \<open>
  Verification of the C++ programs of this repository.

  \<^bold>\<open>The programs.\<close> \<open>src/bank_crypto_project\<close> is a cryptographic library for a bank (the
  Blackstone library): hash functions, message authentication, key derivation, AES-GCM,
  ChaCha20-Poly1305, and on top of them a global context with a chain of master keys, a
  pooled random number generator, a table of 32 sessions, secure envelopes and signed
  transactions. \<open>src/main.cpp\<close> is the same library in one file. \<open>src/p2p_banking_system\<close> is a
  peer-to-peer bank: a chain of blocks with transactions, consensus among validators, accounts,
  a ledger and an audit log, contracts, a node that serves users, access control, detection of
  intrusions, authentication, a network of peers with its own cryptography, interfaces for
  HTTP and WebSocket, a database. \<open>src/1-to-file/main_file.cpp\<close> is a third program, an engine for
  tokens: a table of balances, a pool of transactions, workers that process them, a mined chain,
  and managers for liquidity, staking, proposals, collectibles and swaps. The other projects are
  in other languages or repeat these files.

  \<^bold>\<open>How the parts interact.\<close> A session's keys are derived by PBKDF2 (over HMAC over SHA-256)
  from the current key of the chain; an envelope is AES-GCM under a session's key, with a
  nonce from the generator, a checksum (CRC-32) and a hash that identifies the session; a
  transaction is hashed and signed. All of them read and write one global state. In the
  peer-to-peer bank, everything is hashed by SHA-1; a node keeps balances of its own, offers to
  its chain one block for every transfer and broadcasts it under a cipher; a block holds the Merkle root of its
  transactions; the database stores text in a ternary code. In the token engine transfers enter
  the pool, from which workers and the miner take them; both change the table of balances.

  \<^bold>\<open>Theories.\<close>
  \<^item> \<open>Bank_Prelude\<close>: the types (\<open>bytes\<close>, words of 8 to 64 bits), faults, the copy and
    exclusive-or of byte strings, byte order, block splitting, and two interfaces as locales:
    \<open>block_stream\<close> (a hash function that buffers its input) and \<open>key_stream\<close> (a cipher that
    adds a stream of blocks).
  \<^item> \<open>Bank_Utils\<close>: \<open>utils/bank_utils.cpp\<close>, \<open>utils/bank_crc32.cpp\<close>.
  \<^item> \<open>Sha2_Spec\<close>: the hash functions of FIPS 180-4, from the standard, with its constants
    computed from the primes.
  \<^item> \<open>Bank_Sha256\<close>, \<open>Bank_Sha512\<close>: \<open>sha/bank_sha256.cpp\<close>, \<open>sha/bank_sha512.cpp\<close>, each an
    instance of \<open>block_stream\<close>, compared with the standard.
  \<^item> \<open>Bank_Kdf\<close>: \<open>hmac/bank_hmac_sha256.cpp\<close>, \<open>kdf/bank_hkdf.cpp\<close>, \<open>kdf/bank_pbkdf2.cpp\<close>.
  \<^item> \<open>Bank_Aes_Tables\<close>, \<open>Bank_Aes\<close>: \<open>aes/bank_aes_core.cpp\<close>.
  \<^item> \<open>Bank_Gcm\<close>: \<open>gcm/bank_gcm_encrypt.cpp\<close>, \<open>bank_gcm_decrypt.cpp\<close>, \<open>bank_ghash.cpp\<close>; counter
    mode is an instance of \<open>key_stream\<close>.
  \<^item> \<open>Bank_Chacha20\<close>, \<open>Bank_Poly1305\<close>: \<open>chacha20/*.cpp\<close>, \<open>poly1305/bank_poly1305_core.cpp\<close>;
    the cipher is an instance of \<open>key_stream\<close>.
  \<^item> \<open>Bank_State\<close>: \<open>core/*.cpp\<close>, \<open>rng/*.cpp\<close>: the global state is the record \<open>world\<close>, whose
    fields are the global variables of \<open>bank_crypto.cpp\<close>.
  \<^item> \<open>Bank_Session\<close>: \<open>session/*.cpp\<close> and the signature functions of \<open>src/main.cpp\<close>.
  \<^item> \<open>Bank_Envelope\<close>: \<open>envelope/*.cpp\<close>.
  \<^item> \<open>Bank_Transaction\<close>: \<open>transaction/*.cpp\<close>; the extern signature functions are parameters.
  \<^item> \<open>Bank_Library\<close>: the library as one state machine, a step for every public function that
    changes the global state, initialization and shutdown included.
  \<^item> \<open>P2p_Prelude\<close>: what the peer-to-peer bank uses of C++: ordered maps, doubles with
    rounding, decimal printing, exceptions; the interface \<open>dictionary\<close> with \<open>std::map\<close> as its
    first instance. \<open>P2p_Text\<close>: fields with separators, the default format of numbers, the
    number parsers \<open>stod\<close>, \<open>stoull\<close>, \<open>stoi\<close>.
  \<^item> \<open>P2p_Ternary\<close>: \<open>core/ternary.cpp\<close>. \<open>P2p_Sha1\<close>: \<open>core/sha1.cpp\<close>, compared with FIPS 180-4.
  \<^item> \<open>P2p_Store\<close>: \<open>database/*.cpp\<close>; the key-value store is an instance of \<open>dictionary\<close>.
  \<^item> \<open>P2p_Merkle\<close>: \<open>blockchain/merkle_tree.cpp\<close>, over the interface \<open>fixed_hash\<close> (a hash
    function of fixed length), of which SHA-1 is an instance.
  \<^item> \<open>P2p_Chain\<close>: \<open>blockchain/transaction.cpp\<close>, \<open>block.cpp\<close>, \<open>blockchain.cpp\<close>; \<open>P2p_Codec\<close>: their
    text forms. \<open>P2p_Consensus\<close>: \<open>blockchain/consensus.cpp\<close>.
  \<^item> \<open>P2p_Owned\<close>: the interface \<open>owned_items\<close>, a table of items with an index by owner, of which
    accounts and contracts are instances.
  \<^item> \<open>P2p_Account\<close>, \<open>P2p_Ledger\<close>, \<open>P2p_Contract\<close>, \<open>P2p_Node\<close>: \<open>banking/account.cpp\<close>, \<open>ledger.cpp\<close>
    with \<open>audit.cpp\<close>, \<open>smart_contract.cpp\<close>, \<open>bank_node.cpp\<close>.
  \<^item> \<open>P2p_Security\<close>: \<open>security/access_control.cpp\<close>, \<open>intrusion_detection.cpp\<close>. \<open>P2p_Auth\<close>:
    \<open>crypto/multi_factor.cpp\<close>.
  \<^item> \<open>P2p_Ecc\<close>: \<open>core/ecc.cpp\<close>, \<open>crypto/key_exchange.cpp\<close>. \<open>P2p_Quantum\<close>:
    \<open>core/quantum_signature.cpp\<close>. \<open>P2p_Cipher\<close>: \<open>core/aes256.cpp\<close> and what is built on the three,
    \<open>crypto/crypto_manager.cpp\<close>, \<open>security/encryption_layer.cpp\<close> and the sending and receiving
    of \<open>network/p2p_network.cpp\<close>.
  \<^item> \<open>P2p_Message\<close>: \<open>network/message.cpp\<close>, \<open>protocol.cpp\<close>. \<open>P2p_Peers\<close>: \<open>network/peer_manager.cpp\<close>,
    \<open>connection_pool.cpp\<close>. \<open>P2p_Web\<close>: \<open>api/websocket.cpp\<close>, \<open>rest_api.cpp\<close>.
  \<^item> \<open>P2p_Config\<close>: \<open>config/config_loader.cpp\<close>. \<open>P2p_Backup\<close>: \<open>backup/backup_manager.cpp\<close>. \<open>P2p_Scan\<close>:
    \<open>security/virus_scan.cpp\<close>. \<open>P2p_Pools\<close>: \<open>utils/buffer_pool.cpp\<close>, two instances of the interface
    \<open>allocator\<close>. \<open>P2p_Monitor\<close>: \<open>utils/timer.cpp\<close>, \<open>monitoring/*.cpp\<close>.
  \<^item> \<open>Tok_Hash\<close>, \<open>Tok_Balance\<close>, \<open>Tok_Pool\<close>, \<open>Tok_Engine\<close>: the hashes and the Merkle root, the table
    of balances, the transaction pool, and the chain, processing, mining and status of
    \<open>1-to-file/main_file.cpp\<close>. \<open>Tok_Market\<close>: its managers, instances of the interface \<open>slot_table\<close>
    (a bounded table that rows are appended to).

  \<^bold>\<open>How the code is read.\<close> A struct is a record, an array a list of its length, an unsigned
  integer a word of its width; size_t is \<open>nat\<close> where no operation wraps. A pointer that the
  code tests for NULL is an option (\<open>ptr\<close>), an output pointer a bool (\<open>outp\<close>) that says
  whether it is there. A return value 0 is None; what the language leaves undefined (a write
  past an array, a shift by the width, a null pointer) is an error value \<open>Inl fault\<close>. Operating
  system calls are parameters, collected in the record \<open>platform\<close>; the state counts them.
  Memory that is zeroed before a function returns and mutexes are not modelled, except where
  a thread locks a mutex it holds (\<open>Deadlock\<close>). In the peer-to-peer bank a class is a record and
  a method a function of it; a \<open>std::map\<close> is the list of its pairs in order, and \<open>m[k]\<close> inserts; a
  double is a rational number of the format or one of the special values, and every operation
  rounds; exceptions and undefined accesses are \<open>Inl\<close> values; clock readings and random
  numbers are arguments, in the order in which the code takes them.

  \<^bold>\<open>What the lemmas show.\<close> Equivalence with the published standards where the code follows
  them, and where it does not, what it computes instead, proved as a theorem about the code;
  round trips of encryption, of envelopes in every later state in which the session is open,
  and of transactions under the documented signature functions; what the counter of sessions is
  under every sequence of public calls, repeated initializations included; the bounds of the
  byte pool; and which tampering each
  verification function notices. For the peer-to-peer bank: refinement of the stores to maps
  and relations, Merkle proofs and the inner nodes that pass as leaves, mining, the invariant of
  the chain, what text forms lose, where
  balances can be overdrawn, the consistency of indexes, when the selection of validators takes
  turns (its counter is one for all engines of the program), rate limits, and, across components,
  that the cipher throws for every key, so that no message leaves a peer and no node is ever
  constructed; the operations of a node are modelled all the same, on arbitrary states of it:
  a transfer that its check accepts changes the balances, not the chain, and ends in an exception
  when a peer is connected. For the
  network: refinement of the limiter to a multiset and by how much clients that ask before they
  establish exceed its limits, the invariant of the connection pool, the
  order of the queue, frames read back however the network cuts them; for the cryptography:
  what an eavesdropper computes, when the arithmetic divides by zero, what authentication
  accepts, and what each observer sees of an expired session; round trips of configuration and
  backups, what the pools hand out (a pointer is the index of its block, null when the block has
  no bytes), which timers a round runs when callbacks clear timers, and that identifiers of timers
  wrap around. For the token engine: refinement of the table of balances to a map and of the ring
  buffer to a queue, the effect of a transfer on every balance, the invariant of the chain under
  all interleavings of its threads' passes, the numbering of
  collectibles, the bounds of a swap. The workers and the miner release with free memory that
  came from an aligned allocation, which is undefined: whether the runtime accepts it is the parameter
  \<open>mi_free_ok\<close>, and without it a pass ends in the fault \<open>Bad_Free\<close>. The loops are structural or
  have a measure; no fuel is used, except for iteration counts the code itself is given.

  \<^bold>\<open>Not modelled.\<close> Logging, printing, self tests and benchmarks (output only); the platform
  layer (system calls); sockets and threads of the peer-to-peer bank, its generator of random
  numbers (a wrapper of the standard library's; the numbers are arguments) and its thread pool; the lookup tables of \<open>bank_aes_tables.cpp\<close>, which no code reads; the
  programs in C, JavaScript, Java, Python and assembler; of \<open>src/1-to-file\<close>, \<open>main.cpp\<close>, which
  repeats the library, \<open>app.cpp\<close>, a window, and of \<open>main_file.cpp\<close> the threads that only print or
  poll, the starting and stopping of threads and the freeing of memory at the end.
\<close>

end
